(* ===== verification/Prelude.thy ===== *)
theory Prelude
  imports Main "HOL-Library.Word"
begin

text \<open>
  What every component theory shares: the machine types of the C sources, the outcome of a
  C operation that may have undefined behaviour, bounded reads from and writes to a byte
  array, the big-endian byte order of the network formats, and the collections of rewrite
  rules that the component proofs use.

  A C array is a \<^typ>\<open>8 word list\<close> of its fixed size and a pointer into it is the array
  with an offset.  Reading or writing outside the array is undefined behaviour in C; here
  it is a \<^emph>\<open>fault\<close>, a value of the sum type, so that no theorem can hold because HOL
  gave an out-of-range read some value.
\<close>

unbundle bit_operations_syntax

type_synonym byte = "8 word"
type_synonym u16 = "16 word"
type_synonym u32 = "32 word"
type_synonym u64 = "64 word"

section \<open>Outcomes\<close>

datatype fault =
    Write_Overflow      \<comment> \<open>a write past the end of an array\<close>
  | Read_Overflow       \<comment> \<open>a read past the end of an array\<close>
  | Null_Deref          \<comment> \<open>a NULL pointer is followed\<close>
  | Dangling            \<comment> \<open>a pointer to an object that was freed is followed\<close>
  | Float_Range         \<comment> \<open>a floating value is converted to an integer it does not fit\<close>
  | Int_Overflow        \<comment> \<open>a signed integer leaves its range\<close>
  | Div_Zero            \<comment> \<open>an integer is divided by zero\<close>
  | Bad_Format          \<comment> \<open>a format string with a directive that has no argument\<close>
  | Exited              \<comment> \<open>the process called \<open>exit\<close>\<close>

type_synonym 'a res = "fault + 'a"

definition bind_res :: "'a res \<Rightarrow> ('a \<Rightarrow> 'b res) \<Rightarrow> 'b res" where
  "bind_res m f = (case m of Inl e \<Rightarrow> Inl e | Inr x \<Rightarrow> f x)"

named_theorems run_simps \<open>unfolding of one step of a component\<close>
named_theorems wire_simps \<open>bytes of network formats\<close>

lemma bind_res_Inr [simp]: "bind_res (Inr x) f = f x"
  by (simp add: bind_res_def)

lemma bind_res_Inl [simp]: "bind_res (Inl e) f = Inl e"
  by (simp add: bind_res_def)

lemma bind_res_eq_Inr:
  "bind_res m f = Inr y \<longleftrightarrow> (\<exists>x. m = Inr x \<and> f x = Inr y)"
  by (cases m) auto

lemma bind_res_split:
  "P (bind_res m f) \<longleftrightarrow> (\<forall>e. m = Inl e \<longrightarrow> P (Inl e)) \<and> (\<forall>x. m = Inr x \<longrightarrow> P (f x))"
  by (cases m) auto

lemma bind_res_assoc:
  "bind_res (bind_res m f) g = bind_res m (\<lambda>x. bind_res (f x) g)"
  by (cases m) auto

lemma bind_res_cong [fundef_cong]:
  "m = m' \<Longrightarrow> (\<And>x. m' = Inr x \<Longrightarrow> f x = g x) \<Longrightarrow> bind_res m f = bind_res m' g"
  by (cases m') auto

text \<open>Running an operation over a list, stopping at the first fault.\<close>

fun fold_res :: "('s \<Rightarrow> 'a \<Rightarrow> 's res) \<Rightarrow> 's \<Rightarrow> 'a list \<Rightarrow> 's res" where
  "fold_res f s [] = Inr s"
| "fold_res f s (x # xs) = bind_res (f s x) (\<lambda>s'. fold_res f s' xs)"

lemma fold_res_append:
  "fold_res f s (xs @ ys) = bind_res (fold_res f s xs) (\<lambda>s'. fold_res f s' ys)"
  by (induction xs arbitrary: s) (auto simp: bind_res_assoc)

section \<open>Arrays\<close>

definition rd :: "'a list \<Rightarrow> nat \<Rightarrow> 'a res" where
  "rd a i = (if i < length a then Inr (a ! i) else Inl Read_Overflow)"

definition rd_block :: "'a list \<Rightarrow> nat \<Rightarrow> nat \<Rightarrow> 'a list res" where
  "rd_block a i n = (if i + n \<le> length a then Inr (take n (drop i a)) else Inl Read_Overflow)"

definition wr :: "'a list \<Rightarrow> nat \<Rightarrow> 'a \<Rightarrow> 'a list res" where
  "wr a i x = (if i < length a then Inr (a[i := x]) else Inl Write_Overflow)"

definition overlay :: "'a list \<Rightarrow> nat \<Rightarrow> 'a list \<Rightarrow> 'a list" where
  "overlay a i xs = take i a @ xs @ drop (i + length xs) a"

definition wr_block :: "'a list \<Rightarrow> nat \<Rightarrow> 'a list \<Rightarrow> 'a list res" where
  "wr_block a i xs =
     (if i + length xs \<le> length a then Inr (overlay a i xs) else Inl Write_Overflow)"

lemma rd_Inr [simp]: "i < length a \<Longrightarrow> rd a i = Inr (a ! i)"
  by (simp add: rd_def)

lemma rd_eq_Inr: "rd a i = Inr x \<longleftrightarrow> i < length a \<and> x = a ! i"
  by (auto simp: rd_def)

lemma rd_append1: "i < length a \<Longrightarrow> rd (a @ b) i = Inr (a ! i)"
  by (simp add: rd_def nth_append)

lemma rd_append2: "length a \<le> i \<Longrightarrow> rd (a @ b) i = rd b (i - length a)"
  by (auto simp: rd_def nth_append)

lemma rd_block_Inr [simp]: "i + n \<le> length a \<Longrightarrow> rd_block a i n = Inr (take n (drop i a))"
  by (simp add: rd_block_def)

lemma rd_block_eq_Inr:
  "rd_block a i n = Inr xs \<longleftrightarrow> i + n \<le> length a \<and> xs = take n (drop i a)"
  by (auto simp: rd_block_def)

lemma wr_Inr [simp]: "i < length a \<Longrightarrow> wr a i x = Inr (a[i := x])"
  by (simp add: wr_def)

lemma wr_eq_Inr: "wr a i x = Inr a' \<longleftrightarrow> i < length a \<and> a' = a[i := x]"
  by (auto simp: wr_def)

lemma wr_block_Inr [simp]:
  "i + length xs \<le> length a \<Longrightarrow> wr_block a i xs = Inr (overlay a i xs)"
  by (simp add: wr_block_def)

lemma wr_block_eq_Inr:
  "wr_block a i xs = Inr a' \<longleftrightarrow> i + length xs \<le> length a \<and> a' = overlay a i xs"
  by (auto simp: wr_block_def)

lemma length_overlay [simp]: "i + length xs \<le> length a \<Longrightarrow> length (overlay a i xs) = length a"
  by (simp add: overlay_def)

lemma overlay_Nil [simp]: "overlay a i [] = a"
  by (simp add: overlay_def)

lemma overlay_overlay:
  "i + length xs + length ys \<le> length a \<Longrightarrow>
   overlay (overlay a i xs) (i + length xs) ys = overlay a i (xs @ ys)"
  by (cases xs) (auto simp: overlay_def min_def ac_simps)

lemma take_overlay:
  "i + length xs \<le> length a \<Longrightarrow> take (i + length xs) (overlay a i xs) = take i a @ xs"
  by (simp add: overlay_def)

lemma take_overlay_before: "n \<le> i \<Longrightarrow> i \<le> length a \<Longrightarrow> take n (overlay a i xs) = take n a"
  by (simp add: overlay_def min_def)

lemma nth_overlay_before: "k < i \<Longrightarrow> i \<le> length a \<Longrightarrow> overlay a i xs ! k = a ! k"
  by (simp add: overlay_def nth_append)

lemma list_update_overlay: "i < length a \<Longrightarrow> a[i := x] = overlay a i [x]"
  by (simp add: overlay_def upd_conv_take_nth_drop)

lemma drop_take_split: "i + n \<le> length a \<Longrightarrow> a = take i a @ take n (drop i a) @ drop (i + n) a"
  by (metis add.commute append_take_drop_id drop_drop)

text \<open>A list cut into pieces of \<open>k\<close> elements, the last one shorter or of the same length.\<close>

function chunks :: "nat \<Rightarrow> 'a list \<Rightarrow> 'a list list" where
  "chunks k xs = (if k = 0 \<or> length xs \<le> k then [xs] else take k xs # chunks k (drop k xs))"
  by pat_completeness auto
termination
  by (relation "measure (\<lambda>(k, xs). length xs)") auto

declare chunks.simps [simp del]

lemma chunks_short: "length xs \<le> k \<Longrightarrow> chunks k xs = [xs]"
  by (subst chunks.simps) simp

lemma chunks_long: "0 < k \<Longrightarrow> k < length xs \<Longrightarrow> chunks k xs = take k xs # chunks k (drop k xs)"
  by (subst chunks.simps) simp

lemma chunks_not_Nil [simp]: "chunks k xs \<noteq> []"
  by (subst chunks.simps) simp

lemma concat_chunks [simp]: "concat (chunks k xs) = xs"
proof (induction k xs rule: chunks.induct)
  case (1 k xs)
  then show ?case by (subst chunks.simps) simp
qed

lemma length_chunk: "0 < k \<Longrightarrow> c \<in> set (chunks k xs) \<Longrightarrow> length c \<le> k"
proof (induction k xs rule: chunks.induct)
  case (1 k xs)
  then show ?case
    by (cases "length xs \<le> k") (auto simp: chunks_short chunks_long)
qed

section \<open>Network byte order\<close>

definition hi16 :: "u16 \<Rightarrow> byte" where "hi16 x = ucast (drop_bit 8 x)"
definition lo16 :: "u16 \<Rightarrow> byte" where "lo16 x = ucast x"
definition hi32 :: "u32 \<Rightarrow> u16" where "hi32 x = ucast (drop_bit 16 x)"
definition lo32 :: "u32 \<Rightarrow> u16" where "lo32 x = ucast x"

definition be16 :: "u16 \<Rightarrow> byte list" where
  "be16 x = [hi16 x, lo16 x]"

definition be32 :: "u32 \<Rightarrow> byte list" where
  "be32 x = be16 (hi32 x) @ be16 (lo32 x)"

definition of_be16 :: "byte \<Rightarrow> byte \<Rightarrow> u16" where
  "of_be16 a b = push_bit 8 (ucast a) OR ucast b"

definition of_be32 :: "byte \<Rightarrow> byte \<Rightarrow> byte \<Rightarrow> byte \<Rightarrow> u32" where
  "of_be32 a b c d =
     push_bit 24 (ucast a) OR push_bit 16 (ucast b) OR push_bit 8 (ucast c) OR ucast d"

lemma length_be16 [simp]: "length (be16 x) = 2"
  by (simp add: be16_def)

lemma length_be32 [simp]: "length (be32 x) = 4"
  by (simp add: be32_def)

lemma of_be16_hi_lo [simp, wire_simps]: "of_be16 (hi16 x) (lo16 x) = x"
  by (rule bit_word_eqI)
     (auto simp: of_be16_def hi16_def lo16_def bit_or_iff bit_push_bit_iff bit_ucast_iff
        bit_drop_bit_eq)

lemma hi16_of_be16 [simp, wire_simps]: "hi16 (of_be16 a b) = a"
  by (rule bit_word_eqI)
     (auto simp: of_be16_def hi16_def bit_or_iff bit_push_bit_iff bit_ucast_iff bit_drop_bit_eq
        dest: bit_imp_le_length)

lemma lo16_of_be16 [simp, wire_simps]: "lo16 (of_be16 a b) = b"
  by (rule bit_word_eqI)
     (auto simp: of_be16_def lo16_def bit_or_iff bit_push_bit_iff bit_ucast_iff)

lemma of_be32_bytes [simp, wire_simps]:
  "of_be32 (hi16 (hi32 x)) (lo16 (hi32 x)) (hi16 (lo32 x)) (lo16 (lo32 x)) = x"
  by (rule bit_word_eqI)
     (auto simp: of_be32_def hi16_def lo16_def hi32_def lo32_def bit_or_iff bit_push_bit_iff
        bit_ucast_iff bit_drop_bit_eq)

lemma of_be32_sum:
  "of_be32 a b c d =
     push_bit 24 (ucast a) + (push_bit 16 (ucast b) + (push_bit 8 (ucast c) + ucast d))"
proof -
  have 1: "push_bit 8 (ucast c) OR ucast d = push_bit 8 (ucast c) + (ucast d :: u32)"
    by (rule disjunctive_add [symmetric])
       (auto simp: bit_push_bit_iff bit_ucast_iff dest: bit_imp_le_length)
  have 2: "push_bit 16 (ucast b) OR (push_bit 8 (ucast c) OR ucast d) =
      push_bit 16 (ucast b) + (push_bit 8 (ucast c) OR (ucast d :: u32))"
    by (rule disjunctive_add [symmetric])
       (auto simp: bit_push_bit_iff bit_ucast_iff bit_or_iff dest: bit_imp_le_length)
  have 3: "of_be32 a b c d = push_bit 24 (ucast a) +
      (push_bit 16 (ucast b) OR (push_bit 8 (ucast c) OR ucast d))"
    unfolding of_be32_def
    by (rule disjunctive_add [symmetric])
       (auto simp: bit_push_bit_iff bit_ucast_iff bit_or_iff dest: bit_imp_le_length)
  show ?thesis by (simp only: 3 2) (simp only: 1)
qed

lemma uint_byte: "0 \<le> uint (w :: byte) \<and> uint w < 256"
  using unsigned_greater_eq [of w] unsigned_less [of w] by auto

lemma uint_of_be32:
  "uint (of_be32 a b c d) =
     2 ^ 24 * uint a + 2 ^ 16 * uint b + 2 ^ 8 * uint c + uint d"
  using uint_byte [of a] uint_byte [of b] uint_byte [of c] uint_byte [of d]
  by (simp add: of_be32_sum uint_word_ariths push_bit_eq_mult unsigned_ucast_eq take_bit_eq_mod)

lemma odd_div_bit: "n < 32 \<Longrightarrow> bit (x :: u32) n \<longleftrightarrow> odd (uint x div 2 ^ n)"
  using bit_iff_odd [of "uint x" n] by (simp add: bit_uint_iff)

lemma unat_of_be16: "unat (of_be16 a b) = 256 * unat a + unat b"
proof -
  have "of_be16 a b = push_bit 8 (ucast a) + ucast b"
    unfolding of_be16_def
    by (rule disjunctive_add [symmetric])
       (auto simp: bit_push_bit_iff bit_ucast_iff dest: bit_imp_le_length)
  moreover have "unat a < 256" "unat b < 256"
    using unsigned_less [of a] unsigned_less [of b] by simp_all
  ultimately show ?thesis
    by (simp add: unat_word_ariths push_bit_eq_mult unsigned_ucast_eq take_bit_eq_mod)
qed

section \<open>Bytes, bit by bit\<close>

lemma byte_eqI:
  fixes a b :: byte
  assumes "bit a 0 = bit b 0" "bit a 1 = bit b 1" "bit a 2 = bit b 2" "bit a 3 = bit b 3"
    "bit a 4 = bit b 4" "bit a 5 = bit b 5" "bit a 6 = bit b 6" "bit a 7 = bit b 7"
  shows "a = b"
proof (rule bit_word_eqI)
  fix n assume "n < LENGTH(8)"
  then have "n \<in> {0, 1, 2, 3, 4, 5, 6, 7}" by (auto simp: eval_nat_numeral less_Suc_eq)
  with assms show "bit a n = bit b n" by (elim insertE) auto
qed

lemma byte_high: "8 \<le> n \<Longrightarrow> \<not> bit (b :: byte) n"
  by (auto dest: bit_imp_le_length)

lemmas byte_bits = bit_or_iff bit_and_iff bit_push_bit_iff bit_drop_bit_eq bit_numeral_word_iff
  bit_1_iff even_or_iff even_and_iff even_push_bit_iff

end
