(* ===== verification/AnnexB.thy ===== *)
theory AnnexB
  imports Prelude
begin

text \<open>
  The Annex B byte stream format of H.264, which the two servers of the repository read:
  NAL units, each preceded by a start code \<open>0 0 1\<close> or \<open>0 0 0 1\<close>.  The theory states what a
  well-formed stream is, what a search for the next start code promises (the locale
  \<open>startcode_search\<close>), and that a splitter which relies on such a search, and skips zeros
  and one more byte after each hit, finds exactly the NAL units of a well-formed stream and
  never leaves any stream.
\<close>

section \<open>The format\<close>

definition code_at :: "byte list \<Rightarrow> nat \<Rightarrow> bool" where
  "code_at m p \<longleftrightarrow> m ! p = 0 \<and> m ! (p + 1) = 0 \<and> m ! (p + 2) = 1"

definition start_code :: "bool \<Rightarrow> byte list" where
  "start_code long = (if long then [0, 0, 0, 1] else [0, 0, 1])"

fun annexb :: "(bool \<times> byte list) list \<Rightarrow> byte list" where
  "annexb [] = []"
| "annexb ((long, nal) # xs) = start_code long @ nal @ annexb xs"

text \<open>A NAL unit: not empty, no trailing zero byte, no start code inside.\<close>

definition nal_ok :: "byte list \<Rightarrow> bool" where
  "nal_ok nal \<longleftrightarrow> nal \<noteq> [] \<and> last nal \<noteq> 0 \<and> (\<forall>i. i + 2 < length nal \<longrightarrow> \<not> code_at nal i)"

lemma nal_ok_code [code]:
  "nal_ok nal \<longleftrightarrow> nal \<noteq> [] \<and> last nal \<noteq> 0 \<and>
     list_all (\<lambda>i. \<not> code_at nal i) [0..<length nal - 2]"
  by (auto simp: nal_ok_def list_all_iff)

lemma length_start_code: "length (start_code long) = (if long then 4 else 3)"
  by (simp add: start_code_def)

lemma code_at_append:
  "p + 2 < length ys \<Longrightarrow> code_at (xs @ ys @ zs) (length xs + p) = code_at ys p"
  by (simp add: code_at_def nth_append add.assoc)

text \<open>No start code begins inside a NAL unit, whatever follows it.\<close>

lemma nal_ok_no_code:
  assumes "nal_ok nal" "p < length nal"
  shows "\<not> code_at (xs @ nal @ zs) (length xs + p)"
proof (cases "p + 2 < length nal")
  case True
  then show ?thesis
    using assms(1) by (simp add: code_at_append nal_ok_def)
next
  case False
  then have "p = length nal - 1 \<or> p + 1 = length nal - 1"
    using assms(2) by arith
  moreover have "nal ! (length nal - 1) \<noteq> 0"
    using assms(1) by (cases nal rule: rev_cases) (auto simp: nal_ok_def)
  ultimately show ?thesis
    using assms(2) by (auto simp: code_at_def nth_append)
qed

section \<open>Walking over a stream with a start-code search\<close>

text \<open>\<^verbatim>\<open>while (!*(r++));\<close>\<close>

function skip_startcode :: "byte list \<Rightarrow> nat \<Rightarrow> nat res" where
  "skip_startcode m r =
     (if r < length m then
        if m ! r = 0 then skip_startcode m (r + 1) else Inr (r + 1)
      else Inl Read_Overflow)"
  by pat_completeness auto
termination
  by (relation "measure (\<lambda>(m, r). length m - r)") auto

declare skip_startcode.simps [simp del]

lemma skip_startcode_zero: "r < length m \<Longrightarrow> m ! r = 0 \<Longrightarrow> skip_startcode m r = skip_startcode m (r + 1)"
  by (subst skip_startcode.simps) simp

lemma skip_startcode_nonzero: "r < length m \<Longrightarrow> m ! r \<noteq> 0 \<Longrightarrow> skip_startcode m r = Inr (r + 1)"
  by (subst skip_startcode.simps) simp

lemma skip_startcode_greater: "skip_startcode m r = Inr r' \<Longrightarrow> r < r' \<and> r' \<le> length m"
proof (induction m r rule: skip_startcode.induct)
  case (1 m r)
  then show ?case
    by (cases "r < length m \<and> m ! r = 0") (auto simp: skip_startcode.simps [of m r] split: if_splits)
qed

lemma skip_start_code:
  "skip_startcode (xs @ start_code long @ ys) (length xs) = Inr (length xs + length (start_code long))"
  by (simp add: start_code_def skip_startcode_zero skip_startcode_nonzero nth_append)

text \<open>
  The units a splitter visits from position \<open>r\<close>, as pairs of start and length, when
  \<open>search p e\<close> is its search from \<open>p\<close>.
\<close>

inductive nal_chain :: "(nat \<Rightarrow> nat \<Rightarrow> nat) \<Rightarrow> byte list \<Rightarrow> nat \<Rightarrow> nat \<Rightarrow> (nat \<times> nat) list \<Rightarrow> bool"
  for search :: "nat \<Rightarrow> nat \<Rightarrow> nat" and m :: "byte list" and e :: nat where
  chain_end: "\<not> r < e \<Longrightarrow> nal_chain search m e r []"
| chain_nal: "r < e \<Longrightarrow> skip_startcode m r = Inr r' \<Longrightarrow> nal_chain search m e (search r' e) xs \<Longrightarrow>
     nal_chain search m e r ((r', search r' e - r') # xs)"

inductive_cases nal_chain_NilE: "nal_chain search m e r []"
inductive_cases nal_chain_ConsE: "nal_chain search m e r (x # xs)"

lemma nal_chain_deterministic:
  "nal_chain search m e r xs \<Longrightarrow> nal_chain search m e r ys \<Longrightarrow> xs = ys"
proof (induction arbitrary: ys rule: nal_chain.induct)
  case (chain_end r)
  then show ?case by (auto elim: nal_chain.cases)
next
  case (chain_nal r r' xs)
  from chain_nal.prems chain_nal.hyps obtain ys' where
    "ys = (r', search r' e - r') # ys'" "nal_chain search m e (search r' e) ys'"
    by (auto elim: nal_chain.cases)
  then show ?case using chain_nal.IH by blast
qed

text \<open>The units of a well-formed stream that begins at position \<open>p\<close>.\<close>

fun unit_spans :: "nat \<Rightarrow> (bool \<times> byte list) list \<Rightarrow> (nat \<times> nat) list" where
  "unit_spans p [] = []"
| "unit_spans p ((long, nal) # xs) =
     (p + length (start_code long), length nal) #
     unit_spans (p + length (start_code long) + length nal) xs"

section \<open>The search interface\<close>

locale startcode_search =
  fixes search :: "nat \<Rightarrow> nat \<Rightarrow> nat" and m :: "byte list"
  assumes find_ge: "p \<le> e \<Longrightarrow> p \<le> search p e"
    and find_le: "search p e \<le> e"
    and find_hit: "search p e < e \<Longrightarrow>
      code_at m (search p e) \<and> search p e + 3 < e \<or>
      m ! search p e = 0 \<and> code_at m (search p e + 1) \<and> search p e + 4 < e"
    and find_first: "p \<le> q \<Longrightarrow> q < search p e \<Longrightarrow> q + 3 < e \<Longrightarrow> \<not> code_at m q"
    and find_back: "p < search p e \<Longrightarrow> search p e < e \<Longrightarrow> code_at m (search p e) \<Longrightarrow>
      m ! (search p e - 1) \<noteq> 0"
begin

lemma skip_from_hit:
  assumes "search p e < e" "e \<le> length m"
  obtains r where "skip_startcode m (search p e) = Inr r" "search p e < r" "r < e"
proof -
  let ?f = "search p e"
  have one: "skip_startcode m q = Inr (q + 3)" if "code_at m q" "q + 3 < e" for q
    using that assms(2) by (simp add: code_at_def skip_startcode_zero skip_startcode_nonzero)
  from find_hit [OF assms(1)] show ?thesis
  proof
    assume "code_at m ?f \<and> ?f + 3 < e"
    then show ?thesis using one [of ?f] by (intro that [of "?f + 3"]) auto
  next
    assume *: "m ! ?f = 0 \<and> code_at m (?f + 1) \<and> ?f + 4 < e"
    then have "skip_startcode m ?f = skip_startcode m (?f + 1)"
      using assms by (simp add: skip_startcode_zero)
    with * one [of "?f + 1"] show ?thesis by (intro that [of "?f + 4"]) auto
  qed
qed

text \<open>On any stream the splitter ends, and every unit lies inside the stream.\<close>

lemma nal_chain_total:
  assumes "e \<le> length m" "p \<le> e"
  shows "\<exists>xs. nal_chain search m e (search p e) xs \<and> (\<forall>(s, l) \<in> set xs. s < e \<and> s + l \<le> e)"
  using assms(2)
proof (induction "e - search p e" arbitrary: p rule: less_induct)
  case less
  show ?case
  proof (cases "search p e < e")
    case False
    then show ?thesis by (auto intro: chain_end)
  next
    case True
    then obtain r where r: "skip_startcode m (search p e) = Inr r" "search p e < r" "r < e"
      using assms(1) by (rule skip_from_hit)
    then have ge: "r \<le> search r e" and le: "search r e \<le> e"
      using find_ge [of r e] find_le [of r e] by auto
    then have "e - search r e < e - search p e" using r True by arith
    then obtain xs where xs: "nal_chain search m e (search r e) xs"
        "\<forall>(s, l) \<in> set xs. s < e \<and> s + l \<le> e"
      using less(1) [of r] r by auto
    then have "nal_chain search m e (search p e) ((r, search r e - r) # xs)"
      using True r by (auto intro: chain_nal)
    then show ?thesis using xs r ge le by (intro exI) auto
  qed
qed

text \<open>A search that has no start code before a given one stops there.\<close>

lemma search_next:
  assumes m: "m = pre @ start_code long @ nal @ post" and nal: "nal \<noteq> []"
    and p: "p \<le> length pre" and nonzero: "p < length pre \<Longrightarrow> m ! (length pre - 1) \<noteq> 0"
    and nocode: "\<And>q. p \<le> q \<Longrightarrow> q < length pre \<Longrightarrow> \<not> code_at m q"
  shows "search p (length m) = length pre"
proof -
  let ?e = "length m" and ?f = "search p (length m)"
  define Q where "Q = (if long then length pre + 1 else length pre)"
  have "0 < length nal" using nal by simp
  then have Q: "code_at m Q" "Q + 3 < ?e" "length pre \<le> Q"
    by (cases long; simp add: Q_def m code_at_def start_code_def nth_append)+
  have noneQ: "\<not> code_at m q" if "p \<le> q" "q < Q" for q
  proof (cases "q < length pre")
    case True
    then show ?thesis using nocode that by blast
  next
    case False
    then have "q = length pre" "long" using that by (auto simp: Q_def split: if_splits)
    then show ?thesis by (simp add: m code_at_def start_code_def nth_append)
  qed
  have fQ: "?f \<le> Q"
    using find_first [of p Q ?e] Q p by (meson le_trans not_le)
  have pf: "p \<le> ?f" using p by (intro find_ge) (simp add: m)
  have "?f = Q \<or> ?f + 1 = Q \<and> m ! ?f = 0"
  proof -
    have "?f < ?e" using fQ Q by simp
    then show ?thesis
      using find_hit [of p ?e] noneQ [of ?f] noneQ [of "?f + 1"] fQ pf by linarith
  qed
  then show ?thesis
  proof
    assume f: "?f = Q"
    have "m ! (Q - 1) = 0" if long
      using that by (simp add: Q_def m start_code_def nth_append)
    moreover have "m ! (Q - 1) \<noteq> 0" if "p < Q"
      using find_back [of p ?e] f Q that by simp
    ultimately have "\<not> long" using p by (auto simp: Q_def split: if_splits)
    then show ?thesis using f by (simp add: Q_def)
  next
    assume f: "?f + 1 = Q \<and> m ! ?f = 0"
    show ?thesis
    proof (cases long)
      case True
      then show ?thesis using f by (simp add: Q_def)
    next
      case False
      then have "?f = length pre - 1" "p < length pre" using f pf by (auto simp: Q_def)
      then show ?thesis using nonzero f by simp
    qed
  qed
qed

text \<open>On a well-formed stream the splitter visits exactly the NAL units, in order.\<close>

lemma nal_chain_annexb:
  assumes "m = pre @ annexb xs" "\<forall>(long, nal) \<in> set xs. nal_ok nal"
  shows "nal_chain search m (length m) (length pre) (unit_spans (length pre) xs)"
  using assms
proof (induction xs arbitrary: pre)
  case Nil
  then show ?case by (auto intro: chain_end)
next
  case (Cons x xs)
  obtain long nal where x: "x = (long, nal)" by (cases x)
  let ?p = "length pre + length (start_code long)"
  let ?pre = "pre @ start_code long @ nal"
  have nal: "nal_ok nal" "nal \<noteq> []" using Cons.prems x by (auto simp: nal_ok_def)
  have m: "m = ?pre @ annexb xs" "m = (pre @ start_code long) @ nal @ annexb xs"
    using Cons.prems x by simp_all
  have skip: "skip_startcode m (length pre) = Inr ?p"
    using skip_start_code [of pre long "nal @ annexb xs"] m by simp
  have none: "\<not> code_at m q" if "?p \<le> q" "q < length ?pre" for q
    using nal_ok_no_code [of nal "q - ?p" "pre @ start_code long" "annexb xs"] nal that
    by (simp add: m(2))
  have nonzero: "m ! (length ?pre - 1) \<noteq> 0"
    using nal by (cases nal rule: rev_cases) (auto simp: m(2) nth_append nal_ok_def)
  have stop: "search ?p (length m) = length ?pre"
  proof (cases xs)
    case Nil
    have "\<not> search ?p (length m) < length m"
    proof
      assume lt: "search ?p (length m) < length m"
      have "?p \<le> search ?p (length m)" by (rule find_ge) (simp add: m(2))
      then show False
        using find_hit [OF lt] lt none [of "search ?p (length m)"]
          none [of "search ?p (length m) + 1"] m(1) Nil by auto
    qed
    then show ?thesis using find_le [of ?p "length m"] m(1) Nil by simp
  next
    case (Cons y ys)
    obtain l n where y: "y = (l, n)" by (cases y)
    have "n \<noteq> []" using Cons.prems Cons y by (auto simp: nal_ok_def)
    then show ?thesis
      using none nonzero by (intro search_next [of ?pre l n "annexb ys"]) (auto simp: m(1) Cons y)
  qed
  have "nal_chain search m (length m) (search ?p (length m)) (unit_spans (length ?pre) xs)"
    unfolding stop using Cons.prems m(1) by (intro Cons.IH) auto
  then have "nal_chain search m (length m) (length pre)
      ((?p, search ?p (length m) - ?p) # unit_spans (length ?pre) xs)"
    using skip nal by (intro chain_nal) (simp_all add: m(2))
  then show ?case using stop by (simp add: x add.assoc)
qed

lemma first_unit:
  assumes "m = annexb xs" "\<forall>(long, nal) \<in> set xs. nal_ok nal"
  shows "search 0 (length m) = 0"
proof (cases xs)
  case Nil
  then show ?thesis using find_le [of 0 "length m"] assms by simp
next
  case (Cons y ys)
  obtain l n where y: "y = (l, n)" by (cases y)
  have "n \<noteq> []" using assms Cons y by (auto simp: nal_ok_def)
  then show ?thesis using search_next [of "[]" l n "annexb ys" 0] assms Cons y by simp
qed

end

lemma unit_spans_slices:
  "m = pre @ annexb xs \<Longrightarrow>
   map (\<lambda>(s, l). take l (drop s m)) (unit_spans (length pre) xs) = map snd xs"
proof (induction xs arbitrary: pre)
  case Nil
  then show ?case by simp
next
  case (Cons x xs)
  obtain long nal where x: "x = (long, nal)" by (cases x)
  show ?case
    using Cons.IH [of "pre @ start_code long @ nal"] Cons.prems by (simp add: x add.assoc)
qed

lemma unit_spans_inside_from:
  "(s, l) \<in> set (unit_spans p xs) \<Longrightarrow> p \<le> s \<and> s + l \<le> p + length (annexb xs)"
proof (induction p xs rule: unit_spans.induct)
  case (2 p long nal xs)
  then show ?case by auto
qed simp

lemma unit_spans_inside: "(s, l) \<in> set (unit_spans 0 xs) \<Longrightarrow> s + l \<le> length (annexb xs)"
  using unit_spans_inside_from [of s l 0 xs] by simp

end
