(* ===== verification/RtpPayload.thy ===== *)
theory RtpPayload
  imports AnnexB
begin

text \<open>
  The RTP payload format that senders and receivers of the repository share (RFC 6184): how
  a NAL unit travels in one packet or in FU-A fragments, stated on the bytes of whole RTP
  packets with a 12-byte header, and what a receiver promises when it is fed such packets
  (the locales \<open>fu_depacketizer\<close> and \<open>nal_depacketizer\<close>).  A receiver writes an Annex B
  stream with 4-byte start codes.
\<close>

section \<open>NAL units in packets\<close>

definition nal_type :: "byte \<Rightarrow> byte" where "nal_type b = b AND 0x1F"
definition nal_nri :: "byte \<Rightarrow> byte" where "nal_nri b = b AND 0x60"
definition nal_f :: "byte \<Rightarrow> byte" where "nal_f b = b AND 0x80"

text \<open>The NAL unit header that an FU indicator and an FU header stand for.\<close>

definition fu_nal_header :: "byte \<Rightarrow> byte \<Rightarrow> byte" where
  "fu_nal_header ind fuh = (ind AND 0x60) OR (fuh AND 0x1F)"

text \<open>Packets of at most \<open>M\<close> bytes that carry the rest of a NAL unit after its first fragment.\<close>

inductive fu_cont_pkts :: "nat \<Rightarrow> byte list list \<Rightarrow> byte list \<Rightarrow> bool" for M :: nat where
  fc_Nil: "fu_cont_pkts M [] []"
| fc_Cons: "length hdr = 12 \<Longrightarrow> nal_type ind = 28 \<Longrightarrow> fuh AND 0x80 = 0 \<Longrightarrow>
     14 + length body \<le> M \<Longrightarrow> fu_cont_pkts M ps bs \<Longrightarrow>
     fu_cont_pkts M ((hdr @ ind # fuh # body) # ps) (body @ bs)"

text \<open>The packets of a fragmented NAL unit: the start bit on the first one only.\<close>

inductive fu_pkts :: "nat \<Rightarrow> byte list list \<Rightarrow> byte list \<Rightarrow> bool" for M :: nat where
  fu_start: "length hdr = 12 \<Longrightarrow> nal_type ind = 28 \<Longrightarrow> nal_f ind = 0 \<Longrightarrow>
     fuh AND 0x80 \<noteq> 0 \<Longrightarrow> fuh AND 0x40 = 0 \<Longrightarrow> 14 + length body \<le> M \<Longrightarrow>
     fu_cont_pkts M ps bs \<Longrightarrow>
     fu_pkts M ((hdr @ ind # fuh # body) # ps) (fu_nal_header ind fuh # body @ bs)"

text \<open>The packets of one NAL unit, and of a sequence of them.\<close>

inductive nal_pkts :: "nat \<Rightarrow> byte list list \<Rightarrow> byte list \<Rightarrow> bool" for M :: nat where
  np_single: "length hdr = 12 \<Longrightarrow> nal \<noteq> [] \<Longrightarrow> 1 \<le> nal_type (hd nal) \<Longrightarrow> nal_type (hd nal) \<le> 23 \<Longrightarrow>
     12 + length nal \<le> M \<Longrightarrow> nal_pkts M [hdr @ nal] nal"
| np_fu: "fu_pkts M ps nal \<Longrightarrow> nal_pkts M ps nal"

inductive stream_pkts :: "nat \<Rightarrow> byte list list \<Rightarrow> byte list list \<Rightarrow> bool" for M :: nat where
  sp_Nil: "stream_pkts M [] []"
| sp_Cons: "nal_pkts M ps nal \<Longrightarrow> stream_pkts M qs nals \<Longrightarrow> stream_pkts M (ps @ qs) (nal # nals)"

text \<open>A NAL unit in an aggregation packet.\<close>

definition stap_unit :: "byte list \<Rightarrow> byte list" where
  "stap_unit nal = be16 (word_of_nat (length nal)) @ nal"

lemma length_stap_unit [simp]: "length (stap_unit nal) = length nal + 2"
  by (simp add: stap_unit_def)

text \<open>The stream that a receiver writes for a list of NAL units.\<close>

definition annexb4 :: "byte list list \<Rightarrow> byte list" where
  "annexb4 nals = annexb (map (Pair True) nals)"

lemma annexb4_simps [simp]:
  "annexb4 [] = []"
  "annexb4 (nal # nals) = [0, 0, 0, 1] @ nal @ annexb4 nals"
  by (simp_all add: annexb4_def start_code_def)

lemma fu_cont_pkts_bound: "fu_cont_pkts M ps bs \<Longrightarrow> p \<in> set ps \<Longrightarrow> length p \<le> M"
  by (induction rule: fu_cont_pkts.induct) auto

lemma nal_pkts_bound: "nal_pkts M ps nal \<Longrightarrow> p \<in> set ps \<Longrightarrow> length p \<le> M"
  by (auto elim!: nal_pkts.cases fu_pkts.cases dest: fu_cont_pkts_bound)

section \<open>Bits of the header bytes\<close>

lemma and_or_masks: "(x AND a) OR (x AND b) = x AND (a OR b)" for x :: byte
  by (rule bit.conj_disj_distrib [symmetric])

lemma byte_split: "(x AND 0x80) OR (x AND 0x60) OR (x AND 0x1F) = (x :: byte)"
proof -
  have "(0x80 OR 0x60 OR 0x1F :: byte) = -1" by simp
  then show ?thesis by (simp only: and_or_masks and.right_neutral)
qed

lemma nal_header_bits [simp]:
  "nal_type (28 OR nal_nri x) = 28" "nal_type (24 OR nal_nri x) = 24"
  "nal_f (28 OR nal_nri x) = 0" "nal_nri (28 OR nal_nri x) = nal_nri x"
  "nal_type (nal_type x OR 0x80) = nal_type x"
  by (simp_all add: nal_type_def nal_nri_def nal_f_def bit.conj_disj_distrib2 and.assoc)

lemma fu_nal_header_of:
  assumes "nal_f x = 0"
  shows "fu_nal_header (28 OR nal_nri x) (nal_type x OR 0x80) = x"
proof -
  have "fu_nal_header (28 OR nal_nri x) (nal_type x OR 0x80) = (x AND 0x60) OR (x AND 0x1F)"
    by (simp add: fu_nal_header_def nal_nri_def nal_type_def bit.conj_disj_distrib2 and.assoc)
  then show ?thesis using assms byte_split [of x] by (simp add: nal_f_def)
qed

lemma fu_header_bits:
  "(nal_type x OR 0x80) AND 0x80 = 0x80" "(nal_type x OR 0x80) AND 0x40 = 0"
  "((nal_type x OR 0x80) AND 0x7f) AND 0x80 = 0" "(h AND 0x7f) AND 0x80 = (0 :: byte)"
  "(h OR 0x40) AND 0x80 = (h AND 0x80 :: byte)" "(h OR 0x40) AND 0x40 = (0x40 :: byte)"
  "((h AND 0x7f) AND 0x40) = (h AND 0x40 :: byte)"
  by (simp_all add: nal_type_def bit.conj_disj_distrib2 and.assoc)

section \<open>Depacketization as RFC 6184 states it\<close>

fun stap_split :: "byte list \<Rightarrow> byte list list option" where
  "stap_split [] = Some []"
| "stap_split [a] = None"
| "stap_split (a # b # xs) =
     (let k = unat (of_be16 a b) in
      if k \<le> length xs then map_option (Cons (take k xs)) (stap_split (drop k xs)) else None)"

text \<open>
  The units of a sequence of payloads; the first argument is the fragmented unit that is
  being put together, if there is one.
\<close>

fun depay :: "byte list option \<Rightarrow> byte list list \<Rightarrow> byte list list option" where
  "depay None [] = Some []"
| "depay (Some acc) [] = None"
| "depay part ([] # ps) = None"
| "depay part ((b # xs) # ps) =
     (if nal_type b = 28 then
        (case (part, xs) of
           (None, h # body) \<Rightarrow>
             if h AND 0x80 \<noteq> 0 \<and> h AND 0x40 = 0
             then depay (Some (((b AND 0xE0) OR (h AND 0x1F)) # body)) ps else None
         | (Some acc, h # body) \<Rightarrow>
             if h AND 0x80 \<noteq> 0 then None
             else if h AND 0x40 \<noteq> 0 then map_option (Cons (acc @ body)) (depay None ps)
             else depay (Some (acc @ body)) ps
         | _ \<Rightarrow> None)
      else if part \<noteq> None then None
      else if nal_type b = 24 then
        (case stap_split xs of None \<Rightarrow> None | Some us \<Rightarrow> map_option ((@) us) (depay None ps))
      else if 1 \<le> nal_type b \<and> nal_type b \<le> 23 then map_option (Cons (b # xs)) (depay None ps)
      else None)"

section \<open>What a receiver promises\<close>

locale fu_depacketizer =
  fixes feed :: "'s \<Rightarrow> byte list \<Rightarrow> 's res" and out :: "'s \<Rightarrow> byte list"
    and ok :: "'s \<Rightarrow> bool" and maxp :: nat
  assumes feed_start: "ok s \<Longrightarrow> length hdr = 12 \<Longrightarrow> nal_type ind = 28 \<Longrightarrow> nal_f ind = 0 \<Longrightarrow>
      fuh AND 0x80 \<noteq> 0 \<Longrightarrow> fuh AND 0x40 = 0 \<Longrightarrow> 14 + length body \<le> maxp \<Longrightarrow>
      \<exists>s'. feed s (hdr @ ind # fuh # body) = Inr s' \<and> ok s' \<and>
           out s' = out s @ [0, 0, 0, 1] @ fu_nal_header ind fuh # body"
    and feed_cont: "ok s \<Longrightarrow> length hdr = 12 \<Longrightarrow> nal_type ind = 28 \<Longrightarrow> fuh AND 0x80 = 0 \<Longrightarrow>
      14 + length body \<le> maxp \<Longrightarrow>
      \<exists>s'. feed s (hdr @ ind # fuh # body) = Inr s' \<and> ok s' \<and> out s' = out s @ body"
begin

lemma feed_fu_cont:
  assumes "fu_cont_pkts maxp ps bs" "ok s"
  shows "\<exists>s'. fold_res feed s ps = Inr s' \<and> ok s' \<and> out s' = out s @ bs"
  using assms
proof (induction arbitrary: s rule: fu_cont_pkts.induct)
  case fc_Nil
  then show ?case by simp
next
  case (fc_Cons hdr ind fuh body ps bs)
  then obtain s1 where s1: "feed s (hdr @ ind # fuh # body) = Inr s1" "ok s1" "out s1 = out s @ body"
    using feed_cont by blast
  with fc_Cons.IH [of s1] show ?case by auto
qed

lemma feed_fu:
  assumes "fu_pkts maxp ps nal" "ok s"
  shows "\<exists>s'. fold_res feed s ps = Inr s' \<and> ok s' \<and> out s' = out s @ [0, 0, 0, 1] @ nal"
  using assms
proof (cases rule: fu_pkts.cases)
  case (fu_start hdr ind fuh body ps' bs)
  then obtain s1 where s1: "feed s (hdr @ ind # fuh # body) = Inr s1" "ok s1"
      "out s1 = out s @ [0, 0, 0, 1] @ fu_nal_header ind fuh # body"
    using feed_start assms(2) by blast
  with feed_fu_cont [of ps' bs s1] fu_start show ?thesis by auto
qed

lemma feed_fu_stream:
  assumes "list_all2 (fu_pkts maxp) pss nals" "ok s"
  shows "\<exists>s'. fold_res feed s (concat pss) = Inr s' \<and> ok s' \<and> out s' = out s @ annexb4 nals"
  using assms
proof (induction arbitrary: s rule: list_all2_induct)
  case Nil
  then show ?case by simp
next
  case (Cons ps pss nal nals)
  then obtain s1 where s1: "fold_res feed s ps = Inr s1" "ok s1" "out s1 = out s @ [0, 0, 0, 1] @ nal"
    using feed_fu by blast
  with Cons.IH [of s1] show ?case by (auto simp: fold_res_append)
qed

end

locale nal_depacketizer = fu_depacketizer +
  assumes feed_single: "ok s \<Longrightarrow> length hdr = 12 \<Longrightarrow> nal \<noteq> [] \<Longrightarrow> 1 \<le> nal_type (hd nal) \<Longrightarrow>
      nal_type (hd nal) \<le> 23 \<Longrightarrow> 12 + length nal \<le> maxp \<Longrightarrow>
      \<exists>s'. feed s (hdr @ nal) = Inr s' \<and> ok s' \<and> out s' = out s @ [0, 0, 0, 1] @ nal"
begin

lemma feed_nal:
  assumes "nal_pkts maxp ps nal" "ok s"
  shows "\<exists>s'. fold_res feed s ps = Inr s' \<and> ok s' \<and> out s' = out s @ [0, 0, 0, 1] @ nal"
  using assms
proof (cases rule: nal_pkts.cases)
  case (np_single hdr)
  then show ?thesis using feed_single [OF assms(2), of hdr nal] by auto
next
  case np_fu
  then show ?thesis using feed_fu assms(2) by blast
qed

lemma feed_stream:
  assumes "stream_pkts maxp ps nals" "ok s"
  shows "\<exists>s'. fold_res feed s ps = Inr s' \<and> ok s' \<and> out s' = out s @ annexb4 nals"
  using assms
proof (induction arbitrary: s rule: stream_pkts.induct)
  case sp_Nil
  then show ?case by simp
next
  case (sp_Cons ps nal qs nals)
  then obtain s1 where s1: "fold_res feed s ps = Inr s1" "ok s1" "out s1 = out s @ [0, 0, 0, 1] @ nal"
    using feed_nal by blast
  with sp_Cons.IH [of s1] show ?case by (auto simp: fold_res_append)
qed

end

end
