(* ===== verification/UdpHeaders.thy ===== *)
theory UdpHeaders
  imports RtpPayload
begin

text \<open>
  \<^verbatim>\<open>udp_h264/h264.h\<close>: the packed bit-field structures that the UDP server and client lay over
  the bytes of a packet.  A structure is a record of its fields; its bytes are given by a store
  function and read back by a load function (the first bit-field is the lowest one, and the
  16- and 32-bit members, which the code passes through \<^verbatim>\<open>htons\<close> and \<^verbatim>\<open>htonl\<close>, are in
  network order).  \<^verbatim>\<open>NALU_HEADER\<close> and \<^verbatim>\<open>FU_INDICATOR\<close> have the same members.
\<close>

record RTP_FIXED_HEADER =
  csrc_len :: byte
  extension :: byte
  padding :: byte
  version :: byte
  payload :: byte
  marker :: byte
  seq_no :: u16
  hdr_timestamp :: u32
  hdr_ssrc :: u32

record NALU_HEADER =
  hdr_TYPE :: byte
  hdr_NRI :: byte
  hdr_F :: byte

type_synonym FU_INDICATOR = NALU_HEADER

record FU_HEADER =
  fu_TYPE :: byte
  fu_R :: byte
  fu_E :: byte
  fu_S :: byte

definition H264 :: byte where "H264 = 96"

definition rtp_fixed_bytes :: "RTP_FIXED_HEADER \<Rightarrow> byte list" where
  "rtp_fixed_bytes h =
     [(csrc_len h AND 0xF) OR push_bit 4 (extension h AND 1) OR push_bit 5 (padding h AND 1) OR
        push_bit 6 (version h AND 3),
      (payload h AND 0x7F) OR push_bit 7 (marker h AND 1)] @
     be16 (seq_no h) @ be32 (hdr_timestamp h) @ be32 (hdr_ssrc h)"

definition nalu_header_byte :: "NALU_HEADER \<Rightarrow> byte" where
  "nalu_header_byte h =
     (hdr_TYPE h AND 0x1F) OR push_bit 5 (hdr_NRI h AND 3) OR push_bit 7 (hdr_F h AND 1)"

definition nalu_header_of :: "byte \<Rightarrow> NALU_HEADER" where
  "nalu_header_of b =
     \<lparr>hdr_TYPE = b AND 0x1F, hdr_NRI = drop_bit 5 b AND 3, hdr_F = drop_bit 7 b AND 1\<rparr>"

definition fu_header_byte :: "FU_HEADER \<Rightarrow> byte" where
  "fu_header_byte h =
     (fu_TYPE h AND 0x1F) OR push_bit 5 (fu_R h AND 1) OR push_bit 6 (fu_E h AND 1) OR
     push_bit 7 (fu_S h AND 1)"

definition fu_header_of :: "byte \<Rightarrow> FU_HEADER" where
  "fu_header_of b =
     \<lparr>fu_TYPE = b AND 0x1F, fu_R = drop_bit 5 b AND 1, fu_E = drop_bit 6 b AND 1,
      fu_S = drop_bit 7 b AND 1\<rparr>"

section \<open>Bits\<close>

lemma length_rtp_fixed_bytes [simp]: "length (rtp_fixed_bytes h) = 12"
  by (simp add: rtp_fixed_bytes_def)

lemma nalu_header_byte_of: "nalu_header_byte (nalu_header_of b) = b"
  by (rule byte_eqI) (simp_all add: nalu_header_byte_def nalu_header_of_def byte_bits)

lemma fu_header_byte_of: "fu_header_byte (fu_header_of b) = b"
  by (rule byte_eqI) (simp_all add: fu_header_byte_def fu_header_of_def byte_bits)

lemma drop7_and1: "drop_bit 7 b AND 1 = (if b AND 0x80 = 0 then 0 else 1 :: byte)"
proof (cases "bit b 7")
  case True
  then have "drop_bit 7 b AND 1 = 1" "b AND 0x80 = 0x80"
    by (auto intro!: byte_eqI simp: byte_bits)
  then show ?thesis by simp
next
  case False
  then have "drop_bit 7 b AND 1 = 0" "b AND 0x80 = 0"
    by (auto intro!: byte_eqI simp: byte_bits)
  then show ?thesis by simp
qed

end
