(* ===== verification/UdpFrames.thy ===== *)
theory UdpFrames
  imports UdpHeaders
begin

text \<open>
  The first half of \<^verbatim>\<open>udp_h264/Server.c\<close>: the frame buffer (\<^verbatim>\<open>AllocNALU\<close>, \<^verbatim>\<open>FreeNALU\<close>),
  the bit stream file and \<^verbatim>\<open>GetAnnexbNALU\<close>, which reads the next NAL unit of an Annex B file.

  The \<^verbatim>\<open>FILE\<close> is its contents with the position and the end-of-file flag, which is set by
  a read that finds no more bytes and cleared by \<^verbatim>\<open>fseek\<close>; seeking inside the file
  succeeds.  \<open>mem k\<close> tells whether \<^verbatim>\<open>calloc\<close> can provide \<open>k\<close> bytes.
\<close>

section \<open>Files\<close>

record bitstream =
  contents :: "byte list"
  fpos :: nat
  at_eof :: bool

definition fgetc :: "bitstream \<Rightarrow> byte option \<times> bitstream" where
  "fgetc f =
     (if fpos f < length (contents f) then (Some (contents f ! fpos f), f\<lparr>fpos := fpos f + 1\<rparr>)
      else (None, f\<lparr>at_eof := True\<rparr>))"

definition fread :: "nat \<Rightarrow> bitstream \<Rightarrow> byte list \<times> bitstream" where
  "fread n f =
     (let d = take n (drop (fpos f) (contents f))
      in (d, f\<lparr>fpos := fpos f + length d, at_eof := at_eof f \<or> length d < n\<rparr>))"

definition fseek_back :: "nat \<Rightarrow> bitstream \<Rightarrow> bitstream" where
  "fseek_back k f = f\<lparr>fpos := fpos f - k, at_eof := False\<rparr>"

definition frewind :: "bitstream \<Rightarrow> bitstream" where
  "frewind f = f\<lparr>fpos := 0, at_eof := False\<rparr>"

section \<open>The frame\<close>

record NALU_t =
  startcodeprefix_len :: int
  nlen :: u32                       \<comment> \<open>\<^verbatim>\<open>len\<close>\<close>
  max_size :: u32
  forbidden_bit :: int
  nal_reference_idc :: int
  nal_unit_type :: int
  nbuf :: "byte list"               \<comment> \<open>\<^verbatim>\<open>buf\<close>\<close>
  lost_packets :: u16

definition AllocNALU :: "(nat \<Rightarrow> bool) \<Rightarrow> nat \<Rightarrow> NALU_t res" where
  "AllocNALU mem buffersize =
     (if \<not> mem 40 then Inl Exited
      else if \<not> mem buffersize then Inl Exited
      else Inr \<lparr>startcodeprefix_len = 0, nlen = 0, max_size = word_of_nat buffersize,
                forbidden_bit = 0, nal_reference_idc = 0, nal_unit_type = 0,
                nbuf = replicate buffersize 0, lost_packets = 0\<rparr>)"

section \<open>Start codes\<close>

definition FindStartCode2 :: "byte list \<Rightarrow> nat \<Rightarrow> bool res" where
  "FindStartCode2 Buf p =
     bind_res (rd Buf p) (\<lambda>b0. if b0 \<noteq> 0 then Inr False else
     bind_res (rd Buf (p + 1)) (\<lambda>b1. if b1 \<noteq> 0 then Inr False else
     bind_res (rd Buf (p + 2)) (\<lambda>b2. Inr (b2 = 1))))"

definition FindStartCode3 :: "byte list \<Rightarrow> nat \<Rightarrow> bool res" where
  "FindStartCode3 Buf p =
     bind_res (rd Buf p) (\<lambda>b0. if b0 \<noteq> 0 then Inr False else
     bind_res (rd Buf (p + 1)) (\<lambda>b1. if b1 \<noteq> 0 then Inr False else
     bind_res (rd Buf (p + 2)) (\<lambda>b2. if b2 \<noteq> 0 then Inr False else
     bind_res (rd Buf (p + 3)) (\<lambda>b3. Inr (b3 = 1)))))"

section \<open>Reading one NAL unit\<close>

text \<open>
  The loop that appends bytes to \<^verbatim>\<open>Buf\<close> until the next start code is there (\<open>Some\<close> of
  whether it is the 4-byte one) or the end of the file was noticed (\<open>None\<close>).  \<^verbatim>\<open>fgetc\<close> at
  the end gives \<^verbatim>\<open>EOF\<close>, which is stored like any other byte.
\<close>

function scan_nalu ::
  "byte list \<Rightarrow> nat \<Rightarrow> bitstream \<Rightarrow> (byte list \<times> nat \<times> bitstream \<times> bool option) res" where
  "scan_nalu Buf pos f =
     (if at_eof f then Inr (Buf, pos, f, None)
      else
        (let (c, f) = fgetc f in
         bind_res (wr Buf pos (case c of None \<Rightarrow> 0xFF | Some b \<Rightarrow> b)) (\<lambda>Buf.
         let pos = pos + 1 in
         bind_res (FindStartCode3 Buf (pos - 4)) (\<lambda>info3.
         bind_res (if info3 then Inr False else FindStartCode2 Buf (pos - 3)) (\<lambda>info2.
         if info2 \<or> info3 then Inr (Buf, pos, f, Some info3)
         else scan_nalu Buf pos f)))))"
  by pat_completeness auto
termination
  by (relation "measure (\<lambda>(Buf, pos, f). 2 * (length (contents f) - fpos f) + (if at_eof f then 0 else 1))")
     (auto simp: fgetc_def split: if_splits)

declare scan_nalu.simps [simp del]

text \<open>The members of the frame, once its length is known.\<close>

definition set_nalu :: "NALU_t \<Rightarrow> byte list \<Rightarrow> nat \<Rightarrow> nat \<Rightarrow> NALU_t res" where
  "set_nalu nalu Buf prefix len =
     bind_res (rd_block Buf prefix len) (\<lambda>d.
     bind_res (wr_block (nbuf nalu) 0 d) (\<lambda>b.
     bind_res (rd b 0) (\<lambda>b0.
     Inr (nalu\<lparr>nlen := word_of_nat len, nbuf := b, forbidden_bit := uint (b0 AND 0x80),
               nal_reference_idc := uint (b0 AND 0x60), nal_unit_type := uint (b0 AND 0x1f)\<rparr>))))"

definition read_nalu :: "NALU_t \<Rightarrow> byte list \<Rightarrow> nat \<Rightarrow> bitstream \<Rightarrow> (NALU_t \<times> bitstream \<times> int) res" where
  "read_nalu nalu Buf prefix f =
     bind_res (scan_nalu Buf prefix f) (\<lambda>(Buf, pos, f, found).
     case found of
       None \<Rightarrow>
         bind_res (set_nalu nalu Buf prefix (pos - prefix)) (\<lambda>nalu. Inr (nalu, f, int pos))
     | Some info3 \<Rightarrow>
         (let back = (if info3 then 4 else 3); f = fseek_back back f in
          bind_res (set_nalu nalu Buf prefix (pos - back - prefix)) (\<lambda>nalu.
          Inr (nalu, f, int (pos - back)))))"

definition GetAnnexbNALU ::
  "(nat \<Rightarrow> bool) \<Rightarrow> NALU_t \<Rightarrow> bitstream \<Rightarrow> (NALU_t \<times> bitstream \<times> int) res" where
  "GetAnnexbNALU mem nalu f =
     (if \<not> mem (unat (max_size nalu)) then Inl Null_Deref
      else
        (let Buf = replicate (unat (max_size nalu)) 0;
             nalu = nalu\<lparr>startcodeprefix_len := 3\<rparr>;
             (d, f) = fread 3 f in
         bind_res (wr_block Buf 0 d) (\<lambda>Buf.
         if length d \<noteq> 3 then Inr (nalu, f, 0)
         else
           bind_res (FindStartCode2 Buf 0) (\<lambda>info2.
           if \<not> info2 then
             (let (d, f) = fread 1 f in
              bind_res (wr_block Buf 3 d) (\<lambda>Buf.
              if length d \<noteq> 1 then Inr (nalu, f, 0)
              else
                bind_res (FindStartCode3 Buf 0) (\<lambda>info3.
                if \<not> info3 then Inr (nalu, f, -1)
                else read_nalu (nalu\<lparr>startcodeprefix_len := 4\<rparr>) Buf 4 f)))
           else read_nalu (nalu\<lparr>startcodeprefix_len := 3\<rparr>) Buf 3 f))))"

section \<open>What is read from a well-formed file\<close>

lemma FindStartCode2_run: "p + 2 < length Buf \<Longrightarrow> FindStartCode2 Buf p = Inr (code_at Buf p)"
  by (simp add: FindStartCode2_def code_at_def)

lemma FindStartCode3_run:
  "p + 3 < length Buf \<Longrightarrow> FindStartCode3 Buf p = Inr (Buf ! p = 0 \<and> code_at Buf (p + 1))"
  by (simp add: FindStartCode3_def code_at_def numeral_eq_Suc)

lemma nth_of_take: "take k xs = take k ys \<Longrightarrow> i < k \<Longrightarrow> xs ! i = ys ! i"
  by (metis nth_take)

lemma code_at_take: "take k xs = take k ys \<Longrightarrow> p + 2 < k \<Longrightarrow> code_at xs p = code_at ys p"
  using nth_of_take [of k xs ys] by (auto simp: code_at_def)

lemma bits_one_neq_byte: "(0xFF :: byte) \<noteq> 1"
  by simp

text \<open>One turn of the loop inside the file, where \<open>w\<close> is the file from the start code on.\<close>

lemma scan_nalu_byte:
  assumes f: "contents f = pre @ w" "fpos f = length pre + pos" "\<not> at_eof f"
    and pos: "3 \<le> pos" "pos < length w" "pos < length Buf" "take pos Buf = take pos w"
  defines "Buf' \<equiv> Buf[pos := w ! pos]" and "f' \<equiv> f\<lparr>fpos := fpos f + 1\<rparr>"
  shows "scan_nalu Buf pos f =
      (if code_at w (pos - 2) then Inr (Buf', pos + 1, f', Some (w ! (pos - 3) = 0))
       else scan_nalu Buf' (pos + 1) f')"
    "take (pos + 1) Buf' = take (pos + 1) w"
proof -
  show take: "take (pos + 1) Buf' = take (pos + 1) w"
    using pos by (simp add: Buf'_def take_Suc_conv_app_nth)
  have len: "length Buf' = length Buf" by (simp add: Buf'_def)
  have eq: "code_at Buf' (pos - 2) = code_at w (pos - 2)" "Buf' ! (pos - 3) = w ! (pos - 3)"
    using code_at_take [OF take, of "pos - 2"] nth_of_take [OF take, of "pos - 3"] pos by auto
  have "fgetc f = (Some (w ! pos), f')"
    using f pos by (simp add: fgetc_def f'_def nth_append)
  moreover have "FindStartCode3 Buf' (pos + 1 - 4) = Inr (w ! (pos - 3) = 0 \<and> code_at w (pos - 2))"
    using pos len eq by (subst FindStartCode3_run) (auto simp: numeral_eq_Suc Suc_diff_Suc)
  moreover have "FindStartCode2 Buf' (pos + 1 - 3) = Inr (code_at w (pos - 2))"
    using pos len eq by (subst FindStartCode2_run) (auto simp: numeral_eq_Suc)
  ultimately show "scan_nalu Buf pos f =
      (if code_at w (pos - 2) then Inr (Buf', pos + 1, f', Some (w ! (pos - 3) = 0))
       else scan_nalu Buf' (pos + 1) f')"
    using f(3) pos by (subst scan_nalu.simps) (simp add: Let_def flip: Buf'_def)
qed

lemma scan_nalu_found:
  assumes "contents f = pre @ w" "fpos f = length pre + pos" "\<not> at_eof f"
    "3 \<le> pos" "pos \<le> q" "q < length w" "q < length Buf" "take pos Buf = take pos w"
    "code_at w (q - 2)" "\<forall>p. pos \<le> p \<and> p < q \<longrightarrow> \<not> code_at w (p - 2)"
  shows "\<exists>Buf'. scan_nalu Buf pos f =
      Inr (Buf', q + 1, f\<lparr>fpos := length pre + q + 1\<rparr>, Some (w ! (q - 3) = 0)) \<and>
    take (q + 1) Buf' = take (q + 1) w \<and> length Buf' = length Buf"
  using assms
proof (induction "q - pos" arbitrary: pos Buf f)
  case 0
  then have "pos = q" by simp
  then show ?case
    using scan_nalu_byte [of f pre w pos Buf] 0 by auto
next
  case (Suc k)
  let ?Buf = "Buf[pos := w ! pos]" and ?f = "f\<lparr>fpos := fpos f + 1\<rparr>"
  have "pos < q" using Suc by simp
  then have step: "scan_nalu Buf pos f = scan_nalu ?Buf (pos + 1) ?f"
      "take (pos + 1) ?Buf = take (pos + 1) w"
    using scan_nalu_byte [of f pre w pos Buf] Suc.prems by auto
  have "\<exists>Buf'. scan_nalu ?Buf (pos + 1) ?f =
      Inr (Buf', q + 1, ?f\<lparr>fpos := length pre + q + 1\<rparr>, Some (w ! (q - 3) = 0)) \<and>
    take (q + 1) Buf' = take (q + 1) w \<and> length Buf' = length ?Buf"
    using Suc.prems Suc(2) \<open>pos < q\<close> step(2) by (intro Suc(1)) auto
  then show ?case using step(1) by simp
qed

lemma scan_nalu_eof:
  assumes "contents f = pre @ w" "fpos f = length pre + pos" "\<not> at_eof f"
    "3 \<le> pos" "pos \<le> length w" "length w < length Buf" "take pos Buf = take pos w"
    "\<forall>p. pos \<le> p \<and> p < length w \<longrightarrow> \<not> code_at w (p - 2)"
  shows "\<exists>Buf'. scan_nalu Buf pos f =
      Inr (Buf', length w + 1, f\<lparr>fpos := length pre + length w, at_eof := True\<rparr>, None) \<and>
    take (length w + 1) Buf' = w @ [0xFF] \<and> length Buf' = length Buf"
  using assms
proof (induction "length w - pos" arbitrary: pos Buf f)
  case 0
  then have pos: "pos = length w" by simp
  let ?Buf = "Buf[pos := 0xFF]" and ?f = "f\<lparr>at_eof := True\<rparr>"
  have take: "take (pos + 1) ?Buf = w @ [0xFF]"
    using 0 pos by (simp add: take_Suc_conv_app_nth)
  have last: "?Buf ! pos = 0xFF" using 0 pos by simp
  have "pos - 2 + 2 = pos" using 0 pos by simp
  with last have no: "\<not> code_at ?Buf (pos - 2)"
    unfolding code_at_def by (metis bits_one_neq_byte)
  have "fgetc f = (None, ?f)"
    using 0 pos by (simp add: fgetc_def)
  moreover have "FindStartCode3 ?Buf (pos + 1 - 4) = Inr False"
    using 0 pos no by (subst FindStartCode3_run) (auto simp: numeral_eq_Suc Suc_diff_Suc)
  moreover have "FindStartCode2 ?Buf (pos + 1 - 3) = Inr False"
    using 0 pos no by (subst FindStartCode2_run) (auto simp: numeral_eq_Suc)
  moreover have "scan_nalu ?Buf (pos + 1) ?f = Inr (?Buf, pos + 1, ?f, None)"
    by (subst scan_nalu.simps) simp
  ultimately have "scan_nalu Buf pos f = Inr (?Buf, pos + 1, ?f, None)"
    using 0 pos by (subst scan_nalu.simps) (simp add: Let_def)
  then show ?case using take pos 0 by auto
next
  case (Suc k)
  let ?Buf = "Buf[pos := w ! pos]" and ?f = "f\<lparr>fpos := fpos f + 1\<rparr>"
  have "pos < length w" using Suc by simp
  then have step: "scan_nalu Buf pos f = scan_nalu ?Buf (pos + 1) ?f"
      "take (pos + 1) ?Buf = take (pos + 1) w"
    using scan_nalu_byte [of f pre w pos Buf] Suc.prems by auto
  have "\<exists>Buf'. scan_nalu ?Buf (pos + 1) ?f =
      Inr (Buf', length w + 1, ?f\<lparr>fpos := length pre + length w, at_eof := True\<rparr>, None) \<and>
    take (length w + 1) Buf' = w @ [0xFF] \<and> length Buf' = length ?Buf"
    using Suc.prems Suc(2) \<open>pos < length w\<close> step(2) by (intro Suc(1)) auto
  then show ?case using step(1) by simp
qed

text \<open>The frame that holds a NAL unit.\<close>

definition frame_holds :: "NALU_t \<Rightarrow> byte list \<Rightarrow> bool" where
  "frame_holds nalu nal \<longleftrightarrow> nal \<noteq> [] \<and> nlen nalu = word_of_nat (length nal) \<and>
     length nal \<le> length (nbuf nalu) \<and>
     take (length nal) (nbuf nalu) = nal \<and> forbidden_bit nalu = uint (hd nal AND 0x80) \<and>
     nal_reference_idc nalu = uint (hd nal AND 0x60) \<and> nal_unit_type nalu = uint (hd nal AND 0x1f)"

definition same_buffer :: "NALU_t \<Rightarrow> NALU_t \<Rightarrow> bool" where
  "same_buffer nalu nalu' \<longleftrightarrow>
     max_size nalu = max_size nalu' \<and> length (nbuf nalu) = length (nbuf nalu')"

lemma take_drop_cong:
  assumes "take k xs = take k ys" "i + n \<le> k"
  shows "take n (drop i xs) = take n (drop i ys)"
proof -
  have "take n (drop i zs) = take n (drop i (take k zs))" for zs :: "'a list"
    using assms(2) by (simp add: drop_take min_def)
  then show ?thesis using assms(1) by metis
qed

lemma set_nalu_run:
  assumes "prefix + length nal \<le> length Buf" "take (length nal) (drop prefix Buf) = nal" "nal \<noteq> []"
    "length nal \<le> length (nbuf nalu)"
  shows "\<exists>nalu'. set_nalu nalu Buf prefix (length nal) = Inr nalu' \<and> frame_holds nalu' nal \<and>
    same_buffer nalu nalu'"
proof -
  have "overlay (nbuf nalu) 0 nal ! 0 = hd nal"
    using assms(3) by (cases nal) (auto simp: overlay_def)
  moreover have "0 < length (nbuf nalu)" using assms(3,4) by (cases nal) auto
  ultimately show ?thesis
    using assms by (simp add: set_nalu_def frame_holds_def same_buffer_def) (simp add: overlay_def)
qed

lemma no_code_in_unit:
  assumes "nal_ok nal" "length (start_code l) \<le> p + 2" "p < length (start_code l) + length nal"
  shows "\<not> code_at (start_code l @ nal @ suf) p"
proof (cases "length (start_code l) \<le> p")
  case True
  then show ?thesis
    using nal_ok_no_code [OF assms(1), of "p - length (start_code l)" "start_code l" suf] assms(3) by simp
next
  case False
  then have "p = length (start_code l) - 2 \<or> p = length (start_code l) - 1" using assms(2) by arith
  then show ?thesis
    by (cases l) (auto simp: code_at_def start_code_def numeral_eq_Suc)
qed

text \<open>Behind a unit the next start code is the first one that the scan finds.\<close>

lemma next_start_code:
  fixes l l' :: bool
  assumes w: "w = start_code l @ nal @ start_code l' @ post" and nal: "nal_ok nal"
  defines "q \<equiv> length (start_code l) + length nal + (if l' then 3 else 2)"
  shows "code_at w (q - 2)" "(w ! (q - 3) = 0) = l'"
    "length (start_code l) \<le> p \<Longrightarrow> p < q \<Longrightarrow> \<not> code_at w (p - 2)"
proof -
  let ?s = "length (start_code l)"
  have ne: "nal \<noteq> []" "last nal \<noteq> 0" using nal by (auto simp: nal_ok_def)
  have s: "3 \<le> ?s" by (simp add: length_start_code)
  have wq: "w ! (?s + length nal + i) = (start_code l' @ post) ! i" for i
    by (simp add: w nth_append)
  show "code_at w (q - 2)"
    using wq [of "q - 2 - ?s - length nal"] wq [of "q - 1 - ?s - length nal"] wq [of "q - ?s - length nal"]
    by (cases l') (auto simp: code_at_def q_def start_code_def numeral_eq_Suc)
  show "(w ! (q - 3) = 0) = l'"
  proof (cases l')
    case True
    then show ?thesis using wq [of 0] by (simp add: q_def start_code_def)
  next
    case False
    obtain k where k: "length nal = Suc k" using ne(1) by (cases nal) auto
    then have "w ! (q - 3) = last nal"
      using False ne s by (simp add: q_def w nth_append last_conv_nth)
    with False ne show ?thesis by simp
  qed
  show "\<not> code_at w (p - 2)" if "?s \<le> p" "p < q"
  proof (cases "p - 2 < ?s + length nal")
    case True
    then show ?thesis using no_code_in_unit [OF nal, of l "p - 2"] that s by (simp add: w)
  next
    case False
    moreover have "2 \<le> p" using that(1) s by linarith
    then obtain p' where "p = p' + 2" by (metis add.commute le_Suc_ex)
    ultimately have "l'" "p - 2 = ?s + length nal"
      using that(2) by (cases l'; simp add: q_def)+
    then show ?thesis
      using wq [of 2] by (simp add: code_at_def start_code_def numeral_eq_Suc)
  qed
qed

lemma read_nalu_next:
  assumes f: "contents f = pre @ w" "fpos f = length pre + length (start_code l)" "\<not> at_eof f"
    and w: "w = start_code l @ nal @ start_code l' @ post" and nal: "nal_ok nal"
    and Buf: "take (length (start_code l)) Buf = start_code l"
      "length (start_code l) + length nal + 4 \<le> length Buf" "length nal \<le> length (nbuf nalu)"
  shows "\<exists>nalu'. read_nalu nalu Buf (length (start_code l)) f =
      Inr (nalu', f\<lparr>fpos := length pre + length (start_code l) + length nal, at_eof := False\<rparr>,
           int (length (start_code l) + length nal)) \<and>
    frame_holds nalu' nal \<and> same_buffer nalu nalu'"
proof -
  let ?s = "length (start_code l)"
  define q where "q = ?s + length nal + (if l' then 3 else 2)"
  have ne: "nal \<noteq> []" "last nal \<noteq> 0" using nal by (auto simp: nal_ok_def)
  have s: "3 \<le> ?s" by (simp add: length_start_code)
  note code = next_start_code(1) [OF w nal, folded q_def] and hit = next_start_code(2) [OF w nal, folded q_def]
    and none = next_start_code(3) [OF w nal, folded q_def]
  have len: "q < length w" "q < length Buf"
    using Buf(2) by (auto simp: q_def w start_code_def)
  obtain Buf' where Buf': "scan_nalu Buf ?s f = Inr (Buf', q + 1, f\<lparr>fpos := length pre + q + 1\<rparr>, Some l')"
      "take (q + 1) Buf' = take (q + 1) w" "length Buf' = length Buf"
    using scan_nalu_found [of f pre w ?s q Buf] f s len code none hit Buf(1)
    by (auto simp: q_def w)
  have "?s + length nal \<le> q + 1" by (simp add: q_def)
  from take_drop_cong [OF Buf'(2) this] have slice: "take (length nal) (drop ?s Buf') = nal"
    by (simp add: w)
  then obtain nalu' where nalu': "set_nalu nalu Buf' ?s (length nal) = Inr nalu'" "frame_holds nalu' nal"
      "same_buffer nalu nalu'"
    using set_nalu_run [of ?s nal Buf' nalu] Buf Buf'(3) ne by auto
  have "q + 1 - (if l' then 4 else 3) = ?s + length nal" by (simp add: q_def)
  then show ?thesis
    using Buf'(1) nalu' by (auto simp: read_nalu_def fseek_back_def q_def)
qed

lemma read_nalu_last:
  assumes f: "contents f = pre @ start_code l @ nal" "fpos f = length pre + length (start_code l)" "\<not> at_eof f"
    and nal: "nal_ok nal"
    and Buf: "take (length (start_code l)) Buf = start_code l"
      "length (start_code l) + length nal + 1 \<le> length Buf" "length nal + 1 \<le> length (nbuf nalu)"
  shows "\<exists>nalu'. read_nalu nalu Buf (length (start_code l)) f =
      Inr (nalu', f\<lparr>fpos := length (contents f), at_eof := True\<rparr>,
           int (length (start_code l) + length nal + 1)) \<and>
    frame_holds nalu' (nal @ [0xFF]) \<and> same_buffer nalu nalu'"
proof -
  let ?s = "length (start_code l)" and ?w = "start_code l @ nal"
  have s: "3 \<le> ?s" by (simp add: length_start_code)
  have none: "\<not> code_at ?w (p - 2)" if "?s \<le> p" "p < length ?w" for p
    using no_code_in_unit [OF nal, of l "p - 2" "[]"] that s by simp
  obtain Buf' where Buf': "scan_nalu Buf ?s f =
      Inr (Buf', length ?w + 1, f\<lparr>fpos := length pre + length ?w, at_eof := True\<rparr>, None)"
      "take (length ?w + 1) Buf' = ?w @ [0xFF]" "length Buf' = length Buf"
    using scan_nalu_eof [of f pre ?w ?s Buf] f s none Buf by auto
  have "take (length (nal @ [0xFF])) (drop ?s Buf') = drop ?s (take (length ?w + 1) Buf')"
    by (simp add: drop_take)
  also have "\<dots> = nal @ [0xFF]" by (simp only: Buf'(2)) simp
  finally have slice: "take (length (nal @ [0xFF])) (drop ?s Buf') = nal @ [0xFF]" .
  then obtain nalu' where nalu': "set_nalu nalu Buf' ?s (length (nal @ [0xFF])) = Inr nalu'"
      "frame_holds nalu' (nal @ [0xFF])" "same_buffer nalu nalu'"
    using set_nalu_run [of ?s "nal @ [0xFF]" Buf' nalu] Buf Buf'(3) by auto
  then show ?thesis
    using Buf'(1) f(1) by (auto simp: read_nalu_def)
qed

text \<open>Reading the start code itself.\<close>

lemma GetAnnexbNALU_start:
  assumes f: "contents f = pre @ start_code l @ suf" "fpos f = length pre" "\<not> at_eof f" "suf \<noteq> []"
    and mem: "mem (unat (max_size nalu))" "5 \<le> unat (max_size nalu)"
  shows "\<exists>Buf. GetAnnexbNALU mem nalu f =
      read_nalu (nalu\<lparr>startcodeprefix_len := int (length (start_code l))\<rparr>) Buf (length (start_code l))
        (f\<lparr>fpos := length pre + length (start_code l)\<rparr>) \<and>
    length Buf = unat (max_size nalu) \<and> take (length (start_code l)) Buf = start_code l"
proof -
  let ?B = "replicate (unat (max_size nalu)) (0 :: byte)"
  have fr: "fread n f = (take n (start_code l @ suf), f\<lparr>fpos := length pre + n\<rparr>)"
    if "n \<le> length (start_code l)" for n
    using f that by (cases f) (simp add: fread_def min_def)
  show ?thesis
  proof (cases l)
    case False
    let ?Buf = "overlay ?B 0 [0, 0, 1]"
    have "code_at ?Buf 0" by (simp add: overlay_def code_at_def)
    then have "FindStartCode2 ?Buf 0 = Inr True" using mem by (simp add: FindStartCode2_run)
    then show ?thesis
      using False mem fr [of 3]
      by (intro exI [of _ ?Buf]) (simp add: GetAnnexbNALU_def start_code_def overlay_def numeral_3_eq_3)
  next
    case True
    let ?B3 = "overlay ?B 0 [0, 0, 0]"
    let ?Buf = "overlay ?B3 3 [1]"
    have "\<not> code_at ?B3 0" by (simp add: overlay_def code_at_def)
    then have s2: "FindStartCode2 ?B3 0 = Inr False" using mem by (simp add: FindStartCode2_run)
    have Buf: "?Buf = [0, 0, 0, 1] @ drop 4 ?B"
      using mem by (simp add: overlay_def numeral_eq_Suc)
    have s3: "FindStartCode3 ?Buf 0 = Inr True"
      using mem by (subst FindStartCode3_run) (auto simp: Buf code_at_def)
    have "fread 1 (f\<lparr>fpos := length pre + 3\<rparr>) = ([1], f\<lparr>fpos := length pre + 4\<rparr>)"
      using f True by (simp add: fread_def start_code_def)
    moreover have four: "Suc (Suc (Suc (Suc 0))) = 4" by simp
    ultimately show ?thesis
      using True mem fr [of 3] s2 s3
      by (intro exI [of _ ?Buf]) (simp add: GetAnnexbNALU_def start_code_def Buf four)
  qed
qed

lemma GetAnnexbNALU_next:
  assumes "contents f = pre @ start_code l @ nal @ start_code l' @ post" "fpos f = length pre" "\<not> at_eof f"
    "nal_ok nal" "mem (unat (max_size nalu))" "length nal + 8 \<le> unat (max_size nalu)"
    "length nal \<le> length (nbuf nalu)"
  shows "\<exists>nalu'. GetAnnexbNALU mem nalu f =
      Inr (nalu', f\<lparr>fpos := length pre + length (start_code l) + length nal, at_eof := False\<rparr>,
           int (length (start_code l) + length nal)) \<and>
    frame_holds nalu' nal \<and> same_buffer nalu nalu'"
proof -
  have l: "length (start_code l) \<le> 4" by (simp add: length_start_code)
  obtain Buf where Buf: "GetAnnexbNALU mem nalu f =
      read_nalu (nalu\<lparr>startcodeprefix_len := int (length (start_code l))\<rparr>) Buf (length (start_code l))
        (f\<lparr>fpos := length pre + length (start_code l)\<rparr>)"
      "length Buf = unat (max_size nalu)" "take (length (start_code l)) Buf = start_code l"
    using GetAnnexbNALU_start [of f pre l "nal @ start_code l' @ post" mem nalu] assms
    by (auto simp: nal_ok_def)
  have "\<exists>nalu'. read_nalu (nalu\<lparr>startcodeprefix_len := int (length (start_code l))\<rparr>) Buf
      (length (start_code l)) (f\<lparr>fpos := length pre + length (start_code l)\<rparr>) =
      Inr (nalu', f\<lparr>fpos := length pre + length (start_code l), fpos := length pre + length (start_code l) + length nal,
        at_eof := False\<rparr>, int (length (start_code l) + length nal)) \<and>
    frame_holds nalu' nal \<and> same_buffer (nalu\<lparr>startcodeprefix_len := int (length (start_code l))\<rparr>) nalu'"
    using assms Buf l by (intro read_nalu_next) auto
  then show ?thesis using Buf(1) by (auto simp: same_buffer_def)
qed

lemma GetAnnexbNALU_last:
  assumes "contents f = pre @ start_code l @ nal" "fpos f = length pre" "\<not> at_eof f"
    "nal_ok nal" "mem (unat (max_size nalu))" "length nal + 8 \<le> unat (max_size nalu)"
    "length nal < length (nbuf nalu)"
  shows "\<exists>nalu'. GetAnnexbNALU mem nalu f =
      Inr (nalu', f\<lparr>fpos := length (contents f), at_eof := True\<rparr>,
           int (length (start_code l) + length nal + 1)) \<and>
    frame_holds nalu' (nal @ [0xFF]) \<and> same_buffer nalu nalu'"
proof -
  have l: "length (start_code l) \<le> 4" by (simp add: length_start_code)
  obtain Buf where Buf: "GetAnnexbNALU mem nalu f =
      read_nalu (nalu\<lparr>startcodeprefix_len := int (length (start_code l))\<rparr>) Buf (length (start_code l))
        (f\<lparr>fpos := length pre + length (start_code l)\<rparr>)"
      "length Buf = unat (max_size nalu)" "take (length (start_code l)) Buf = start_code l"
    using GetAnnexbNALU_start [of f pre l nal mem nalu] assms
    by (auto simp: nal_ok_def)
  have "\<exists>nalu'. read_nalu (nalu\<lparr>startcodeprefix_len := int (length (start_code l))\<rparr>) Buf
      (length (start_code l)) (f\<lparr>fpos := length pre + length (start_code l)\<rparr>) =
      Inr (nalu', f\<lparr>fpos := length pre + length (start_code l),
        fpos := length (contents (f\<lparr>fpos := length pre + length (start_code l)\<rparr>)),
        at_eof := True\<rparr>, int (length (start_code l) + length nal + 1)) \<and>
    frame_holds nalu' (nal @ [0xFF]) \<and>
    same_buffer (nalu\<lparr>startcodeprefix_len := int (length (start_code l))\<rparr>) nalu'"
    using assms Buf l by (intro read_nalu_last) auto
  then show ?thesis using Buf(1) by (auto simp: same_buffer_def)
qed

section \<open>Every read makes progress\<close>

lemma FindStartCode2_True: "FindStartCode2 Buf p = Inr True \<Longrightarrow> Buf ! (p + 2) = 1"
  by (auto simp: FindStartCode2_def bind_res_eq_Inr rd_eq_Inr split: if_splits)

lemma FindStartCode3_True: "FindStartCode3 Buf p = Inr True \<Longrightarrow> Buf ! (p + 2) = 0 \<and> Buf ! (p + 3) = 1"
  by (auto simp: FindStartCode3_def bind_res_eq_Inr rd_eq_Inr split: if_splits)

lemma fgetc_cases:
  obtains b where "fpos f < length (contents f)" "fgetc f = (Some b, f\<lparr>fpos := fpos f + 1\<rparr>)"
    | "length (contents f) \<le> fpos f" "fgetc f = (None, f\<lparr>at_eof := True\<rparr>)"
  by (cases "fpos f < length (contents f)") (auto simp: fgetc_def)

lemma scan_nalu_progress:
  assumes "scan_nalu Buf pos f = Inr (Buf', pos', f', found)" "3 \<le> pos"
  shows "contents f' = contents f \<and> take pos Buf' = take pos Buf \<and>
    (case found of
       None \<Rightarrow> at_eof f'
     | Some info3 \<Rightarrow> pos < pos' \<and> fpos f < length (contents f) \<and> fpos f' = fpos f + (pos' - pos) \<and>
         (info3 \<longrightarrow> Buf' ! (pos' - 2) = 0))"
  using assms
proof (induction Buf pos f rule: scan_nalu.induct)
  case (1 Buf pos f)
  show ?case
  proof (cases "at_eof f")
    case True
    then show ?thesis using "1.prems" by (simp add: scan_nalu.simps [of Buf pos f])
  next
    case False
    obtain c f1 where c: "fgetc f = (c, f1)" by (cases "fgetc f")
    define x :: byte where "x = (case c of None \<Rightarrow> 0xFF | Some b \<Rightarrow> b)"
    obtain i3 i2 where pos: "pos < length Buf" and i3: "FindStartCode3 (Buf[pos := x]) (pos - 3) = Inr i3"
      and i2: "(if i3 then Inr False else FindStartCode2 (Buf[pos := x]) (Suc pos - 3)) = Inr i2"
      and rest: "(if i2 \<or> i3 then Inr (Buf[pos := x], Suc pos, f1, Some i3)
          else scan_nalu (Buf[pos := x]) (Suc pos) f1) = Inr (Buf', pos', f', found)"
      using "1.prems"(1) [unfolded scan_nalu.simps [of Buf pos f]] False
      by (auto simp: c bind_res_eq_Inr wr_eq_Inr Let_def simp flip: x_def split del: if_split)
    have same: "contents f1 = contents f" "take pos (Buf[pos := x]) = take pos Buf"
      using c by (auto simp: fgetc_def split: if_splits)
    show ?thesis
    proof (cases "i2 \<or> i3")
      case True
      then have "x = 1"
        using i2 i3 FindStartCode2_True [of "Buf[pos := x]" "pos - 2"]
          FindStartCode3_True [of "Buf[pos := x]" "pos - 3"] pos "1.prems"(2)
        by (auto simp: numeral_eq_Suc Suc_diff_Suc split: if_splits)
      then have "c \<noteq> None" by (cases c) (auto simp: x_def)
      then have "fpos f < length (contents f)" "fpos f1 = fpos f + 1"
        using c by (auto simp: fgetc_def split: if_splits)
      moreover have "(Buf[pos := x]) ! (pos - 1) = 0" if i3
        using i3 that FindStartCode3_True [of "Buf[pos := x]" "pos - 3"] "1.prems"(2)
        by (auto simp: numeral_eq_Suc Suc_diff_Suc)
      ultimately show ?thesis
        using True rest same by auto
    next
      case no: False
      have IH: "contents f' = contents f1 \<and> take (pos + 1) Buf' = take (pos + 1) (Buf[pos := x]) \<and>
        (case found of
           None \<Rightarrow> at_eof f'
         | Some info3 \<Rightarrow> pos + 1 < pos' \<and> fpos f1 < length (contents f1) \<and>
             fpos f' = fpos f1 + (pos' - (pos + 1)) \<and> (info3 \<longrightarrow> Buf' ! (pos' - 2) = 0))"
        using no rest i2 i3 pos c False "1.prems"(2)
        by (intro "1.IH" [where xa = c and x = "(c, f1)"]) (auto simp: x_def)
      then have "take pos Buf' = take pos Buf"
        using same(2) by (metis (no_types, lifting) add.commute min.absorb1 le_add2 take_take)
      moreover have "found = None \<or> fpos f1 = fpos f + 1 \<and> fpos f < length (contents f)"
        using IH c by (cases rule: fgetc_cases [of f]) (auto split: option.splits)
      ultimately show ?thesis using IH same by (auto split: option.splits)
    qed
  qed
qed

lemma set_nalu_buffer:
  "set_nalu nalu Buf p n = Inr nalu' \<Longrightarrow> same_buffer nalu nalu'"
  by (auto simp: set_nalu_def bind_res_eq_Inr wr_block_eq_Inr same_buffer_def)

lemma read_nalu_progress:
  assumes "read_nalu nalu Buf prefix f = Inr (nalu', f', r)" "3 \<le> prefix"
    "prefix = 3 \<Longrightarrow> Buf ! 2 = 1" "k + prefix = fpos f"
  shows "contents f' = contents f \<and> same_buffer nalu nalu' \<and>
    (at_eof f' \<or> k < fpos f' \<and> k < length (contents f))"
proof -
  obtain Buf' pos' f1 found where s: "scan_nalu Buf prefix f = Inr (Buf', pos', f1, found)"
    using assms(1) by (auto simp: read_nalu_def bind_res_eq_Inr)
  note p = scan_nalu_progress [OF s assms(2)]
  show ?thesis
  proof (cases found)
    case None
    then show ?thesis
      using assms(1) p s by (auto simp: read_nalu_def bind_res_eq_Inr dest: set_nalu_buffer)
  next
    case (Some info3)
    have "\<not> (prefix = 3 \<and> pos' = 4 \<and> info3)"
    proof
      assume *: "prefix = 3 \<and> pos' = 4 \<and> info3"
      then have "take 3 Buf' = take 3 Buf" "Buf' ! 2 = 0" using p Some by auto
      then show False using nth_of_take [of 3 Buf' Buf 2] * assms(3) by simp
    qed
    then have "(if info3 then 4 else 3) < pos'"
      using p Some assms(2) by auto
    then show ?thesis
      using assms(1,4) p s Some
      by (auto simp: read_nalu_def bind_res_eq_Inr fseek_back_def Let_def dest: set_nalu_buffer)
  qed
qed

lemma same_buffer_prefix: "same_buffer nalu (nalu\<lparr>startcodeprefix_len := p\<rparr>)"
  by (simp add: same_buffer_def)

lemma same_buffer_after_prefix: "same_buffer (nalu\<lparr>startcodeprefix_len := p\<rparr>) n \<Longrightarrow> same_buffer nalu n"
  by (simp add: same_buffer_def)

lemma fread_facts:
  assumes "fread n f = (d, f')"
  shows "contents f' = contents f" "fpos f' = fpos f + length d" "length d < n \<Longrightarrow> at_eof f'" "length d \<le> n"
    "n \<noteq> 0 \<Longrightarrow> length d = n \<Longrightarrow> fpos f + n \<le> length (contents f)"
proof -
  show "contents f' = contents f" "fpos f' = fpos f + length d" "length d < n \<Longrightarrow> at_eof f'" "length d \<le> n"
    using assms by (auto simp: fread_def)
  have "length d = min (length (contents f) - fpos f) n" using assms by (auto simp: fread_def)
  then show "n \<noteq> 0 \<Longrightarrow> length d = n \<Longrightarrow> fpos f + n \<le> length (contents f)" by linarith
qed

text \<open>Behind the first three bytes: the start code was of three bytes, or the fourth byte decides.\<close>

lemma GetAnnexbNALU_head_cases:
  assumes run: "GetAnnexbNALU mem nalu f = Inr (nalu', f', r)"
    and d: "fread 3 f = (d, f1)" "length d = 3" and e: "fread 1 f1 = (e, f2)"
  obtains B where "B ! 2 = 1" "read_nalu (nalu\<lparr>startcodeprefix_len := 3\<rparr>) B 3 f1 = Inr (nalu', f', r)"
  | "f' = f2" "nalu' = nalu\<lparr>startcodeprefix_len := 3\<rparr>"
  | B where "length e = 1" "read_nalu (nalu\<lparr>startcodeprefix_len := 4\<rparr>) B 4 f2 = Inr (nalu', f', r)"
proof -
  let ?B = "overlay (replicate (unat (max_size nalu)) 0) 0 d"
  obtain info2 where Buf: "wr_block (replicate (unat (max_size nalu)) 0) 0 d = Inr ?B" "3 \<le> unat (max_size nalu)"
      and i2: "FindStartCode2 ?B 0 = Inr info2"
    using run d
    by (auto simp: GetAnnexbNALU_def bind_res_eq_Inr wr_block_eq_Inr Let_def split: if_splits)
  show thesis
  proof (cases info2)
    case True
    then have "?B ! 2 = 1" using i2 FindStartCode2_True [of ?B 0] by (simp add: numeral_2_eq_2)
    moreover have "read_nalu (nalu\<lparr>startcodeprefix_len := 3\<rparr>) ?B 3 f1 = Inr (nalu', f', r)"
      using run d Buf i2 True by (simp add: GetAnnexbNALU_def Let_def split: if_splits)
    ultimately show thesis by (rule that(1))
  next
    case False
    then consider "f' = f2" "nalu' = nalu\<lparr>startcodeprefix_len := 3\<rparr>"
      | B where "length e = 1" "read_nalu (nalu\<lparr>startcodeprefix_len := 4\<rparr>) B 4 f2 = Inr (nalu', f', r)"
      using run d Buf i2 e
      by (auto simp: GetAnnexbNALU_def bind_res_eq_Inr Let_def split: if_splits)
    then show thesis using that(2,3) by cases
  qed
qed

lemma GetAnnexbNALU_progress:
  assumes "GetAnnexbNALU mem nalu f = Inr (nalu', f', r)"
  shows "contents f' = contents f \<and> same_buffer nalu nalu' \<and>
    (at_eof f' \<or> fpos f < fpos f' \<and> fpos f < length (contents f))"
proof -
  obtain d f1 where d: "fread 3 f = (d, f1)" by (cases "fread 3 f")
  obtain e f2 where e: "fread 1 f1 = (e, f2)" by (cases "fread 1 f1")
  note f1 = fread_facts [OF d] and f2 = fread_facts [OF e]
  show ?thesis
  proof (cases "length d = 3")
    case False
    then show ?thesis
      using assms d f1 same_buffer_prefix
      by (auto simp: GetAnnexbNALU_def bind_res_eq_Inr Let_def split: if_splits)
  next
    case len: True
    then have in3: "fpos f + 3 \<le> length (contents f)" using f1(5) by simp
    from assms d len e show ?thesis
    proof (cases rule: GetAnnexbNALU_head_cases)
      case (1 B)
      then show ?thesis
        using read_nalu_progress [of _ B 3 f1 nalu' f' r "fpos f"] f1 len same_buffer_after_prefix by auto
    next
      case 2
      then show ?thesis using f1 f2 in3 len same_buffer_prefix by auto
    next
      case (3 B)
      then show ?thesis
        using read_nalu_progress [OF 3(2), of "fpos f"] f1 f2 len same_buffer_after_prefix by auto
    qed
  qed
qed

end
