(* ===== verification/UdpServer.thy ===== *)
theory UdpServer
  imports UdpFrames
begin

text \<open>
  The second half of \<^verbatim>\<open>udp_h264/Server.c\<close>: \<^verbatim>\<open>main\<close>, which waits for a request of a client
  and then sends it the NAL units of the file, one RTP packet each or in FU-A fragments.
  The state holds the bit stream, the frame buffer, the two counters, and the datagrams sent
  with their destination.  Printing, \<^verbatim>\<open>usleep\<close>, \<^verbatim>\<open>print_time\<close> and the unused \<^verbatim>\<open>debug\<close> are
  left out.
\<close>

section \<open>Sending one frame\<close>

type_synonym addr = "u32 \<times> u16"

record udp_state =
  h264Bitstream :: bitstream
  nFrame :: NALU_t
  seq_num :: u16
  ts_current :: u32
  outbox :: "(addr \<times> byte list) list"

definition UDP_MAX_SIZE :: nat where "UDP_MAX_SIZE = 1400"
definition SEND_BUF_SIZE :: nat where "SEND_BUF_SIZE = 1500"
definition BUFFER_SIZE :: nat where "BUFFER_SIZE = 200000"

text \<open>The cleared \<^verbatim>\<open>sendbuf\<close> with the RTP header; \<^verbatim>\<open>++seq_num%UINT16_MAX\<close> is its sequence number.\<close>

definition start_packet :: "byte \<Rightarrow> udp_state \<Rightarrow> byte list \<times> udp_state" where
  "start_packet mark s =
     (let s = s\<lparr>seq_num := seq_num s + 1\<rparr>;
          h = \<lparr>csrc_len = 0, extension = 0, padding = 0, version = 2, payload = H264, marker = mark,
               seq_no = word_of_nat (unat (seq_num s) mod 65535), hdr_timestamp = ts_current s,
               hdr_ssrc = 10\<rparr>
      in (overlay (replicate SEND_BUF_SIZE 0) 0 (rtp_fixed_bytes h), s))"

definition sendto_client :: "addr \<Rightarrow> byte list \<Rightarrow> nat \<Rightarrow> udp_state \<Rightarrow> udp_state res" where
  "sendto_client clientaddr sendbuf bytes s =
     bind_res (rd_block sendbuf 0 bytes) (\<lambda>d. Inr (s\<lparr>outbox := outbox s @ [(clientaddr, d)]\<rparr>))"

definition send_single :: "addr \<Rightarrow> udp_state \<Rightarrow> udp_state res" where
  "send_single clientaddr s =
     (let (sendbuf, s) = start_packet 0 s;
          n = nFrame s;
          nalu_hdr = \<lparr>hdr_TYPE = word_of_int (nal_unit_type n),
                      hdr_NRI = word_of_int (drop_bit 5 (nal_reference_idc n)),
                      hdr_F = word_of_int (drop_bit 7 (forbidden_bit n))\<rparr> in
      bind_res (wr sendbuf 12 (nalu_header_byte nalu_hdr)) (\<lambda>sendbuf.
      bind_res (rd_block (nbuf n) 1 (unat (nlen n - 1))) (\<lambda>d.
      bind_res (wr_block sendbuf 13 d) (\<lambda>sendbuf.
      sendto_client clientaddr sendbuf (unat (nlen n) + 12) s))))"

text \<open>
  One fragment: \<open>len\<close> bytes of the frame from \<open>off\<close> on, behind the FU indicator and header.
\<close>

definition put_fragment ::
  "addr \<Rightarrow> byte \<Rightarrow> FU_INDICATOR \<Rightarrow> FU_HEADER \<Rightarrow> nat \<Rightarrow> nat \<Rightarrow> udp_state \<Rightarrow> udp_state res" where
  "put_fragment clientaddr mark fu_ind fu_hdr off len s =
     (let (sendbuf, s) = start_packet mark s in
      bind_res (wr sendbuf 12 (nalu_header_byte fu_ind)) (\<lambda>sendbuf.
      bind_res (wr sendbuf 13 (fu_header_byte fu_hdr)) (\<lambda>sendbuf.
      bind_res (rd_block (nbuf (nFrame s)) off len) (\<lambda>d.
      bind_res (wr_block sendbuf 14 d) (\<lambda>sendbuf.
      sendto_client clientaddr sendbuf (len + 14) s)))))"

text \<open>The indicator of all fragments but the first, whose F and NRI stay zero.\<close>

definition frame_fu_ind :: "NALU_t \<Rightarrow> FU_INDICATOR" where
  "frame_fu_ind n =
     \<lparr>hdr_TYPE = 28, hdr_NRI = word_of_int (drop_bit 5 (nal_reference_idc n)),
      hdr_F = word_of_int (drop_bit 7 (forbidden_bit n))\<rparr>"

function send_middle :: "addr \<Rightarrow> nat \<Rightarrow> nat \<Rightarrow> udp_state \<Rightarrow> udp_state res" where
  "send_middle clientaddr packetIndex packetNum s =
     (if packetIndex < packetNum then
        bind_res (put_fragment clientaddr 0 (frame_fu_ind (nFrame s))
            \<lparr>fu_TYPE = word_of_int (nal_unit_type (nFrame s)), fu_R = 0, fu_E = 0, fu_S = 0\<rparr>
            ((packetIndex - 1) * UDP_MAX_SIZE) UDP_MAX_SIZE s) (\<lambda>s.
        send_middle clientaddr (packetIndex + 1) packetNum s)
      else Inr s)"
  by pat_completeness auto
termination
  by (relation "measure (\<lambda>(a, i, n, s). n - i)") auto

declare send_middle.simps [simp del]

definition send_fragments :: "addr \<Rightarrow> udp_state \<Rightarrow> udp_state res" where
  "send_fragments clientaddr s =
     (let n = nFrame s;
          len = unat (nlen n);
          packetNum = len div UDP_MAX_SIZE + (if len mod UDP_MAX_SIZE \<noteq> 0 then 1 else 0);
          lastPackSize = len - (packetNum - 1) * UDP_MAX_SIZE;
          type = word_of_int (nal_unit_type n) in
      bind_res (put_fragment clientaddr 0 \<lparr>hdr_TYPE = 28, hdr_NRI = 0, hdr_F = 0\<rparr>
          \<lparr>fu_TYPE = type, fu_R = 0, fu_E = 0, fu_S = 1\<rparr> 1 (UDP_MAX_SIZE - 1) s) (\<lambda>s.
      bind_res (send_middle clientaddr 2 packetNum s) (\<lambda>s.
      put_fragment clientaddr 1 (frame_fu_ind n) \<lparr>fu_TYPE = type, fu_R = 0, fu_E = 1, fu_S = 0\<rparr>
        ((max 2 packetNum - 1) * UDP_MAX_SIZE) lastPackSize s)))"

definition send_frame :: "addr \<Rightarrow> udp_state \<Rightarrow> udp_state res" where
  "send_frame clientaddr s =
     (let s = s\<lparr>ts_current := ts_current s + 3600\<rparr> in
      if unat (nlen (nFrame s)) \<le> UDP_MAX_SIZE then send_single clientaddr s
      else send_fragments clientaddr s)"

section \<open>What one frame puts on the network\<close>

lemma length_start_packet [simp]: "length (fst (start_packet m s)) = 1500"
  by (simp add: start_packet_def SEND_BUF_SIZE_def Let_def)

lemma start_packet_run:
  "\<exists>hdr s'. start_packet m s = (hdr @ replicate 1488 0, s') \<and> length hdr = 12 \<and>
     h264Bitstream s' = h264Bitstream s \<and> nFrame s' = nFrame s \<and> outbox s' = outbox s"
  by (simp add: start_packet_def SEND_BUF_SIZE_def overlay_def Let_def)

text \<open>What a step leaves alone, and what it appends to the outbox.\<close>

definition posted :: "addr \<Rightarrow> byte list list \<Rightarrow> udp_state \<Rightarrow> udp_state \<Rightarrow> bool" where
  "posted a ps s s' \<longleftrightarrow> h264Bitstream s' = h264Bitstream s \<and> nFrame s' = nFrame s \<and>
     outbox s' = outbox s @ map (Pair a) ps"

lemma posted_trans: "posted a ps s s' \<Longrightarrow> posted a qs s' s'' \<Longrightarrow> posted a (ps @ qs) s s''"
  by (simp add: posted_def)

lemma put_fragment_run:
  assumes "off + len \<le> length (nbuf (nFrame s))" "len \<le> 1486"
  shows "\<exists>hdr s'. put_fragment a m ind h off len s = Inr s' \<and> length hdr = 12 \<and>
    posted a [hdr @ nalu_header_byte ind # fu_header_byte h # take len (drop off (nbuf (nFrame s)))] s s'"
proof -
  obtain hdr s1 where s1: "start_packet m s = (hdr @ replicate 1488 0, s1)" "length hdr = 12"
      "h264Bitstream s1 = h264Bitstream s" "nFrame s1 = nFrame s" "outbox s1 = outbox s"
    using start_packet_run by blast
  have r: "replicate 1488 (0 :: byte) = 0 # 0 # replicate 1486 0"
    using replicate_add [of 2 1486 "0 :: byte"] by (simp add: numeral_2_eq_2)
  have u: "(hdr @ 0 # 0 # replicate 1486 0)[12 := x, 13 := y] = hdr @ x # y # replicate 1486 0" for x y :: byte
    using s1(2) by (simp add: list_update_append)
  let ?d = "take len (drop off (nbuf (nFrame s)))"
  have d: "length ?d = len" using assms(1) by simp
  have w: "wr_block (hdr @ x # y # replicate 1486 0) 14 ?d =
      Inr (hdr @ x # y # ?d @ replicate (1486 - len) 0)" for x y
    using assms(2) s1(2) d by (simp add: overlay_def)
  show ?thesis
    using s1 assms d
    by (intro exI [of _ hdr]) (simp add: put_fragment_def r u w sendto_client_def posted_def)
qed

lemma frame_bytes:
  "nalu_header_byte \<lparr>hdr_TYPE = word_of_int (uint (x AND 0x1f)),
     hdr_NRI = word_of_int (drop_bit 5 (uint (x AND 0x60))),
     hdr_F = word_of_int (drop_bit 7 (uint (x AND 0x80)))\<rparr> = (x :: byte)"
proof -
  have d: "(word_of_int (drop_bit n (uint y)) :: byte) = drop_bit n y" for n and y :: byte
    by (rule bit_word_eqI) (auto simp: bit_word_of_int_iff bit_drop_bit_eq bit_uint_iff
        dest: bit_imp_le_length)
  show ?thesis
    by (rule byte_eqI) (simp_all add: nalu_header_byte_def d byte_bits)
qed

text \<open>
  What the client can recover from the packets of a frame: the NAL unit, except that the
  first byte of a fragmented one loses its F and NRI bits, which only the later fragments
  carry.
\<close>

definition udp_deliver :: "byte list \<Rightarrow> byte list" where
  "udp_deliver nal = (if length nal \<le> UDP_MAX_SIZE then nal else nal_type (hd nal) # tl nal)"

lemma fu_cont_pkts_append:
  "fu_cont_pkts M ps bs \<Longrightarrow> fu_cont_pkts M qs cs \<Longrightarrow> fu_cont_pkts M (ps @ qs) (bs @ cs)"
  by (induction rule: fu_cont_pkts.induct) (auto intro: fu_cont_pkts.intros)

lemma fu_cont_one:
  "length hdr = 12 \<Longrightarrow> nal_type ind = 28 \<Longrightarrow> fuh AND 0x80 = 0 \<Longrightarrow> 14 + length body \<le> M \<Longrightarrow>
   fu_cont_pkts M [hdr @ ind # fuh # body] body"
  using fc_Cons [of hdr ind fuh body M "[]" "[]"] by (simp add: fc_Nil)

lemma indicator_bits [simp]:
  "nal_type (nalu_header_byte (frame_fu_ind n)) = 28"
  by (rule byte_eqI) (simp_all add: nal_type_def nalu_header_byte_def frame_fu_ind_def byte_bits)

lemma fu_header_start_bit [simp]:
  "fu_header_byte \<lparr>fu_TYPE = t, fu_R = 0, fu_E = e, fu_S = 0\<rparr> AND 0x80 = 0"
  by (rule byte_eqI) (simp_all add: fu_header_byte_def byte_bits)

lemma send_middle_run:
  assumes "1 \<le> i" "i \<le> k" "(k - 1) * 1400 \<le> length (nbuf (nFrame s))"
  shows "\<exists>ps s'. send_middle a i k s = Inr s' \<and> posted a ps s s' \<and>
    fu_cont_pkts 1500 ps (take ((k - i) * 1400) (drop ((i - 1) * 1400) (nbuf (nFrame s))))"
  using assms
proof (induction "k - i" arbitrary: i s)
  case 0
  then show ?case
    by (subst send_middle.simps) (auto simp: posted_def intro!: exI [of _ "[]"] fc_Nil)
next
  case (Suc m)
  let ?b = "nbuf (nFrame s)"
  have i: "i < k" using Suc by simp
  have Suc_eq: "m = k - (i + 1)" using Suc(2) by simp
  have "(i - 1) * 1400 + 1400 = i * 1400" using Suc.prems by (cases i) auto
  moreover have "i * 1400 \<le> (k - 1) * 1400" using i by (intro mult_right_mono) auto
  ultimately have room: "(i - 1) * 1400 + 1400 \<le> length ?b" using Suc.prems by linarith
  obtain hdr s1 where s1: "put_fragment a 0 (frame_fu_ind (nFrame s))
      \<lparr>fu_TYPE = word_of_int (nal_unit_type (nFrame s)), fu_R = 0, fu_E = 0, fu_S = 0\<rparr>
      ((i - 1) * 1400) 1400 s = Inr s1" "length hdr = 12"
      "posted a [hdr @ nalu_header_byte (frame_fu_ind (nFrame s)) #
        fu_header_byte \<lparr>fu_TYPE = word_of_int (nal_unit_type (nFrame s)), fu_R = 0, fu_E = 0, fu_S = 0\<rparr> #
        take 1400 (drop ((i - 1) * 1400) ?b)] s s1"
    using put_fragment_run [OF room, of a 0 "frame_fu_ind (nFrame s)"
        "\<lparr>fu_TYPE = word_of_int (nal_unit_type (nFrame s)), fu_R = 0, fu_E = 0, fu_S = 0\<rparr>"] by auto
  have same: "nFrame s1 = nFrame s" using s1(3) by (simp add: posted_def)
  obtain ps s' where s': "send_middle a (i + 1) k s1 = Inr s'" "posted a ps s1 s'"
      "fu_cont_pkts 1500 ps (take ((k - (i + 1)) * 1400) (drop (i * 1400) ?b))"
    using Suc(1) [of "i + 1" s1] Suc_eq Suc.prems i same by auto
  have "take ((k - i) * 1400) (drop ((i - 1) * 1400) ?b) =
      take 1400 (drop ((i - 1) * 1400) ?b) @ take ((k - (i + 1)) * 1400) (drop (i * 1400) ?b)"
  proof -
    have "(k - i) * 1400 = 1400 + (k - (i + 1)) * 1400" using i by (simp add: algebra_simps)
    moreover have "drop 1400 (drop ((i - 1) * 1400) ?b) = drop (i * 1400) ?b"
      using \<open>(i - 1) * 1400 + 1400 = i * 1400\<close> by (simp add: add.commute)
    ultimately show ?thesis by (simp only: take_add)
  qed
  moreover have "send_middle a i k s = Inr s'"
    using i s1 s' by (subst send_middle.simps) (simp add: UDP_MAX_SIZE_def)
  ultimately show ?case
    using fu_cont_pkts_append [OF fu_cont_one s'(3)] posted_trans [OF s1(3) s'(2)] s1(2)
    by (intro exI) (auto simp: min_def)
qed

lemma frame_length:
  assumes "frame_holds n nal" "length nal < 2 ^ 32"
  shows "unat (nlen n) = length nal" "unat (nlen n - 1) = length nal - 1" "0 < length nal"
proof -
  show len: "unat (nlen n) = length nal"
    using assms by (simp add: frame_holds_def unsigned_of_nat take_bit_nat_eq_self)
  show pos: "0 < length nal" using assms by (auto simp: frame_holds_def)
  have "nlen n \<noteq> 0" using len pos by auto
  then show "unat (nlen n - 1) = length nal - 1" using len by (simp add: unat_minus_one)
qed

lemma send_single_run:
  assumes h: "frame_holds (nFrame s) nal" and len: "length nal \<le> 1400"
  shows "\<exists>hdr s'. send_single a s = Inr s' \<and> length hdr = 12 \<and> posted a [hdr @ nal] s s'"
proof -
  obtain hdr s1 where s1: "start_packet 0 s = (hdr @ replicate 1488 0, s1)" "length hdr = 12"
      "h264Bitstream s1 = h264Bitstream s" "nFrame s1 = nFrame s" "outbox s1 = outbox s"
    using start_packet_run by blast
  obtain x xs where nal: "nal = x # xs" using h by (cases nal) (auto simp: frame_holds_def)
  let ?b = "nbuf (nFrame s)"
  have b: "take (length nal) ?b = nal" "length nal \<le> length ?b" using h by (auto simp: frame_holds_def)
  then have "drop 1 (take (Suc (length xs)) ?b) = xs" by (simp add: nal)
  then have xs: "take (length xs) (drop 1 ?b) = xs" by (simp add: drop_take)
  have r: "replicate 1488 (0 :: byte) = 0 # replicate 1487 0"
    using replicate_Suc [of 1487 "0 :: byte"] by simp
  have w: "wr_block (hdr @ y # replicate 1487 0) 13 xs = Inr (hdr @ y # xs @ replicate (1487 - length xs) 0)"
    for y using len s1(2) nal by (simp add: overlay_def)
  have hd: "nalu_header_byte \<lparr>hdr_TYPE = word_of_int (nal_unit_type (nFrame s)),
      hdr_NRI = word_of_int (drop_bit 5 (nal_reference_idc (nFrame s))),
      hdr_F = word_of_int (drop_bit 7 (forbidden_bit (nFrame s)))\<rparr> = x"
    using h frame_bytes [of x] by (simp add: frame_holds_def nal)
  have rd: "rd_block ?b 1 (unat (nlen (nFrame s) - 1)) = Inr xs"
    using frame_length [OF h] len b xs by (simp add: nal)
  show ?thesis
    using s1 frame_length(1) [OF h] len rd
    by (intro exI [of _ hdr])
       (simp add: send_single_def r hd list_update_append w sendto_client_def posted_def nal)
qed

text \<open>The fragments together are the frame without its first byte.\<close>

lemma fragments_cover:
  assumes "2 \<le> k" "(k - 1) * 1400 < L"
  shows "take 1399 (drop 1 b) @ take ((k - 2) * 1400) (drop 1400 b) @
    take (L - (k - 1) * 1400) (drop ((k - 1) * 1400) b) = drop 1 (take L b)"
proof -
  define j where "j = k - 2"
  have j: "k - 1 = Suc j" "k - 2 = j" using assms(1) by (simp_all add: j_def)
  have le: "j * 1400 + 1400 < L" using assms(2) unfolding j by simp
  have "take ((k - 2) * 1400) (drop 1400 b) @ take (L - (k - 1) * 1400) (drop ((k - 1) * 1400) b) =
      take (j * 1400 + (L - (k - 1) * 1400)) (drop 1400 b)"
    unfolding j by (simp add: take_add add.commute)
  also have "j * 1400 + (L - (k - 1) * 1400) = L - 1400"
    using le unfolding j by simp
  finally have "take 1399 (drop 1 b) @ take ((k - 2) * 1400) (drop 1400 b) @
      take (L - (k - 1) * 1400) (drop ((k - 1) * 1400) b) =
      take 1399 (drop 1 b) @ take (L - 1400) (drop 1399 (drop 1 b))" by simp
  also have "\<dots> = take (1399 + (L - 1400)) (drop 1 b)" by (simp only: take_add)
  also have "1399 + (L - 1400) = L - 1" using le by simp
  finally show ?thesis by (simp add: drop_take)
qed

text \<open>The headers of the first fragment give a unit of the same type whose other header bits are lost.\<close>

lemma first_fragment_headers:
  fixes t :: byte
  defines "ind \<equiv> nalu_header_byte \<lparr>hdr_TYPE = 28, hdr_NRI = 0, hdr_F = 0\<rparr>"
    and "fu \<equiv> fu_header_byte \<lparr>fu_TYPE = nal_type t, fu_R = 0, fu_E = 0, fu_S = 1\<rparr>"
  shows "nal_type ind = 28" "nal_f ind = 0" "fu AND 0x80 \<noteq> 0" "fu AND 0x40 = 0"
    "fu_nal_header ind fu = nal_type t"
proof -
  show "nal_type ind = 28" "nal_f ind = 0"
    by (simp_all add: ind_def nal_type_def nal_f_def nalu_header_byte_def)
  have "bit (fu AND 0x80) 7" by (simp add: fu_def fu_header_byte_def byte_bits)
  then show "fu AND 0x80 \<noteq> 0" by auto
  show "fu AND 0x40 = 0" by (rule byte_eqI) (simp_all add: fu_def fu_header_byte_def byte_bits)
  show "fu_nal_header ind fu = nal_type t"
    by (intro byte_eqI)
       (simp_all add: ind_def fu_def fu_nal_header_def fu_header_byte_def nalu_header_byte_def nal_type_def byte_bits)
qed

text \<open>The number of fragments.\<close>

lemma fragment_count:
  fixes L :: nat
  assumes "1400 < L"
  defines "k \<equiv> L div 1400 + (if L mod 1400 \<noteq> 0 then 1 else 0)"
  shows "2 \<le> k" "(k - 1) * 1400 < L" "L \<le> k * 1400" "L - (k - 1) * 1400 \<le> 1400"
proof -
  have eq: "L div 1400 * 1400 + L mod 1400 = L" by (rule div_mult_mod_eq)
  have "L mod 1400 < 1400" by simp
  moreover obtain d r where "d = L div 1400" "r = L mod 1400" by blast
  ultimately show k: "2 \<le> k" "(k - 1) * 1400 < L" "L \<le> k * 1400"
    using eq assms(1) by (cases "r = 0"; cases d; simp add: k_def)+
  then show "L - (k - 1) * 1400 \<le> 1400" by (simp add: diff_mult_distrib)
qed

lemma send_fragments_run:
  assumes h: "frame_holds (nFrame s) nal" and len: "1400 < length nal" "length nal < 2 ^ 32"
  shows "\<exists>ps s'. send_fragments a s = Inr s' \<and> posted a ps s s' \<and> fu_pkts 1500 ps (udp_deliver nal)"
proof -
  let ?n = "nFrame s" and ?L = "length nal"
  let ?b = "nbuf ?n"
  define k where "k = ?L div 1400 + (if ?L mod 1400 \<noteq> 0 then 1 else 0)"
  note k = fragment_count [OF len(1), folded k_def]
  note last = k(4)
  have b: "take ?L ?b = nal" "?L \<le> length ?b" using h by (auto simp: frame_holds_def)
  let ?t = "word_of_int (nal_unit_type ?n) :: byte"
  let ?ind1 = "\<lparr>hdr_TYPE = 28, hdr_NRI = 0, hdr_F = 0\<rparr>"
  let ?fu1 = "\<lparr>fu_TYPE = ?t, fu_R = 0, fu_E = 0, fu_S = 1\<rparr>"
  let ?fu2 = "\<lparr>fu_TYPE = ?t, fu_R = 0, fu_E = 1, fu_S = 0\<rparr>"
  obtain h1 s1 where s1: "put_fragment a 0 ?ind1 ?fu1 1 1399 s = Inr s1" "length h1 = 12"
      "posted a [h1 @ nalu_header_byte ?ind1 # fu_header_byte ?fu1 # take 1399 (drop 1 ?b)] s s1"
    using put_fragment_run [of 1 1399 s a 0 ?ind1 ?fu1] b len by auto
  have n1: "nFrame s1 = ?n" using s1(3) by (simp add: posted_def)
  obtain ps s2 where s2: "send_middle a 2 k s1 = Inr s2" "posted a ps s1 s2"
      "fu_cont_pkts 1500 ps (take ((k - 2) * 1400) (drop 1400 ?b))"
    using send_middle_run [of 2 k s1 a] k b n1 by auto
  have n2: "nFrame s2 = ?n" using s2(2) n1 by (simp add: posted_def)
  have room: "(k - 1) * 1400 + (?L - (k - 1) * 1400) \<le> length (nbuf (nFrame s2))"
    using k b n2 by simp
  obtain h3 s3 where s3: "put_fragment a 1 (frame_fu_ind ?n) ?fu2 ((k - 1) * 1400) (?L - (k - 1) * 1400) s2 = Inr s3"
      "length h3 = 12"
      "posted a [h3 @ nalu_header_byte (frame_fu_ind ?n) # fu_header_byte ?fu2 #
        take (?L - (k - 1) * 1400) (drop ((k - 1) * 1400) ?b)] s2 s3"
    using put_fragment_run [OF room, of a 1 "frame_fu_ind ?n" ?fu2] last n2 by auto
  have run: "send_fragments a s = Inr s3"
  proof -
    have c: "(1400 :: nat) - 1 = 1399" "max 2 k = k" using k(1) by simp_all
    show ?thesis
      by (simp only: send_fragments_def Let_def UDP_MAX_SIZE_def frame_length(1) [OF h len(2)]
          k_def [symmetric] c s1(1) s2(1) s3(1) bind_res_Inr)
  qed
  let ?body = "take ((k - 2) * 1400) (drop 1400 ?b) @ take (?L - (k - 1) * 1400) (drop ((k - 1) * 1400) ?b)"
  let ?mid = "ps @ [h3 @ nalu_header_byte (frame_fu_ind ?n) # fu_header_byte ?fu2 #
        take (?L - (k - 1) * 1400) (drop ((k - 1) * 1400) ?b)]"
  have cont: "fu_cont_pkts 1500 ?mid ?body"
    using s3(2) last by (intro fu_cont_pkts_append s2(3) fu_cont_one) auto
  have all: "take 1399 (drop 1 ?b) @ ?body = tl nal"
    using fragments_cover [OF k(1,2), of ?b] b by (simp add: drop_Suc)
  have "?t = nal_type (hd nal)"
    using h by (simp add: frame_holds_def nal_type_def)
  then have hdr1: "nal_type (nalu_header_byte ?ind1) = 28" "nal_f (nalu_header_byte ?ind1) = 0"
      "fu_header_byte ?fu1 AND 0x80 \<noteq> 0" "fu_header_byte ?fu1 AND 0x40 = 0"
      "fu_nal_header (nalu_header_byte ?ind1) (fu_header_byte ?fu1) = nal_type (hd nal)"
    using first_fragment_headers(1,2) first_fragment_headers(3-5) [of "hd nal"] by simp_all
  have "fu_pkts 1500 ((h1 @ nalu_header_byte ?ind1 # fu_header_byte ?fu1 # take 1399 (drop 1 ?b)) # ?mid)
      (nal_type (hd nal) # take 1399 (drop 1 ?b) @ ?body)"
    using fu_start [OF s1(2) hdr1(1-4) _ cont, of "take 1399 (drop 1 ?b)"] hdr1(5) by simp
  then show ?thesis
    using run posted_trans [OF s1(3) posted_trans [OF s2(2) s3(3)]] len all
    by (intro exI [of _ s3] exI) (auto simp: udp_deliver_def UDP_MAX_SIZE_def)
qed

lemma send_frame_run:
  assumes "frame_holds (nFrame s) nal" "length nal < 2 ^ 32"
    "1 \<le> nal_type (hd nal)" "nal_type (hd nal) \<le> 23"
  shows "\<exists>ps s'. send_frame a s = Inr s' \<and> posted a ps s s' \<and> nal_pkts 1500 ps (udp_deliver nal)"
proof -
  let ?s = "s\<lparr>ts_current := ts_current s + 3600\<rparr>"
  have h: "frame_holds (nFrame ?s) nal" using assms(1) by simp
  have p: "posted a ps ?s s' = posted a ps s s'" for ps s' by (simp add: posted_def)
  show ?thesis
  proof (cases "length nal \<le> 1400")
    case True
    then obtain hdr s' where s': "send_single a ?s = Inr s'" "length hdr = 12" "posted a [hdr @ nal] ?s s'"
      using send_single_run [OF h] by blast
    have "nal_pkts 1500 [hdr @ nal] nal"
      using s'(2) assms True by (intro np_single) (auto simp: frame_holds_def)
    then show ?thesis
      using s' True frame_length(1) [OF assms(1,2)]
      by (intro exI [of _ "[hdr @ nal]"] exI [of _ s'])
         (simp add: send_frame_def UDP_MAX_SIZE_def udp_deliver_def p)
  next
    case False
    then show ?thesis
      using send_fragments_run [OF h _ assms(2), of a] frame_length(1) [OF assms(1,2)]
      by (auto simp: send_frame_def UDP_MAX_SIZE_def p intro!: np_fu)
  qed
qed

section \<open>Sending the file\<close>

text \<open>Nothing that a frame does touches the bit stream, so the loop over the file ends.\<close>

lemma put_fragment_stream:
  "put_fragment a m ind h off len s = Inr s' \<Longrightarrow>
   h264Bitstream s' = h264Bitstream s \<and> nFrame s' = nFrame s"
  by (auto simp: put_fragment_def start_packet_def sendto_client_def bind_res_eq_Inr Let_def)

lemma send_middle_stream:
  "send_middle a i k s = Inr s' \<Longrightarrow> h264Bitstream s' = h264Bitstream s \<and> nFrame s' = nFrame s"
proof (induction a i k s rule: send_middle.induct)
  case (1 a i k s)
  show ?case
  proof (cases "i < k")
    case True
    then obtain s1 where "put_fragment a 0 (frame_fu_ind (nFrame s))
        \<lparr>fu_TYPE = word_of_int (nal_unit_type (nFrame s)), fu_R = 0, fu_E = 0, fu_S = 0\<rparr>
        ((i - 1) * UDP_MAX_SIZE) UDP_MAX_SIZE s = Inr s1" "send_middle a (i + 1) k s1 = Inr s'"
      using "1.prems" by (auto simp: send_middle.simps [of a i k s] bind_res_eq_Inr)
    then show ?thesis using "1.IH" [OF True] put_fragment_stream by metis
  next
    case False
    then show ?thesis using "1.prems" by (simp add: send_middle.simps [of a i k s])
  qed
qed

lemma send_frame_stream:
  assumes "send_frame a s = Inr s'"
  shows "h264Bitstream s' = h264Bitstream s \<and> nFrame s' = nFrame s"
proof -
  let ?s = "s\<lparr>ts_current := ts_current s + 3600\<rparr>"
  consider "send_single a ?s = Inr s'" | "send_fragments a ?s = Inr s'"
    using assms by (auto simp: send_frame_def Let_def split: if_splits)
  then show ?thesis
  proof cases
    case 1
    then show ?thesis
      by (auto simp: send_single_def start_packet_def sendto_client_def bind_res_eq_Inr Let_def)
  next
    case 2
    then show ?thesis
      by (auto simp: send_fragments_def bind_res_eq_Inr Let_def
          dest!: put_fragment_stream send_middle_stream)
  qed
qed

text \<open>\<^verbatim>\<open>while(!feof(h264Bitsream))\<close>; the return code of \<^verbatim>\<open>GetAnnexbNALU\<close> is ignored.\<close>

function stream_loop :: "(nat \<Rightarrow> bool) \<Rightarrow> addr \<Rightarrow> udp_state \<Rightarrow> udp_state res" where
  "stream_loop mem clientaddr s =
     (if at_eof (h264Bitstream s) then Inr s
      else
        bind_res (GetAnnexbNALU mem (nFrame s) (h264Bitstream s)) (\<lambda>(n, f, _).
        bind_res (send_frame clientaddr (s\<lparr>nFrame := n, h264Bitstream := f\<rparr>)) (\<lambda>s.
        stream_loop mem clientaddr s)))"
  by pat_completeness auto
termination
proof (relation "measure (\<lambda>(mem, a, s). let f = h264Bitstream s in
    if at_eof f then 0 else Suc (length (contents f) - fpos f))", goal_cases)
  case (2 mem a s x n y f r s')
  then show ?case
    using GetAnnexbNALU_progress [of mem "nFrame s" "h264Bitstream s" n f r]
      send_frame_stream [of a "s\<lparr>nFrame := n, h264Bitstream := f\<rparr>" s']
    by (auto simp: Let_def)
qed auto

declare stream_loop.simps [simp del]

text \<open>
  \<^verbatim>\<open>while(isCircle > 0)\<close>: the file is sent \<^verbatim>\<open>isCircle\<close> times and the operator is then asked for
  the next number; \<open>inputs\<close> is what \<^verbatim>\<open>scanf("%d", &isCircle)\<close> reads, \<open>None\<close> when it finds no
  number and leaves the 0.
\<close>

function circle_loop ::
  "(nat \<Rightarrow> bool) \<Rightarrow> addr \<Rightarrow> int \<Rightarrow> int option list \<Rightarrow> udp_state \<Rightarrow> (int option list \<times> udp_state) res"
where
  "circle_loop mem clientaddr isCircle inputs s =
     (if isCircle > 0 then
        (let isCircle = isCircle - 1 in
         bind_res (stream_loop mem clientaddr s) (\<lambda>s.
         let s = s\<lparr>h264Bitstream := frewind (h264Bitstream s)\<rparr> in
         if isCircle = 0 then
           (case inputs of
              [] \<Rightarrow> Inr ([], s)
            | i # inputs \<Rightarrow>
                circle_loop mem clientaddr (case i of None \<Rightarrow> 0 | Some k \<Rightarrow> k) inputs s)
         else circle_loop mem clientaddr isCircle inputs s))
      else Inr (inputs, s))"
  by pat_completeness auto
termination
  by (relation "measures [\<lambda>(mem, a, i, inputs, s). length inputs, \<lambda>(mem, a, i, inputs, s). nat i]") auto

declare circle_loop.simps [simp del]

text \<open>
  One turn of the endless loop of \<^verbatim>\<open>main\<close>, for what \<^verbatim>\<open>recvfrom\<close> delivers: at most 50 bytes are
  kept, and the terminating zero is stored behind them.
\<close>

definition serve_request ::
  "(nat \<Rightarrow> bool) \<Rightarrow> int option list \<times> udp_state \<Rightarrow> (addr \<times> byte list) option \<Rightarrow>
   (int option list \<times> udp_state) res" where
  "serve_request mem st req =
     (case req of
        None \<Rightarrow> Inl Exited
      | Some (clientaddr, d) \<Rightarrow>
          (let req_buf = overlay (replicate 50 0) 0 (take 50 d); req_len = length (take 50 d) in
           bind_res (wr req_buf req_len 0) (\<lambda>req_buf.
           circle_loop mem clientaddr 1 (fst st) (snd st))))"

definition udp_server_main ::
  "string list \<Rightarrow> (nat \<Rightarrow> bool) \<Rightarrow> (string \<Rightarrow> byte list option) \<Rightarrow> int \<Rightarrow> int \<Rightarrow> int option list \<Rightarrow>
   (addr \<times> byte list) option list \<Rightarrow> (int option list \<times> udp_state) res" where
  "udp_server_main argv mem fs os_socket os_bind inputs requests =
     (if length argv \<noteq> 3 then Inl Exited
      else if os_socket = -1 then Inl Exited
      else if os_bind < 0 then Inl Exited
      else
        (case fs (argv ! 1) of
           None \<Rightarrow> Inl Exited
         | Some c \<Rightarrow>
             bind_res (AllocNALU mem BUFFER_SIZE) (\<lambda>n.
             fold_res (serve_request mem)
               (inputs, \<lparr>h264Bitstream = \<lparr>contents = c, fpos = 0, at_eof = False\<rparr>, nFrame = n,
                         seq_num = 0, ts_current = 0, outbox = []\<rparr>) requests)))"

section \<open>A well-formed file\<close>

text \<open>The units as the server reads them: the last one gets the \<^verbatim>\<open>EOF\<close> byte.\<close>

fun udp_read :: "byte list list \<Rightarrow> byte list list" where
  "udp_read [] = []"
| "udp_read [nal] = [nal @ [0xFF]]"
| "udp_read (nal # nal' # nals) = nal # udp_read (nal' # nals)"

definition udp_ok :: "byte list \<Rightarrow> bool" where
  "udp_ok nal \<longleftrightarrow> nal_ok nal \<and> 1 \<le> nal_type (hd nal) \<and> nal_type (hd nal) \<le> 23 \<and>
     length nal \<le> BUFFER_SIZE - 8"

definition full_buffer :: "NALU_t \<Rightarrow> bool" where
  "full_buffer n \<longleftrightarrow> max_size n = 200000 \<and> length (nbuf n) = 200000"

lemma full_buffer_same: "same_buffer n n' \<Longrightarrow> full_buffer n \<Longrightarrow> full_buffer n'"
  by (simp add: same_buffer_def full_buffer_def)

text \<open>One turn of the loop for a frame that was read.\<close>

lemma stream_turn:
  assumes "GetAnnexbNALU mem (nFrame s) (h264Bitstream s) = Inr (n, f, r)" "\<not> at_eof (h264Bitstream s)"
    "frame_holds n nal" "length nal < 2 ^ 32" "1 \<le> nal_type (hd nal)" "nal_type (hd nal) \<le> 23"
  shows "\<exists>ps s'. stream_loop mem a s = stream_loop mem a s' \<and> h264Bitstream s' = f \<and> nFrame s' = n \<and>
    outbox s' = outbox s @ map (Pair a) ps \<and> nal_pkts 1500 ps (udp_deliver nal)"
proof -
  let ?s = "s\<lparr>nFrame := n, h264Bitstream := f\<rparr>"
  obtain ps s' where s': "send_frame a ?s = Inr s'" "posted a ps ?s s'" "nal_pkts 1500 ps (udp_deliver nal)"
    using send_frame_run [of ?s nal a] assms by auto
  moreover have "stream_loop mem a s = stream_loop mem a s'"
    using assms s'(1) by (subst stream_loop.simps) simp
  ultimately show ?thesis by (auto simp: posted_def)
qed

lemma stream_loop_run:
  assumes "contents (h264Bitstream s) = pre @ annexb xs" "fpos (h264Bitstream s) = length pre"
    "\<not> at_eof (h264Bitstream s)" "xs \<noteq> []" "\<forall>(long, nal) \<in> set xs. udp_ok nal"
    "full_buffer (nFrame s)" "mem 200000"
  shows "\<exists>ps s'. stream_loop mem a s = Inr s' \<and> outbox s' = outbox s @ map (Pair a) ps \<and>
    stream_pkts 1500 ps (map udp_deliver (udp_read (map snd xs))) \<and>
    contents (h264Bitstream s') = contents (h264Bitstream s) \<and> full_buffer (nFrame s')"
  using assms
proof (induction xs arbitrary: pre s)
  case Nil
  then show ?case by simp
next
  case (Cons x xs)
  obtain l nal where x: "x = (l, nal)" by (cases x)
  have nal: "udp_ok nal" "nal_ok nal" "length nal \<le> 199992" "nal \<noteq> []"
    using Cons.prems x by (auto simp: udp_ok_def BUFFER_SIZE_def nal_ok_def)
  have fb: "unat (max_size (nFrame s)) = 200000" "length (nbuf (nFrame s)) = 200000"
    using Cons.prems(6) by (simp_all add: full_buffer_def)
  show ?case
  proof (cases xs)
    case Nil
    let ?f = "(h264Bitstream s)\<lparr>fpos := length (contents (h264Bitstream s)), at_eof := True\<rparr>"
    obtain n r where n: "GetAnnexbNALU mem (nFrame s) (h264Bitstream s) = Inr (n, ?f, r)"
        "frame_holds n (nal @ [0xFF])" "same_buffer (nFrame s) n"
      using GetAnnexbNALU_last [of "h264Bitstream s" pre l nal mem "nFrame s"] Cons.prems fb nal x Nil
      by auto
    obtain ps s' where s': "stream_loop mem a s = stream_loop mem a s'" "h264Bitstream s' = ?f"
        "nFrame s' = n" "outbox s' = outbox s @ map (Pair a) ps"
        "nal_pkts 1500 ps (udp_deliver (nal @ [0xFF]))"
      using stream_turn [OF n(1) Cons.prems(3) n(2), of a] nal by (auto simp: udp_ok_def)
    have "stream_loop mem a s' = Inr s'" by (subst stream_loop.simps) (simp add: s')
    moreover have "stream_pkts 1500 ps [udp_deliver (nal @ [0xFF])]"
      using sp_Cons [OF s'(5) sp_Nil] by simp
    ultimately show ?thesis
      using s' full_buffer_same [OF n(3) Cons.prems(6)] x Nil by (intro exI [of _ ps] exI [of _ s']) auto
  next
    case (Cons y ys)
    obtain l' nal' where y: "y = (l', nal')" by (cases y)
    let ?pre = "pre @ start_code l @ nal"
    let ?f = "(h264Bitstream s)\<lparr>fpos := length ?pre, at_eof := False\<rparr>"
    obtain n r where n: "GetAnnexbNALU mem (nFrame s) (h264Bitstream s) = Inr (n, ?f, r)"
        "frame_holds n nal" "same_buffer (nFrame s) n"
      using GetAnnexbNALU_next [of "h264Bitstream s" pre l nal l' "nal' @ annexb ys" mem "nFrame s"]
        Cons.prems fb nal x y Cons by (auto simp: add.assoc)
    obtain ps s1 where s1: "stream_loop mem a s = stream_loop mem a s1" "h264Bitstream s1 = ?f"
        "nFrame s1 = n" "outbox s1 = outbox s @ map (Pair a) ps" "nal_pkts 1500 ps (udp_deliver nal)"
      using stream_turn [OF n(1) Cons.prems(3) n(2), of a] nal by (auto simp: udp_ok_def)
    obtain qs s' where s': "stream_loop mem a s1 = Inr s'" "outbox s' = outbox s1 @ map (Pair a) qs"
        "stream_pkts 1500 qs (map udp_deliver (udp_read (map snd xs)))"
        "contents (h264Bitstream s') = contents (h264Bitstream s1)" "full_buffer (nFrame s')"
      using Cons.IH [of s1 ?pre] Cons.prems s1 full_buffer_same [OF n(3) Cons.prems(6)] x Cons by auto
    have "stream_pkts 1500 (ps @ qs) (udp_deliver nal # map udp_deliver (udp_read (map snd xs)))"
      using sp_Cons [OF s1(5) s'(3)] .
    then show ?thesis
      using s1 s' x y Cons by (intro exI [of _ "ps @ qs"] exI [of _ s']) auto
  qed
qed

end
