(* ===== verification/UdpClient.thy ===== *)
theory UdpClient
  imports UdpHeaders
begin

text \<open>
  \<^verbatim>\<open>udp_h264/Client.c\<close>: the receiver of the UDP server.  \<^verbatim>\<open>decode_rtp2h264\<close> appends what an RTP
  packet carries to the output file; the loop of \<^verbatim>\<open>main\<close> receives datagrams into \<^verbatim>\<open>buf\<close> and
  decodes them.  The state holds the two counters that are printed (their overflow after
  \<open>2 ^ 31\<close> bytes is modelled as wrap-around), the bytes written to the file, and \<^verbatim>\<open>buf\<close>.
  Printing is left out, with \<^verbatim>\<open>print_time\<close> and \<^verbatim>\<open>show_buf\<close>, which only print.
\<close>

section \<open>The code\<close>

record client =
  rtpnum :: u32
  nalu_len :: u32
  savefp :: "byte list"
  rbuf :: "byte list"

definition RECEIVE_BUF_SIZE :: nat where "RECEIVE_BUF_SIZE = 1500"

text \<open>\<^verbatim>\<open>fwrite(p, 1, cnt, savefp)\<close>, with the \<^verbatim>\<open>int\<close> \<open>cnt\<close> converted to \<^verbatim>\<open>size_t\<close>.\<close>

definition fwrite_save :: "byte list \<Rightarrow> nat \<Rightarrow> int \<Rightarrow> client \<Rightarrow> client res" where
  "fwrite_save mem p cnt s =
     bind_res (rd_block mem p (unat (word_of_int cnt :: u64))) (\<lambda>d.
     Inr (s\<lparr>savefp := savefp s @ d\<rparr>))"

definition fputc_save :: "byte \<Rightarrow> client \<Rightarrow> client" where
  "fputc_save b s = s\<lparr>savefp := savefp s @ [b]\<rparr>"

definition decode_rtp2h264 :: "byte list \<Rightarrow> int \<Rightarrow> client \<Rightarrow> client res" where
  "decode_rtp2h264 rtp_buf len s =
     bind_res (rd rtp_buf 12) (\<lambda>b12.
     let nalu_header = nalu_header_of b12 in
     if hdr_TYPE nalu_header = 28 then
       bind_res (rd rtp_buf 13) (\<lambda>b13.
       let fu_header = fu_header_of b13;
           s = s\<lparr>nalu_len := nalu_len s + word_of_int len - 14\<rparr> in
       if fu_E fu_header = 1 then
         bind_res (fwrite_save rtp_buf 14 (len - 14) s) (\<lambda>s.
         Inr (s\<lparr>rtpnum := rtpnum s + 1, nalu_len := 0\<rparr>))
       else if fu_S fu_header = 1 then
         (let s = fputc_save 1 (fputc_save 0 (fputc_save 0 (fputc_save 0 s)));
              h264_nal_header = (fu_TYPE fu_header AND 0x1f) OR push_bit 5 (hdr_NRI nalu_header) OR
                push_bit 7 (hdr_F nalu_header);
              s = fputc_save h264_nal_header s
          in fwrite_save rtp_buf 14 (len - 14) s)
       else fwrite_save rtp_buf 14 (len - 14) s)
     else
       (let s = fputc_save 1 (fputc_save 0 (fputc_save 0 (fputc_save 0 s)));
            h264_nal_header = (hdr_TYPE nalu_header AND 0x1f) OR push_bit 5 (hdr_NRI nalu_header) OR
              push_bit 7 (hdr_F nalu_header);
            s = s\<lparr>rtpnum := rtpnum s + 1\<rparr>;
            s = fputc_save h264_nal_header s
        in fwrite_save rtp_buf 13 (len - 13) s))"

text \<open>\<^verbatim>\<open>recvfrom(fd, buf, sizeof(buf), ...)\<close>: what does not fit is dropped.\<close>

definition recv_into :: "byte list \<Rightarrow> client \<Rightarrow> client" where
  "recv_into d s = s\<lparr>rbuf := overlay (rbuf s) 0 (take (length (rbuf s)) d)\<rparr>"

text \<open>
  One turn of the loop; \<open>None\<close> is a failed \<^verbatim>\<open>recvfrom\<close>.  The length that is handed on is the
  variable \<^verbatim>\<open>ret\<close> of \<^verbatim>\<open>main\<close>, which nothing ever assigns, and not \<^verbatim>\<open>recv_length\<close>.
\<close>

definition client_turn :: "int \<Rightarrow> client \<Rightarrow> byte list option \<Rightarrow> client res" where
  "client_turn ret s d =
     (case d of
        None \<Rightarrow> Inr s
      | Some d \<Rightarrow> (let s = recv_into d s in decode_rtp2h264 (rbuf s) ret s))"

text \<open>
  \<^verbatim>\<open>main\<close>: \<^verbatim>\<open>ret\<close> and \<^verbatim>\<open>buf0\<close> are the uninitialised local variables, \<^verbatim>\<open>recvs\<close> what
  \<^verbatim>\<open>recvfrom\<close> delivers; the result is the state of the endless loop after that.
\<close>

definition client_main ::
  "string list \<Rightarrow> bool \<Rightarrow> int \<Rightarrow> int \<Rightarrow> byte list \<Rightarrow> byte list option list \<Rightarrow> client res" where
  "client_main argv fopen_ok socket ret buf0 recvs =
     (if length argv \<noteq> 4 then Inl Exited
      else if \<not> fopen_ok then Inl Exited
      else if socket < 0 then Inl Exited
      else fold_res (client_turn ret) \<lparr>rtpnum = 0, nalu_len = 0, savefp = [], rbuf = buf0\<rparr> recvs)"

section \<open>One packet\<close>

definition client_ok :: "client \<Rightarrow> bool" where
  "client_ok s \<longleftrightarrow> length (rbuf s) = RECEIVE_BUF_SIZE"

text \<open>Receiving a datagram and decoding it with its own length.\<close>

definition client_recv :: "client \<Rightarrow> byte list \<Rightarrow> client res" where
  "client_recv s d = (let s = recv_into d s in decode_rtp2h264 (rbuf s) (int (length d)) s)"

lemma fwrite_save_run:
  assumes "0 \<le> cnt" "nat cnt + p \<le> length mem" "cnt < 2 ^ 64"
  shows "fwrite_save mem p cnt s = Inr (s\<lparr>savefp := savefp s @ take (nat cnt) (drop p mem)\<rparr>)"
proof -
  have "unat (word_of_int cnt :: u64) = nat cnt"
    using assms(1,3) by (simp add: unsigned_of_int take_bit_int_eq_self)
  then show ?thesis using assms(2) by (simp add: fwrite_save_def add.commute)
qed

lemma nal_header_rebuilt:
  "(hdr_TYPE (nalu_header_of b) AND 0x1f) OR push_bit 5 (hdr_NRI (nalu_header_of b)) OR
     push_bit 7 (hdr_F (nalu_header_of b)) = b"
  by (rule byte_eqI) (simp_all add: nalu_header_of_def byte_bits)

lemma fu_nal_header_rebuilt:
  assumes "nal_f ind = 0"
  shows "(fu_TYPE (fu_header_of h) AND 0x1f) OR push_bit 5 (hdr_NRI (nalu_header_of ind)) OR
     push_bit 7 (hdr_F (nalu_header_of ind)) = fu_nal_header ind h"
proof -
  have "\<not> bit (nal_f ind) 7" using assms by simp
  then have "\<not> bit ind 7" by (simp add: nal_f_def byte_bits)
  then show ?thesis
    by (intro byte_eqI) (simp_all add: nalu_header_of_def fu_header_of_def fu_nal_header_def byte_bits)
qed

lemma fu_flags:
  "fu_S (fu_header_of h) = (if h AND 0x80 = 0 then 0 else 1)"
  "fu_E (fu_header_of h) = (if h AND 0x40 = 0 then 0 else 1)"
  by (cases "bit h 7"; cases "bit h 6"; auto simp: fu_header_of_def byte_bits drop7_and1
        intro!: byte_eqI dest: arg_cong [where f = "\<lambda>b. bit b 6"])+

lemma hdr_TYPE_nal_type [simp]: "hdr_TYPE (nalu_header_of b) = nal_type b"
  by (simp add: nalu_header_of_def nal_type_def)

lemma client_ok_simps [simp]:
  "client_ok (s\<lparr>savefp := x\<rparr>) = client_ok s" "client_ok (s\<lparr>rtpnum := r\<rparr>) = client_ok s"
  "client_ok (s\<lparr>nalu_len := k\<rparr>) = client_ok s"
  by (simp_all add: client_ok_def)

lemma recv_into_ok:
  assumes "client_ok s" "length d \<le> 1500"
  shows "recv_into d s = s\<lparr>rbuf := d @ drop (length d) (rbuf s)\<rparr>" "client_ok (recv_into d s)"
    "length (rbuf s) = 1500"
  using assms by (simp_all add: recv_into_def client_ok_def RECEIVE_BUF_SIZE_def overlay_def)

lemma decode_single:
  assumes "length hdr = 12" "nal \<noteq> []" "nal_type (hd nal) \<noteq> 28" "12 + length nal < 2 ^ 64"
  shows "\<exists>r. decode_rtp2h264 (hdr @ nal @ rest) (12 + int (length nal)) s =
    Inr (s\<lparr>savefp := savefp s @ [0, 0, 0, 1] @ nal, rtpnum := r\<rparr>)"
proof -
  obtain b xs where nal: "nal = b # xs" using assms(2) by (cases nal) auto
  have 12: "rd (hdr @ nal @ rest) 12 = Inr b" using assms(1) by (simp add: nal nth_append)
  have "fwrite_save (hdr @ nal @ rest) 13 (int (length xs)) t = Inr (t\<lparr>savefp := savefp t @ xs\<rparr>)" for t
    using assms(1,4) nal by (subst fwrite_save_run) (auto simp: nal)
  moreover have "\<exists>r. s\<lparr>rtpnum := a, savefp := x\<rparr> = s\<lparr>savefp := x, rtpnum := r\<rparr>" for a x
    by (cases s) auto
  ultimately show ?thesis
    using assms(3) nal_header_rebuilt [of b]
    by (simp add: decode_rtp2h264_def 12 fputc_save_def Let_def) (simp add: nal)
qed

lemma decode_fu:
  assumes "length hdr = 12" "nal_type ind = 28" "14 + length body < 2 ^ 64"
    "h AND 0x80 \<noteq> 0 \<Longrightarrow> h AND 0x40 = 0 \<and> nal_f ind = 0"
  shows "\<exists>r k. decode_rtp2h264 (hdr @ ind # h # body @ rest) (14 + int (length body)) s =
    Inr (s\<lparr>savefp := savefp s @
      (if h AND 0x80 = 0 then body else [0, 0, 0, 1] @ fu_nal_header ind h # body),
      rtpnum := r, nalu_len := k\<rparr>)"
proof -
  let ?b = "hdr @ ind # h # body @ rest"
  have 12: "rd ?b 12 = Inr ind" "rd ?b 13 = Inr h" using assms(1) by (simp_all add: nth_append)
  have w: "fwrite_save ?b 14 (int (length body)) t = Inr (t\<lparr>savefp := savefp t @ body\<rparr>)" for t
    using assms(1,3) by (subst fwrite_save_run) auto
  have len: "14 + int (length body) - 14 = int (length body)" by simp
  have rebuild: "h AND 0x80 \<noteq> 0 \<Longrightarrow> (fu_TYPE (fu_header_of h) AND 0x1f) OR
      push_bit 5 (hdr_NRI (nalu_header_of ind)) OR push_bit 7 (hdr_F (nalu_header_of ind)) =
      fu_nal_header ind h"
    using fu_nal_header_rebuilt assms(4) by blast
  have upd: "\<exists>r k. Inr (s\<lparr>nalu_len := a, savefp := x, rtpnum := b, nalu_len := c\<rparr>) =
      (Inr (s\<lparr>savefp := x, rtpnum := r, nalu_len := k\<rparr>) :: client res)"
    "\<exists>r k. Inr (s\<lparr>nalu_len := a, savefp := x\<rparr>) =
      (Inr (s\<lparr>savefp := x, rtpnum := r, nalu_len := k\<rparr>) :: client res)" for a b c x
    by (cases s; auto)+
  show ?thesis
  proof (cases "h AND 0x80 = 0")
    case True
    then show ?thesis
      using upd by (simp add: decode_rtp2h264_def 12 len w fu_flags Let_def assms(2))
  next
    case False
    then show ?thesis
      using upd assms(4) rebuild
      by (simp add: decode_rtp2h264_def 12 len w fu_flags fputc_save_def Let_def assms(2))
  qed
qed

interpretation client: nal_depacketizer client_recv savefp client_ok RECEIVE_BUF_SIZE
proof
  fix s :: client and hdr body nal :: "byte list" and ind fuh :: byte
  assume ok: "client_ok s" and hdr: "length hdr = 12"
  have rbuf: "length (rbuf s) = 1500" using ok by (simp add: client_ok_def RECEIVE_BUF_SIZE_def)
  note recv = recv_into_ok [OF ok] rbuf
  {
    assume "nal_type ind = 28" "nal_f ind = 0" "fuh AND 0x80 \<noteq> 0" "fuh AND 0x40 = 0"
      "14 + length body \<le> RECEIVE_BUF_SIZE"
    then show "\<exists>s'. client_recv s (hdr @ ind # fuh # body) = Inr s' \<and> client_ok s' \<and>
        savefp s' = savefp s @ [0, 0, 0, 1] @ fu_nal_header ind fuh # body"
      using decode_fu [OF hdr, of ind body fuh "drop (14 + length body) (rbuf s)"
          "recv_into (hdr @ ind # fuh # body) s"] recv hdr
      by (auto simp: client_recv_def RECEIVE_BUF_SIZE_def recv Let_def client_ok_def)
  next
    assume "nal_type ind = 28" "fuh AND 0x80 = 0" "14 + length body \<le> RECEIVE_BUF_SIZE"
    then show "\<exists>s'. client_recv s (hdr @ ind # fuh # body) = Inr s' \<and> client_ok s' \<and>
        savefp s' = savefp s @ body"
      using decode_fu [OF hdr, of ind body fuh "drop (14 + length body) (rbuf s)"
          "recv_into (hdr @ ind # fuh # body) s"] recv hdr
      by (auto simp: client_recv_def RECEIVE_BUF_SIZE_def recv Let_def client_ok_def)
  next
    assume "nal \<noteq> []" "1 \<le> nal_type (hd nal)" "nal_type (hd nal) \<le> 23"
      "12 + length nal \<le> RECEIVE_BUF_SIZE"
    moreover from this have "nal_type (hd nal) \<noteq> 28" by auto
    ultimately show "\<exists>s'. client_recv s (hdr @ nal) = Inr s' \<and> client_ok s' \<and>
        savefp s' = savefp s @ [0, 0, 0, 1] @ nal"
      using decode_single [OF hdr, of nal "drop (12 + length nal) (rbuf s)"
          "recv_into (hdr @ nal) s"] recv hdr
      by (auto simp: client_recv_def RECEIVE_BUF_SIZE_def recv Let_def client_ok_def)
  }
qed

section \<open>Properties\<close>

text \<open>
  C19: Fed with packets of at most 1500 bytes that carry NAL units as RFC 6184 says, singly or
  in FU-A fragments, and called with the length of each packet, \<^verbatim>\<open>decode_rtp2h264\<close> appends to
  the file exactly those NAL units, each after a 4-byte start code.
\<close>

theorem client_decodes_stream:
  assumes "stream_pkts RECEIVE_BUF_SIZE ps nals" "length (rbuf s) = RECEIVE_BUF_SIZE"
  shows "\<exists>s'. fold_res client_recv s ps = Inr s' \<and> savefp s' = savefp s @ annexb4 nals"
  using client.feed_stream [OF assms(1), of s] assms(2) by (auto simp: client_ok_def)

theorem client_decodes_stream_witness:
  "\<exists>s'. fold_res client_recv \<lparr>rtpnum = 0, nalu_len = 0, savefp = [9], rbuf = replicate 1500 0\<rparr>
      [replicate 12 0 @ [0x7C, 0x85, 1, 2], replicate 12 0 @ [0x7C, 0x45, 3]] = Inr s' \<and>
    savefp s' = [9, 0, 0, 0, 1, 0x65, 1, 2, 3]"
proof -
  have c: "fu_cont_pkts 1500 [replicate 12 0 @ [0x7C, 0x45, 3]] [3]"
    using fc_Cons [of "replicate 12 0" "0x7C" "0x45" "[3]" 1500 "[]" "[]"]
    by (simp add: fc_Nil nal_type_def)
  have "fu_pkts 1500 [replicate 12 0 @ [0x7C, 0x85, 1, 2], replicate 12 0 @ [0x7C, 0x45, 3]]
      [0x65, 1, 2, 3]"
    using fu_start [of "replicate 12 0" "0x7C" "0x85" "[1, 2]" 1500, OF _ _ _ _ _ _ c]
    by (simp add: nal_type_def nal_f_def fu_nal_header_def)
  then have "stream_pkts 1500 [replicate 12 0 @ [0x7C, 0x85, 1, 2], replicate 12 0 @ [0x7C, 0x45, 3]]
      [[0x65, 1, 2, 3]]"
    using sp_Cons [OF np_fu sp_Nil, of 1500] by auto
  then show ?thesis
    using client_decodes_stream [where nals = "[[0x65, 1, 2, 3]]" and
        ps = "[replicate 12 0 @ [0x7C, 0x85, 1, 2], replicate 12 0 @ [0x7C, 0x45, 3]]" and
        s = "\<lparr>rtpnum = 0, nalu_len = 0, savefp = [9], rbuf = replicate 1500 0\<rparr>"]
    by (simp add: RECEIVE_BUF_SIZE_def)
qed

lemma fwrite_save_negative:
  assumes "cnt < 0" "- (2 ^ 31) \<le> cnt" "length mem \<le> 2 ^ 31"
  shows "fwrite_save mem p cnt s = Inl Read_Overflow"
proof -
  have "cnt mod 2 ^ 64 = cnt + 2 ^ 64"
    using assms(1,2) by (intro int_mod_pos_eq [where q = "-1"]) auto
  then have "2 ^ 31 < unat (word_of_int cnt :: u64)"
    using assms(2) by (simp add: unsigned_of_int take_bit_eq_mod nat_less_iff zless_nat_eq_int_zless)
  then show ?thesis using assms(3) by (simp add: fwrite_save_def rd_block_def)
qed

lemma fwrite_save_beyond:
  assumes "0 \<le> cnt" "cnt < 2 ^ 64" "length mem < nat cnt + p"
  shows "fwrite_save mem p cnt s = Inl Read_Overflow"
proof -
  have "unat (word_of_int cnt :: u64) = nat cnt"
    using assms(1,2) by (simp add: unsigned_of_int take_bit_int_eq_self)
  then show ?thesis using assms(3) by (simp add: fwrite_save_def rd_block_def)
qed

text \<open>
  C28: The loop of \<^verbatim>\<open>main\<close> decodes each datagram with the length in the variable \<^verbatim>\<open>ret\<close>, which it
  never sets: for a datagram with a single NAL unit it writes \<^verbatim>\<open>ret - 12\<close> bytes of its buffer to
  the file, whatever the length of the datagram, and reads past the buffer when \<^verbatim>\<open>ret\<close> happens to
  be less than 13 or more than 1500.
\<close>

theorem client_main_ignores_length:
  assumes "length argv = 4" "0 \<le> socket" "length buf0 = RECEIVE_BUF_SIZE"
    "12 < length d" "length d \<le> RECEIVE_BUF_SIZE" "nal_type (d ! 12) \<noteq> 28"
    "- (2 ^ 31) \<le> ret - 13" "ret < 2 ^ 31"
  shows "map_sum id savefp (client_main argv True socket ret buf0 [Some d]) =
    (if 13 \<le> ret \<and> ret \<le> int RECEIVE_BUF_SIZE
     then Inr ([0, 0, 0, 1] @ take (nat ret - 12) (drop 12 (d @ drop (length d) buf0)))
     else Inl Read_Overflow)"
proof -
  let ?b = "d @ drop (length d) buf0"
  have b: "length ?b = 1500" "rd ?b 12 = Inr (d ! 12)" "12 < length ?b" "?b ! 12 = d ! 12"
    using assms(3-5) by (simp_all add: RECEIVE_BUF_SIZE_def nth_append)
  have recv: "recv_into d \<lparr>rtpnum = r, nalu_len = l, savefp = x, rbuf = buf0\<rparr> =
      \<lparr>rtpnum = r, nalu_len = l, savefp = x, rbuf = ?b\<rparr>" for r l x
    using assms(3,5) by (simp add: recv_into_def overlay_def)
  have hd: "take (nat ret - 12) (drop 12 ?b) = d ! 12 # take (nat ret - 13) (drop 13 ?b)" if "13 \<le> ret"
  proof -
    have "drop 12 ?b = d ! 12 # drop 13 ?b" using Cons_nth_drop_Suc [OF b(3)] b(4) by simp
    moreover have "nat ret - 12 = Suc (nat ret - 13)" using that by linarith
    ultimately show ?thesis by (simp only: take_Suc_Cons)
  qed
  consider "13 \<le> ret" "ret \<le> 1500" | "ret < 13" | "1500 < ret" by linarith
  then show ?thesis
  proof cases
    case 1
    then have "fwrite_save ?b 13 (ret - 13) t = Inr (t\<lparr>savefp := savefp t @ take (nat ret - 13) (drop 13 ?b)\<rparr>)" for t
      using b(1) by (subst fwrite_save_run) (auto simp: nat_diff_distrib)
    then show ?thesis
      using assms(1,2,6) 1 hd nal_header_rebuilt [of "d ! 12"]
      by (simp add: client_main_def client_turn_def recv decode_rtp2h264_def b(2) fputc_save_def
          RECEIVE_BUF_SIZE_def Let_def)
  next
    case 2
    then have "fwrite_save ?b 13 (ret - 13) t = Inl Read_Overflow" for t
      using b(1) assms(7) by (intro fwrite_save_negative) auto
    then show ?thesis
      using assms(1,2,6) 2
      by (simp add: client_main_def client_turn_def recv decode_rtp2h264_def b(2) Let_def)
  next
    case 3
    then have "fwrite_save ?b 13 (ret - 13) t = Inl Read_Overflow" for t
      using b(1) assms(8) by (intro fwrite_save_beyond) auto
    then show ?thesis
      using assms(1,2,6) 3
      by (simp add: client_main_def client_turn_def recv decode_rtp2h264_def b(2)
          RECEIVE_BUF_SIZE_def Let_def)
  qed
qed

theorem client_main_ignores_length_witness:
  "map_sum id savefp (client_main [''c'', ''f'', ''h'', ''1''] True 3 15 (replicate 1500 7)
      [Some (replicate 12 0 @ [0x65])]) = Inr [0, 0, 0, 1, 0x65, 7, 7]"
proof -
  have "take 3 (0x65 # replicate 1487 (7 :: byte)) = [0x65, 7, 7]"
    by (simp add: take_Cons' numeral_2_eq_2)
  then show ?thesis
    using client_main_ignores_length [of "[''c'', ''f'', ''h'', ''1'']" 3 "replicate 1500 7"
        "replicate 12 0 @ [0x65]" 15]
    by (simp add: RECEIVE_BUF_SIZE_def nal_type_def nth_append)
qed

end
