(* ===== verification/CString.thy ===== *)
theory CString
  imports Prelude
begin

text \<open>
  C strings and the functions of \<^verbatim>\<open>string.h\<close>, \<^verbatim>\<open>stdlib.h\<close> and \<^verbatim>\<open>stdio.h\<close> that the sources
  use on them.  A C string is the list of its characters without the terminating zero; a
  pointer into it is an offset.  Results of searches are offsets, \<open>None\<close> for \<^verbatim>\<open>NULL\<close>.
\<close>

section \<open>Searching\<close>

abbreviation NUL :: char where "NUL \<equiv> CHR 0x00"
abbreviation CR :: char where "CR \<equiv> CHR 0x0D"
abbreviation LF :: char where "LF \<equiv> CHR 0x0A"

definition crlf :: string where "crlf = [CR, LF]"

fun strchr :: "string \<Rightarrow> char \<Rightarrow> nat option" where
  "strchr [] c = None"
| "strchr (x # xs) c = (if x = c then Some 0 else map_option Suc (strchr xs c))"

text \<open>\<^verbatim>\<open>strncmp(s, p, strlen(p)) == 0\<close>.\<close>

definition starts_with :: "string \<Rightarrow> string \<Rightarrow> bool" where
  "starts_with s p \<longleftrightarrow> take (length p) s = p"

fun strstr :: "string \<Rightarrow> string \<Rightarrow> nat option" where
  "strstr [] p = (if p = [] then Some 0 else None)"
| "strstr (x # xs) p = (if starts_with (x # xs) p then Some 0 else map_option Suc (strstr xs p))"

text \<open>The string that begins a character array.\<close>

definition array_string :: "string \<Rightarrow> string" where
  "array_string a = takeWhile (\<lambda>c. c \<noteq> NUL) a"

section \<open>Numbers\<close>

definition isspace :: "char \<Rightarrow> bool" where
  "isspace c \<longleftrightarrow> c \<in> {CHR '' '', CHR 0x09, CHR 0x0A, CHR 0x0B, CHR 0x0C, CHR 0x0D}"

definition digit_val :: "char \<Rightarrow> nat" where "digit_val c = of_char c - 48"

definition isdigit :: "char \<Rightarrow> bool" where
  "isdigit c \<longleftrightarrow> 48 \<le> (of_char c :: nat) \<and> (of_char c :: nat) \<le> 57"

definition digits_val :: "string \<Rightarrow> nat" where
  "digits_val ds = foldl (\<lambda>n c. 10 * n + digit_val c) 0 ds"

definition clamp :: "nat \<Rightarrow> int \<Rightarrow> int" where
  "clamp w n = max (- (2 ^ (w - 1))) (min (2 ^ (w - 1) - 1) n)"

text \<open>The optional sign in front of the digits.\<close>

fun skip_sign :: "string \<Rightarrow> bool \<times> string" where
  "skip_sign [] = (False, [])"
| "skip_sign (c # cs) =
     (if c = CHR ''-'' then (True, cs) else if c = CHR ''+'' then (False, cs) else (False, c # cs))"

text \<open>\<^verbatim>\<open>strtol(s, &end, 10)\<close>: the value and the rest; the rest is \<open>s\<close> if there is no number.\<close>

definition strtol :: "string \<Rightarrow> int \<times> string" where
  "strtol s =
     (let (neg, u) = skip_sign (dropWhile isspace s);
          ds = takeWhile isdigit u;
          v = int (digits_val ds)
      in if ds = [] then (0, s) else (clamp 64 (if neg then - v else v), dropWhile isdigit u))"

definition atol :: "string \<Rightarrow> int" where "atol s = fst (strtol s)"

definition atoi :: "string \<Rightarrow> int" where "atoi s = sint (word_of_int (atol s) :: u32)"

text \<open>\<^verbatim>\<open>atol\<close> of an array that may not be terminated: it may read past the end.\<close>

definition atol_array :: "string \<Rightarrow> int res" where
  "atol_array a =
     (if NUL \<in> set a then Inr (atol (array_string a))
      else if dropWhile isdigit (snd (skip_sign (dropWhile isspace a))) = [] then Inl Read_Overflow
      else Inr (atol a))"

text \<open>Decimal numbers as \<^verbatim>\<open>printf\<close> writes them.\<close>

definition digit_char :: "nat \<Rightarrow> char" where "digit_char d = char_of (48 + d)"

fun dec_nat :: "nat \<Rightarrow> string" where
  "dec_nat n = (if n < 10 then [digit_char n] else dec_nat (n div 10) @ [digit_char (n mod 10)])"

declare dec_nat.simps [simp del]

definition dec_int :: "int \<Rightarrow> string" where
  "dec_int n = (if n < 0 then CHR ''-'' # dec_nat (nat (- n)) else dec_nat (nat n))"

section \<open>Format strings\<close>

text \<open>
  A string used as the format of \<^verbatim>\<open>printf\<close> without arguments: every directive but \<^verbatim>\<open>%%\<close>
  would need one.
\<close>

fun plain_format :: "string \<Rightarrow> string res" where
  "plain_format [] = Inr []"
| "plain_format (c # cs) =
     (if c = CHR ''%'' then
        (case cs of
           [] \<Rightarrow> Inl Bad_Format
         | d # ds \<Rightarrow> if d = CHR ''%'' then bind_res (plain_format ds) (\<lambda>t. Inr (c # t)) else Inl Bad_Format)
      else bind_res (plain_format cs) (\<lambda>t. Inr (c # t)))"

lemma plain_format_no_percent: "CHR ''%'' \<notin> set s \<Longrightarrow> plain_format s = Inr s"
  by (induction s) auto

section \<open>Search results\<close>

lemma strchr_None_iff: "strchr s c = None \<longleftrightarrow> c \<notin> set s"
  by (induction s) auto

lemma strchr_append: "c \<notin> set s \<Longrightarrow> strchr (s @ c # t) c = Some (length s)"
  by (induction s) auto

lemma strchr_Some:
  "strchr s c = Some n \<Longrightarrow> n < length s \<and> s ! n = c \<and> c \<notin> set (take n s)"
  by (induction s arbitrary: n) (auto simp: nth_Cons split: if_splits nat.splits)

lemma strchr_bound: "strchr s c = Some n \<Longrightarrow> n < length s"
  using strchr_Some by blast

lemma starts_with_append [simp]: "starts_with (p @ s) p"
  by (simp add: starts_with_def)

lemma starts_with_length: "starts_with s p \<Longrightarrow> length p \<le> length s"
  by (metis length_take min.cobounded1 starts_with_def)

lemma strstr_Some: "strstr s p = Some n \<Longrightarrow> starts_with (drop n s) p \<and> n + length p \<le> length s"
proof (induction s arbitrary: n)
  case Nil
  then show ?case by (auto simp: starts_with_def split: if_splits)
next
  case (Cons x xs)
  then show ?case by (auto dest: starts_with_length split: if_splits)
qed

lemma strstr_first: "strstr s p = Some n \<Longrightarrow> k < n \<Longrightarrow> \<not> starts_with (drop k s) p"
proof (induction s arbitrary: n k)
  case (Cons x xs)
  then show ?case by (cases k) (auto split: if_splits)
qed (auto split: if_splits)

lemma strstr_None: "strstr s p = None \<Longrightarrow> \<not> starts_with (drop k s) p"
proof (induction s arbitrary: k)
  case (Cons x xs)
  then show ?case by (cases k) (auto split: if_splits)
qed (auto simp: starts_with_def split: if_splits)

lemma strstr_eqI:
  assumes "starts_with (drop n s) p" "\<And>k. k < n \<Longrightarrow> \<not> starts_with (drop k s) p"
  shows "strstr s p = Some n"
proof (cases "strstr s p")
  case None
  with assms(1) strstr_None show ?thesis by blast
next
  case (Some m)
  with assms strstr_Some strstr_first show ?thesis by (metis nat_neq_iff)
qed

text \<open>A key that does not begin earlier, not even in such a way that it overlaps itself.\<close>

lemma strstr_at:
  assumes "strstr (s @ butlast p) p = None" "p \<noteq> []"
  shows "strstr (s @ p @ t) p = Some (length s)"
proof (rule strstr_eqI)
  show "starts_with (drop (length s) (s @ p @ t)) p" by simp
  fix k
  assume k: "k < length s"
  have "take (length p) (drop k (s @ p @ t)) = take (length p) (drop k (s @ butlast p))"
  proof -
    define A where "A = s @ butlast p"
    have eq: "s @ p @ t = A @ last p # t" using assms(2) by (simp add: A_def)
    have "length p \<le> length A - k" "k \<le> length A" using k by (simp_all add: A_def)
    then have "take (length p) (drop k (s @ p @ t)) = take (length p) (drop k A)"
      by (subst eq) simp
    then show ?thesis by (simp only: A_def)
  qed
  then show "\<not> starts_with (drop k (s @ p @ t)) p"
    using strstr_None [OF assms(1), of k] by (simp add: starts_with_def)
qed

text \<open>A key that begins with a character which does not occur before it.\<close>

lemma strstr_append:
  assumes "c \<notin> set s" "p = c # q"
  shows "strstr (s @ p @ t) p = Some (length s)"
  using assms(1) by (induction s) (auto simp: starts_with_def assms(2))

section \<open>Reading back numbers\<close>

lemma isdigit_digit_char [simp]: "d < 10 \<Longrightarrow> isdigit (digit_char d)"
  by (simp add: isdigit_def digit_char_def)

lemma digit_val_digit_char [simp]: "d < 10 \<Longrightarrow> digit_val (digit_char d) = d"
  by (simp add: digit_val_def digit_char_def)

lemma digits_val_snoc [simp]: "digits_val (ds @ [c]) = 10 * digits_val ds + digit_val c"
  by (simp add: digits_val_def)

lemma digits_val_dec_nat [simp]: "digits_val (dec_nat n) = n"
proof (induction n rule: less_induct)
  case (less n)
  show ?case
  proof (cases "n < 10")
    case True
    then show ?thesis by (simp add: dec_nat.simps [of n] digits_val_def)
  next
    case False
    then show ?thesis using less [of "n div 10"] by (subst dec_nat.simps) simp
  qed
qed

lemma isdigit_dec_nat: "\<forall>c \<in> set (dec_nat n). isdigit c"
proof (induction n rule: less_induct)
  case (less n)
  show ?case
  proof (cases "n < 10")
    case False
    then have "\<forall>c \<in> set (dec_nat (n div 10)). isdigit c" using less [of "n div 10"] by simp
    then show ?thesis using False by (simp add: dec_nat.simps [of n])
  qed (simp add: dec_nat.simps [of n])
qed

lemma dec_nat_not_Nil [simp]: "dec_nat n \<noteq> []"
  by (subst dec_nat.simps) simp

lemma length_dec_nat: "n < 10 ^ k \<Longrightarrow> 0 < k \<Longrightarrow> length (dec_nat n) \<le> k"
proof (induction k arbitrary: n)
  case (Suc k)
  show ?case
  proof (cases "n < 10")
    case True
    then show ?thesis by (subst dec_nat.simps) simp
  next
    case False
    then have "0 < k" using Suc.prems(1) by (cases k) auto
    moreover have "n div 10 < 10 ^ k" using Suc.prems(1) by (simp add: less_mult_imp_div_less mult.commute)
    ultimately have "length (dec_nat (n div 10)) \<le> k" using Suc.IH by blast
    then show ?thesis using False by (subst dec_nat.simps) simp
  qed
qed simp

lemma isdigit_no_space: "isdigit c \<Longrightarrow> \<not> isspace c" "isdigit c \<Longrightarrow> c \<noteq> CHR ''-'' \<and> c \<noteq> CHR ''+''"
  by (auto simp: isdigit_def isspace_def)

lemma strtol_dec_nat:
  assumes "int n < 2 ^ 63" "r = [] \<or> \<not> isdigit (hd r)"
  shows "strtol (dec_nat n @ r) = (int n, r)"
proof -
  obtain c cs where c: "dec_nat n = c # cs" by (cases "dec_nat n") auto
  then have d: "isdigit c" using isdigit_dec_nat [of n] by simp
  then have "dropWhile isspace (dec_nat n @ r) = dec_nat n @ r"
    using c isdigit_no_space by simp
  moreover have "skip_sign (dec_nat n @ r) = (False, dec_nat n @ r)"
    using c d isdigit_no_space by simp
  moreover have "takeWhile isdigit (dec_nat n @ r) = dec_nat n" "dropWhile isdigit (dec_nat n @ r) = r"
    using isdigit_dec_nat [of n] assms(2)
    by (simp_all add: takeWhile_append2 dropWhile_append2)
       (cases r; simp)+
  ultimately show ?thesis using assms(1) by (simp add: strtol_def clamp_def)
qed

section \<open>Characters and bytes\<close>

definition bytes_text :: "byte list \<Rightarrow> string" where "bytes_text d = map (\<lambda>b. char_of (unat b)) d"
definition text_bytes :: "string \<Rightarrow> byte list" where "text_bytes s = map of_char s"

lemma unat_of_char [simp]: "unat (of_char c :: byte) = of_char c"
proof -
  have "unat (of_nat (of_char c :: nat) :: byte) = of_char c mod 256"
    by (simp only: unsigned_of_nat take_bit_eq_mod) simp
  then show ?thesis by (simp only: of_nat_of_char of_char_mod_256)
qed

lemma bytes_text_text_bytes [simp]: "bytes_text (text_bytes s) = s"
  by (simp add: bytes_text_def text_bytes_def comp_def)

lemma length_text_bytes [simp]: "length (text_bytes s) = length s"
  by (simp add: text_bytes_def)

lemma array_string_id [simp]: "NUL \<notin> set s \<Longrightarrow> array_string s = s"
  by (auto simp: array_string_def)

end
