(* ===== verification/Utils.thy ===== *)
theory Utils
  imports CString
begin

text \<open>
  \<^verbatim>\<open>h264RtpSend/RTP-Server/Utils.c\<close>: the stores \<^verbatim>\<open>Load8\<close>, \<^verbatim>\<open>Load16\<close> and
  \<^verbatim>\<open>Load32\<close> that write an integer in network byte order through a byte pointer and
  return the advanced pointer, \<^verbatim>\<open>readFile\<close> and
  \<^verbatim>\<open>dumpHex\<close>.

  A pointer is the array it points into with an offset; a store returns the changed array
  with the new offset, or the fault of a store past the end.
\<close>

section \<open>Big-endian stores\<close>

definition Load8 :: "byte list \<Rightarrow> nat \<Rightarrow> byte \<Rightarrow> (byte list \<times> nat) res" where
  "Load8 m p x = bind_res (wr m p x) (\<lambda>m'. Inr (m', p + 1))"

definition Load16 :: "byte list \<Rightarrow> nat \<Rightarrow> u16 \<Rightarrow> (byte list \<times> nat) res" where
  "Load16 m p x =
     bind_res (Load8 m p (ucast (drop_bit 8 x))) (\<lambda>(m, p).
     bind_res (Load8 m p (ucast x)) (\<lambda>(m, p).
     Inr (m, p)))"

definition Load32 :: "byte list \<Rightarrow> nat \<Rightarrow> u32 \<Rightarrow> (byte list \<times> nat) res" where
  "Load32 m p x =
     bind_res (Load16 m p (ucast (drop_bit 16 x))) (\<lambda>(m, p).
     bind_res (Load16 m p (ucast x)) (\<lambda>(m, p).
     Inr (m, p)))"

lemma Load8_run [run_simps]:
  "p < length m \<Longrightarrow> Load8 m p x = Inr (overlay m p [x], p + 1)"
  by (simp add: Load8_def list_update_overlay)

lemma Load16_run [run_simps]:
  "p + 2 \<le> length m \<Longrightarrow> Load16 m p x = Inr (overlay m p (be16 x), p + 2)"
  using overlay_overlay [of p "[hi16 x]" "[lo16 x]" m]
  by (simp add: Load16_def Load8_run be16_def hi16_def lo16_def)

lemma Load32_run [run_simps]:
  "p + 4 \<le> length m \<Longrightarrow> Load32 m p x = Inr (overlay m p (be32 x), p + 4)"
  using overlay_overlay [of p "be16 (hi32 x)" "be16 (lo32 x)" m]
  by (simp add: Load32_def Load16_run be32_def hi32_def lo32_def)

lemma Load16_fault: "length m < p + 2 \<Longrightarrow> Load16 m p x = Inl Write_Overflow"
  by (auto simp: Load16_def Load8_def wr_def)

section \<open>Reading a whole file\<close>

text \<open>
  \<^verbatim>\<open>fs f\<close> is what \<^verbatim>\<open>fopen\<close> and \<^verbatim>\<open>fread\<close> find in the file \<open>f\<close>, \<^verbatim>\<open>st_size f\<close>
  the length \<^verbatim>\<open>stat\<close> reports.  The result is the return code with what \<^verbatim>\<open>*stream\<close> and
  \<^verbatim>\<open>*len\<close> are set to, if they are; \<^verbatim>\<open>*len = (int)size\<close> keeps the low 32 bits.  \<open>mem n\<close> says whether
  \<^verbatim>\<open>malloc\<close> finds \<open>n\<close> bytes; its result is not checked before \<^verbatim>\<open>memset\<close> clears the array.
\<close>

definition readFile ::
  "(nat \<Rightarrow> bool) \<Rightarrow> (string \<Rightarrow> byte list option) \<Rightarrow> (string \<Rightarrow> nat) \<Rightarrow> string \<Rightarrow>
   (int \<times> (byte list \<times> int) option) res" where
  "readFile mem fs st_size file =
     (case fs file of
        None \<Rightarrow> Inr (-1, None)
      | Some contents \<Rightarrow>
          (let size = st_size file in
           if \<not> mem size \<and> 0 < size then Inl Null_Deref
           else
             (let buf = overlay (replicate size 0) 0 (take size contents)
              in if length (take size contents) \<noteq> size then Inr (-1, None)
                 else Inr (0, Some (buf, sint (word_of_int (int size) :: u32))))))"

lemma readFile_whole:
  assumes "fs f = Some contents" "st_size f = length contents" "length contents < 2 ^ 31"
    "mem (length contents)"
  shows "readFile mem fs st_size f = Inr (0, Some (contents, int (length contents)))"
proof -
  have "sint (word_of_int (int (length contents)) :: u32) = int (length contents)"
    using assms(3) by (simp add: signed_of_nat signed_take_bit_int_eq_self)
  then show ?thesis
    using assms by (simp add: readFile_def overlay_def Let_def)
qed

section \<open>Properties\<close>

text \<open>
  \<^verbatim>\<open>Load32\<close> stores its argument at the pointer in network byte order, so that reading
  the four bytes in that order gives it back, advances the pointer by four, and changes no
  other byte.
\<close>

theorem Load32_roundtrip:
  assumes "p + 4 \<le> length m"
  shows "\<exists>m'. Load32 m p x = Inr (m', p + 4) \<and> length m' = length m \<and>
    of_be32 (m' ! p) (m' ! (p + 1)) (m' ! (p + 2)) (m' ! (p + 3)) = x \<and>
    take p m' = take p m \<and> drop (p + 4) m' = drop (p + 4) m"
  using assms
  by (simp add: Load32_run overlay_def be32_def be16_def nth_append nth_Cons min_def
      numeral_eq_Suc)

theorem Load32_roundtrip_witness:
  "\<exists>m'. Load32 [1, 2, 3, 4, 5, 6] 1 0xDEADBEEF = Inr (m', 5) \<and> length m' = 6 \<and>
    of_be32 (m' ! 1) (m' ! 2) (m' ! 3) (m' ! 4) = 0xDEADBEEF \<and>
    take 1 m' = [1] \<and> drop 5 m' = [6]"
  using Load32_roundtrip [of 1 "[1, 2, 3, 4, 5, 6]" "0xDEADBEEF"] by (simp add: numeral_eq_Suc)

text \<open>
  \<^verbatim>\<open>readFile\<close> of a file whose size is known and below two gigabytes, with enough memory, returns 0 and
  hands out the whole contents with their length; a missing file gives -1 and hands out nothing.
\<close>

theorem readFile_contents:
  assumes "st_size f = (case fs f of None \<Rightarrow> 0 | Some contents \<Rightarrow> length contents)"
    "st_size f < 2 ^ 31" "mem (st_size f)"
  shows "readFile mem fs st_size f =
    Inr (case fs f of None \<Rightarrow> (-1, None)
     | Some contents \<Rightarrow> (0, Some (contents, int (length contents))))"
  using assms readFile_whole [of fs f _ st_size mem]
  by (cases "fs f") (auto simp: readFile_def)

theorem readFile_contents_witness:
  "readFile (\<lambda>_. True) [''a'' \<mapsto> [7, 8]] (\<lambda>_. 2) ''a'' = Inr (0, Some ([7, 8], 2))"
  using readFile_contents [of "\<lambda>_. 2" "''a''" "[''a'' \<mapsto> [7, 8]]" "\<lambda>_. True"] by simp

section \<open>Printing bytes\<close>

definition hex_digit :: "nat \<Rightarrow> char" where
  "hex_digit d = char_of (if d < 10 then 48 + d else 55 + d)"

definition hex_byte :: "byte \<Rightarrow> string" where
  "hex_byte b = [hex_digit (unat b div 16), hex_digit (unat b mod 16)]"

text \<open>What \<^verbatim>\<open>dumpHex\<close> prints; \<open>addr\<close> is the text of the pointer.\<close>

definition dumpHex :: "string \<Rightarrow> byte list \<Rightarrow> int \<Rightarrow> string res" where
  "dumpHex addr ptr len =
     bind_res (rd_block ptr 0 (nat len)) (\<lambda>d.
     Inr (addr @ '' ['' @ dec_int len @ '']: '' @ concat (map (\<lambda>b. hex_byte b @ '' '') d) @ [LF]))"

end
