(* ===== verification/AVC.thy ===== *)
theory AVC
  imports AnnexB
begin

text \<open>
  \<^verbatim>\<open>h264RtpSend/RTP-Server/AVC.c\<close>: the search for the next Annex B start code
  (\<open>0 0 1\<close>, or \<open>0 0 0 1\<close>) in a byte stream.  The C function scans byte by byte up to a
  4-byte boundary, then a 32-bit word at a time with a bit trick that tells whether a word
  has a zero byte, then byte by byte again.  Here it is shown to be the plain left-to-right
  scan.

  The stream is \<^verbatim>\<open>m\<close>; a pointer is an index into it, \<^verbatim>\<open>base\<close> is the address of index 0
  (only its residue modulo 4 matters), and a pointer comparison \<^verbatim>\<open>p < end - k\<close> is written
  \<^verbatim>\<open>p + k < end\<close>, since natural subtraction would not go below 0.
\<close>

section \<open>The code\<close>

definition load_le32 :: "byte list \<Rightarrow> nat \<Rightarrow> u32" where
  "load_le32 m p = of_be32 (m ! (p + 3)) (m ! (p + 2)) (m ! (p + 1)) (m ! p)"

definition has_zero_byte :: "u32 \<Rightarrow> bool" where
  "has_zero_byte x \<longleftrightarrow> (x - 0x01010101) AND (NOT x) AND 0x80808080 \<noteq> 0"

text \<open>First loop: to the boundary \<open>a\<close>, while \<open>p < end - 3\<close>.\<close>

function scan_head :: "byte list \<Rightarrow> nat \<Rightarrow> nat \<Rightarrow> nat \<Rightarrow> nat \<times> bool" where
  "scan_head m a p e =
     (if p < a \<and> p + 3 < e then
        if code_at m p then (p, True) else scan_head m a (p + 1) e
      else (p, False))"
  by pat_completeness auto
termination
  by (relation "measure (\<lambda>(m, a, p, e). a - p)") auto

text \<open>The tests on one 32-bit word, in the order of the code.\<close>

definition word_hit :: "byte list \<Rightarrow> nat \<Rightarrow> nat option" where
  "word_hit m p =
     (if has_zero_byte (load_le32 m p) then
        if m ! (p + 1) = 0 \<and> m ! p = 0 \<and> m ! (p + 2) = 1 then Some p
        else if m ! (p + 1) = 0 \<and> m ! (p + 2) = 0 \<and> m ! (p + 3) = 1 then Some (p + 1)
        else if m ! (p + 3) = 0 \<and> m ! (p + 2) = 0 \<and> m ! (p + 4) = 1 then Some (p + 2)
        else if m ! (p + 3) = 0 \<and> m ! (p + 4) = 0 \<and> m ! (p + 5) = 1 then Some (p + 3)
        else None
      else None)"

text \<open>Second loop: a word at a time, while \<open>p < end - 6\<close>.\<close>

function scan_words :: "byte list \<Rightarrow> nat \<Rightarrow> nat \<Rightarrow> nat \<times> bool" where
  "scan_words m p e =
     (if p + 6 < e then
        (case word_hit m p of
           Some r \<Rightarrow> (r, True)
         | None \<Rightarrow> scan_words m (p + 4) e)
      else (p, False))"
  by pat_completeness auto
termination
  by (relation "measure (\<lambda>(m, p, e). e - p)") auto

text \<open>Third loop: while \<open>p < end - 3\<close>, and the end if nothing is found.\<close>

function scan_tail :: "byte list \<Rightarrow> nat \<Rightarrow> nat \<Rightarrow> nat" where
  "scan_tail m p e =
     (if p + 3 < e then if code_at m p then p else scan_tail m (p + 1) e else e)"
  by pat_completeness auto
termination
  by (relation "measure (\<lambda>(m, p, e). e - p)") auto

declare scan_head.simps [simp del] scan_words.simps [simp del] scan_tail.simps [simp del]

definition ff_avc_find_startcode_internal ::
  "nat \<Rightarrow> byte list \<Rightarrow> nat \<Rightarrow> nat \<Rightarrow> nat" where
  "ff_avc_find_startcode_internal base m p e =
     (let a = p + 4 - (base + p) mod 4 in
      case scan_head m a p e of
        (r, True) \<Rightarrow> r
      | (p1, False) \<Rightarrow>
          (case scan_words m p1 e of
             (r, True) \<Rightarrow> r
           | (p2, False) \<Rightarrow> scan_tail m p2 e))"

definition ff_avc_find_startcode :: "nat \<Rightarrow> byte list \<Rightarrow> nat \<Rightarrow> nat \<Rightarrow> nat" where
  "ff_avc_find_startcode base m p e =
     (let out = ff_avc_find_startcode_internal base m p e in
      if p < out \<and> out < e \<and> m ! (out - 1) = 0 then out - 1 else out)"

section \<open>The zero-byte test\<close>

text \<open>
  A zero byte number \<open>k\<close> takes a borrow, so its byte of the difference is \<open>255\<close> or
  \<open>254\<close>: bit \<open>8 k + 7\<close> is set in the difference, clear in the word and set in the mask.
\<close>

lemma has_zero_byteI:
  assumes "bit (x - 0x01010101 :: u32) n" "\<not> bit x n" "n = 7 \<or> n = 15 \<or> n = 23 \<or> n = 31"
  shows "has_zero_byte x"
proof -
  have "bit (0x80808080 :: u32) n"
    using assms(3) by (auto simp: bit_numeral_word_iff)
  then have "bit ((x - 0x01010101) AND (NOT x) AND 0x80808080) n"
    using assms by (auto simp: bit_and_iff bit_not_iff)
  then show ?thesis by (auto simp: has_zero_byte_def)
qed

lemma odd_div_pow:
  fixes y q r :: int
  assumes "y = q * 2 ^ Suc n + r" "2 ^ n \<le> r" "r < 2 ^ Suc n"
  shows "odd (y div 2 ^ n)"
proof -
  have "y div 2 ^ n = (r + (2 * q) * 2 ^ n) div 2 ^ n"
    using assms(1) by (simp add: algebra_simps)
  also have "\<dots> = 2 * q + r div 2 ^ n"
    by (rule div_mult_self1) simp
  finally have "y div 2 ^ n = 2 * q + r div 2 ^ n" .
  moreover have "r div 2 ^ n = 1"
    using assms(2,3) by (intro int_div_pos_eq [where r = "r - 2 ^ n"]) auto
  ultimately show ?thesis by simp
qed

lemma even_div_pow:
  fixes x q r :: int
  assumes "x = q * 2 ^ Suc n + r" "0 \<le> r" "r < 2 ^ n"
  shows "even (x div 2 ^ n)"
proof -
  have "x div 2 ^ n = (r + (2 * q) * 2 ^ n) div 2 ^ n"
    using assms(1) by (simp add: algebra_simps)
  also have "\<dots> = 2 * q + r div 2 ^ n"
    by (rule div_mult_self1) simp
  finally show ?thesis using assms(2,3) by simp
qed

lemma has_zero_byteI_uint:
  fixes x :: u32
  assumes diff: "uint x - 0x01010101 = q * 2 ^ Suc n + r" "2 ^ n \<le> r" "r < 2 ^ Suc n"
    and word: "uint x = q' * 2 ^ Suc n + r'" "0 \<le> r'" "r' < 2 ^ n"
    and n: "n = 7 \<or> n = 15 \<or> n = 23 \<or> n = 31"
  shows "has_zero_byte x"
proof -
  have less: "n < 32" using n by auto
  have "uint (x - 0x01010101) = (uint x - 0x01010101) mod 2 ^ 32"
    by (simp add: uint_word_ariths)
  also have "\<dots> = uint x - 0x01010101 - 2 ^ 32 * ((uint x - 0x01010101) div 2 ^ 32)"
    by (simp add: minus_mult_div_eq_mod)
  also have "(2 :: int) ^ 32 = 2 ^ (31 - n) * 2 ^ Suc n"
    using less by (simp flip: power_add)
  finally have "uint (x - 0x01010101) =
      (q - 2 ^ (31 - n) * ((uint x - 0x01010101) div (2 ^ (31 - n) * 2 ^ Suc n))) * 2 ^ Suc n + r"
    using diff(1) by (simp add: algebra_simps)
  then have "odd (uint (x - 0x01010101) div 2 ^ n)"
    using diff(2,3) by (rule odd_div_pow)
  moreover have "even (uint x div 2 ^ n)"
    using word by (rule even_div_pow)
  ultimately show ?thesis
    using n less by (intro has_zero_byteI [of x n]) (simp_all add: odd_div_bit)
qed

lemma has_zero_byte_of_be32:
  assumes "a = 0 \<or> b = 0 \<or> c = 0 \<or> d = 0"
  shows "has_zero_byte (of_be32 d c b a)"
proof -
  note bytes = uint_byte [of a] uint_byte [of b] uint_byte [of c] uint_byte [of d]
  consider "a = 0" | "b = 0" | "c = 0" | "d = 0"
    using assms by blast
  then show ?thesis
  proof cases
    case 1
    show ?thesis
      by (rule has_zero_byteI_uint [where n = 7 and r = 255 and r' = 0
            and q = "2 ^ 16 * uint d + 2 ^ 8 * uint c + uint b - 65794"
            and q' = "2 ^ 16 * uint d + 2 ^ 8 * uint c + uint b"])
         (simp_all add: 1 uint_of_be32)
  next
    case 2
    show ?thesis
      by (rule has_zero_byteI_uint [where n = 15 and r = "uint a + 65279" and r' = "uint a"
            and q = "2 ^ 8 * uint d + uint c - 258" and q' = "2 ^ 8 * uint d + uint c"])
         (use bytes in \<open>simp_all add: 2 uint_of_be32\<close>)
  next
    case 3
    show ?thesis
      by (rule has_zero_byteI_uint [where n = 23 and r = "2 ^ 8 * uint b + uint a + 16711423"
            and r' = "2 ^ 8 * uint b + uint a" and q = "uint d - 2" and q' = "uint d"])
         (use bytes in \<open>simp_all add: 3 uint_of_be32\<close>)
  next
    case 4
    show ?thesis
      by (rule has_zero_byteI_uint [where n = 31
            and r = "2 ^ 16 * uint c + 2 ^ 8 * uint b + uint a + 4278124287"
            and r' = "2 ^ 16 * uint c + 2 ^ 8 * uint b + uint a" and q = "-1" and q' = 0])
         (use bytes in \<open>simp_all add: 4 uint_of_be32\<close>)
  qed
qed

section \<open>The word loop is the byte loop\<close>

lemma code_at_shifts:
  "code_at m (p + 1) \<longleftrightarrow> m ! (p + 1) = 0 \<and> m ! (p + 2) = 0 \<and> m ! (p + 3) = 1"
  "code_at m (p + 2) \<longleftrightarrow> m ! (p + 2) = 0 \<and> m ! (p + 3) = 0 \<and> m ! (p + 4) = 1"
  "code_at m (p + 3) \<longleftrightarrow> m ! (p + 3) = 0 \<and> m ! (p + 4) = 0 \<and> m ! (p + 5) = 1"
  by (simp_all add: code_at_def numeral_eq_Suc)

lemma word_hit_step:
  "word_hit m p =
     (if code_at m p then Some p
      else if code_at m (p + 1) then Some (p + 1)
      else if code_at m (p + 2) then Some (p + 2)
      else if code_at m (p + 3) then Some (p + 3)
      else None)"
proof (cases "m ! p = 0 \<or> m ! (p + 1) = 0 \<or> m ! (p + 2) = 0 \<or> m ! (p + 3) = 0")
  case True
  then have "has_zero_byte (load_le32 m p)"
    unfolding load_le32_def by (rule has_zero_byte_of_be32)
  then show ?thesis
    unfolding word_hit_def code_at_shifts code_at_def [of m p] by argo
next
  case False
  then have "\<not> code_at m p" "\<not> code_at m (p + 1)" "\<not> code_at m (p + 2)" "\<not> code_at m (p + 3)"
    unfolding code_at_shifts code_at_def [of m p] by auto
  then show ?thesis
    using False by (auto simp: word_hit_def)
qed

lemma scan_tail_step:
  "p + 3 < e \<Longrightarrow> scan_tail m p e = (if code_at m p then p else scan_tail m (Suc p) e)"
  by (subst scan_tail.simps) simp

lemma scan_words_tail:
  "(case scan_words m p e of (r, True) \<Rightarrow> r | (p2, False) \<Rightarrow> scan_tail m p2 e) = scan_tail m p e"
proof (induction m p e rule: scan_words.induct)
  case (1 m p e)
  show ?case
  proof (cases "p + 6 < e")
    case True
    then have "scan_tail m p e =
        (case word_hit m p of Some r \<Rightarrow> r | None \<Rightarrow> scan_tail m (p + 4) e)"
      by (simp add: word_hit_step scan_tail_step numeral_eq_Suc)
    with True 1 show ?thesis
      by (subst scan_words.simps) (auto split: option.splits)
  next
    case False
    then show ?thesis by (subst scan_words.simps) simp
  qed
qed

lemma scan_head_tail:
  "(case scan_head m a p e of (r, True) \<Rightarrow> r | (p1, False) \<Rightarrow> scan_tail m p1 e) = scan_tail m p e"
proof (induction m a p e rule: scan_head.induct)
  case (1 m a p e)
  then show ?case
    by (cases "p < a \<and> p + 3 < e") (subst scan_head.simps, auto simp: scan_tail_step)+
qed

lemma ff_avc_find_startcode_internal_scan:
  "ff_avc_find_startcode_internal base m p e = scan_tail m p e"
proof -
  define a where "a = p + 4 - (base + p) mod 4"
  have "ff_avc_find_startcode_internal base m p e =
      (case scan_head m a p e of (r, True) \<Rightarrow> r | (p1, False) \<Rightarrow> scan_tail m p1 e)"
    by (auto simp: ff_avc_find_startcode_internal_def a_def scan_words_tail Let_def
        split: prod.split bool.split)
  then show ?thesis by (simp add: scan_head_tail)
qed

section \<open>What the search promises\<close>

lemma scan_tail_bounds: "p \<le> e \<Longrightarrow> p \<le> scan_tail m p e \<and> scan_tail m p e \<le> e"
proof (induction m p e rule: scan_tail.induct)
  case (1 m p e)
  then show ?case
    by (cases "p + 3 < e \<and> \<not> code_at m p") (auto simp: scan_tail.simps [of m p e])
qed

lemma scan_tail_le: "scan_tail m p e \<le> e"
  using scan_tail_bounds [of p e m] by (cases "p \<le> e") (auto simp: scan_tail.simps [of m p e])

lemma scan_tail_hit:
  "scan_tail m p e < e \<Longrightarrow> code_at m (scan_tail m p e) \<and> scan_tail m p e + 3 < e"
proof (induction m p e rule: scan_tail.induct)
  case (1 m p e)
  then show ?case
    by (cases "p + 3 < e \<and> \<not> code_at m p") (auto simp: scan_tail.simps [of m p e] split: if_splits)
qed

lemma scan_tail_first:
  "p \<le> q \<Longrightarrow> q < scan_tail m p e \<Longrightarrow> q + 3 < e \<Longrightarrow> \<not> code_at m q"
proof (induction m p e rule: scan_tail.induct)
  case (1 m p e)
  show ?case
  proof (cases "p + 3 < e \<and> \<not> code_at m p")
    case True
    then show ?thesis
      using 1 by (cases "q = p") (auto simp: scan_tail.simps [of m p e])
  next
    case False
    then show ?thesis using "1.prems" by (auto simp: scan_tail.simps [of m p e] split: if_splits)
  qed
qed

lemma ff_avc_find_startcode_scan:
  "ff_avc_find_startcode base m p e =
     (let r = scan_tail m p e in if p < r \<and> r < e \<and> m ! (r - 1) = 0 then r - 1 else r)"
  by (simp add: ff_avc_find_startcode_def ff_avc_find_startcode_internal_scan)

interpretation avc: startcode_search "ff_avc_find_startcode base m" m for base m
proof unfold_locales
  fix p q e
  let ?r = "scan_tail m p e" and ?f = "ff_avc_find_startcode base m p e"
  note f = ff_avc_find_startcode_scan [of base m p e]
  show "?f \<le> e"
    using scan_tail_le [of m p e] by (auto simp: f Let_def)
  show "p \<le> e \<Longrightarrow> p \<le> ?f"
    using scan_tail_bounds [of p e m] by (auto simp: f Let_def)
  show "code_at m ?f \<and> ?f + 3 < e \<or> m ! ?f = 0 \<and> code_at m (?f + 1) \<and> ?f + 4 < e" if "?f < e"
    using that scan_tail_hit [of m p e] by (auto simp: f Let_def split: if_splits)
  show "\<not> code_at m q" if "p \<le> q" "q < ?f" "q + 3 < e"
    using that scan_tail_first [of p q m e] by (auto simp: f Let_def split: if_splits)
  show "m ! (?f - 1) \<noteq> 0" if "p < ?f" "?f < e" "code_at m ?f"
  proof -
    have "\<not> (p < ?r \<and> ?r < e \<and> m ! (?r - 1) = 0)"
    proof
      assume *: "p < ?r \<and> ?r < e \<and> m ! (?r - 1) = 0"
      then have "?f = ?r - 1" "m ! (?f + 2) = 0"
        using scan_tail_hit [of m p e] by (simp_all add: f Let_def code_at_def)
      then show False using that by (simp add: code_at_def)
    qed
    then show ?thesis using that by (auto simp: f Let_def split: if_splits)
  qed
qed

section \<open>Properties\<close>

lemma scan_tail_find:
  "scan_tail m p e = (case find (code_at m) [p..<e - 3] of Some q \<Rightarrow> q | None \<Rightarrow> e)"
proof (induction m p e rule: scan_tail.induct)
  case (1 m p e)
  then show ?case
    by (cases "p + 3 < e") (auto simp: scan_tail.simps [of m p e] upt_conv_Cons)
qed

text \<open>
  C5: The word-at-a-time search with its zero-byte test computes, for every alignment of the
  buffer, exactly the first position \<open>q\<close> with \<open>p \<le> q < e - 3\<close> at which a start code begins,
  and the end \<open>e\<close> of the buffer when there is none.  A start code in the last three bytes, behind
  which no unit could follow, is not looked for.
\<close>

theorem avc_search_first_code:
  "ff_avc_find_startcode_internal base m p e =
     (case find (code_at m) [p..<e - 3] of Some q \<Rightarrow> q | None \<Rightarrow> e)"
  by (simp add: ff_avc_find_startcode_internal_scan scan_tail_find)

text \<open>
  C26: On any byte string the walk over the stream ends, each step of it finds a non-zero byte
  to stop at, and each unit it visits lies inside the string.
\<close>

theorem avc_walk_total:
  assumes "e \<le> length m"
  shows "\<exists>xs. nal_chain (ff_avc_find_startcode base m) m e (ff_avc_find_startcode base m 0 e) xs \<and>
    (\<forall>(s, l) \<in> set xs. s < e \<and> s + l \<le> e)"
  by (rule avc.nal_chain_total [OF assms]) simp

theorem avc_walk_total_witness:
  "\<exists>xs. nal_chain (ff_avc_find_startcode 2 [0, 0, 1, 9, 0, 0]) [0, 0, 1, 9, 0, 0] 6
      (ff_avc_find_startcode 2 [0, 0, 1, 9, 0, 0] 0 6) xs \<and>
    (\<forall>(s, l) \<in> set xs. s < 6 \<and> s + l \<le> 6)"
  by (rule avc_walk_total) simp

end
