(* ===== verification/UdpNet.thy ===== *)
theory UdpNet
  imports Prelude
begin

text \<open>
  \<^verbatim>\<open>h264RtpSend/RTP-Server/Network.c\<close>: the UDP socket of the RTP server.  The operating
  system is a parameter: \<^verbatim>\<open>os_socket\<close> is what \<^verbatim>\<open>socket()\<close> returns, \<^verbatim>\<open>os_inet_aton\<close> the
  address a dotted string names, if it does, and \<^verbatim>\<open>os_sendto k d\<close> what the \<open>k\<close>-th call of
  \<^verbatim>\<open>sendto()\<close>, with the bytes \<open>d\<close>, returns.  The state of the network is the list of the
  datagrams that were handed to \<^verbatim>\<open>sendto()\<close>, oldest first.
\<close>

record UDPContext =
  dstIp :: "string option"
  dstPort :: int
  sin_port :: u16                  \<comment> \<open>\<^verbatim>\<open>servAddr.sin_port\<close>, in host order\<close>
  sin_addr :: u32                  \<comment> \<open>\<^verbatim>\<open>servAddr.sin_addr\<close>\<close>
  sock :: int

record net =
  sent :: "byte list list"

type_synonym sendto = "nat \<Rightarrow> byte list \<Rightarrow> int"

definition do_sendto :: "sendto \<Rightarrow> net \<Rightarrow> byte list \<Rightarrow> net \<times> int" where
  "do_sendto os n d = (n\<lparr>sent := sent n @ [d]\<rparr>, os (length (sent n)) d)"

definition udpInit ::
  "int \<Rightarrow> (string \<Rightarrow> u32 option) \<Rightarrow> sendto \<Rightarrow> UDPContext option \<Rightarrow> net \<Rightarrow>
   UDPContext option \<times> net \<times> int" where
  "udpInit os_socket os_inet_aton os udp n =
     (case udp of
        None \<Rightarrow> (None, n, -1)
      | Some u \<Rightarrow>
          (case dstIp u of
             None \<Rightarrow> (Some u, n, -1)
           | Some ip \<Rightarrow>
               if dstPort u = 0 then (Some u, n, -1)
               else
                 (let u1 = u\<lparr>sock := os_socket\<rparr> in
                  if sock u1 < 0 then (Some u1, n, -1)
                  else
                    (let u2 = u1\<lparr>sin_port := word_of_int (dstPort u1),
                                 sin_addr := (case os_inet_aton ip of
                                                None \<Rightarrow> sin_addr u1 | Some a \<Rightarrow> a)\<rparr>;
                         (n', num) = do_sendto os n [0]
                     in if num \<noteq> 1 then (Some u2, n', -1) else (Some u2, n', 0)))))"

definition udpSend :: "sendto \<Rightarrow> net \<Rightarrow> byte list \<Rightarrow> u32 \<Rightarrow> (net \<times> int) res" where
  "udpSend os n data len =
     bind_res (rd_block data 0 (unat len)) (\<lambda>d.
     let (n', num) = do_sendto os n d in
     Inr (n', if num \<noteq> uint len then -1 else sint len))"

lemma sent_do_sendto [simp]: "sent (fst (do_sendto os n d)) = sent n @ [d]"
  by (simp add: do_sendto_def)

lemma udpSend_sent:
  "unat len \<le> length data \<Longrightarrow>
   \<exists>r. udpSend os n data len = Inr (n\<lparr>sent := sent n @ [take (unat len) data]\<rparr>, r)"
  by (simp add: udpSend_def do_sendto_def)

text \<open>\<^verbatim>\<open>udpInit\<close> succeeds only with a socket, and then exactly one probe of one byte was sent.\<close>

lemma udpInit_ok:
  assumes "udpInit s aton os udp n = (udp', n', 0)"
  shows "\<exists>u. udp' = Some u \<and> 0 \<le> sock u \<and> dstPort u \<noteq> 0 \<and> dstIp u \<noteq> None \<and>
    sin_port u = word_of_int (dstPort u) \<and> sent n' = sent n @ [[0]]"
  using assms
  by (auto simp: udpInit_def do_sendto_def Let_def split: option.splits if_splits)

lemma udpInit_codes: "snd (snd (udpInit s aton os udp n)) \<in> {0, -1}"
  by (auto simp: udpInit_def do_sendto_def Let_def split: option.splits)

end
