(* ===== verification/RTPEnc.thy ===== *)
theory RTPEnc
  imports Utils AVC UdpNet RtpPayload
begin

text \<open>
  \<^verbatim>\<open>h264RtpSend/RTP-Server/RTPEnc.c\<close>: the RTP packetizer.  \<^verbatim>\<open>rtpSendData\<close> builds one RTP
  packet in \<open>cache\<close> and sends it; \<^verbatim>\<open>rtpSendNAL\<close> puts a NAL unit into the aggregation buffer,
  or sends it in one packet, or in FU-A fragments; \<^verbatim>\<open>rtpSendH264HEVC\<close> walks over an Annex B
  stream.  The state is the record \<open>RTPMuxContext\<close> with the network of \<^verbatim>\<open>UdpNet\<close>; a store past the
  end of \<open>cache\<close> or \<open>buf\<close> is a fault.  Printing and \<^verbatim>\<open>usleep\<close> are left out.
\<close>

section \<open>State\<close>

record RTPMuxContext =
  cache :: "byte list"
  buf :: "byte list"
  buf_ptr :: nat                \<comment> \<open>offset of \<^verbatim>\<open>buf_ptr\<close> in \<open>buf\<close>\<close>
  aggregation :: int
  payload_type :: int
  ssrc :: u32
  seq :: u32
  timestamp :: u32

definition RTP_PAYLOAD_MAX :: nat where "RTP_PAYLOAD_MAX = 1400"
definition RTP_VERSION :: byte where "RTP_VERSION = 2"
definition RTP_H264 :: byte where "RTP_H264 = 96"

definition initRTPMuxContext :: "RTPMuxContext \<Rightarrow> RTPMuxContext \<times> int" where
  "initRTPMuxContext ctx =
     (ctx\<lparr>seq := 0, timestamp := 0, ssrc := 0x12345678, aggregation := 1, buf_ptr := 0,
          payload_type := 0\<rparr>, 0)"

section \<open>One packet\<close>

definition rtpSendData ::
  "sendto \<Rightarrow> RTPMuxContext \<Rightarrow> net \<Rightarrow> byte list \<Rightarrow> nat \<Rightarrow> int \<Rightarrow> (RTPMuxContext \<times> net) res" where
  "rtpSendData os ctx n src len mark =
     bind_res (wr (cache ctx) 0 (push_bit 6 RTP_VERSION AND 0xff)) (\<lambda>pos.
     bind_res (wr pos 1 ((RTP_H264 AND 0x7f) OR push_bit 7 (word_of_int mark AND 0x01))) (\<lambda>pos.
     bind_res (Load16 pos 2 (ucast (seq ctx))) (\<lambda>(pos, _).
     bind_res (Load32 pos 4 (timestamp ctx)) (\<lambda>(pos, _).
     bind_res (Load32 pos 8 (ssrc ctx)) (\<lambda>(pos, _).
     bind_res (rd_block src 0 len) (\<lambda>d.
     bind_res (wr_block pos 12 d) (\<lambda>pos.
     bind_res (udpSend os n pos (word_of_nat (len + 12))) (\<lambda>(n, _).
     bind_res (wr_block pos 0 (replicate (RTP_PAYLOAD_MAX + 10) 0)) (\<lambda>pos.
     Inr (ctx\<lparr>cache := pos, buf_ptr := 0, seq := (seq ctx + 1) AND 0xffff\<rparr>, n))))))))))"

section \<open>One NAL unit\<close>

text \<open>The F bit, and the unit with its size, after the header of the packet is in place.\<close>

definition put_unit ::
  "sendto \<Rightarrow> RTPMuxContext \<Rightarrow> net \<Rightarrow> byte list \<Rightarrow> nat \<Rightarrow> bool \<Rightarrow> byte \<Rightarrow> (RTPMuxContext \<times> net) res" where
  "put_unit os ctx n nal sz lst nal0 =
     bind_res (rd (buf ctx) 0) (\<lambda>buf0.
     bind_res (wr (buf ctx) 0 (buf0 OR (nal0 AND 0x80))) (\<lambda>b.
     bind_res (Load16 b (buf_ptr ctx) (word_of_nat sz)) (\<lambda>(b, _).
     bind_res (rd_block nal 0 sz) (\<lambda>d.
     bind_res (wr_block b (buf_ptr ctx + 2) d) (\<lambda>b.
     let ctx = ctx\<lparr>buf := b, buf_ptr := buf_ptr ctx + 2 + sz\<rparr> in
     if lst then rtpSendData os ctx n (buf ctx) (buf_ptr ctx) 1
     else Inr (ctx, n))))))"

text \<open>The aggregation branch: \<open>sz\<close> bytes at \<open>nal\<close> are added to the STAP-A packet in \<open>buf\<close>.\<close>

definition aggregate ::
  "sendto \<Rightarrow> RTPMuxContext \<Rightarrow> net \<Rightarrow> byte list \<Rightarrow> nat \<Rightarrow> bool \<Rightarrow> (RTPMuxContext \<times> net) res" where
  "aggregate os ctx n nal sz lst =
     (let buffered_size = buf_ptr ctx in
      bind_res (rd nal 0) (\<lambda>nal0.
      let curNRI = nal0 AND 0x60 in
      bind_res
        (if buffered_size + 2 + sz > RTP_PAYLOAD_MAX
         then bind_res (rtpSendData os ctx n (buf ctx) buffered_size 0)
                (\<lambda>(ctx, n). Inr (ctx, n, 0))
         else Inr (ctx, n, buffered_size)) (\<lambda>(ctx, n, buffered_size).
      bind_res
        (if buffered_size = 0
         then bind_res (wr (buf ctx) (buf_ptr ctx) (24 OR curNRI)) (\<lambda>b.
                Inr (ctx\<lparr>buf := b, buf_ptr := buf_ptr ctx + 1\<rparr>))
         else bind_res (rd (buf ctx) 0) (\<lambda>buf0.
                let lastNRI = buf0 AND 0x60 in
                if curNRI > lastNRI
                then bind_res (wr (buf ctx) 0 ((buf0 AND 0x9F) OR curNRI)) (\<lambda>b.
                       Inr (ctx\<lparr>buf := b\<rparr>))
                else Inr ctx)) (\<lambda>ctx.
      put_unit os ctx n nal sz lst nal0))))"

text \<open>The loop that sends full fragments, while \<^verbatim>\<open>size + headerSize > RTP_PAYLOAD_MAX\<close>.\<close>

function fu_loop ::
  "sendto \<Rightarrow> RTPMuxContext \<Rightarrow> net \<Rightarrow> byte list \<Rightarrow> nat \<Rightarrow>
   (RTPMuxContext \<times> net \<times> byte list \<times> nat) res" where
  "fu_loop os ctx n nal sz =
     (if sz + 2 > RTP_PAYLOAD_MAX then
        bind_res (rd_block nal 0 (RTP_PAYLOAD_MAX - 2)) (\<lambda>d.
        bind_res (wr_block (buf ctx) 2 d) (\<lambda>b.
        bind_res (rtpSendData os (ctx\<lparr>buf := b\<rparr>) n b RTP_PAYLOAD_MAX 0) (\<lambda>(ctx, n).
        bind_res (rd (buf ctx) 1) (\<lambda>h.
        bind_res (wr (buf ctx) 1 (h AND 0x7f)) (\<lambda>b.
        fu_loop os (ctx\<lparr>buf := b\<rparr>) n (drop (RTP_PAYLOAD_MAX - 2) nal)
          (sz - (RTP_PAYLOAD_MAX - 2)))))))
      else Inr (ctx, n, nal, sz))"
  by pat_completeness auto
termination
  by (relation "measure (\<lambda>(os, ctx, n, nal, sz). sz)") (auto simp: RTP_PAYLOAD_MAX_def)

declare fu_loop.simps [simp del]

text \<open>The last fragment, after the loop.\<close>

definition fu_last ::
  "sendto \<Rightarrow> RTPMuxContext \<Rightarrow> net \<Rightarrow> byte list \<Rightarrow> nat \<Rightarrow> bool \<Rightarrow> (RTPMuxContext \<times> net) res" where
  "fu_last os ctx n nal sz lst =
     bind_res (rd (buf ctx) 1) (\<lambda>h.
     bind_res (wr (buf ctx) 1 (h OR 0x40)) (\<lambda>b.
     bind_res (rd_block nal 0 sz) (\<lambda>d.
     bind_res (wr_block b 2 d) (\<lambda>b.
     rtpSendData os (ctx\<lparr>buf := b\<rparr>) n b (sz + 2) (if lst then 1 else 0)))))"

definition fragment ::
  "sendto \<Rightarrow> RTPMuxContext \<Rightarrow> net \<Rightarrow> byte list \<Rightarrow> nat \<Rightarrow> bool \<Rightarrow> (RTPMuxContext \<times> net) res" where
  "fragment os ctx n nal sz lst =
     bind_res
       (if buf_ptr ctx > 0 then rtpSendData os ctx n (buf ctx) (buf_ptr ctx) 0
        else Inr (ctx, n)) (\<lambda>(ctx, n).
     bind_res (rd nal 0) (\<lambda>nal0.
     let type = nal0 AND 0x1F; nri = nal0 AND 0x60 in
     bind_res (wr (buf ctx) 0 (28 OR nri)) (\<lambda>b.
     bind_res (wr b 1 (type OR push_bit 7 1)) (\<lambda>b.
     bind_res (fu_loop os (ctx\<lparr>buf := b\<rparr>) n (drop 1 nal) (sz - 1)) (\<lambda>(ctx, n, nal, sz).
     fu_last os ctx n nal sz lst)))))"

definition rtpSendNAL ::
  "sendto \<Rightarrow> RTPMuxContext \<Rightarrow> net \<Rightarrow> byte list \<Rightarrow> nat \<Rightarrow> bool \<Rightarrow> (RTPMuxContext \<times> net) res" where
  "rtpSendNAL os ctx n nal sz lst =
     (if sz \<le> RTP_PAYLOAD_MAX then
        if aggregation ctx \<noteq> 0 then aggregate os ctx n nal sz lst
        else rtpSendData os ctx n nal sz (if lst then 1 else 0)
      else fragment os ctx n nal sz lst)"

section \<open>A whole stream\<close>

text \<open>
  \<^verbatim>\<open>ctx->timestamp += (90000.0/25)\<close> adds in double precision, which is exact here; the
  conversion back is undefined when the sum does not fit 32 bits.
\<close>

definition add_timestamp :: "RTPMuxContext \<Rightarrow> RTPMuxContext res" where
  "add_timestamp ctx =
     (if uint (timestamp ctx) + 3600 < 2 ^ 32
      then Inr (ctx\<lparr>timestamp := timestamp ctx + 3600\<rparr>) else Inl Float_Range)"

function send_loop ::
  "sendto \<Rightarrow> nat \<Rightarrow> byte list \<Rightarrow> nat \<Rightarrow> RTPMuxContext \<Rightarrow> net \<Rightarrow> nat \<Rightarrow> (RTPMuxContext \<times> net) res"
where
  "send_loop os base m e ctx n r =
     (if r < e then
        bind_res (skip_startcode m r) (\<lambda>r.
        let r1 = ff_avc_find_startcode base m r e in
        bind_res (rtpSendNAL os ctx n (drop r m) (r1 - r) (r1 = e)) (\<lambda>(ctx, n).
        bind_res (add_timestamp ctx) (\<lambda>ctx.
        send_loop os base m e ctx n r1)))
      else Inr (ctx, n))"
  by pat_completeness auto
termination
proof (relation "measure (\<lambda>(os, base, m, e, ctx, n, r). e - r)", goal_cases)
  case (2 os base m e ctx n r r' r1)
  then have "r < r'" by (auto dest: skip_startcode_greater)
  then have "r < r1"
    using 2 avc.find_ge [of r' e base m] scan_tail_le
    by (cases "r' \<le> e") (auto simp: ff_avc_find_startcode_scan scan_tail.simps [of m r' e])
  with 2 show ?case by auto
qed auto

declare send_loop.simps [simp del]

definition rtpSendH264HEVC ::
  "sendto \<Rightarrow> nat \<Rightarrow> RTPMuxContext option \<Rightarrow> net option \<Rightarrow> byte list option \<Rightarrow> int \<Rightarrow>
   (RTPMuxContext option \<times> net option) res" where
  "rtpSendH264HEVC os base ctx udp stream sz =
     (case (ctx, udp, stream) of
        (Some c, Some n, Some m) \<Rightarrow>
          if sz \<le> 0 then Inr (ctx, udp)
          else
            (let e = nat sz; r = ff_avc_find_startcode base m 0 e in
             bind_res (send_loop os base m e c n r) (\<lambda>(c, n). Inr (Some c, Some n)))
      | _ \<Rightarrow> Inr (ctx, udp))"

section \<open>What one call of \<open>rtpSendData\<close> does\<close>

text \<open>The sizes of the two arrays, and the part of the context that matters to later packets.\<close>

definition arrays_ok :: "RTPMuxContext \<Rightarrow> bool" where
  "arrays_ok ctx \<longleftrightarrow> length (cache ctx) = 1412 \<and> length (buf ctx) = 1400"

definition core :: "RTPMuxContext \<Rightarrow> RTPMuxContext" where
  "core ctx = ctx\<lparr>cache := [], buf := [], buf_ptr := 0\<rparr>"

definition rtp_header :: "RTPMuxContext \<Rightarrow> int \<Rightarrow> byte list" where
  "rtp_header ctx mark =
     [0x80, 0x60 OR push_bit 7 (word_of_int mark AND 1)] @ be16 (ucast (seq ctx)) @
     be32 (timestamp ctx) @ be32 (ssrc ctx)"

definition next_seq :: "RTPMuxContext \<Rightarrow> RTPMuxContext" where
  "next_seq ctx = ctx\<lparr>seq := (seq ctx + 1) AND 0xffff, buf_ptr := 0\<rparr>"

definition posts :: "net \<Rightarrow> byte list list \<Rightarrow> net" where
  "posts n ps = n\<lparr>sent := sent n @ ps\<rparr>"

lemma length_rtp_header [simp]: "length (rtp_header ctx mark) = 12"
  by (simp add: rtp_header_def)

lemma posts_simps [simp]:
  "sent (posts n ps) = sent n @ ps" "posts n [] = n" "posts (posts n ps) qs = posts n (ps @ qs)"
  by (simp_all add: posts_def)

lemma udpSend_posts:
  "len \<le> length data \<Longrightarrow> len < 2 ^ 32 \<Longrightarrow>
   \<exists>r. udpSend os n data (word_of_nat len) = Inr (posts n [take len data], r)"
  using udpSend_sent [of "word_of_nat len" data os n]
  by (simp add: unat_of_nat take_bit_eq_mod unsigned_of_nat posts_def)

lemma overlay_front:
  "length xs + length ys \<le> length c \<Longrightarrow> overlay (overlay c 0 xs) (length xs) ys = overlay c 0 (xs @ ys)"
  using overlay_overlay [of 0 xs ys c] by simp

lemma rtpSendData_run:
  assumes "arrays_ok ctx" "len \<le> length src" "len \<le> 1400"
  shows "\<exists>ctx'. rtpSendData os ctx n src len mark =
      Inr (ctx', posts n [rtp_header ctx mark @ take len src]) \<and>
    arrays_ok ctx' \<and> buf ctx' = buf ctx \<and> buf_ptr ctx' = 0 \<and> core ctx' = core (next_seq ctx)"
proof -
  note assms = assms(1) [unfolded arrays_ok_def, THEN conjunct1] assms
  let ?c = "cache ctx" and ?h = "rtp_header ctx mark" and ?d = "take len src"
  let ?b0 = "0x80 :: byte" and ?b1 = "0x60 OR push_bit 7 (word_of_int mark AND 1) :: byte"
  let ?sq = "be16 (ucast (seq ctx))" and ?ts = "be32 (timestamp ctx)" and ?ss = "be32 (ssrc ctx)"
  have w0: "wr ?c 0 (push_bit 6 RTP_VERSION AND 0xff) = Inr (overlay ?c 0 [?b0])"
    using assms(1) by (simp add: RTP_VERSION_def list_update_overlay push_bit_eq_mult)
  have w1: "wr (overlay ?c 0 [?b0]) 1 ((RTP_H264 AND 0x7f) OR push_bit 7 (word_of_int mark AND 0x01))
      = Inr (overlay ?c 0 [?b0, ?b1])"
    using assms(1) overlay_front [of "[?b0]" "[?b1]" ?c]
    by (simp add: RTP_H264_def list_update_overlay)
  have w2: "Load16 (overlay ?c 0 [?b0, ?b1]) 2 (ucast (seq ctx))
      = Inr (overlay ?c 0 ([?b0, ?b1] @ ?sq), 4)"
    using assms(1) overlay_front [of "[?b0, ?b1]" ?sq ?c] by (simp add: Load16_run numeral_2_eq_2)
  have w3: "Load32 (overlay ?c 0 ([?b0, ?b1] @ ?sq)) 4 (timestamp ctx)
      = Inr (overlay ?c 0 ([?b0, ?b1] @ ?sq @ ?ts), 8)"
    using assms(1) overlay_front [of "[?b0, ?b1] @ ?sq" ?ts ?c] by (simp add: Load32_run)
  have w4: "Load32 (overlay ?c 0 ([?b0, ?b1] @ ?sq @ ?ts)) 8 (ssrc ctx) = Inr (overlay ?c 0 ?h, 12)"
    using assms(1) overlay_front [of "[?b0, ?b1] @ ?sq @ ?ts" ?ss ?c]
    by (simp add: Load32_run rtp_header_def)
  have w5: "wr_block (overlay ?c 0 ?h) 12 ?d = Inr (overlay ?c 0 (?h @ ?d))"
    using assms overlay_front [of ?h ?d ?c] by simp
  have t: "take (len + 12) (overlay ?c 0 (?h @ ?d)) = ?h @ ?d"
    using assms by (simp add: overlay_def add.commute)
  obtain r where r: "udpSend os n (overlay ?c 0 (?h @ ?d)) (word_of_nat (len + 12)) = Inr (posts n [?h @ ?d], r)"
    using udpSend_posts [of "len + 12" "overlay ?c 0 (?h @ ?d)" os n] assms t by auto
  have rd: "rd_block src 0 len = Inr ?d"
    using assms by simp
  let ?c' = "overlay (overlay ?c 0 (?h @ ?d)) 0 (replicate (RTP_PAYLOAD_MAX + 10) 0)"
  have clr: "wr_block (overlay ?c 0 (?h @ ?d)) 0 (replicate (RTP_PAYLOAD_MAX + 10) 0) = Inr ?c'"
    using assms by (simp add: RTP_PAYLOAD_MAX_def)
  have "rtpSendData os ctx n src len mark =
      Inr ((next_seq ctx)\<lparr>cache := ?c'\<rparr>, posts n [?h @ ?d])"
    unfolding rtpSendData_def
    by (simp only: w0 w1 w2 w3 w4 w5 rd r clr bind_res_Inr prod.case) (simp add: next_seq_def)
  then show ?thesis
    using assms by (auto simp: arrays_ok_def next_seq_def core_def RTP_PAYLOAD_MAX_def)
qed

section \<open>Fragments\<close>

text \<open>What is sent, one payload with its marker bit per packet, with consecutive headers.\<close>

fun packets :: "RTPMuxContext \<Rightarrow> (int \<times> byte list) list \<Rightarrow> byte list list" where
  "packets ctx [] = []"
| "packets ctx ((mark, p) # xs) = (rtp_header ctx mark @ p) # packets (next_seq ctx) xs"

definition adv :: "nat \<Rightarrow> RTPMuxContext \<Rightarrow> RTPMuxContext" where
  "adv k ctx = (next_seq ^^ k) ctx"

text \<open>The fragments of a NAL unit whose bytes after the first are cut into \<open>cs\<close>.\<close>

fun fu_units :: "byte \<Rightarrow> byte \<Rightarrow> int \<Rightarrow> byte list list \<Rightarrow> (int \<times> byte list) list" where
  "fu_units ind h mark [] = []"
| "fu_units ind h mark [c] = [(mark, ind # (h OR 0x40) # c)]"
| "fu_units ind h mark (c # d # cs) = (0, ind # h # c) # fu_units ind (h AND 0x7f) mark (d # cs)"

lemma adv_simps [simp]: "adv 0 ctx = ctx" "adv (Suc k) ctx = adv k (next_seq ctx)"
  by (simp_all add: adv_def funpow_swap1)

lemma rtp_header_core: "core ctx = core ctx' \<Longrightarrow> rtp_header ctx mark = rtp_header ctx' mark"
  by (cases ctx; cases ctx') (simp add: core_def rtp_header_def)

lemma core_next_seq: "core ctx = core ctx' \<Longrightarrow> core (next_seq ctx) = core (next_seq ctx')"
  by (cases ctx; cases ctx') (simp add: core_def next_seq_def)

lemma core_adv: "core ctx = core ctx' \<Longrightarrow> core (adv k ctx) = core (adv k ctx')"
proof (induction k arbitrary: ctx ctx')
  case (Suc k)
  show ?case using Suc.IH [OF core_next_seq [OF Suc.prems]] by simp
qed simp

lemma packets_core: "core ctx = core ctx' \<Longrightarrow> packets ctx xs = packets ctx' xs"
proof (induction ctx xs arbitrary: ctx' rule: packets.induct)
  case (2 ctx mark p xs)
  show ?case
    using "2.IH" [OF core_next_seq [OF "2.prems"]] rtp_header_core [OF "2.prems"] by simp
qed simp

lemma fu_units_Cons:
  "cs \<noteq> [] \<Longrightarrow> fu_units ind h mark (c # cs) = (0, ind # h # c) # fu_units ind (h AND 0x7f) mark cs"
  by (cases cs) auto

lemma fu_last_run:
  assumes ok: "arrays_ok ctx" and b: "buf ctx ! 0 = ind" "buf ctx ! 1 = h"
    and sz: "sz \<le> 1398" "sz \<le> length nal"
  shows "\<exists>ctx'. fu_last os ctx n nal sz lst =
      Inr (ctx', posts n (packets ctx [(if lst then 1 else 0, ind # (h OR 0x40) # take sz nal)])) \<and>
    arrays_ok ctx' \<and> buf_ptr ctx' = 0 \<and> core ctx' = core (next_seq ctx)"
proof -
  let ?b = "overlay ((buf ctx)[1 := h OR 0x40]) 2 (take sz nal)"
  have len: "length (buf ctx) = 1400" using ok by (simp add: arrays_ok_def)
  then have "\<exists>x y r. buf ctx = x # y # r"
    by (cases "buf ctx"; cases "tl (buf ctx)") auto
  then obtain x y r where br: "buf ctx = x # y # r" by blast
  then have take_b: "take (sz + 2) ?b = ind # (h OR 0x40) # take sz nal"
    using b sz len by (simp add: overlay_def numeral_2_eq_2)
  have ok': "arrays_ok (ctx\<lparr>buf := ?b\<rparr>)"
    using ok sz by (simp add: arrays_ok_def)
  have "fu_last os ctx n nal sz lst =
      rtpSendData os (ctx\<lparr>buf := ?b\<rparr>) n ?b (sz + 2) (if lst then 1 else 0)"
    using len b sz by (simp add: fu_last_def)
  then show ?thesis
    using rtpSendData_run [OF ok', of "sz + 2" ?b os n "if lst then 1 else 0"] sz len take_b
    by (auto simp: core_def next_seq_def rtp_header_def)
qed

text \<open>A pass of the loop sends a full fragment and clears the start bit.\<close>

lemma fu_loop_step:
  assumes "arrays_ok ctx" "buf ctx ! 0 = ind" "buf ctx ! 1 = h" "sz \<le> length nal" "1398 < sz"
  shows "\<exists>ctx'. fu_loop os ctx n nal sz =
      fu_loop os ctx' (posts n [rtp_header ctx 0 @ ind # h # take 1398 nal]) (drop 1398 nal) (sz - 1398) \<and>
    arrays_ok ctx' \<and> buf ctx' ! 0 = ind \<and> buf ctx' ! 1 = h AND 0x7f \<and> core ctx' = core (next_seq ctx)"
proof -
  let ?c = "take 1398 nal"
  let ?b = "overlay (buf ctx) 2 ?c"
  have len: "length (buf ctx) = 1400" using assms(1) by (simp add: arrays_ok_def)
  then have "\<exists>x y r. buf ctx = x # y # r"
    by (cases "buf ctx"; cases "tl (buf ctx)") auto
  then have b: "?b = ind # h # ?c" "length ?b = 1400"
    using assms len by (auto simp: overlay_def numeral_2_eq_2)
  have ok: "arrays_ok (ctx\<lparr>buf := ?b\<rparr>)" using assms b by (simp add: arrays_ok_def)
  obtain ctx1 where ctx1: "rtpSendData os (ctx\<lparr>buf := ?b\<rparr>) n ?b 1400 0 =
      Inr (ctx1, posts n [rtp_header ctx 0 @ ind # h # ?c])"
      "arrays_ok ctx1" "buf ctx1 = ?b" "core ctx1 = core (next_seq ctx)"
    using rtpSendData_run [OF ok, of 1400 ?b os n 0] b assms(4,5)
    by (auto simp: rtp_header_def core_def next_seq_def)
  let ?ctx2 = "ctx1\<lparr>buf := (buf ctx1)[1 := h AND 0x7f]\<rparr>"
  have "fu_loop os ctx n nal sz =
      fu_loop os ?ctx2 (posts n [rtp_header ctx 0 @ ind # h # ?c]) (drop 1398 nal) (sz - 1398)"
    using assms ctx1 b len by (subst fu_loop.simps) (simp add: RTP_PAYLOAD_MAX_def)
  moreover have "core ?ctx2 = core (next_seq ctx)" using ctx1(4) by (simp add: core_def)
  moreover have "arrays_ok ?ctx2" "buf ?ctx2 ! 0 = ind" "buf ?ctx2 ! 1 = h AND 0x7f"
    using ctx1 b by (simp_all add: arrays_ok_def)
  ultimately show ?thesis by blast
qed

lemma fu_loop_run:
  assumes "arrays_ok ctx" "buf ctx ! 0 = ind" "buf ctx ! 1 = h" "sz \<le> length nal"
  shows "\<exists>ctx'. bind_res (fu_loop os ctx n nal sz) (\<lambda>(ctx, n, nal, sz). fu_last os ctx n nal sz lst) =
      Inr (ctx', posts n (packets ctx
        (fu_units ind h (if lst then 1 else 0) (chunks 1398 (take sz nal))))) \<and>
    arrays_ok ctx' \<and> buf_ptr ctx' = 0 \<and> core ctx' = core (adv (length (chunks 1398 (take sz nal))) ctx)"
  using assms
proof (induction sz arbitrary: ctx n nal h rule: less_induct)
  case (less sz)
  show ?case
  proof (cases "sz \<le> 1398")
    case True
    then have "fu_loop os ctx n nal sz = Inr (ctx, n, nal, sz)"
      by (subst fu_loop.simps) (simp add: RTP_PAYLOAD_MAX_def)
    then show ?thesis
      using fu_last_run [OF less.prems(1-3) True less.prems(4), of os n lst] True less.prems(4)
      by (simp add: chunks_short)
  next
    case False
    let ?nal = "drop 1398 nal" and ?sz = "sz - 1398"
    define n' where "n' = posts n [rtp_header ctx 0 @ ind # h # take 1398 nal]"
    obtain ctx2 where step: "fu_loop os ctx n nal sz = fu_loop os ctx2 n' ?nal ?sz"
      and ok2: "arrays_ok ctx2" "buf ctx2 ! 0 = ind" "buf ctx2 ! 1 = h AND 0x7f"
      and core2: "core ctx2 = core (next_seq ctx)"
      using fu_loop_step [OF less.prems, of os n] False by (auto simp: n'_def)
    have tk: "take ?sz ?nal = drop 1398 (take sz nal)"
      by (simp add: drop_take)
    have ch: "chunks 1398 (take sz nal) = take 1398 nal # chunks 1398 (take ?sz ?nal)"
      using False less.prems(4) by (subst chunks_long) (simp_all add: tk min_def)
    have le: "?sz \<le> length ?nal" using less.prems(4) by simp
    obtain ctx' where "bind_res (fu_loop os ctx2 n' ?nal ?sz)
        (\<lambda>(ctx, n, nal, sz). fu_last os ctx n nal sz lst) =
        Inr (ctx', posts n' (packets ctx2
          (fu_units ind (h AND 0x7f) (if lst then 1 else 0) (chunks 1398 (take ?sz ?nal)))))"
        "arrays_ok ctx'" "buf_ptr ctx' = 0" "core ctx' = core (adv (length (chunks 1398 (take ?sz ?nal))) ctx2)"
      using less.IH [OF _ ok2 le, of n'] False by auto
    then show ?thesis
      using core_adv [OF core2] packets_core [OF core2]
      by (simp add: step ch fu_units_Cons n'_def)
  qed
qed

definition fu_list :: "int \<Rightarrow> byte list \<Rightarrow> (int \<times> byte list) list" where
  "fu_list mark nal =
     fu_units (28 OR nal_nri (hd nal)) (nal_type (hd nal) OR 0x80) mark (chunks 1398 (tl nal))"

lemma fragment_run:
  assumes ok: "arrays_ok ctx" and empty: "buf_ptr ctx = 0"
    and sz: "0 < sz" "sz \<le> length nal"
  shows "\<exists>ctx'. fragment os ctx n nal sz lst =
      Inr (ctx', posts n (packets ctx (fu_list (if lst then 1 else 0) (take sz nal)))) \<and>
    arrays_ok ctx' \<and> buf_ptr ctx' = 0 \<and> core ctx' = core (adv (length (chunks 1398 (tl (take sz nal)))) ctx)"
proof -
  obtain x xs where nal: "nal = x # xs" using sz by (cases nal) auto
  let ?ind = "28 OR nal_nri x" and ?h = "nal_type x OR 0x80"
  let ?ctx = "ctx\<lparr>buf := (buf ctx)[0 := ?ind, 1 := ?h]\<rparr>"
  have len: "length (buf ctx) = 1400" using ok by (simp add: arrays_ok_def)
  have c: "core ?ctx = core ctx" by (simp add: core_def)
  have "fragment os ctx n nal sz lst =
      bind_res (fu_loop os ?ctx n xs (sz - 1)) (\<lambda>(ctx, n, nal, sz). fu_last os ctx n nal sz lst)"
    using empty len by (simp add: fragment_def nal nal_nri_def nal_type_def push_bit_eq_mult)
  moreover have "arrays_ok ?ctx" "sz - 1 \<le> length xs" using ok sz nal by (auto simp: arrays_ok_def)
  moreover have "tl (take sz nal) = take (sz - 1) xs" "hd (take sz nal) = x"
    using sz by (cases sz; simp add: nal)+
  ultimately show ?thesis
    using fu_loop_run [of ?ctx ?ind ?h "sz - 1" xs os n lst] len
      packets_core [OF c] core_adv [OF c]
    by (auto simp: fu_list_def)
qed

end
