(* ===== verification/RTPEnc_Stream.thy ===== *)
theory RTPEnc_Stream
  imports RTPEnc
begin

text \<open>
  Correctness of the RTP packetizer of \<^verbatim>\<open>RTPEnc\<close>: the abstract multiplexer (a list of pending
  NAL units, STAP-A packets and FU-A fragments as lists of payloads), the proof that
  \<^verbatim>\<open>rtpSendNAL\<close> and \<^verbatim>\<open>rtpSendH264HEVC\<close> implement it, and what follows for packet sizes,
  sequence numbers and receivers.
\<close>

section \<open>The abstract multiplexer\<close>

text \<open>The header of a STAP-A packet: type 24, the highest NRI, F if one unit has it.\<close>

definition stap_add :: "byte \<Rightarrow> byte list \<Rightarrow> byte" where
  "stap_add h nal =
     (if nal_nri (hd nal) > nal_nri h then (h AND 0x9F) OR nal_nri (hd nal) else h)
       OR nal_f (hd nal)"

fun stap_header :: "byte list list \<Rightarrow> byte" where
  "stap_header [] = 24"
| "stap_header (nal # nals) = foldl stap_add ((24 OR nal_nri (hd nal)) OR nal_f (hd nal)) nals"

definition stap_payload :: "byte list list \<Rightarrow> byte list" where
  "stap_payload ns = (if ns = [] then [] else stap_header ns # concat (map stap_unit ns))"

definition agg_step :: "byte list list \<Rightarrow> byte list \<Rightarrow> bool \<Rightarrow> (int \<times> byte list) list \<times> byte list list" where
  "agg_step ns nal lst =
     (let (us, ns') =
        (if length (stap_payload ns) + 2 + length nal > 1400 then ([(0, stap_payload ns)], [nal])
         else ([], ns @ [nal]))
      in if lst then (us @ [(1, stap_payload ns')], []) else (us, ns'))"

definition mux_step ::
  "bool \<Rightarrow> byte list list \<Rightarrow> byte list \<Rightarrow> bool \<Rightarrow> (int \<times> byte list) list \<times> byte list list" where
  "mux_step agg ns nal lst =
     (let mark = (if lst then 1 else 0) in
      if length nal \<le> 1400 then
        if agg then agg_step ns nal lst else ([(mark, nal)], ns)
      else ((if ns = [] then [] else [(0, stap_payload ns)]) @ fu_list mark nal, []))"

lemma stap_payload_Nil [simp]: "stap_payload [] = []"
  by (simp add: stap_payload_def)

lemma stap_payload_snoc:
  "ns \<noteq> [] \<Longrightarrow> stap_payload (ns @ [nal]) =
     stap_add (stap_header ns) nal # concat (map stap_unit ns) @ stap_unit nal"
  by (cases ns) (simp_all add: stap_payload_def)

section \<open>The aggregation buffer holds the pending units\<close>

definition holds :: "RTPMuxContext \<Rightarrow> byte list list \<Rightarrow> bool" where
  "holds ctx ns \<longleftrightarrow> buf_ptr ctx = length (stap_payload ns) \<and>
     take (buf_ptr ctx) (buf ctx) = stap_payload ns \<and> buf_ptr ctx \<le> 1400"

lemma holds_empty: "buf_ptr ctx = 0 \<Longrightarrow> holds ctx []"
  by (simp add: holds_def)

lemma take_list_update_0: "0 < k \<Longrightarrow> take k (b[0 := x]) = (take k b)[0 := x]"
  by (simp add: take_update_swap)

text \<open>Appending one unit to a buffer whose first \<open>k\<close> bytes are known.\<close>

lemma append_unit:
  assumes "take k b = h # xs" "k \<le> length b" "k + 2 + length d \<le> length b"
  shows "\<exists>b'. bind_res (wr b 0 h') (\<lambda>b. bind_res (Load16 b k (word_of_nat (length d))) (\<lambda>(b, _).
      wr_block b (k + 2) d)) = Inr b' \<and> length b' = length b \<and>
      take (k + 2 + length d) b' = h' # xs @ stap_unit d"
proof -
  have k: "0 < k" using assms(1) by (cases k) auto
  let ?b1 = "b[0 := h']" and ?s = "be16 (word_of_nat (length d))"
  have b1: "take k ?b1 = h' # xs" using assms(1) k by (simp add: take_list_update_0)
  have w: "wr b 0 h' = Inr ?b1" using k assms(2) by (intro wr_Inr) linarith
  have l: "Load16 ?b1 k (word_of_nat (length d)) = Inr (overlay ?b1 k ?s, k + 2)"
    using assms by (simp add: Load16_run)
  have m: "wr_block (overlay ?b1 k ?s) (k + 2) d = Inr (overlay ?b1 k (?s @ d))"
    using assms overlay_overlay [of k ?s d ?b1] by simp
  have "take (k + 2 + length d) (overlay ?b1 k (?s @ d)) = h' # xs @ stap_unit d"
    using take_overlay [of k "?s @ d" ?b1] assms b1 by (simp add: stap_unit_def add.assoc)
  then show ?thesis
    by (simp only: w l m bind_res_Inr prod.case) (use assms in \<open>auto simp: add.assoc\<close>)
qed

lemma put_unit_run:
  assumes ok: "arrays_ok ctx" and pre: "take (buf_ptr ctx) (buf ctx) = h # xs"
    and room: "buf_ptr ctx + 2 + sz \<le> 1400" and sz: "sz \<le> length nal"
  shows "let pl = (h OR (nal0 AND 0x80)) # xs @ stap_unit (take sz nal) in
    \<exists>ctx'. put_unit os ctx n nal sz lst nal0 =
        Inr (ctx', posts n (packets ctx (if lst then [(1, pl)] else []))) \<and> arrays_ok ctx' \<and>
      (if lst then buf_ptr ctx' = 0 \<and> core ctx' = core (next_seq ctx)
       else buf_ptr ctx' = length pl \<and> take (buf_ptr ctx') (buf ctx') = pl \<and> buf_ptr ctx' \<le> 1400 \<and>
            core ctx' = core ctx)"
proof -
  let ?k = "buf_ptr ctx" and ?b = "buf ctx" and ?h' = "h OR (nal0 AND 0x80)"
  let ?d = "take sz nal"
  have len: "length ?b = 1400" and ld: "length ?d = sz" using ok sz by (auto simp: arrays_ok_def)
  have k: "0 < ?k" using pre by (cases ?k) auto
  have h: "rd ?b 0 = Inr h"
    using pre k len by (cases ?b) (auto simp: take_Cons')
  obtain b' where b': "bind_res (wr ?b 0 ?h') (\<lambda>b. bind_res (Load16 b ?k (word_of_nat sz)) (\<lambda>(b, _).
      wr_block b (?k + 2) ?d)) = Inr b'" "length b' = 1400"
      "take (?k + 2 + sz) b' = ?h' # xs @ stap_unit ?d"
    using append_unit [of ?k ?b h xs ?d ?h'] pre room len ld by auto
  let ?ctx = "ctx\<lparr>buf := b', buf_ptr := ?k + 2 + sz\<rparr>"
  have "put_unit os ctx n nal sz lst nal0 =
      (if lst then rtpSendData os ?ctx n b' (?k + 2 + sz) 1 else Inr (?ctx, n))"
    using b'(1) sz by (auto simp: put_unit_def h bind_res_eq_Inr Let_def)
  moreover have "arrays_ok ?ctx" using ok b' by (simp add: arrays_ok_def)
  moreover have "length (?h' # xs @ stap_unit ?d) = ?k + 2 + sz"
    using arg_cong [OF b'(3), of length] b'(2) room by simp
  moreover have "core ?ctx = core ctx" by (simp add: core_def)
  ultimately show ?thesis
    using rtpSendData_run [of ?ctx "?k + 2 + sz" b' os n 1] b' room
      rtp_header_core [of ?ctx ctx 1] core_next_seq [of ?ctx ctx]
    by (auto simp: Let_def)
qed

lemma stap_header_take:
  assumes "holds ctx ns" "ns \<noteq> []"
  shows "take (buf_ptr ctx) (buf ctx) = stap_header ns # concat (map stap_unit ns)"
    "0 < buf_ptr ctx"
  using assms by (auto simp: holds_def stap_payload_def)

lemma holds_stap:
  "buf_ptr ctx = length (stap_payload ns) \<Longrightarrow> take (buf_ptr ctx) (buf ctx) = stap_payload ns \<Longrightarrow>
   buf_ptr ctx \<le> 1400 \<Longrightarrow> holds ctx ns"
  by (simp add: holds_def)

lemma put_unit_holds:
  assumes "arrays_ok ctx0" "take (buf_ptr ctx0) (buf ctx0) = h # xs"
    "buf_ptr ctx0 + 2 + sz \<le> 1400" "sz \<le> length nal" and c: "core ctx0 = core ctx"
    and pl: "stap_payload ns' = (h OR (nal0 AND 0x80)) # xs @ stap_unit (take sz nal)"
  shows "\<exists>ctx'. put_unit os ctx0 n nal sz lst nal0 =
      Inr (ctx', posts n (packets ctx (if lst then [(1, stap_payload ns')] else []))) \<and>
    arrays_ok ctx' \<and> holds ctx' (if lst then [] else ns') \<and>
    core ctx' = core (adv (if lst then 1 else 0) ctx)"
  using put_unit_run [OF assms(1-4), of nal0 os n lst] pl
    packets_core [OF c] core_next_seq [OF c] c
  by (auto simp: Let_def intro!: holds_stap holds_empty split: if_splits)

text \<open>The first unit of a packet, in an empty buffer.\<close>

lemma aggregate_first:
  assumes ok: "arrays_ok ctx" and empty: "buf_ptr ctx = 0"
    and sz: "0 < sz" "sz \<le> 1397" "sz \<le> length nal"
  shows "\<exists>ctx'. aggregate os ctx n nal sz lst =
      Inr (ctx', posts n (packets ctx (fst (agg_step [] (take sz nal) lst)))) \<and> arrays_ok ctx' \<and>
    holds ctx' (snd (agg_step [] (take sz nal) lst)) \<and>
    core ctx' = core (adv (length (fst (agg_step [] (take sz nal) lst))) ctx)"
proof -
  obtain x xs where nal: "nal = x # xs" using sz by (cases nal) auto
  let ?h = "24 OR nal_nri x"
  let ?ctx = "ctx\<lparr>buf := (buf ctx)[0 := ?h], buf_ptr := 1\<rparr>"
  have len: "length (buf ctx) = 1400" using ok by (simp add: arrays_ok_def)
  have c: "core ?ctx = core ctx" by (simp add: core_def)
  have eq: "aggregate os ctx n nal sz lst = put_unit os ?ctx n nal sz lst x"
    using empty sz len by (simp add: aggregate_def nal nal_nri_def RTP_PAYLOAD_MAX_def Let_def)
  have ok1: "arrays_ok ?ctx" using ok by (simp add: arrays_ok_def)
  have tk: "take (buf_ptr ?ctx) (buf ?ctx) = ?h # []"
    using len by (cases "buf ctx") auto
  have "hd (take sz nal) = x" using sz nal by (cases sz) auto
  then have pl: "stap_payload [take sz nal] = (?h OR (x AND 0x80)) # [] @ stap_unit (take sz nal)"
    by (simp add: stap_payload_def nal_f_def)
  have "agg_step [] (take sz nal) lst =
      (if lst then ([(1, stap_payload [take sz nal])], []) else ([], [take sz nal]))"
    using sz by (simp add: agg_step_def)
  then show ?thesis
    using put_unit_holds [OF ok1 tk _ sz(3) c pl, of os n lst] sz by (auto simp: eq)
qed

text \<open>A further unit that fits.\<close>

lemma aggregate_next:
  assumes ok: "arrays_ok ctx" and h: "holds ctx ns" "ns \<noteq> []"
    and fits: "buf_ptr ctx + 2 + sz \<le> 1400" and sz: "0 < sz" "sz \<le> length nal"
  shows "\<exists>ctx'. aggregate os ctx n nal sz lst =
      Inr (ctx', posts n (packets ctx (fst (agg_step ns (take sz nal) lst)))) \<and> arrays_ok ctx' \<and>
    holds ctx' (snd (agg_step ns (take sz nal) lst)) \<and>
    core ctx' = core (adv (length (fst (agg_step ns (take sz nal) lst))) ctx)"
proof -
  obtain x xs where nal: "nal = x # xs" using sz by (cases nal) auto
  let ?H = "stap_header ns"
  let ?h = "if nal_nri x > nal_nri ?H then (?H AND 0x9F) OR nal_nri x else ?H"
  let ?ctx = "if nal_nri x > nal_nri ?H then ctx\<lparr>buf := (buf ctx)[0 := ?h]\<rparr> else ctx"
  have len: "length (buf ctx) = 1400" using ok by (simp add: arrays_ok_def)
  have c: "core ?ctx = core ctx" by (simp add: core_def)
  have hd: "hd (take sz nal) = x" using sz nal by (cases sz) auto
  note tk = stap_header_take [OF h]
  have b0: "rd (buf ctx) 0 = Inr ?H"
    using tk len by (cases "buf ctx") (auto simp: take_Cons')
  have eq: "aggregate os ctx n nal sz lst = put_unit os ?ctx n nal sz lst x"
    using fits tk len
    by (simp add: aggregate_def nal b0 nal_nri_def RTP_PAYLOAD_MAX_def Let_def del: rd_Inr)
       (simp add: rd_def)
  have ok1: "arrays_ok ?ctx" using ok by (simp add: arrays_ok_def)
  have tk1: "take (buf_ptr ?ctx) (buf ?ctx) = ?h # concat (map stap_unit ns)"
    using tk by (simp add: take_list_update_0)
  have ptr: "buf_ptr ctx = length (stap_payload ns)" using h by (simp add: holds_def)
  have pl: "stap_payload (ns @ [take sz nal]) =
      (?h OR (x AND 0x80)) # concat (map stap_unit ns) @ stap_unit (take sz nal)"
    using h hd by (simp add: stap_payload_snoc stap_add_def nal_f_def)
  have "agg_step ns (take sz nal) lst =
      (if lst then ([(1, stap_payload (ns @ [take sz nal]))], []) else ([], ns @ [take sz nal]))"
    using sz fits ptr by (simp add: agg_step_def)
  then show ?thesis
    using put_unit_holds [OF ok1 tk1 _ sz(2) c pl, of os n lst] fits by (auto simp: eq)
qed

text \<open>When the buffer is full it is sent first, and the unit begins a new packet.\<close>

lemma aggregate_flush:
  assumes ok: "arrays_ok ctx" and full: "buf_ptr ctx + 2 + sz > 1400" "buf_ptr ctx \<le> 1400"
    and sz: "0 < sz" "sz \<le> length nal" "sz \<le> 1398"
  shows "\<exists>ctx1. aggregate os ctx n nal sz lst =
      aggregate os ctx1 (posts n [rtp_header ctx 0 @ take (buf_ptr ctx) (buf ctx)]) nal sz lst \<and>
    arrays_ok ctx1 \<and> buf_ptr ctx1 = 0 \<and> core ctx1 = core (next_seq ctx)"
proof -
  obtain x xs where nal: "nal = x # xs" using sz by (cases nal) auto
  have "length (buf ctx) = 1400" using ok by (simp add: arrays_ok_def)
  then obtain ctx1 where ctx1: "rtpSendData os ctx n (buf ctx) (buf_ptr ctx) 0 =
      Inr (ctx1, posts n [rtp_header ctx 0 @ take (buf_ptr ctx) (buf ctx)])"
      "arrays_ok ctx1" "buf_ptr ctx1 = 0" "core ctx1 = core (next_seq ctx)"
    using rtpSendData_run [OF ok, of "buf_ptr ctx" "buf ctx" os n 0] full by auto
  have "aggregate os ctx n nal sz lst =
      aggregate os ctx1 (posts n [rtp_header ctx 0 @ take (buf_ptr ctx) (buf ctx)]) nal sz lst"
    using full sz ctx1 by (simp add: aggregate_def nal RTP_PAYLOAD_MAX_def Let_def)
  with ctx1 show ?thesis by blast
qed

lemma aggregate_run:
  assumes ok: "arrays_ok ctx" and h: "holds ctx ns"
    and sz: "0 < sz" "sz \<le> 1397" "sz \<le> length nal"
  shows "\<exists>ctx'. aggregate os ctx n nal sz lst =
      Inr (ctx', posts n (packets ctx (fst (agg_step ns (take sz nal) lst)))) \<and> arrays_ok ctx' \<and>
    holds ctx' (snd (agg_step ns (take sz nal) lst)) \<and>
    core ctx' = core (adv (length (fst (agg_step ns (take sz nal) lst))) ctx)"
proof (cases "buf_ptr ctx + 2 + sz > 1400")
  case True
  have ptr: "buf_ptr ctx = length (stap_payload ns)" "take (buf_ptr ctx) (buf ctx) = stap_payload ns"
    using h unfolding holds_def by blast+
  obtain ctx1 where ctx1: "aggregate os ctx n nal sz lst =
      aggregate os ctx1 (posts n [rtp_header ctx 0 @ stap_payload ns]) nal sz lst"
      "arrays_ok ctx1" "buf_ptr ctx1 = 0" "core ctx1 = core (next_seq ctx)"
    using aggregate_flush [OF ok True _ sz(1,3), of os n lst] h sz ptr(2)
    by (auto simp: holds_def)
  let ?step = "agg_step [] (take sz nal) lst"
  have step: "agg_step ns (take sz nal) lst = ((0, stap_payload ns) # fst ?step, snd ?step)"
    using True ptr(1) sz by (simp add: agg_step_def)
  obtain ctx' where ctx': "aggregate os ctx1 (posts n [rtp_header ctx 0 @ stap_payload ns]) nal sz lst =
      Inr (ctx', posts (posts n [rtp_header ctx 0 @ stap_payload ns]) (packets ctx1 (fst ?step)))"
      "arrays_ok ctx'" "holds ctx' (snd ?step)" "core ctx' = core (adv (length (fst ?step)) ctx1)"
    using aggregate_first [OF ctx1(2,3) sz] by blast
  then show ?thesis
    using ctx1(1) packets_core [OF ctx1(4)] core_adv [OF ctx1(4)] by (simp add: step)
next
  case False
  show ?thesis
  proof (cases "ns = []")
    case True
    then show ?thesis using aggregate_first [OF ok _ sz] h by (simp add: holds_def)
  next
    case ns: False
    show ?thesis using aggregate_next [OF ok h ns _ sz(1,3)] False by simp
  qed
qed

section \<open>The aggregation buffer overflows for units of 1398 to 1400 bytes\<close>

lemma put_unit_overflow:
  assumes "arrays_ok ctx" "buf_ptr ctx = 1" "1398 \<le> sz" "sz \<le> length nal" "sz < 65536"
  shows "put_unit os ctx n nal sz lst nal0 = Inl Write_Overflow"
proof -
  have "length (buf ctx) = 1400" using assms by (simp add: arrays_ok_def)
  then show ?thesis
    using assms by (simp add: put_unit_def Load16_run wr_block_def)
qed

lemma aggregate_overflow:
  assumes ok: "arrays_ok ctx" "buf_ptr ctx \<le> 1400"
    and sz: "1398 \<le> sz" "sz \<le> 1400" "sz \<le> length nal"
  shows "aggregate os ctx n nal sz lst = Inl Write_Overflow"
proof -
  obtain x xs where nal: "nal = x # xs" using sz by (cases nal) auto
  have len: "length (buf ctx) = 1400" using ok by (simp add: arrays_ok_def)
  have put: "put_unit os (c\<lparr>buf := (buf c)[0 := h], buf_ptr := 1\<rparr>) n nal sz lst x = Inl Write_Overflow"
    if "arrays_ok c" for c h n
    using that sz by (intro put_unit_overflow) (simp_all add: arrays_ok_def)
  show ?thesis
  proof (cases "buf_ptr ctx + 2 + sz > 1400")
    case True
    obtain ctx1 p where "rtpSendData os ctx n (buf ctx) (buf_ptr ctx) 0 = Inr (ctx1, posts n [p])"
        "arrays_ok ctx1" "buf_ptr ctx1 = 0"
      using rtpSendData_run [of ctx "buf_ptr ctx" "buf ctx" os n 0] ok len by auto
    then show ?thesis
      using True put by (simp add: aggregate_def nal RTP_PAYLOAD_MAX_def Let_def arrays_ok_def)
  next
    case False
    then have "buf_ptr ctx = 0" using sz by simp
    then show ?thesis
      using False put [OF ok(1)] len by (simp add: aggregate_def nal RTP_PAYLOAD_MAX_def Let_def)
  qed
qed

section \<open>One NAL unit\<close>

text \<open>The sizes that \<^verbatim>\<open>rtpSendNAL\<close> handles without leaving \<^verbatim>\<open>buf\<close>.\<close>

definition sendable :: "RTPMuxContext \<Rightarrow> byte list \<Rightarrow> bool" where
  "sendable ctx nal \<longleftrightarrow> nal \<noteq> [] \<and>
     (aggregation ctx \<noteq> 0 \<longrightarrow> \<not> (1398 \<le> length nal \<and> length nal \<le> 1400))"

lemma fu_units_length [simp]: "length (fu_units ind h mark cs) = length cs"
  by (induction ind h mark cs rule: fu_units.induct) auto

lemma aggregation_core: "core c = core c' \<Longrightarrow> aggregation c = aggregation c'"
  by (cases c; cases c') (simp add: core_def)

lemma aggregation_adv [simp]: "aggregation (adv k c) = aggregation c"
  by (induction k arbitrary: c) (auto simp: next_seq_def)

lemma rtpSendNAL_run:
  fixes lst :: bool
  assumes ok: "arrays_ok ctx" and h: "holds ctx ns" and agg: "aggregation ctx = 0 \<Longrightarrow> ns = []"
    and sz: "sz \<le> length nal" "sendable ctx (take sz nal)"
  defines "st \<equiv> mux_step (aggregation ctx \<noteq> 0) ns (take sz nal) lst"
  shows "\<exists>ctx'. rtpSendNAL os ctx n nal sz lst = Inr (ctx', posts n (packets ctx (fst st))) \<and>
    arrays_ok ctx' \<and> holds ctx' (snd st) \<and> core ctx' = core (adv (length (fst st)) ctx)"
proof -
  have len: "length (take sz nal) = sz" "0 < sz" using sz by (auto simp: sendable_def)
  consider "sz \<le> 1400" "aggregation ctx \<noteq> 0" | "sz \<le> 1400" "aggregation ctx = 0" | "1400 < sz"
    by linarith
  then show ?thesis
  proof cases
    case 1
    then have "sz \<le> 1397" using sz len by (auto simp: sendable_def)
    with aggregate_run [OF ok h len(2) _ sz(1), of os n lst] 1 len show ?thesis
      by (simp add: rtpSendNAL_def st_def mux_step_def RTP_PAYLOAD_MAX_def)
  next
    case 2
    have "buf_ptr ctx = 0" "ns = []" using h agg 2 by (auto simp: holds_def)
    then show ?thesis
      using 2 len sz rtpSendData_run [OF ok sz(1), of os n "if lst then 1 else 0"]
      by (auto simp: rtpSendNAL_def st_def mux_step_def RTP_PAYLOAD_MAX_def intro: holds_empty)
  next
    case 3
    have run: "rtpSendNAL os ctx n nal sz lst = fragment os ctx n nal sz lst"
      using 3 by (simp add: rtpSendNAL_def RTP_PAYLOAD_MAX_def)
    show ?thesis
    proof (cases "ns = []")
      case True
      then have "buf_ptr ctx = 0" using h by (simp add: holds_def)
      then show ?thesis
        using 3 True len run fragment_run [OF ok _ len(2) sz(1), of os n lst]
        by (auto simp: st_def mux_step_def fu_list_def intro: holds_empty)
    next
      case False
      have ptr: "0 < buf_ptr ctx" "take (buf_ptr ctx) (buf ctx) = stap_payload ns" "buf_ptr ctx \<le> 1400"
        using h False by (auto simp: holds_def stap_payload_def)
      let ?n = "posts n [rtp_header ctx 0 @ stap_payload ns]"
      have "length (buf ctx) = 1400" using ok by (simp add: arrays_ok_def)
      then obtain ctx1 where ctx1: "rtpSendData os ctx n (buf ctx) (buf_ptr ctx) 0 = Inr (ctx1, ?n)"
          "arrays_ok ctx1" "buf_ptr ctx1 = 0" "core ctx1 = core (next_seq ctx)"
        using rtpSendData_run [OF ok, of "buf_ptr ctx" "buf ctx" os n 0] ptr by auto
      have "fragment os ctx n nal sz lst = fragment os ctx1 ?n nal sz lst"
        using ctx1 ptr by (simp add: fragment_def)
      then show ?thesis
        using 3 False len run fragment_run [OF ctx1(2,3) len(2) sz(1), of os ?n lst]
          packets_core [OF ctx1(4)] core_adv [OF ctx1(4)]
        by (auto simp: st_def mux_step_def fu_list_def intro: holds_empty)
    qed
  qed
qed

section \<open>A whole stream\<close>

definition tick :: "RTPMuxContext \<Rightarrow> RTPMuxContext" where
  "tick ctx = ctx\<lparr>timestamp := timestamp ctx + 3600\<rparr>"

fun stream_packets :: "RTPMuxContext \<Rightarrow> byte list list \<Rightarrow> byte list list \<Rightarrow> byte list list" where
  "stream_packets ctx ns [] = []"
| "stream_packets ctx ns (nal # nals) =
     (let st = mux_step (aggregation ctx \<noteq> 0) ns nal (nals = []) in
      packets ctx (fst st) @ stream_packets (tick (adv (length (fst st)) ctx)) (snd st) nals)"

lemma core_tick: "core c = core c' \<Longrightarrow> core (tick c) = core (tick c')"
  by (cases c; cases c') (simp add: core_def tick_def)

lemma stream_packets_core: "core c = core c' \<Longrightarrow> stream_packets c ns nals = stream_packets c' ns nals"
proof (induction c ns nals arbitrary: c' rule: stream_packets.induct)
  case (2 c ns nal nals)
  have agg: "aggregation c = aggregation c'" by (rule aggregation_core [OF "2.prems"])
  from "2.IH" [OF refl core_tick [OF core_adv [OF "2.prems"]]] show ?case
    using packets_core [OF "2.prems"] by (simp add: agg Let_def)
qed simp

lemma timestamp_core: "core c = core c' \<Longrightarrow> timestamp c = timestamp c'"
  by (cases c; cases c') (simp add: core_def)

lemma timestamp_adv [simp]: "timestamp (adv k c) = timestamp c"
  by (induction k arbitrary: c) (auto simp: next_seq_def)

lemma mux_step_unaggregated: "snd (mux_step False [] nal lst) = []"
  by (simp add: mux_step_def)

lemma mux_step_last: "ns = [] \<or> agg \<Longrightarrow> snd (mux_step agg ns nal True) = []"
  by (auto simp: mux_step_def agg_step_def Let_def split: prod.splits)

lemma send_loop_run:
  assumes "nal_chain (ff_avc_find_startcode base m) m e r spans" "e \<le> length m"
    and "arrays_ok ctx" "holds ctx ns" "aggregation ctx = 0 \<Longrightarrow> ns = []"
    and "\<forall>(s, l) \<in> set spans. s + l \<le> e \<and> sendable ctx (take l (drop s m))"
    and "uint (timestamp ctx) + 3600 * int (length spans) < 2 ^ 32" "r \<le> e"
  shows "\<exists>ctx'. send_loop os base m e ctx n r =
      Inr (ctx', posts n (stream_packets ctx ns (map (\<lambda>(s, l). take l (drop s m)) spans))) \<and>
    arrays_ok ctx'"
  using assms
proof (induction arbitrary: ctx n ns rule: nal_chain.induct)
  case (chain_end r)
  then show ?case by (subst send_loop.simps) auto
next
  case (chain_nal r r' xs)
  let ?r1 = "ff_avc_find_startcode base m r' e" and ?l = "ff_avc_find_startcode base m r' e - r'"
  let ?nal = "take ?l (drop r' m)"
  let ?st = "mux_step (aggregation ctx \<noteq> 0) ns ?nal (xs = [])"
  have unit: "r' + ?l \<le> e" "sendable ctx ?nal" using chain_nal.prems by auto
  then have "0 < ?l" by (auto simp: sendable_def)
  then have r1: "?r1 \<le> e" "?l \<le> length (drop r' m)" using unit chain_nal.prems by auto
  have lst: "(?r1 = e) = (xs = [])"
    using chain_nal.hyps(3) r1(1) by (auto elim: nal_chain.cases)
  obtain c1 where c1: "rtpSendNAL os ctx n (drop r' m) ?l (?r1 = e) =
      Inr (c1, posts n (packets ctx (fst ?st)))"
      "arrays_ok c1" "holds c1 (snd ?st)" "core c1 = core (adv (length (fst ?st)) ctx)"
    using rtpSendNAL_run [OF chain_nal.prems(2,3,4) r1(2) unit(2), of os n "?r1 = e"] lst by auto
  have ts: "timestamp c1 = timestamp ctx" using timestamp_core [OF c1(4)] by simp
  have ag: "aggregation c1 = aggregation ctx" using aggregation_core [OF c1(4)] by simp
  have tc: "add_timestamp c1 = Inr (tick c1)"
    using chain_nal.prems(6) ts by (simp add: add_timestamp_def tick_def)
  have step: "send_loop os base m e ctx n r =
      send_loop os base m e (tick c1) (posts n (packets ctx (fst ?st))) ?r1"
    using chain_nal.hyps(1,2) c1(1) tc by (subst send_loop.simps) (simp add: Let_def)
  have ok: "arrays_ok (tick c1)" "holds (tick c1) (snd ?st)"
    using c1 by (auto simp: arrays_ok_def holds_def tick_def)
  have ns: "snd ?st = []" if "aggregation (tick c1) = 0"
    using that ag chain_nal.prems(4) by (simp add: tick_def mux_step_unaggregated)
  have all: "\<forall>(s, l) \<in> set xs. s + l \<le> e \<and> sendable (tick c1) (take l (drop s m))"
    using chain_nal.prems(5) ag by (auto simp: sendable_def tick_def)
  have tm: "uint (timestamp (tick c1)) + 3600 * int (length xs) < 2 ^ 32"
    using chain_nal.prems(6) ts by (simp add: tick_def uint_word_ariths)
  obtain c2 where c2: "send_loop os base m e (tick c1) (posts n (packets ctx (fst ?st))) ?r1 =
      Inr (c2, posts (posts n (packets ctx (fst ?st)))
        (stream_packets (tick c1) (snd ?st) (map (\<lambda>(s, l). take l (drop s m)) xs)))" "arrays_ok c2"
    using chain_nal.IH [OF chain_nal.prems(1) ok ns all tm r1(1)] by blast
  have "stream_packets (tick c1) nss nals = stream_packets (tick (adv (length (fst ?st)) ctx)) nss nals"
    for nss nals
    by (rule stream_packets_core [OF core_tick [OF c1(4)]])
  with c2 show ?case by (simp add: step Let_def)
qed

lemma rtpSendH264HEVC_stream:
  assumes xs: "\<forall>(long, nal) \<in> set xs. nal_ok nal \<and> sendable ctx nal" "xs \<noteq> []"
    and ok: "arrays_ok ctx" "buf_ptr ctx = 0"
    and ts: "uint (timestamp ctx) + 3600 * int (length xs) < 2 ^ 32"
  shows "\<exists>ctx'. rtpSendH264HEVC os base (Some ctx) (Some n) (Some (annexb xs)) (int (length (annexb xs))) =
    Inr (Some ctx', Some (posts n (stream_packets ctx [] (map snd xs))))"
proof -
  let ?m = "annexb xs"
  have nals: "\<forall>(long, nal) \<in> set xs. nal_ok nal" using xs by auto
  have chain: "nal_chain (ff_avc_find_startcode base ?m) ?m (length ?m) 0 (unit_spans 0 xs)"
    using avc.nal_chain_annexb [of ?m "[]" xs base] nals by simp
  have first: "ff_avc_find_startcode base ?m 0 (length ?m) = 0"
    by (rule avc.first_unit [OF refl nals])
  have slices: "map (\<lambda>(s, l). take l (drop s ?m)) (unit_spans 0 xs) = map snd xs"
    using unit_spans_slices [of ?m "[]" xs] by simp
  have len: "length (unit_spans 0 xs) = length xs"
    using arg_cong [OF slices, of length] by simp
  have "s + l \<le> length ?m \<and> sendable ctx (take l (drop s ?m))" if "(s, l) \<in> set (unit_spans 0 xs)" for s l
  proof -
    have "take l (drop s ?m) \<in> set (map snd xs)"
      using that unfolding slices [symmetric] by force
    then have send: "sendable ctx (take l (drop s ?m))" using xs by auto
    then show ?thesis using unit_spans_inside [OF that] by simp
  qed
  then have all: "\<forall>(s, l) \<in> set (unit_spans 0 xs). s + l \<le> length ?m \<and> sendable ctx (take l (drop s ?m))"
    by auto
  have "0 < length ?m" using xs(2) by (cases xs) (auto simp: start_code_def split: if_splits)
  then show ?thesis
    using send_loop_run [OF chain order.refl ok(1) holds_empty [OF ok(2)] refl all _ le0, of os n] ts
    by (auto simp: rtpSendH264HEVC_def first len slices Let_def)
qed

section \<open>Packet sizes\<close>

lemma packets_bound:
  assumes "\<forall>(mark, p) \<in> set us. length p \<le> k"
  shows "q \<in> set (packets ctx us) \<Longrightarrow> length q \<le> 12 + k"
  using assms by (induction ctx us rule: packets.induct) auto

lemma fu_units_bound:
  "(mark', p) \<in> set (fu_units ind h mark cs) \<Longrightarrow> \<forall>c \<in> set cs. length c \<le> k \<Longrightarrow> length p \<le> k + 2"
  by (induction ind h mark cs rule: fu_units.induct) auto

lemma mux_step_bound:
  assumes "length (stap_payload ns) \<le> 1400" "agg \<Longrightarrow> length nal \<notin> {1398..1400}"
    and us: "(mark, p) \<in> set (fst (mux_step agg ns nal lst))"
  shows "length p \<le> 1400"
proof (cases "length nal \<le> 1400")
  case False
  have "\<forall>c \<in> set (chunks 1398 (tl nal)). length c \<le> 1398"
    by (auto intro: length_chunk)
  then show ?thesis
    using us False assms(1) fu_units_bound [of mark p _ _ _ "chunks 1398 (tl nal)" 1398]
    by (auto simp: mux_step_def fu_list_def Let_def split: if_splits)
next
  case True
  show ?thesis
  proof (cases agg)
    case False
    then show ?thesis using us True by (simp add: mux_step_def)
  next
    case agg: True
    have l1: "length (stap_payload [nal]) \<le> 1400"
      using True assms(2) agg by (simp add: stap_payload_def)
    have "length (stap_payload (ns @ [nal])) \<le> 1400" if "length (stap_payload ns) + 2 + length nal \<le> 1400"
      using that l1 by (cases "ns = []") (auto simp: stap_payload_snoc stap_payload_def)
    then show ?thesis
      using us True agg l1 assms(1)
      by (auto simp: mux_step_def agg_step_def Let_def split: if_splits)
  qed
qed

lemma mux_step_pending:
  assumes "length (stap_payload ns) \<le> 1400" "agg \<Longrightarrow> length nal \<notin> {1398..1400}" "agg \<or> ns = []"
  shows "length (stap_payload (snd (mux_step agg ns nal lst))) \<le> 1400"
proof (cases "length nal \<le> 1400 \<and> agg")
  case True
  then have l1: "length (stap_payload [nal]) \<le> 1400"
    using assms(2) by (simp add: stap_payload_def)
  have "length (stap_payload (ns @ [nal])) \<le> 1400" if "length (stap_payload ns) + 2 + length nal \<le> 1400"
    using that l1 by (cases "ns = []") (auto simp: stap_payload_snoc stap_payload_def)
  then show ?thesis
    using True l1 by (auto simp: mux_step_def agg_step_def Let_def)
next
  case False
  then show ?thesis using assms by (auto simp: mux_step_def Let_def)
qed

lemma stream_packets_bound:
  assumes "length (stap_payload ns) \<le> 1400" "\<forall>nal \<in> set nals. sendable ctx nal"
    "aggregation ctx \<noteq> 0 \<or> ns = []" "q \<in> set (stream_packets ctx ns nals)"
  shows "length q \<le> 1412"
  using assms
proof (induction ctx ns nals rule: stream_packets.induct)
  case (2 ctx ns nal nals)
  let ?agg = "aggregation ctx \<noteq> 0"
  let ?st = "mux_step ?agg ns nal (nals = [])"
  have sz: "?agg \<Longrightarrow> length nal \<notin> {1398..1400}"
    using "2.prems"(2) by (auto simp: sendable_def)
  consider "q \<in> set (packets ctx (fst ?st))"
    | "q \<in> set (stream_packets (tick (adv (length (fst ?st)) ctx)) (snd ?st) nals)"
    using "2.prems"(4) by (auto simp: Let_def)
  then show ?case
  proof cases
    case 1
    then show ?thesis
      using packets_bound [of "fst ?st" 1400 q ctx] mux_step_bound [OF "2.prems"(1) sz] by auto
  next
    case q: 2
    have ag: "aggregation (tick (adv k ctx)) = aggregation ctx" for k by (simp add: tick_def)
    have pend: "length (stap_payload (snd ?st)) \<le> 1400"
      using mux_step_pending [OF "2.prems"(1) sz] "2.prems"(3) by auto
    have nil: "?agg \<or> snd ?st = []"
      using "2.prems"(3) by (auto simp: mux_step_unaggregated)
    show ?thesis
      using "2.IH" [OF refl pend _ _ q] "2.prems"(2) nil by (auto simp: sendable_def ag)
  qed
qed simp

section \<open>Sequence numbers\<close>

definition seq_of :: "byte list \<Rightarrow> u16" where
  "seq_of p = of_be16 (p ! 2) (p ! 3)"

lemma seq_of_header [simp]: "seq_of (rtp_header ctx mark @ p) = ucast (seq ctx)"
  by (simp add: seq_of_def rtp_header_def be16_def numeral_2_eq_2 numeral_3_eq_3)

lemma mask_16: "(mask 16 :: u32) = 0xffff"
  by (simp add: mask_eq_exp_minus_1)

lemma ucast_seq_next [simp]: "(ucast (seq (next_seq ctx)) :: u16) = ucast (seq ctx) + 1"
proof -
  have low: "(ucast (y AND 0xffff) :: u16) = ucast y" for y :: u32
    by (rule bit_word_eqI)
       (auto simp: bit_ucast_iff bit_and_iff bit_numeral_iff bit_mask_iff
        simp flip: mask_16)
  have "(ucast (x + 1) :: u16) = ucast x + 1" for x :: u32
    by (simp add: word_uint_eq_iff uint_word_ariths unsigned_ucast_eq take_bit_eq_mod
        mod_mod_cancel mod_simps)
  then show ?thesis by (simp add: next_seq_def low)
qed

lemma seq_packets:
  "i < length us \<Longrightarrow> seq_of (packets ctx us ! i) = ucast (seq ctx) + of_nat i"
proof (induction ctx us arbitrary: i rule: packets.induct)
  case (2 ctx mark p us)
  then show ?case by (cases i) (simp_all add: add.assoc)
qed simp

lemma length_packets [simp]: "length (packets ctx us) = length us"
  by (induction ctx us rule: packets.induct) auto

lemma ucast_seq_adv: "(ucast (seq (adv k ctx)) :: u16) = ucast (seq ctx) + of_nat k"
  by (induction k arbitrary: ctx) (simp_all add: add.assoc)

lemma seq_stream_packets:
  "i < length (stream_packets ctx ns nals) \<Longrightarrow>
   seq_of (stream_packets ctx ns nals ! i) = ucast (seq ctx) + of_nat i"
proof (induction ctx ns nals arbitrary: i rule: stream_packets.induct)
  case (2 ctx ns nal nals)
  let ?st = "mux_step (aggregation ctx \<noteq> 0) ns nal (nals = [])"
  let ?k = "length (fst ?st)"
  show ?case
  proof (cases "i < ?k")
    case True
    then show ?thesis by (simp add: Let_def nth_append seq_packets)
  next
    case False
    then have "seq_of (stream_packets (tick (adv ?k ctx)) (snd ?st) nals ! (i - ?k)) =
        ucast (seq (tick (adv ?k ctx))) + of_nat (i - ?k)"
      using "2.prems" by (intro "2.IH" [OF refl]) (auto simp: Let_def)
    also have "\<dots> = ucast (seq ctx) + (of_nat ?k + of_nat (i - ?k))"
      by (simp add: tick_def ucast_seq_adv add.assoc)
    also have "of_nat ?k + of_nat (i - ?k) = (of_nat i :: u16)"
      using False by (metis le_add_diff_inverse not_less of_nat_add)
    finally show ?thesis using False by (simp add: Let_def nth_append)
  qed
qed simp

end
