(* ===== verification/RTPEnc_Receive.thy ===== *)
theory RTPEnc_Receive
  imports RTPEnc_Stream
begin

text \<open>
  What a receiver gets from the packets of \<^verbatim>\<open>RTPEnc\<close>: taken apart as RFC 6184 says, they are
  the NAL units of the stream, with or without aggregation; without aggregation they satisfy
  the interface \<open>nal_depacketizer\<close> that the receivers of the repository implement.
\<close>

definition plain_nal :: "byte list \<Rightarrow> bool" where
  "plain_nal nal \<longleftrightarrow> nal \<noteq> [] \<and> 1 \<le> nal_type (hd nal) \<and> nal_type (hd nal) \<le> 23 \<and>
     (1400 < length nal \<longrightarrow> nal_f (hd nal) = 0)"

lemma drop_packets [simp]: "map (drop 12) (packets ctx us) = map snd us"
  by (induction ctx us rule: packets.induct) auto

lemma long_chunks: "1400 < length nal \<Longrightarrow> \<exists>c cs. cs \<noteq> [] \<and> chunks 1398 (tl nal) = c # cs"
  by (subst chunks_long) auto

section \<open>Fragments\<close>

lemma depay_fu_cont:
  assumes "h AND 0x80 = 0" "h AND 0x40 = 0" "nal_type ind = 28" "cs \<noteq> []"
  shows "depay (Some acc) (map snd (fu_units ind h mark cs) @ ps) =
    map_option (Cons (acc @ concat cs)) (depay None ps)"
  using assms
proof (induction ind h mark cs arbitrary: acc rule: fu_units.induct)
  case (2 ind h mark c)
  then show ?case by (simp add: fu_header_bits)
next
  case (3 ind h mark c d cs)
  then show ?case by (simp add: fu_header_bits)
qed simp

lemma depay_fu_list:
  assumes "1400 < length nal" "nal_f (hd nal) = 0"
  shows "depay None (map snd (fu_list mark nal) @ ps) = map_option (Cons nal) (depay None ps)"
proof -
  let ?x = "hd nal"
  let ?ind = "28 OR nal_nri ?x" and ?h = "nal_type ?x OR 0x80"
  obtain c cs where cs: "cs \<noteq> []" "chunks 1398 (tl nal) = c # cs"
    using long_chunks [OF assms(1)] by blast
  have cat: "c @ concat cs = tl nal"
    using concat_chunks [of 1398 "tl nal"] cs by simp
  have hdr: "(?ind AND 0xE0) OR (?h AND 0x1F) = ?x"
  proof -
    have "(?ind AND 0xE0) OR (?h AND 0x1F) = fu_nal_header ?ind ?h"
      by (simp add: fu_nal_header_def nal_nri_def bit.conj_disj_distrib2 and.assoc)
    then show ?thesis using fu_nal_header_of [OF assms(2)] by simp
  qed
  have "nal \<noteq> []" using assms(1) by auto
  then show ?thesis
    using cs cat hdr
    by (simp add: fu_list_def fu_units_Cons fu_header_bits depay_fu_cont)
qed

lemma fu_cont_packets:
  assumes "h AND 0x80 = 0" "nal_type ind = 28" "\<forall>c \<in> set cs. length c \<le> 1398"
  shows "fu_cont_pkts 1412 (packets ctx (fu_units ind h mark cs)) (concat cs)"
  using assms
proof (induction ind h mark cs arbitrary: ctx rule: fu_units.induct)
  case (1 ind h mark)
  then show ?case by (auto intro: fu_cont_pkts.intros)
next
  case (2 ind h mark c)
  then show ?case
    using fc_Cons [of "rtp_header ctx mark" ind "h OR 0x40" c 1412 "[]" "[]"]
    by (simp add: fu_header_bits fc_Nil)
next
  case (3 ind h mark c d cs)
  then have "fu_cont_pkts 1412 (packets (next_seq ctx) (fu_units ind (h AND 0x7f) mark (d # cs)))
      (concat (d # cs))"
    by (intro "3.IH") (simp_all add: fu_header_bits)
  then show ?case using 3 by (auto intro: fc_Cons)
qed

lemma fu_list_pkts:
  assumes "1400 < length nal" "nal_f (hd nal) = 0"
  shows "fu_pkts 1412 (packets ctx (fu_list mark nal)) nal"
proof -
  let ?x = "hd nal"
  let ?ind = "28 OR nal_nri ?x" and ?h = "nal_type ?x OR 0x80"
  obtain c cs where cs: "cs \<noteq> []" "chunks 1398 (tl nal) = c # cs"
    using long_chunks [OF assms(1)] by blast
  have cat: "c @ concat cs = tl nal"
    using concat_chunks [of 1398 "tl nal"] cs by simp
  have len: "\<forall>c \<in> set (c # cs). length c \<le> 1398"
    using length_chunk [of 1398 _ "tl nal"] cs by auto
  have nal: "?x # tl nal = nal" using assms(1) by (cases nal) auto
  have "fu_cont_pkts 1412 (packets (next_seq ctx) (fu_units ?ind (?h AND 0x7f) mark cs)) (concat cs)"
    using len by (intro fu_cont_packets) (simp_all add: fu_header_bits)
  then have "fu_pkts 1412 ((rtp_header ctx 0 @ ?ind # ?h # c) #
      packets (next_seq ctx) (fu_units ?ind (?h AND 0x7f) mark cs))
      (fu_nal_header ?ind ?h # c @ concat cs)"
    using len by (intro fu_start) (simp_all add: fu_header_bits)
  then show ?thesis
    using cs cat nal fu_nal_header_of [OF assms(2)] by (simp add: fu_list_def fu_units_Cons)
qed

section \<open>Aggregation packets\<close>

lemma stap_split_units:
  "\<forall>nal \<in> set ns. length nal < 65536 \<Longrightarrow> stap_split (concat (map stap_unit ns)) = Some ns"
proof (induction ns)
  case (Cons nal ns)
  then show ?case
    by (simp add: stap_unit_def be16_def Let_def unsigned_of_nat take_bit_eq_mod)
qed simp

lemma nal_type_stap_add [simp]: "nal_type (stap_add h nal) = nal_type h"
  by (simp add: stap_add_def nal_type_def nal_nri_def nal_f_def bit.conj_disj_distrib2 and.assoc)

lemma nal_type_foldl: "nal_type (foldl stap_add h nals) = nal_type h"
  by (induction nals arbitrary: h) auto

lemma nal_type_first: "nal_type ((24 OR nal_nri x) OR nal_f y) = 24"
  by (simp add: nal_type_def nal_nri_def nal_f_def bit.conj_disj_distrib2 and.assoc)

lemma nal_type_stap_header [simp]: "nal_type (stap_header ns) = 24"
proof (cases ns)
  case Nil
  then show ?thesis by (simp add: nal_type_def)
next
  case (Cons nal nals)
  then show ?thesis by (simp add: nal_type_foldl nal_type_first)
qed

lemma depay_stap:
  assumes "ns \<noteq> []" "\<forall>nal \<in> set ns. length nal < 65536"
  shows "depay None (stap_payload ns # ps) = map_option ((@) ns) (depay None ps)"
  using assms by (simp add: stap_payload_def stap_split_units)

text \<open>The header of an aggregation packet has the highest NRI of its units.\<close>

lemma nri_f_disjoint: "nal_nri (x OR nal_f y) = nal_nri x" "nal_nri (nal_nri x) = nal_nri x"
  "nal_nri ((h AND 0x9F) OR nal_nri x) = nal_nri x"
  by (simp_all add: nal_nri_def nal_f_def bit.conj_disj_distrib2 and.assoc)

lemma nal_nri_stap_add: "nal_nri (stap_add h nal) = max (nal_nri h) (nal_nri (hd nal))"
  by (auto simp: stap_add_def nri_f_disjoint max_def)

lemma nal_nri_foldl:
  "nal_nri (foldl stap_add h nals) = Max (set (nal_nri h # map (nal_nri \<circ> hd) nals))"
proof (induction nals arbitrary: h)
  case (Cons nal nals)
  then show ?case by (cases nals) (simp_all add: nal_nri_stap_add max.assoc)
qed simp

lemma nal_nri_stap_header:
  "ns \<noteq> [] \<Longrightarrow> nal_nri (stap_header ns) = Max (set (map (nal_nri \<circ> hd) ns))"
proof (cases ns)
  case (Cons nal nals)
  have "nal_nri ((24 OR nal_nri (hd nal)) OR nal_f (hd nal)) = nal_nri (hd nal)"
    by (simp add: nri_f_disjoint) (simp add: nal_nri_def bit.conj_disj_distrib2 and.assoc)
  then show ?thesis using Cons by (simp add: nal_nri_foldl)
qed simp

section \<open>The whole stream\<close>

lemma map_option_append [simp]: "map_option ((@) []) x = x" "map_option ((@) [a]) x = map_option (Cons a) x"
  by (cases x; simp)+

text \<open>One step of the multiplexer: the units that leave it are exactly those of its payloads.\<close>

lemma mux_step_depay:
  assumes nal: "plain_nal nal" and ns: "\<forall>u \<in> set ns. length u < 65536"
    and sz: "agg \<Longrightarrow> length nal \<notin> {1398..1400}" and agg: "agg \<or> ns = []"
  shows "\<exists>es. es @ snd (mux_step agg ns nal lst) = ns @ [nal] \<and>
    (\<forall>ps. depay None (map snd (fst (mux_step agg ns nal lst)) @ ps) = map_option ((@) es) (depay None ps))"
proof (cases "length nal \<le> 1400")
  case False
  then have "depay None (map snd (fst (mux_step agg ns nal lst)) @ ps) =
      map_option ((@) (ns @ [nal])) (depay None ps)" for ps
    using nal ns
    by (cases "depay None ps")
       (auto simp: mux_step_def Let_def depay_stap depay_fu_list plain_nal_def)
  then show ?thesis using False by (intro exI [of _ "ns @ [nal]"]) (auto simp: mux_step_def Let_def)
next
  case True
  then have len: "length nal < 65536" by simp
  show ?thesis
  proof (cases agg)
    case False
    then show ?thesis
      using True nal agg
      by (intro exI [of _ "[nal]"]) (cases nal; auto simp: mux_step_def plain_nal_def nal_type_def)
  next
    case True
    have full: "length (stap_payload ns) + 2 + length nal > 1400 \<Longrightarrow> ns \<noteq> []"
      using sz True \<open>length nal \<le> 1400\<close> by auto
    have step: "mux_step agg ns nal lst = agg_step ns nal lst"
      using True \<open>length nal \<le> 1400\<close> by (simp add: mux_step_def)
    consider "length (stap_payload ns) + 2 + length nal > 1400" lst
      | "length (stap_payload ns) + 2 + length nal > 1400" "\<not> lst"
      | "length (stap_payload ns) + 2 + length nal \<le> 1400" lst
      | "length (stap_payload ns) + 2 + length nal \<le> 1400" "\<not> lst" by linarith
    then show ?thesis
    proof cases
      case 1
      then show ?thesis using len ns full unfolding step
        by (intro exI [of _ "ns @ [nal]"])
           (auto simp: agg_step_def depay_stap option.map_comp comp_def intro!: option.map_cong)
    next
      case 2
      then show ?thesis using ns full unfolding step
        by (intro exI [of _ ns]) (simp add: agg_step_def depay_stap)
    next
      case 3
      then show ?thesis using len ns unfolding step
        by (intro exI [of _ "ns @ [nal]"]) (simp add: agg_step_def depay_stap)
    next
      case 4
      then show ?thesis unfolding step by (intro exI [of _ "[]"]) (simp add: agg_step_def)
    qed
  qed
qed

lemma mux_step_small:
  "u \<in> set (snd (mux_step agg ns nal lst)) \<Longrightarrow> u \<in> set ns \<or> length u \<le> 1400"
  by (auto simp: mux_step_def agg_step_def Let_def split: if_splits)

lemma stream_packets_depay:
  assumes "\<forall>nal \<in> set nals. plain_nal nal \<and> sendable ctx nal"
    "\<forall>u \<in> set ns. length u < 65536" "aggregation ctx \<noteq> 0 \<or> ns = []" "nals \<noteq> []"
  shows "depay None (map (drop 12) (stream_packets ctx ns nals)) = Some (ns @ nals)"
  using assms
proof (induction ctx ns nals rule: stream_packets.induct)
  case (2 ctx ns nal nals)
  let ?agg = "aggregation ctx \<noteq> 0"
  let ?st = "mux_step ?agg ns nal (nals = [])"
  let ?ctx = "tick (adv (length (fst ?st)) ctx)"
  have ag: "aggregation ?ctx = aggregation ctx" by (simp add: tick_def)
  have "?agg \<Longrightarrow> length nal \<notin> {1398..1400}" using "2.prems"(1) by (auto simp: sendable_def)
  then obtain es where es: "es @ snd ?st = ns @ [nal]"
      "\<And>ps. depay None (map snd (fst ?st) @ ps) = map_option ((@) es) (depay None ps)"
    using mux_step_depay [of nal ns ?agg "nals = []"] "2.prems"(1-3) by auto
  show ?case
  proof (cases "nals = []")
    case True
    have "snd ?st = []" using "2.prems"(3) True mux_step_last [of ns ?agg nal] by auto
    with es(1) have "es = ns @ [nal]" by simp
    with es(2) [of "[]"] True show ?thesis by (simp add: Let_def)
  next
    case False
    have small: "\<forall>u \<in> set (snd ?st). length u < 65536"
      using "2.prems"(2) mux_step_small by fastforce
    have nil: "aggregation ?ctx \<noteq> 0 \<or> snd ?st = []"
      using "2.prems"(3) ag by (auto simp: mux_step_unaggregated)
    have "\<forall>nal \<in> set nals. plain_nal nal \<and> sendable ?ctx nal"
      using "2.prems"(1) ag by (auto simp: sendable_def)
    from "2.IH" [OF refl this small nil False]
    have "depay None (map (drop 12) (stream_packets ?ctx (snd ?st) nals)) = Some (snd ?st @ nals)"
      by simp
    then show ?thesis using es by (simp add: Let_def)
  qed
qed simp

lemma stream_packets_pkts:
  assumes "\<forall>nal \<in> set nals. plain_nal nal" "aggregation ctx = 0"
  shows "stream_pkts 1412 (stream_packets ctx [] nals) nals"
  using assms
proof (induction nals arbitrary: ctx)
  case Nil
  then show ?case by (auto intro: sp_Nil)
next
  case (Cons nal nals)
  let ?st = "mux_step False [] nal (nals = [])"
  let ?ctx = "tick (adv (length (fst ?st)) ctx)"
  have "nal_pkts 1412 (packets ctx (fst ?st)) nal"
  proof (cases "length nal \<le> 1400")
    case True
    then show ?thesis using Cons.prems by (auto simp: mux_step_def plain_nal_def intro!: np_single)
  next
    case False
    then show ?thesis
      using Cons.prems by (auto simp: mux_step_def plain_nal_def intro!: np_fu fu_list_pkts)
  qed
  moreover have "stream_pkts 1412 (stream_packets ?ctx [] nals) nals"
    using Cons.prems by (intro Cons.IH) (auto simp: tick_def)
  ultimately show ?case
    using Cons.prems by (auto simp: Let_def mux_step_unaggregated intro: sp_Cons)
qed

end
