(* ===== verification/RtpServer.thy ===== *)
theory RtpServer
  imports RTPEnc_Receive
begin

text \<open>
  \<^verbatim>\<open>h264RtpSend/RTP-Server/main.c\<close>, and the properties of the RTP server: what
  \<^verbatim>\<open>rtpSendData\<close>, \<^verbatim>\<open>rtpSendNAL\<close> and \<^verbatim>\<open>rtpSendH264HEVC\<close> put on the network, when they stay
  inside their buffers, and that a receiver of the packets of the whole program recovers the
  NAL units of the file.
\<close>

section \<open>The program\<close>

text \<open>
  \<^verbatim>\<open>ctx\<close> is the uninitialised \<^verbatim>\<open>rtpMuxContext\<close> on the stack of \<^verbatim>\<open>main\<close>, \<^verbatim>\<open>base\<close> the address
  \<^verbatim>\<open>malloc\<close> gives the stream.  The members of \<^verbatim>\<open>udpContext\<close> that its initialiser leaves
  out are zero.
\<close>

definition server_main ::
  "(nat \<Rightarrow> bool) \<Rightarrow> (string \<Rightarrow> byte list option) \<Rightarrow> (string \<Rightarrow> nat) \<Rightarrow> int \<Rightarrow> (string \<Rightarrow> u32 option) \<Rightarrow> sendto \<Rightarrow>
   nat \<Rightarrow> RTPMuxContext \<Rightarrow> net \<Rightarrow> (net \<times> int) res" where
  "server_main mem fs st_size os_socket os_inet_aton os base ctx n =
     (let udpContext = \<lparr>dstIp = Some ''172.19.0.222'', dstPort = 1234, sin_port = 0,
                        sin_addr = 0, sock = 0\<rparr> in
      bind_res (readFile mem fs st_size ''../Sample.h264'') (\<lambda>(res, out).
      if res \<noteq> 0 then Inr (n, -1)
      else
        (let (udp, n, res) = udpInit os_socket os_inet_aton os (Some udpContext) n in
         if res \<noteq> 0 then Inr (n, -1)
         else
           (let (ctx, _) = initRTPMuxContext ctx;
                (stream, len) = (case out of None \<Rightarrow> (None, 0) | Some (b, l) \<Rightarrow> (Some b, l))
            in bind_res (rtpSendH264HEVC os base (Some ctx) (Some n) stream len) (\<lambda>(_, n').
               case n' of None \<Rightarrow> Inl Null_Deref | Some n \<Rightarrow> Inr (n, 0))))))"

section \<open>One packet\<close>

lemma udpInit_probe:
  assumes "0 \<le> s" "os (length (sent n)) [0] = 1" "dstIp u = Some ip" "dstPort u \<noteq> 0"
  shows "\<exists>u'. udpInit s aton os (Some u) n = (Some u', posts n [[0]], 0)"
  using assms by (simp add: udpInit_def do_sendto_def posts_def Let_def)

lemma drop_rtp_header [simp]: "drop 12 (rtp_header ctx mark @ d) = d"
  by simp

lemma rtp_header_nth:
  "(rtp_header ctx mark @ d) ! 0 = 0x80"
  "(rtp_header ctx mark @ d) ! 1 = 0x60 OR push_bit 7 (word_of_int mark AND 1)"
  "of_be32 ((rtp_header ctx mark @ d) ! 4) ((rtp_header ctx mark @ d) ! 5)
     ((rtp_header ctx mark @ d) ! 6) ((rtp_header ctx mark @ d) ! 7) = timestamp ctx"
  "of_be32 ((rtp_header ctx mark @ d) ! 8) ((rtp_header ctx mark @ d) ! 9)
     ((rtp_header ctx mark @ d) ! 10) ((rtp_header ctx mark @ d) ! 11) = ssrc ctx"
  by (simp_all add: rtp_header_def be32_def be16_def numeral_eq_Suc)

text \<open>
  \<^verbatim>\<open>rtpSendData\<close> of at most \<^verbatim>\<open>RTP_PAYLOAD_MAX\<close> bytes sends exactly one datagram: a
  12-byte RTP header of version 2 without padding, extension or contributing sources, with
  payload type 96, the marker bit as asked, the sequence number, timestamp and SSRC of the
  context in network byte order, and then the payload.  It steps the sequence number modulo
  65536 and resets the aggregation buffer.
\<close>

theorem rtpSendData_packet:
  assumes "arrays_ok ctx" "len \<le> length src" "len \<le> RTP_PAYLOAD_MAX" "mark = 0 \<or> mark = 1"
  shows "\<exists>ctx' d. rtpSendData os ctx n src len mark = Inr (ctx', n\<lparr>sent := sent n @ [d]\<rparr>) \<and>
    length d = 12 + len \<and> d ! 0 = 0x80 \<and> d ! 1 = (if mark = 1 then 0xE0 else 0x60) \<and>
    seq_of d = ucast (seq ctx) \<and>
    of_be32 (d ! 4) (d ! 5) (d ! 6) (d ! 7) = timestamp ctx \<and>
    of_be32 (d ! 8) (d ! 9) (d ! 10) (d ! 11) = ssrc ctx \<and>
    drop 12 d = take len src \<and>
    seq ctx' = (seq ctx + 1) AND 0xffff \<and> buf_ptr ctx' = 0 \<and> timestamp ctx' = timestamp ctx"
proof -
  let ?d = "rtp_header ctx mark @ take len src"
  obtain ctx' where ctx': "rtpSendData os ctx n src len mark = Inr (ctx', posts n [?d])"
      "buf_ptr ctx' = 0" "core ctx' = core (next_seq ctx)"
    using rtpSendData_run [of ctx len src os n mark] assms by (auto simp: RTP_PAYLOAD_MAX_def)
  have "seq ctx' = (seq ctx + 1) AND 0xffff" "timestamp ctx' = timestamp ctx"
    using ctx'(3) by (cases ctx; cases ctx'; simp add: core_def next_seq_def)+
  then show ?thesis
    using ctx' assms(2,4) rtp_header_nth [of ctx mark "take len src"]
    by (intro exI [of _ ctx'] exI [of _ ?d]) (auto simp: posts_def push_bit_eq_mult)
qed

definition sample_ctx :: RTPMuxContext where
  "sample_ctx = \<lparr>cache = replicate 1412 0, buf = replicate 1400 0, buf_ptr = 0, aggregation = 1,
     payload_type = 0, ssrc = 7, seq = 0xffff, timestamp = 0\<rparr>"

lemma sample_ctx_simps [simp]:
  "arrays_ok sample_ctx" "buf_ptr sample_ctx = 0" "aggregation sample_ctx = 1"
  "seq sample_ctx = 0xffff" "timestamp sample_ctx = 0" "ssrc sample_ctx = 7"
  by (simp_all add: sample_ctx_def arrays_ok_def)

theorem rtpSendData_packet_witness:
  "\<exists>ctx' d. rtpSendData (\<lambda>_ _. 15) sample_ctx \<lparr>sent = []\<rparr> [1, 2, 3] 3 1 =
      Inr (ctx', \<lparr>sent = [d]\<rparr>) \<and>
    length d = 15 \<and> d ! 1 = 0xE0 \<and> drop 12 d = [1, 2, 3] \<and> seq ctx' = 0"
  using rtpSendData_packet [of sample_ctx 3 "[1, 2, 3]" 1 "\<lambda>_ _. 15" "\<lparr>sent = []\<rparr>"]
  by (auto simp: RTP_PAYLOAD_MAX_def)

section \<open>One NAL unit\<close>

text \<open>
  C17: On every NAL unit that is not empty and, with aggregation on, not of 1398 to 1400 bytes (those
  sizes overflow the aggregation buffer), \<^verbatim>\<open>rtpSendNAL\<close>, with its buffer arithmetic and its
  copies, implements one step of the abstract multiplexer \<open>mux_step\<close>, whose state is just the
  list of pending NAL units: it sends exactly the payloads of that step, in order, each in one
  packet with consecutive headers, and afterwards the aggregation buffer holds the units that
  the step leaves pending.
\<close>

theorem rtpSendNAL_refines_mux:
  assumes "arrays_ok ctx" "holds ctx ns" "aggregation ctx = 0 \<longrightarrow> ns = []"
    "sz \<le> length nal" "sendable ctx (take sz nal)"
    "(out, ns') = mux_step (aggregation ctx \<noteq> 0) ns (take sz nal) lst"
  shows "\<exists>ctx'. rtpSendNAL os ctx n nal sz lst =
      Inr (ctx', n\<lparr>sent := sent n @ packets ctx out\<rparr>) \<and>
    arrays_ok ctx' \<and> holds ctx' ns'"
proof -
  have st: "fst (mux_step (aggregation ctx \<noteq> 0) ns (take sz nal) lst) = out"
      "snd (mux_step (aggregation ctx \<noteq> 0) ns (take sz nal) lst) = ns'"
    using assms(6) by (metis fst_conv, metis snd_conv)
  show ?thesis
    using rtpSendNAL_run [OF assms(1,2) _ assms(4,5), of os n lst] assms(3)
    by (auto simp: st posts_def)
qed

theorem rtpSendNAL_refines_mux_witness:
  "\<exists>ctx'. rtpSendNAL (\<lambda>_ _. 0) sample_ctx \<lparr>sent = []\<rparr> [0x65, 9, 9] 2 False =
      Inr (ctx', \<lparr>sent = []\<rparr>) \<and> arrays_ok ctx' \<and> holds ctx' [[0x65, 9]]"
proof -
  have "mux_step True [] [0x65, 9] False = ([], [[0x65, 9]])"
    by (simp add: mux_step_def agg_step_def)
  then show ?thesis
    using rtpSendNAL_refines_mux [of sample_ctx "[]" 2 "[0x65, 9, 9]" "[]" "[[0x65, 9]]" False
        "\<lambda>_ _. 0" "\<lparr>sent = []\<rparr>"]
    by (simp add: holds_empty sendable_def)
qed

text \<open>
  C24: With aggregation switched on, as \<^verbatim>\<open>initRTPMuxContext\<close> does, a NAL unit of 1398 to
  1400 bytes is copied behind the end of the aggregation buffer, whatever the buffer holds:
  the size test leaves out the STAP-A header byte and the two size bytes of a first unit.
\<close>

theorem rtpSendNAL_stap_overflow:
  assumes "arrays_ok ctx" "buf_ptr ctx \<le> RTP_PAYLOAD_MAX" "aggregation ctx \<noteq> 0"
    "RTP_PAYLOAD_MAX - 2 \<le> sz" "sz \<le> RTP_PAYLOAD_MAX" "sz \<le> length nal"
  shows "rtpSendNAL os ctx n nal sz lst = Inl Write_Overflow"
  using assms by (simp add: rtpSendNAL_def RTP_PAYLOAD_MAX_def aggregate_overflow)

theorem rtpSendNAL_stap_overflow_witness:
  "rtpSendNAL (\<lambda>_ _. 0) sample_ctx \<lparr>sent = []\<rparr> (replicate 1398 0x65) 1398 True = Inl Write_Overflow"
  using rtpSendNAL_stap_overflow [of sample_ctx 1398 "replicate 1398 0x65"]
  by (simp add: RTP_PAYLOAD_MAX_def)

text \<open>
  When the last NAL unit of a stream still fits, the aggregation packet that
  \<^verbatim>\<open>rtpSendNAL\<close> sends is a STAP-A (type 24) whose NRI is the highest NRI of the units in it,
  which follow in order, each after its size, and its marker bit is set.
\<close>

theorem rtpSendNAL_stap_packet:
  assumes "arrays_ok ctx" "holds ctx ns" "aggregation ctx \<noteq> 0" "nal \<noteq> []" "length nal \<le> 1397"
    "length (stap_payload ns) + 2 + length nal \<le> RTP_PAYLOAD_MAX" "length ns < 65536"
  shows "\<exists>ctx' d. rtpSendNAL os ctx n nal (length nal) True =
      Inr (ctx', n\<lparr>sent := sent n @ [d]\<rparr>) \<and> d ! 1 = 0xE0 \<and>
    nal_type (d ! 12) = 24 \<and> nal_nri (d ! 12) = Max (set (map (nal_nri \<circ> hd) (ns @ [nal]))) \<and>
    drop 13 d = concat (map stap_unit (ns @ [nal])) \<and> buf_ptr ctx' = 0"
proof -
  let ?ns = "ns @ [nal]"
  let ?d = "rtp_header ctx 1 @ stap_payload ?ns"
  have step: "mux_step True ns nal True = ([(1, stap_payload ?ns)], [])"
    using assms(5,6) by (simp add: mux_step_def agg_step_def RTP_PAYLOAD_MAX_def)
  have send: "sendable ctx (take (length nal) nal)"
    using assms(4,5) by (simp add: sendable_def)
  obtain ctx' where ctx': "rtpSendNAL os ctx n nal (length nal) True = Inr (ctx', posts n [?d])"
      "holds ctx' []"
    using rtpSendNAL_run [OF assms(1,2) _ order.refl send, of os n True] assms(3) step by auto
  have d: "?d = rtp_header ctx 1 @ stap_header ?ns # concat (map stap_unit ?ns)"
    by (simp add: stap_payload_def)
  have "?d ! 12 = stap_header ?ns" "drop 13 ?d = concat (map stap_unit ?ns)" "?d ! 1 = 0xE0"
    unfolding d by (simp_all add: nth_append rtp_header_nth [simplified])
      (simp add: rtp_header_def push_bit_eq_mult)
  moreover have "buf_ptr ctx' = 0" using ctx'(2) by (simp add: holds_def)
  ultimately show ?thesis
    using ctx'(1) nal_nri_stap_header [of ?ns]
    by (intro exI [of _ ctx'] exI [of _ ?d]) (simp add: posts_def del: map_append)
qed

theorem rtpSendNAL_stap_packet_witness:
  "\<exists>ctx' d. rtpSendNAL (\<lambda>_ _. 0) sample_ctx \<lparr>sent = []\<rparr> [0x65, 9] 2 True =
      Inr (ctx', \<lparr>sent = [d]\<rparr>) \<and> nal_nri (d ! 12) = 0x60 \<and> drop 13 d = [0, 2, 0x65, 9]"
proof -
  have "stap_unit [0x65, 9] = [0, 2, 0x65, 9]"
    by (simp add: stap_unit_def be16_def hi16_def lo16_def)
  then show ?thesis
    using rtpSendNAL_stap_packet [of sample_ctx "[]" "[0x65, 9]" "\<lambda>_ _. 0" "\<lparr>sent = []\<rparr>"]
    by (auto simp: RTP_PAYLOAD_MAX_def holds_empty nal_nri_def numeral_2_eq_2)
qed

section \<open>Whole streams\<close>

text \<open>
  C25: \<^verbatim>\<open>rtpSendH264HEVC\<close> of a well-formed Annex B stream that, if aggregation is on, has no unit
  of 1398 to 1400 bytes (they overflow the aggregation buffer), and during which the timestamp,
  3600 further for each unit, stays below \<open>2 ^ 32\<close>, sends packets of at most 1412 bytes with
  consecutive 16-bit sequence numbers, starting from the one of the context, whose aggregation
  buffer is empty at first.
\<close>

theorem rtpSendH264HEVC_packets:
  assumes "\<forall>(long, nal) \<in> set xs. nal_ok nal \<and> sendable ctx nal" "xs \<noteq> []"
    "arrays_ok ctx" "buf_ptr ctx = 0"
    "uint (timestamp ctx) + 3600 * int (length xs) < 2 ^ 32"
  shows "\<exists>ctx' ps. rtpSendH264HEVC os base (Some ctx) (Some n) (Some (annexb xs))
        (int (length (annexb xs))) = Inr (Some ctx', Some (n\<lparr>sent := sent n @ ps\<rparr>)) \<and>
    (\<forall>p \<in> set ps. length p \<le> 12 + RTP_PAYLOAD_MAX) \<and>
    (\<forall>i < length ps. seq_of (ps ! i) = ucast (seq ctx) + of_nat i)"
proof -
  obtain ctx' where ctx': "rtpSendH264HEVC os base (Some ctx) (Some n) (Some (annexb xs))
      (int (length (annexb xs))) = Inr (Some ctx', Some (posts n (stream_packets ctx [] (map snd xs))))"
    using rtpSendH264HEVC_stream [OF assms] by blast
  have "\<forall>nal \<in> set (map snd xs). sendable ctx nal" using assms(1) by auto
  then show ?thesis
    using ctx' stream_packets_bound [of "[]" "map snd xs" ctx] seq_stream_packets
    by (intro exI [of _ ctx'] exI [of _ "stream_packets ctx [] (map snd xs)"])
       (auto simp: posts_def RTP_PAYLOAD_MAX_def)
qed

lemma nal_ok_example [simp]: "nal_ok [0x65, 9]" "nal_ok [0x67, 1, 2]"
  by (simp_all add: nal_ok_code code_at_def)

theorem rtpSendH264HEVC_packets_witness:
  "\<exists>ctx' ps. rtpSendH264HEVC (\<lambda>_ _. 0) 0 (Some sample_ctx) (Some \<lparr>sent = []\<rparr>)
      (Some [0, 0, 0, 1, 0x65, 9, 0, 0, 1, 0x65, 9]) 11 = Inr (Some ctx', Some \<lparr>sent = ps\<rparr>) \<and>
    (\<forall>p \<in> set ps. length p \<le> 12 + RTP_PAYLOAD_MAX) \<and>
    (\<forall>i < length ps. seq_of (ps ! i) = 0xffff + of_nat i)"
  using rtpSendH264HEVC_packets [of "[(True, [0x65, 9]), (False, [0x65, 9])]" sample_ctx
      "\<lambda>_ _. 0" 0 "\<lparr>sent = []\<rparr>"]
  by (simp add: start_code_def sendable_def)

text \<open>Without aggregation nothing is ever written or read outside an array.\<close>

lemma rtpSendNAL_unaggregated:
  assumes "arrays_ok ctx" "buf_ptr ctx = 0" "aggregation ctx = 0" "sz \<le> length nal"
  shows "\<exists>ctx' ps. rtpSendNAL os ctx n nal sz lst = Inr (ctx', posts n ps) \<and>
    arrays_ok ctx' \<and> buf_ptr ctx' = 0 \<and> core ctx' = core (adv (length ps) ctx)"
proof (cases "sz \<le> 1400")
  case True
  then show ?thesis
    using rtpSendData_run [OF assms(1,4) True, of os n "if lst then 1 else 0"] assms(3)
    by (auto simp: rtpSendNAL_def RTP_PAYLOAD_MAX_def intro!: exI [of _ "[_]"])
next
  case False
  then show ?thesis
    using fragment_run [OF assms(1,2) _ assms(4), of os n lst]
    by (auto simp: rtpSendNAL_def RTP_PAYLOAD_MAX_def fu_list_def intro!: exI [of _ "packets _ _"])
qed

lemma send_loop_unaggregated:
  assumes "nal_chain (ff_avc_find_startcode base m) m e r spans" "e \<le> length m"
    and "\<forall>(s, l) \<in> set spans. s + l \<le> e"
    and "arrays_ok ctx" "buf_ptr ctx = 0" "aggregation ctx = 0"
  shows "(\<exists>ctx' ps. send_loop os base m e ctx n r = Inr (ctx', posts n ps)) \<or>
    send_loop os base m e ctx n r = Inl Float_Range"
  using assms
proof (induction arbitrary: ctx n rule: nal_chain.induct)
  case (chain_end r)
  then show ?case by (subst send_loop.simps) (auto intro: exI [of _ "[]"])
next
  case (chain_nal r r' xs)
  let ?r1 = "ff_avc_find_startcode base m r' e"
  have "?r1 - r' \<le> length (drop r' m)" using chain_nal.prems(1,2) by auto
  then obtain ctx1 ps1 where c1: "rtpSendNAL os ctx n (drop r' m) (?r1 - r') (?r1 = e) =
        Inr (ctx1, posts n ps1)" "arrays_ok ctx1" "buf_ptr ctx1 = 0"
        "core ctx1 = core (adv (length ps1) ctx)"
    using rtpSendNAL_unaggregated [OF chain_nal.prems(3-5)] by metis
  show ?case
  proof (cases "uint (timestamp ctx1) + 3600 < 2 ^ 32")
    case False
    then show ?thesis
      using chain_nal.hyps c1 by (subst (1 2) send_loop.simps) (simp add: add_timestamp_def)
  next
    case True
    let ?ctx2 = "ctx1\<lparr>timestamp := timestamp ctx1 + 3600\<rparr>"
    have "aggregation ctx1 = 0" using chain_nal.prems(5) aggregation_core [OF c1(4)] by simp
    then have "(\<exists>ctx' ps. send_loop os base m e ?ctx2 (posts n ps1) ?r1 =
          Inr (ctx', posts (posts n ps1) ps)) \<or>
        send_loop os base m e ?ctx2 (posts n ps1) ?r1 = Inl Float_Range"
      using chain_nal.prems c1 by (intro chain_nal.IH) (auto simp: arrays_ok_def)
    moreover have "send_loop os base m e ctx n r = send_loop os base m e ?ctx2 (posts n ps1) ?r1"
      using chain_nal.hyps c1 True
      by (subst send_loop.simps) (simp add: add_timestamp_def)
    ultimately show ?thesis by auto
  qed
qed

text \<open>
  C23: With aggregation switched off, \<^verbatim>\<open>rtpSendH264HEVC\<close> is memory safe on every byte string,
  well-formed or not: it returns, having only appended packets, unless the timestamp leaves
  the range of its 32-bit type.
\<close>

theorem rtpSendH264HEVC_memory_safe:
  assumes "arrays_ok ctx" "buf_ptr ctx = 0" "aggregation ctx = 0" "sz \<le> int (length m)"
  shows "(\<exists>ctx' ps. rtpSendH264HEVC os base (Some ctx) (Some n) (Some m) sz =
      Inr (Some ctx', Some (n\<lparr>sent := sent n @ ps\<rparr>))) \<or>
    rtpSendH264HEVC os base (Some ctx) (Some n) (Some m) sz = Inl Float_Range"
proof (cases "sz \<le> 0")
  case True
  then show ?thesis by (auto simp: rtpSendH264HEVC_def intro: exI [of _ "[]"])
next
  case False
  have le: "nat sz \<le> length m" using assms(4) by simp
  obtain spans where spans:
      "nal_chain (ff_avc_find_startcode base m) m (nat sz) (ff_avc_find_startcode base m 0 (nat sz)) spans"
      "\<forall>(s, l) \<in> set spans. s + l \<le> nat sz"
    using avc.nal_chain_total [OF le, of 0] by fastforce
  show ?thesis
    using send_loop_unaggregated [OF spans(1) le spans(2) assms(1-3), of os n] False
    by (auto simp: rtpSendH264HEVC_def Let_def posts_def)
qed

theorem rtpSendH264HEVC_memory_safe_witness:
  "let r = rtpSendH264HEVC (\<lambda>_ _. 0) 3 (Some (sample_ctx\<lparr>aggregation := 0\<rparr>)) (Some \<lparr>sent = []\<rparr>)
      (Some [0, 0, 1, 0, 0, 1, 0, 0]) 8
   in (\<exists>ctx' ps. r = Inr (Some ctx', Some \<lparr>sent = ps\<rparr>)) \<or> r = Inl Float_Range"
  using rtpSendH264HEVC_memory_safe [of "sample_ctx\<lparr>aggregation := 0\<rparr>" 8
      "[0, 0, 1, 0, 0, 1, 0, 0]" "\<lambda>_ _. 0" 3 "\<lparr>sent = []\<rparr>"]
  by (simp add: arrays_ok_def sample_ctx_def)

text \<open>
  C1: The whole program: for a file that is a well-formed Annex B stream whose NAL units have
  types 1 to 23 and avoid the sizes of the overflow, and for which \<^verbatim>\<open>malloc\<close> finds memory, \<^verbatim>\<open>main\<close> returns 0 after sending the probe
  byte and a list of packets that a receiver, taking them apart as RFC 6184 says, turns back
  into exactly the NAL units of the file, in order.
\<close>

theorem server_main_delivers:
  assumes "fs ''../Sample.h264'' = Some (annexb xs)"
    "st_size ''../Sample.h264'' = length (annexb xs)" "length (annexb xs) < 2 ^ 31"
    "xs \<noteq> []" "3600 * int (length xs) < 2 ^ 32"
    "\<forall>(long, nal) \<in> set xs. nal_ok nal \<and> plain_nal nal \<and> length nal \<notin> {1398..1400}"
    "0 \<le> os_socket" "os (length (sent n)) [0] = 1" "arrays_ok ctx" "mem (length (annexb xs))"
  shows "\<exists>ps. server_main mem fs st_size os_socket aton os base ctx n =
      Inr (n\<lparr>sent := sent n @ [0] # ps\<rparr>, 0) \<and>
    depay None (map (drop 12) ps) = Some (map snd xs)"
proof -
  define ctx0 where "ctx0 = fst (initRTPMuxContext ctx)"
  have ctx0: "arrays_ok ctx0" "buf_ptr ctx0 = 0" "timestamp ctx0 = 0" "aggregation ctx0 = 1"
    using assms(9) by (simp_all add: ctx0_def initRTPMuxContext_def arrays_ok_def)
  have send: "\<forall>(long, nal) \<in> set xs. nal_ok nal \<and> sendable ctx0 nal"
    using assms(6) by (auto simp: sendable_def nal_ok_def)
  let ?n = "posts n [[0]]" and ?ps = "stream_packets ctx0 [] (map snd xs)"
  obtain ctx' where run: "rtpSendH264HEVC os base (Some ctx0) (Some ?n) (Some (annexb xs))
      (int (length (annexb xs))) = Inr (Some ctx', Some (posts ?n ?ps))"
    using rtpSendH264HEVC_stream [OF send assms(4) ctx0(1,2), of os base ?n] assms(5) ctx0(3) by auto
  have "readFile mem fs st_size ''../Sample.h264'' = Inr (0, Some (annexb xs, int (length (annexb xs))))"
    using assms(1-3,10) by (rule readFile_whole)
  moreover obtain u where "udpInit os_socket aton os
      (Some \<lparr>dstIp = Some ''172.19.0.222'', dstPort = 1234, sin_port = 0, sin_addr = 0, sock = 0\<rparr>) n =
      (Some u, ?n, 0)"
    using udpInit_probe [where os = os and n = n and s = os_socket and aton = aton
        and u = "\<lparr>dstIp = Some ''172.19.0.222'', dstPort = 1234, sin_port = 0, sin_addr = 0, sock = 0\<rparr>"]
      assms(7,8) by auto
  moreover have "initRTPMuxContext ctx = (ctx0, 0)"
    by (simp add: ctx0_def initRTPMuxContext_def)
  ultimately have main: "server_main mem fs st_size os_socket aton os base ctx n = Inr (posts ?n ?ps, 0)"
    using run by (simp add: server_main_def Let_def)
  have "depay None (map (drop 12) ?ps) = Some ([] @ map snd xs)"
    using assms(4,6) send ctx0 by (intro stream_packets_depay) auto
  then show ?thesis
    using main by (intro exI [of _ ?ps]) (simp add: posts_def)
qed

theorem server_main_delivers_witness:
  "\<exists>ps. server_main (\<lambda>_. True) (\<lambda>_. Some [0, 0, 0, 1, 0x67, 1, 2, 0, 0, 1, 0x65, 9]) (\<lambda>_. 12) 3
      (\<lambda>_. Some 1) (\<lambda>_ d. int (length d)) 0 sample_ctx \<lparr>sent = []\<rparr> =
      Inr (\<lparr>sent = [0] # ps\<rparr>, 0) \<and>
    depay None (map (drop 12) ps) = Some [[0x67, 1, 2], [0x65, 9]]"
  using server_main_delivers [of "\<lambda>_. Some [0, 0, 0, 1, 0x67, 1, 2, 0, 0, 1, 0x65, 9]"
      "[(True, [0x67, 1, 2]), (False, [0x65, 9])]" "\<lambda>_. 12" 3 "\<lambda>_ d. int (length d)" "\<lparr>sent = []\<rparr>"
      sample_ctx "\<lambda>_. True" "\<lambda>_. Some 1" 0]
  by (simp add: start_code_def plain_nal_def nal_type_def)

end
