(* ===== verification/UdpLink.thy ===== *)
theory UdpLink
  imports UdpServer UdpClient RtpServer
begin

text \<open>
  The servers and the client of the repository together: what the UDP server of
  \<^verbatim>\<open>udp_h264\<close> and the RTP server of \<^verbatim>\<open>h264RtpSend\<close> send, the client of \<^verbatim>\<open>udp_h264\<close>
  turns back into an Annex B stream; and the properties of the UDP server.
\<close>

section \<open>Packets of different size limits\<close>

lemma fu_cont_pkts_mono: "fu_cont_pkts M ps bs \<Longrightarrow> M \<le> N \<Longrightarrow> fu_cont_pkts N ps bs"
  by (induction rule: fu_cont_pkts.induct) (auto intro: fu_cont_pkts.intros)

lemma fu_pkts_mono: "fu_pkts M ps nal \<Longrightarrow> M \<le> N \<Longrightarrow> fu_pkts N ps nal"
  by (auto elim!: fu_pkts.cases intro!: fu_pkts.intros dest: fu_cont_pkts_mono)

lemma nal_pkts_mono: "nal_pkts M ps nal \<Longrightarrow> M \<le> N \<Longrightarrow> nal_pkts N ps nal"
proof (induction rule: nal_pkts.induct)
  case (np_single hdr nal)
  then show ?case by (intro nal_pkts.np_single) auto
next
  case (np_fu ps nal)
  then show ?case by (intro nal_pkts.np_fu) (rule fu_pkts_mono)
qed

lemma stream_pkts_mono: "stream_pkts M ps nals \<Longrightarrow> M \<le> N \<Longrightarrow> stream_pkts N ps nals"
  by (induction rule: stream_pkts.induct) (auto intro: stream_pkts.intros nal_pkts_mono)

section \<open>The UDP server\<close>

lemma AllocNALU_run:
  "mem 40 \<Longrightarrow> mem 200000 \<Longrightarrow> \<exists>n. AllocNALU mem BUFFER_SIZE = Inr n \<and> full_buffer n \<and> nlen n = 0"
  by (simp add: AllocNALU_def BUFFER_SIZE_def full_buffer_def)

lemma circle_once:
  assumes "stream_loop mem a s = Inr s'"
  shows "circle_loop mem a 1 [] s = Inr ([], s'\<lparr>h264Bitstream := frewind (h264Bitstream s')\<rparr>)"
  using assms by (subst circle_loop.simps) simp

lemma serve_request_run:
  "length d < 50 \<Longrightarrow> serve_request mem st (Some (a, d)) = circle_loop mem a 1 (fst st) (snd st)"
  by (simp add: serve_request_def overlay_def Let_def)

lemma udp_server_main_run:
  assumes "length argv = 3" "os_socket \<noteq> -1" "0 \<le> os_bind" "fs (argv ! 1) = Some c"
    "mem 40" "mem 200000"
  obtains n where "udp_server_main argv mem fs os_socket os_bind inputs requests =
      fold_res (serve_request mem)
        (inputs, \<lparr>h264Bitstream = \<lparr>contents = c, fpos = 0, at_eof = False\<rparr>, nFrame = n,
                  seq_num = 0, ts_current = 0, outbox = []\<rparr>) requests" "full_buffer n" "nlen n = 0"
proof -
  obtain n where "AllocNALU mem BUFFER_SIZE = Inr n" "full_buffer n" "nlen n = 0"
    using AllocNALU_run assms(5,6) by blast
  then show ?thesis using assms by (intro that [of n]) (simp_all add: udp_server_main_def)
qed

text \<open>
  C4: From a file to a file: a client that asks the UDP server, with a request of less than 50
  bytes, for an Annex B file whose NAL units have types 1 to 23 and at most 199992 bytes each (the
  server's frame buffer has 200000), and that decodes each packet with its own length, writes the
  NAL units of the file in order, with two changes that the server makes: the last unit ends with
  an additional byte \<^verbatim>\<open>0xFF\<close> (the \<^verbatim>\<open>EOF\<close> that \<^verbatim>\<open>GetAnnexbNALU\<close> stores), and a unit of more than
  1400 bytes loses the F and NRI bits of its first byte.  The server's socket and its memory come
  about.
\<close>

theorem udp_server_to_client:
  assumes "length argv = 3" "os_socket \<noteq> -1" "0 \<le> os_bind"
    "fs (argv ! 1) = Some (annexb xs)" "xs \<noteq> []" "\<forall>(long, nal) \<in> set xs. udp_ok nal"
    "mem 40" "mem 200000" "length d < 50" "length (rbuf c) = RECEIVE_BUF_SIZE"
  shows "\<exists>st ps c'. udp_server_main argv mem fs os_socket os_bind [] [Some (a, d)] = Inr ([], st) \<and>
    outbox st = map (Pair a) ps \<and> fold_res client_recv c ps = Inr c' \<and>
    savefp c' = savefp c @ annexb4 (map udp_deliver (udp_read (map snd xs)))"
proof -
  obtain n where main: "udp_server_main argv mem fs os_socket os_bind [] [Some (a, d)] =
      fold_res (serve_request mem)
        ([], \<lparr>h264Bitstream = \<lparr>contents = annexb xs, fpos = 0, at_eof = False\<rparr>, nFrame = n,
              seq_num = 0, ts_current = 0, outbox = []\<rparr>) [Some (a, d)]" "full_buffer n"
    using udp_server_main_run [of argv os_socket os_bind fs "annexb xs" mem] assms by metis
  let ?s = "\<lparr>h264Bitstream = \<lparr>contents = annexb xs, fpos = 0, at_eof = False\<rparr>, nFrame = n,
    seq_num = 0, ts_current = 0, outbox = []\<rparr>"
  obtain ps s' where s': "stream_loop mem a ?s = Inr s'" "outbox s' = map (Pair a) ps"
      "stream_pkts 1500 ps (map udp_deliver (udp_read (map snd xs)))"
    using stream_loop_run [of ?s "[]" xs mem a] assms main(2) by auto
  obtain c' where "fold_res client_recv c ps = Inr c'"
      "savefp c' = savefp c @ annexb4 (map udp_deliver (udp_read (map snd xs)))"
    using client.feed_stream [of ps "map udp_deliver (udp_read (map snd xs))" c] s'(3) assms(10)
    by (auto simp: RECEIVE_BUF_SIZE_def client_ok_def)
  then show ?thesis
    using main(1) s' circle_once [OF s'(1)] assms(9) by (auto simp: serve_request_run)
qed

lemma udp_ok_example: "udp_ok [0x67, 1, 2]" "udp_ok [0x65, 9]"
  by (simp_all add: udp_ok_def nal_type_def BUFFER_SIZE_def)

theorem udp_server_to_client_witness:
  "\<exists>st ps c'. udp_server_main [''s'', ''f'', ''1''] (\<lambda>_. True)
      (\<lambda>_. Some [0, 0, 0, 1, 0x67, 1, 2, 0, 0, 1, 0x65, 9]) 3 0 [] [Some ((1, 2), [])] = Inr ([], st) \<and>
    outbox st = map (Pair (1, 2)) ps \<and>
    fold_res client_recv \<lparr>rtpnum = 0, nalu_len = 0, savefp = [], rbuf = replicate 1500 0\<rparr> ps = Inr c' \<and>
    savefp c' = [0, 0, 0, 1, 0x67, 1, 2, 0, 0, 0, 1, 0x65, 9, 0xFF]"
  using udp_server_to_client [of "[''s'', ''f'', ''1'']" 3 0
      "\<lambda>_. Some [0, 0, 0, 1, 0x67, 1, 2, 0, 0, 1, 0x65, 9]" "[(True, [0x67, 1, 2]), (False, [0x65, 9])]"
      "\<lambda>_. True" "[]" "\<lparr>rtpnum = 0, nalu_len = 0, savefp = [], rbuf = replicate 1500 0\<rparr>" "(1, 2)"]
  by (simp add: start_code_def udp_ok_example RECEIVE_BUF_SIZE_def udp_deliver_def UDP_MAX_SIZE_def)

text \<open>
  C3: The RTP server with aggregation switched off and the UDP client fit together: fed with the
  packets of \<^verbatim>\<open>rtpSendH264HEVC\<close>, \<^verbatim>\<open>decode_rtp2h264\<close> writes exactly the NAL units of the stream.
\<close>

theorem rtp_server_to_client:
  assumes "\<forall>(long, nal) \<in> set xs. nal_ok nal \<and> plain_nal nal" "xs \<noteq> []"
    "arrays_ok ctx" "buf_ptr ctx = 0" "aggregation ctx = 0"
    "uint (timestamp ctx) + 3600 * int (length xs) < 2 ^ 32" "length (rbuf c) = RECEIVE_BUF_SIZE"
  shows "\<exists>ctx' ps c'. rtpSendH264HEVC os base (Some ctx) (Some n) (Some (annexb xs))
      (int (length (annexb xs))) = Inr (Some ctx', Some (n\<lparr>sent := sent n @ ps\<rparr>)) \<and>
    fold_res client_recv c ps = Inr c' \<and> savefp c' = savefp c @ annexb4 (map snd xs)"
proof -
  let ?ps = "stream_packets ctx [] (map snd xs)"
  have send: "\<forall>(long, nal) \<in> set xs. nal_ok nal \<and> sendable ctx nal"
    using assms(1,5) by (auto simp: sendable_def nal_ok_def)
  obtain ctx' where ctx': "rtpSendH264HEVC os base (Some ctx) (Some n) (Some (annexb xs))
      (int (length (annexb xs))) = Inr (Some ctx', Some (posts n ?ps))"
    using rtpSendH264HEVC_stream [OF send assms(2-4,6)] by blast
  have "stream_pkts 1412 ?ps (map snd xs)"
    using assms(1,5) by (intro stream_packets_pkts) auto
  then have "stream_pkts RECEIVE_BUF_SIZE ?ps (map snd xs)"
    by (rule stream_pkts_mono) (simp add: RECEIVE_BUF_SIZE_def)
  then show ?thesis
    using client.feed_stream [of ?ps "map snd xs" c] assms(7) ctx'
    by (auto simp: client_ok_def posts_def)
qed

theorem rtp_server_to_client_witness:
  "\<exists>ctx' ps c'. rtpSendH264HEVC (\<lambda>_ _. 0) 0 (Some (sample_ctx\<lparr>aggregation := 0\<rparr>)) (Some \<lparr>sent = []\<rparr>)
      (Some [0, 0, 1, 0x65, 9]) 5 = Inr (Some ctx', Some \<lparr>sent = ps\<rparr>) \<and>
    fold_res client_recv \<lparr>rtpnum = 0, nalu_len = 0, savefp = [], rbuf = replicate 1500 0\<rparr> ps = Inr c' \<and>
    savefp c' = [0, 0, 0, 1, 0x65, 9]"
  using rtp_server_to_client [of "[(False, [0x65, 9])]" "sample_ctx\<lparr>aggregation := 0\<rparr>"
      "\<lparr>rtpnum = 0, nalu_len = 0, savefp = [], rbuf = replicate 1500 0\<rparr>" "\<lambda>_ _. 0" 0 "\<lparr>sent = []\<rparr>"]
  by (simp add: start_code_def plain_nal_def nal_type_def RECEIVE_BUF_SIZE_def arrays_ok_def
      sample_ctx_def)

section \<open>What goes wrong\<close>

text \<open>Reading a file without a start code at its beginning leaves the unit of the previous read.\<close>

lemma GetAnnexbNALU_no_code:
  assumes "take 3 c \<noteq> [0, 0, 1]" "take 4 c \<noteq> [0, 0, 0, 1]" "full_buffer n" "mem 200000"
  shows "\<exists>f' r. GetAnnexbNALU mem n \<lparr>contents = c, fpos = 0, at_eof = False\<rparr> =
    Inr (n\<lparr>startcodeprefix_len := 3\<rparr>, f', r)"
proof (cases "length c < 4")
  case True
  then consider "length c < 3" | b0 b1 b2 where "c = [b0, b1, b2]"
    by (auto simp: less_Suc_eq numeral_eq_Suc length_Suc_conv)
  then show ?thesis
  proof cases
    case 1
    then show ?thesis
      using assms(3,4) by (simp add: GetAnnexbNALU_def full_buffer_def fread_def Let_def)
  next
    case (2 b0 b1 b2)
    have "FindStartCode2 (overlay (replicate 200000 0) 0 [b0, b1, b2]) 0 = Inr False"
      using assms(1) by (subst FindStartCode2_run) (auto simp: code_at_def overlay_def 2)
    then show ?thesis
      using assms(3,4) by (simp add: GetAnnexbNALU_def full_buffer_def fread_def 2 Let_def)
  qed
next
  case False
  then obtain b0 b1 b2 b3 bs where c: "c = b0 # b1 # b2 # b3 # bs"
    by (auto simp: not_less numeral_eq_Suc Suc_le_length_iff)
  let ?B3 = "overlay (replicate 200000 0) 0 [b0, b1, b2]"
  have s2: "FindStartCode2 ?B3 0 = Inr False"
    using assms(1) by (subst FindStartCode2_run) (auto simp: code_at_def overlay_def c)
  have s3: "FindStartCode3 (overlay ?B3 3 [b3]) 0 = Inr False"
    using assms(2) by (subst FindStartCode3_run) (auto simp: code_at_def overlay_def c)
  show ?thesis
    using assms(3,4) s2 s3 by (simp add: GetAnnexbNALU_def full_buffer_def fread_def c Let_def)
qed

text \<open>
  A file that does not begin with a start code, an empty one for example, makes the UDP
  server read far outside its frame buffer on the first request: the error code of
  \<^verbatim>\<open>GetAnnexbNALU\<close> is ignored, and \<^verbatim>\<open>nFrame->len - 1\<close> wraps around from 0.
\<close>

theorem udp_server_bad_file:
  assumes "length argv = 3" "os_socket \<noteq> -1" "0 \<le> os_bind" "fs (argv ! 1) = Some c"
    "take 3 c \<noteq> [0, 0, 1]" "take 4 c \<noteq> [0, 0, 0, 1]" "mem 40" "mem 200000" "length d < 50"
  shows "udp_server_main argv mem fs os_socket os_bind inputs (Some (a, d) # requests) =
    Inl Read_Overflow"
proof -
  obtain n where main: "udp_server_main argv mem fs os_socket os_bind inputs (Some (a, d) # requests) =
      fold_res (serve_request mem)
        (inputs, \<lparr>h264Bitstream = \<lparr>contents = c, fpos = 0, at_eof = False\<rparr>, nFrame = n,
                  seq_num = 0, ts_current = 0, outbox = []\<rparr>) (Some (a, d) # requests)"
      "full_buffer n" "nlen n = 0"
    using udp_server_main_run [of argv os_socket os_bind fs c mem] assms by metis
  let ?f = "\<lparr>contents = c, fpos = 0, at_eof = False\<rparr>"
  let ?s = "\<lparr>h264Bitstream = ?f, nFrame = n, seq_num = 0, ts_current = 0, outbox = []\<rparr>"
  have get: "\<exists>f' r. GetAnnexbNALU mem n ?f = Inr (n\<lparr>startcodeprefix_len := 3\<rparr>, f', r)"
    using GetAnnexbNALU_no_code [OF assms(5,6) main(2), of mem] assms(8) by simp
  have big: "unat (- 1 :: u32) = 2 ^ 32 - 1" by (simp add: unsigned_minus_1_eq_mask mask_eq_exp_minus_1)
  have single: "send_frame a t = Inl Read_Overflow" if "nlen (nFrame t) = 0" "full_buffer (nFrame t)" for t
    using that
    by (simp add: send_frame_def send_single_def start_packet_def SEND_BUF_SIZE_def full_buffer_def
        UDP_MAX_SIZE_def rd_block_def big Let_def)
  have "stream_loop mem a ?s = Inl Read_Overflow"
    using get single main(2,3) by (subst stream_loop.simps) (auto simp: full_buffer_def)
  then have "circle_loop mem a 1 inputs ?s = Inl Read_Overflow"
    by (subst circle_loop.simps) simp
  then show ?thesis using main(1) assms(9) by (simp add: serve_request_run)
qed

theorem udp_server_bad_file_witness:
  "udp_server_main [''s'', ''f'', ''1''] (\<lambda>_. True) (\<lambda>_. Some []) 3 0 [] [Some ((1, 2), [])] =
    Inl Read_Overflow"
  using udp_server_bad_file [of "[''s'', ''f'', ''1'']" 3 0 "\<lambda>_. Some []" "[]" "\<lambda>_. True" "[]"]
  by simp

text \<open>
  A request of 50 or more bytes makes the UDP server store the terminating zero one byte
  behind its 50-byte buffer.
\<close>

theorem udp_server_long_request:
  assumes "50 \<le> length d"
  shows "serve_request mem st (Some (a, d)) = Inl Write_Overflow"
  using assms by (simp add: serve_request_def overlay_def wr_def Let_def)

theorem udp_server_long_request_witness:
  "serve_request (\<lambda>_. True) ([], undefined) (Some ((1, 2), replicate 50 7)) = Inl Write_Overflow"
  by (rule udp_server_long_request) simp

text \<open>
  The sequence numbers of the UDP server count up by one, but modulo 65535 and not 65536:
  65535 is never used, and when the counter passes it two packets in a row carry 0.
\<close>

theorem udp_server_sequence:
  "let (p, s1) = start_packet m s; (q, s2) = start_packet m' s1 in
    seq_of p \<noteq> 0xFFFF \<and>
    (if seq_num s = 0xFFFE then seq_of p = 0 \<and> seq_of q = 0
     else seq_of p = seq_num s + 1)"
proof -
  have seq: "seq_of (fst (start_packet m s)) = word_of_nat (unat (seq_num s + 1) mod 65535)" for m s
    by (simp add: start_packet_def seq_of_def rtp_fixed_bytes_def overlay_def be16_def Let_def
        numeral_2_eq_2 numeral_3_eq_3 SEND_BUF_SIZE_def)
  have next_num: "seq_num (snd (start_packet m s)) = seq_num s + 1" for m s
    by (simp add: start_packet_def Let_def)
  have bound: "unat (x :: u16) < 65536" for x
    using unsigned_less [of x] by simp
  have ne: "(word_of_nat (k mod 65535) :: u16) \<noteq> 0xFFFF" for k
  proof
    assume "(word_of_nat (k mod 65535) :: u16) = 0xFFFF"
    then have "unat (word_of_nat (k mod 65535) :: u16) = 65535" by simp
    moreover have "k mod 65535 < 65535" by simp
    ultimately show False by (simp add: unsigned_of_nat take_bit_nat_eq_self)
  qed
  have small: "word_of_nat (unat (x :: u16) mod 65535) = x" if "x \<noteq> 0xFFFF" for x
  proof -
    have "unat x \<noteq> 65535"
    proof
      assume "unat x = 65535"
      then have "unat x = unat (0xFFFF :: u16)" by simp
      then have "x = 0xFFFF" by (rule unsigned_word_eqI)
      then show False using that by contradiction
    qed
    then have "unat x < 65535" using bound [of x] by simp
    then show ?thesis by simp
  qed
  obtain p s1 where p: "start_packet m s = (p, s1)" by (cases "start_packet m s")
  obtain q s2 where q: "start_packet m' s1 = (q, s2)" by (cases "start_packet m' s1")
  have sp: "seq_of p = word_of_nat (unat (seq_num s + 1) mod 65535)" "seq_num s1 = seq_num s + 1"
      "seq_of q = word_of_nat (unat (seq_num s1 + 1) mod 65535)"
    using seq [of m s] seq [of m' s1] next_num [of m s] by (simp_all add: p q)
  have "if seq_num s = 0xFFFE then seq_of p = 0 \<and> seq_of q = 0 else seq_of p = seq_num s + 1"
  proof (cases "seq_num s = 0xFFFE")
    case True
    then show ?thesis by (simp add: sp)
  next
    case False
    have "seq_num s + 1 \<noteq> 0xFFFF"
    proof
      assume "seq_num s + 1 = 0xFFFF"
      then have "seq_num s = 0xFFFF - 1" by (simp only: eq_diff_eq)
      then show False using False by simp
    qed
    then show ?thesis using False small sp(1) by simp
  qed
  then show ?thesis using ne sp(1) by (simp add: p q)
qed

section \<open>Reading frames\<close>

text \<open>
  \<^verbatim>\<open>GetAnnexbNALU\<close>, at the start code of a NAL unit that is followed by another start code,
  reads exactly that unit into the frame with its header fields, leaves the file at the next
  start code, whether that has 3 or 4 bytes, and returns the number of bytes consumed.
\<close>

theorem GetAnnexbNALU_unit:
  assumes "contents f = pre @ start_code l @ nal @ start_code l' @ post" "fpos f = length pre"
    "\<not> at_eof f" "nal_ok nal" "mem (unat (max_size n))" "length nal + 8 \<le> unat (max_size n)"
    "unat (max_size n) = length (nbuf n)"
  shows "\<exists>n' f'. GetAnnexbNALU mem n f = Inr (n', f', int (length (start_code l) + length nal)) \<and>
    unat (nlen n') = length nal \<and> take (length nal) (nbuf n') = nal \<and>
    nal_unit_type n' = uint (nal_type (hd nal)) \<and> nal_reference_idc n' = uint (nal_nri (hd nal)) \<and>
    forbidden_bit n' = uint (nal_f (hd nal)) \<and>
    drop (fpos f') (contents f') = start_code l' @ post \<and> \<not> at_eof f'"
proof -
  have "unat (max_size n) < 2 ^ LENGTH(32)" by (rule unsigned_less)
  then have "length nal < 2 ^ 32" using assms(6) by simp
  then have len: "unat (nlen n') = length nal" if "frame_holds n' nal" for n'
    using that by (rule frame_length(1) [rotated])
  obtain n' where n': "GetAnnexbNALU mem n f = Inr (n',
      f\<lparr>fpos := length pre + length (start_code l) + length nal, at_eof := False\<rparr>,
      int (length (start_code l) + length nal))" "frame_holds n' nal"
    using GetAnnexbNALU_next [of f pre l nal l' post mem n] assms by auto
  then show ?thesis
    using len [OF n'(2)] assms(1) by (simp add: frame_holds_def nal_type_def nal_nri_def nal_f_def)
qed

definition sample_nalu :: NALU_t where
  "sample_nalu = \<lparr>startcodeprefix_len = 0, nlen = 0, max_size = 20, forbidden_bit = 0,
     nal_reference_idc = 0, nal_unit_type = 0, nbuf = replicate 20 0, lost_packets = 0\<rparr>"

theorem GetAnnexbNALU_unit_witness:
  "\<exists>n' f'. GetAnnexbNALU (\<lambda>_. True) sample_nalu
      \<lparr>contents = [0, 0, 1, 0x65, 9, 0, 0, 0, 1, 7], fpos = 0, at_eof = False\<rparr> = Inr (n', f', 5) \<and>
    take (length [0x65, 9 :: byte]) (nbuf n') = [0x65, 9] \<and> drop (fpos f') (contents f') = [0, 0, 0, 1, 7]"
  using GetAnnexbNALU_unit [of "\<lparr>contents = [0, 0, 1, 0x65, 9, 0, 0, 0, 1, 7], fpos = 0, at_eof = False\<rparr>"
      "[]" False "[0x65, 9]" True "[7]" "\<lambda>_. True" sample_nalu]
  by (auto simp: start_code_def sample_nalu_def)

text \<open>
  C27: On any file whatsoever, a call of \<^verbatim>\<open>GetAnnexbNALU\<close> that returns leaves the file further on
  than it found it, or with the end-of-file flag set, although it seeks back over the start
  code that it has read: the sending loop of the server cannot run forever on a file.
\<close>

theorem GetAnnexbNALU_advances:
  assumes "GetAnnexbNALU mem n f = Inr (n', f', r)"
  shows "contents f' = contents f \<and> (at_eof f' \<or> fpos f < fpos f' \<and> fpos f < length (contents f))"
  using GetAnnexbNALU_progress [OF assms] by blast

theorem GetAnnexbNALU_advances_witness:
  "let r = GetAnnexbNALU (\<lambda>_. True) sample_nalu \<lparr>contents = [0, 0], fpos = 0, at_eof = False\<rparr>
   in \<exists>n' f'. r = Inr (n', f', 0) \<and> at_eof f'"
proof -
  have r: "GetAnnexbNALU (\<lambda>_. True) sample_nalu \<lparr>contents = [0, 0], fpos = 0, at_eof = False\<rparr> =
      Inr (sample_nalu\<lparr>startcodeprefix_len := 3\<rparr>, \<lparr>contents = [0, 0], fpos = 2, at_eof = True\<rparr>, 0)"
    by (simp add: GetAnnexbNALU_def sample_nalu_def fread_def Let_def)
  show ?thesis using GetAnnexbNALU_advances [OF r] r by simp
qed

end
