(* ===== verification/Streamer.thy ===== *)
theory Streamer
  imports CString
begin

text \<open>
  \<^verbatim>\<open>h264dec/network.c\<close> and \<^verbatim>\<open>h264dec/streamer.c\<close>: the connections of the RTSP client, the
  byte-order helpers for the control connection, and the streamer, which takes the H.264
  bytes that the RTP parser extracts, writes them to a dump file and into a pipe, and copies
  the pipe to a local client.

  The operating system is a parameter: what \<^verbatim>\<open>socket\<close>, \<^verbatim>\<open>inet_pton\<close>, \<^verbatim>\<open>connect\<close>, \<^verbatim>\<open>bind\<close>,
  \<^verbatim>\<open>listen\<close>, \<^verbatim>\<open>open\<close> return, and how many bytes each \<^verbatim>\<open>write\<close> to the non-blocking pipe
  accepts.
\<close>

section \<open>Connections\<close>

text \<open>
  \<open>os_pton host\<close> is the result of \<^verbatim>\<open>inet_pton\<close> with the address it stores, \<open>os_connect\<close> the
  result of \<^verbatim>\<open>connect\<close> for an address and a port.
\<close>

definition net_connect ::
  "int \<Rightarrow> (string \<Rightarrow> int \<times> u32) \<Rightarrow> (u32 \<Rightarrow> u16 \<Rightarrow> int) \<Rightarrow> string \<Rightarrow> nat \<Rightarrow> int" where
  "net_connect os_socket os_pton os_connect host port =
     (if os_socket \<le> 0 then -1
      else
        (let (res, addr) = os_pton host in
         if res < 0 then -1
         else if res = 0 then -1
         else if os_connect addr (word_of_nat port) = -1 then -1
         else os_socket))"

definition net_tcp_connect where "net_tcp_connect = net_connect"
definition net_udp_connect where "net_udp_connect = net_connect"

text \<open>
  \<^verbatim>\<open>net_unix_sock\<close>: the path is the format of \<^verbatim>\<open>snprintf\<close>; \<open>os_bind\<close> takes the stored path
  and the address length.
\<close>

definition net_unix_sock :: "int \<Rightarrow> (string \<Rightarrow> nat \<Rightarrow> int) \<Rightarrow> int \<Rightarrow> string \<Rightarrow> int res" where
  "net_unix_sock os_socket os_bind os_listen path =
     (if os_socket < 0 then Inl Exited
      else
        bind_res (plain_format path) (\<lambda>formatted.
        let sun_path = take 107 formatted; address_length = 2 + length path in
        if os_bind sun_path address_length \<noteq> 0 then Inl Exited
        else if os_listen \<noteq> 0 then Inl Exited
        else Inr os_socket))"

text \<open>
  The two kinds of flags of a descriptor.  \<^verbatim>\<open>net_sock_nonblock\<close> sets the status flags to the
  descriptor flags with \<^verbatim>\<open>O_NONBLOCK\<close>; \<^verbatim>\<open>valid\<close> tells whether the descriptor is open, \<^verbatim>\<open>ok\<close> whether
  the flags can be set.
\<close>

record fd_flags =
  fd_desc :: u32       \<comment> \<open>\<^verbatim>\<open>F_GETFD\<close>, \<^verbatim>\<open>F_SETFD\<close>\<close>
  fd_status :: u32     \<comment> \<open>\<^verbatim>\<open>F_GETFL\<close>, \<^verbatim>\<open>F_SETFL\<close>\<close>

definition O_NONBLOCK :: u32 where "O_NONBLOCK = 0x800"

definition net_sock_nonblock :: "bool \<Rightarrow> bool \<Rightarrow> fd_flags \<Rightarrow> int \<times> fd_flags" where
  "net_sock_nonblock valid ok f =
     (let flags = (if valid then fd_desc f else -1) OR O_NONBLOCK
      in if \<not> (valid \<and> ok) then (-1, f) else (0, f\<lparr>fd_status := flags\<rparr>))"

definition net_sock_cork :: "(int \<Rightarrow> int \<Rightarrow> int \<Rightarrow> int \<Rightarrow> int) \<Rightarrow> int \<Rightarrow> int \<Rightarrow> int" where
  "net_sock_cork os_setsockopt fd state = os_setsockopt fd 6 3 state"

text \<open>\<^verbatim>\<open>send\<close> on the control connection appends to what was sent; its result is ignored.\<close>

definition net_send8 :: "byte \<Rightarrow> byte list \<Rightarrow> byte list" where
  "net_send8 n out = out @ [n]"

definition net_send16 :: "u16 \<Rightarrow> byte list \<Rightarrow> byte list" where
  "net_send16 n out = out @ be16 n"

definition net_send32 :: "u32 \<Rightarrow> byte list \<Rightarrow> byte list" where
  "net_send32 n out = out @ be32 n"

section \<open>The streamer\<close>

record streamer =
  stream_dump :: bool           \<comment> \<open>whether a dump file was asked for\<close>
  stream_fs_fd :: int
  fs_data :: "byte list"        \<comment> \<open>what was written to the dump file\<close>
  pipe_data :: "byte list"      \<comment> \<open>what the pipe accepted\<close>
  pipe_calls :: nat

text \<open>\<open>pw k n\<close>: how many of \<open>n\<close> bytes the \<open>k\<close>-th \<^verbatim>\<open>write\<close> to the pipe accepts.\<close>

type_synonym pipe_write = "nat \<Rightarrow> nat \<Rightarrow> nat"

definition pipe_accepts :: "pipe_write \<Rightarrow> bool" where
  "pipe_accepts pw \<longleftrightarrow> (\<forall>k n. pw k n = n)"

definition write_fs :: "byte list \<Rightarrow> streamer \<Rightarrow> streamer" where
  "write_fs d s = (if stream_fs_fd s < 0 then s else s\<lparr>fs_data := fs_data s @ d\<rparr>)"

definition write_pipe :: "pipe_write \<Rightarrow> byte list \<Rightarrow> streamer \<Rightarrow> streamer" where
  "write_pipe pw d s =
     s\<lparr>pipe_data := pipe_data s @ take (pw (pipe_calls s) (length d)) d,
       pipe_calls := pipe_calls s + 1\<rparr>"

definition streamer_write ::
  "pipe_write \<Rightarrow> byte list \<Rightarrow> nat \<Rightarrow> nat \<Rightarrow> streamer \<Rightarrow> streamer res" where
  "streamer_write pw buf off cnt s =
     bind_res (rd_block buf off cnt) (\<lambda>d.
     let s = (if stream_dump s then write_fs d s else s) in
     Inr (write_pipe pw d s))"

definition streamer_write_nal :: "pipe_write \<Rightarrow> streamer \<Rightarrow> streamer" where
  "streamer_write_nal pw s =
     (let nal_header = [0, 0, 0, 1]; s = (if stream_dump s then write_fs nal_header s else s)
      in write_pipe pw nal_header s)"

text \<open>A \<^verbatim>\<open>write\<close> from a \<^verbatim>\<open>NULL\<close> pointer fails and writes nothing.\<close>

definition read_opt :: "byte list option \<Rightarrow> nat \<Rightarrow> byte list res" where
  "read_opt b n = (case b of None \<Rightarrow> Inr [] | Some b \<Rightarrow> rd_block b 0 n)"

definition streamer_write_h264_header ::
  "byte list option \<Rightarrow> nat \<Rightarrow> byte list option \<Rightarrow> nat \<Rightarrow> streamer \<Rightarrow> streamer res" where
  "streamer_write_h264_header sps_dec sps_len pps_dec pps_len s =
     bind_res (read_opt sps_dec sps_len) (\<lambda>sps.
     bind_res (read_opt pps_dec pps_len) (\<lambda>pps.
     Inr (write_fs pps (write_fs [0, 0, 0, 1] (write_fs sps (write_fs [0, 0, 0, 1] s))))))"

text \<open>
  \<^verbatim>\<open>streamer_prepare\<close>: the metadata file and the local socket.  The result is the files with
  the new contents of the metadata file, and the socket.
\<close>

definition streamer_prepare ::
  "(string \<Rightarrow> int) \<Rightarrow> (string \<Rightarrow> int res) \<Rightarrow> string \<Rightarrow> byte list option \<Rightarrow> nat \<Rightarrow>
   byte list option \<Rightarrow> nat \<Rightarrow> (string \<Rightarrow> byte list option) \<Rightarrow>
   ((string \<Rightarrow> byte list option) \<times> int) res" where
  "streamer_prepare os_open unix_sock name sps sps_len pps pps_len files =
     (let path_sock = take 127 (''/tmp/'' @ name @ ''.h264s.sock'');
          path_meta = take 127 (''/tmp/'' @ name @ ''.h264s.meta'') in
      if os_open path_meta \<le> 0 then Inl Exited
      else
        bind_res (read_opt sps sps_len) (\<lambda>sps.
        bind_res (read_opt pps pps_len) (\<lambda>pps.
        let files = files(path_meta \<mapsto> [0, 0, 0, 1] @ sps @ [0, 0, 0, 1] @ pps) in
        bind_res (unix_sock path_sock) (\<lambda>fd. Inr (files, fd)))))"

text \<open>
  \<^verbatim>\<open>streamer_pipe_init\<close>: \<open>os_max\<close> is what can be read from the kernel's limit file, if it can
  be opened, and \<open>os_setsize\<close> the result of \<^verbatim>\<open>fcntl(F_SETPIPE_SZ)\<close> for it.
\<close>

definition streamer_pipe_init ::
  "int \<Rightarrow> byte list option \<Rightarrow> (byte list \<Rightarrow> int) \<Rightarrow> int res" where
  "streamer_pipe_init os_pipe os_max os_setsize =
     (if os_pipe \<noteq> 0 then Inl Exited
      else
        (case os_max of
           None \<Rightarrow> Inr (-1)
         | Some b \<Rightarrow>
             if b = [] then Inl Exited
             else if os_setsize (take 64 b) = -1 then Inl Exited
             else Inr 0))"

text \<open>
  One turn of the inner loop of \<^verbatim>\<open>streamer_worker\<close>: \<open>None\<close> is a \<^verbatim>\<open>read\<close> of the pipe that
  fails.  The state is what was sent to the local client.
\<close>

definition worker_turn :: "byte list \<Rightarrow> byte list option \<Rightarrow> byte list" where
  "worker_turn out got =
     (case got of
        None \<Rightarrow> out
      | Some buf \<Rightarrow>
          (let bytes = length buf;
               out = (if bytes > 0 then out @ buf else out)
           in out @ buf))"

text \<open>
  \<^verbatim>\<open>streamer_worker\<close>: \<open>remote_fd\<close> is what \<^verbatim>\<open>accept\<close> returns first.  The inner loop has no end, so that
  no second connection is accepted; \<open>reads\<close> are the results of the \<^verbatim>\<open>read\<close> calls up to some point.
\<close>

definition streamer_worker :: "int \<Rightarrow> byte list \<Rightarrow> byte list option list \<Rightarrow> byte list" where
  "streamer_worker remote_fd out reads = (if remote_fd \<le> 0 then out else foldl worker_turn out reads)"

text \<open>
  \<^verbatim>\<open>streamer_loop\<close>: \<open>created\<close> is what \<^verbatim>\<open>pthread_create\<close> returns; the thread stores its number,
  \<open>gettid\<close>, in the shared structure, before or after \<^verbatim>\<open>task_id\<close> is read.
\<close>

definition streamer_loop :: "bool \<Rightarrow> int \<Rightarrow> bool \<Rightarrow> int \<Rightarrow> int res" where
  "streamer_loop mem created worker_first gettid =
     (if \<not> mem then Inl Null_Deref
      else
        (let task_id = 0 in
         if created < 0 then Inl Exited
         else Inr (if created = 0 \<and> worker_first then gettid else task_id)))"

section \<open>What is written\<close>

lemma write_pipe_accepts:
  "pipe_accepts pw \<Longrightarrow> pipe_data (write_pipe pw d s) = pipe_data s @ d"
  by (simp add: write_pipe_def pipe_accepts_def)

lemma write_fs_pipe [simp]: "pipe_data (write_fs d s) = pipe_data s" "pipe_calls (write_fs d s) = pipe_calls s"
  by (simp_all add: write_fs_def)

lemma streamer_write_run:
  assumes "pipe_accepts pw" "off + cnt \<le> length buf"
  shows "\<exists>s'. streamer_write pw buf off cnt s = Inr s' \<and>
    pipe_data s' = pipe_data s @ take cnt (drop off buf)"
  using assms by (simp add: streamer_write_def write_pipe_accepts)

lemma streamer_write_nal_run:
  assumes "pipe_accepts pw"
  shows "pipe_data (streamer_write_nal pw s) = pipe_data s @ [0, 0, 0, 1]"
  using assms by (simp add: streamer_write_nal_def write_pipe_accepts Let_def)

text \<open>The dump file gets everything that the pipe is offered, when it is open.\<close>

definition dumping :: "streamer \<Rightarrow> bool" where
  "dumping s \<longleftrightarrow> stream_dump s \<and> 0 \<le> stream_fs_fd s"

section \<open>Properties\<close>

text \<open>
  The local client of the streamer gets every chunk that is read from the pipe twice: the
  branch for a successful \<^verbatim>\<open>read\<close> sends it and falls through to the second \<^verbatim>\<open>send\<close>.
\<close>

lemma worker_turns:
  "foldl worker_turn out reads = out @ concat (map (\<lambda>r. case r of None \<Rightarrow> [] | Some d \<Rightarrow> d @ d) reads)"
  by (induction reads arbitrary: out) (auto simp: worker_turn_def Let_def split: option.splits)

theorem streamer_worker_duplicates:
  "0 < remote_fd \<Longrightarrow> streamer_worker remote_fd out reads =
     out @ concat (map (\<lambda>r. case r of None \<Rightarrow> [] | Some d \<Rightarrow> d @ d) reads)"
  by (simp add: streamer_worker_def worker_turns)

text \<open>
  After \<^verbatim>\<open>net_sock_nonblock\<close> nothing is left of the status flags that were set before.
\<close>

theorem net_sock_nonblock_forgets:
  "net_sock_nonblock True True f = (0, f\<lparr>fd_status := fd_desc f OR O_NONBLOCK\<rparr>)"
  by (simp add: net_sock_nonblock_def)

end
