(* ===== verification/Rtsp.thy ===== *)
theory Rtsp
  imports CString Streamer
begin

text \<open>
  \<^verbatim>\<open>h264dec/rtsp.c\<close>: the commands of the RTSP client.  A command formats its request into a
  buffer of 4096 characters, sends it, receives an answer of at most 4095 bytes and looks for
  the fields it needs in it.

  The connection holds the chunks that the following \<^verbatim>\<open>recv\<close> calls will find and what has been
  sent.  Printing is left out, with one exception: in verbose mode requests and answers are
  printed with \<^verbatim>\<open>printf(buf)\<close>, so that they are format strings.
\<close>

section \<open>State\<close>

record rtsp_session =
  packetization :: u32
  cport_from :: u32
  cport_to :: u32
  sport_from :: u32
  sport_to :: u32
  session_id :: u64

text \<open>The global variables of \<^verbatim>\<open>h264dec.h\<close>.\<close>

record h264dec_vars =
  rtsp_cseq :: int
  client_port :: int
  opt_verbose :: bool
  opt_stdout :: bool
  opt_stream :: "string option"
  opt_name :: "string option"
  stream_host :: "string option"
  dsp :: "string option"
  stream_port :: u64

record rtsp_conn =
  conn_in :: "byte list list"
  conn_out :: "byte list"

definition PROTOCOL_PREFIX :: string where "PROTOCOL_PREFIX = ''rtsp://''"
definition RTSP_RESPONSE :: string where "RTSP_RESPONSE = ''RTSP/1.0 ''"
definition RTP_SPROP :: string where "RTP_SPROP = ''sprop-parameter-sets=''"
definition SETUP_SESSION :: string where "SETUP_SESSION = ''Session: ''"

definition rtsp_cseq_inc :: "h264dec_vars \<Rightarrow> h264dec_vars" where
  "rtsp_cseq_inc g = g\<lparr>rtsp_cseq := rtsp_cseq g + 1\<rparr>"

text \<open>\<^verbatim>\<open>recv(sock, buf, n, 0)\<close>; no bytes stand for the end of the connection or an error.\<close>

definition recv_bytes :: "nat \<Rightarrow> rtsp_conn \<Rightarrow> byte list \<times> rtsp_conn" where
  "recv_bytes n c =
     (case conn_in c of
        [] \<Rightarrow> ([], c)
      | d # ds \<Rightarrow>
          (take n d, c\<lparr>conn_in := (if n < length d then drop n d # ds else ds)\<rparr>))"

section \<open>Requests\<close>

definition CMD_OPTIONS :: "string \<Rightarrow> u64 \<Rightarrow> int \<Rightarrow> string" where
  "CMD_OPTIONS host port cseq =
     ''OPTIONS rtsp://'' @ host @ '':'' @ dec_nat (unat port) @ '' RTSP/1.0'' @ crlf @
     ''CSeq: '' @ dec_int cseq @ crlf @ crlf"

definition CMD_DESCRIBE :: "string \<Rightarrow> int \<Rightarrow> string" where
  "CMD_DESCRIBE stream cseq =
     ''DESCRIBE '' @ stream @ '' RTSP/1.0'' @ crlf @ ''CSeq: '' @ dec_int cseq @ crlf @
     ''Accept: application/sdp'' @ crlf @ crlf"

definition CMD_SETUP :: "string \<Rightarrow> int \<Rightarrow> string" where
  "CMD_SETUP stream cseq =
     ''SETUP '' @ stream @ ''/trackID=1 RTSP/1.0'' @ crlf @ ''CSeq: '' @ dec_int cseq @ crlf @
     ''Transport: RTP/AVP/TCP;interleaved=0-1;'' @ crlf @ crlf"

definition CMD_PLAY :: "string \<Rightarrow> int \<Rightarrow> u64 \<Rightarrow> string" where
  "CMD_PLAY stream cseq session =
     ''PLAY '' @ stream @ '' RTSP/1.0'' @ crlf @ ''CSeq: '' @ dec_int cseq @ crlf @
     ''Session: '' @ dec_nat (unat session) @ crlf @ ''Range: npt=0.00-'' @ crlf @ crlf"

text \<open>\<^verbatim>\<open>DEBUG_REQ(buf)\<close> and \<^verbatim>\<open>DEBUG_RES(buf)\<close>.\<close>

definition debug_print :: "bool \<Rightarrow> string \<Rightarrow> unit res" where
  "debug_print verbose s =
     (if verbose then bind_res (plain_format s) (\<lambda>_. Inr ()) else Inr ())"

text \<open>
  What the commands have in common: \<^verbatim>\<open>snprintf\<close> cuts the request at 4095 characters but
  returns its full length, which is what \<^verbatim>\<open>send\<close> is given.  The result is the answer as a string
  and the number of bytes received.
\<close>

definition rtsp_exchange :: "bool \<Rightarrow> string \<Rightarrow> rtsp_conn \<Rightarrow> (string \<times> nat \<times> rtsp_conn) res" where
  "rtsp_exchange verbose req c =
     (let buf = take 4095 req @ replicate (4096 - length (take 4095 req)) NUL; n = length req in
      bind_res (debug_print verbose (take 4095 req)) (\<lambda>_.
      bind_res (rd_block buf 0 n) (\<lambda>d.
      let c = c\<lparr>conn_out := conn_out c @ text_bytes d\<rparr>;
          (answer, c) = recv_bytes 4095 c
      in if answer = [] then Inl Exited
         else Inr (array_string (bytes_text answer), length answer, c))))"

section \<open>Answers\<close>

text \<open>
  \<^verbatim>\<open>rtsp_response_status\<close>: the status, and the message without its terminating zero, which is
  never stored.  The status field is copied to an array of 8 characters.
\<close>

definition rtsp_response_status :: "string \<Rightarrow> (int \<times> string) res" where
  "rtsp_response_status response =
     (let offset = 9; invalid = (-1, ''Invalid RTSP response format'') in
      if \<not> starts_with response RTSP_RESPONSE then Inr invalid
      else
        (case strchr (drop offset response) (CHR '' '') of
           None \<Rightarrow> Inr invalid
         | Some n \<Rightarrow>
             if 8 < n then Inl Write_Overflow
             else if n = 8 then Inl Read_Overflow
             else
               (let buf = take n (drop offset response) in
                (case strchr response CR of
                   None \<Rightarrow> Inl Null_Deref
                 | Some eol \<Rightarrow>
                     (let err_size = int eol - int offset - 1 - int (length buf) in
                      if err_size < 0 then Inl Write_Overflow
                      else Inr (atoi buf, take (nat err_size) (drop (offset + 1 + length buf) response)))))))"

definition rtsp_cmd_options ::
  "h264dec_vars \<Rightarrow> rtsp_conn \<Rightarrow> (int \<times> h264dec_vars \<times> rtsp_conn) res" where
  "rtsp_cmd_options g c =
     (let host = (case stream_host g of None \<Rightarrow> ''(null)'' | Some h \<Rightarrow> h) in
      bind_res (rtsp_exchange (opt_verbose g) (CMD_OPTIONS host (stream_port g) (rtsp_cseq g)) c)
        (\<lambda>(buf, n, c).
      bind_res (rtsp_response_status buf) (\<lambda>(status, err).
      let ret = (if status = 200 then 0 else -1) in
      bind_res (debug_print (opt_verbose g) buf) (\<lambda>_.
      Inr (ret, rtsp_cseq_inc g, c)))))"

text \<open>
  \<^verbatim>\<open>rtsp_cmd_describe\<close>: besides the result the value of the parameter \<^verbatim>\<open>*sprop\<close>, if it is
  assigned: its characters, without a terminating zero.
\<close>

definition rtsp_cmd_describe ::
  "string \<Rightarrow> h264dec_vars \<Rightarrow> rtsp_conn \<Rightarrow> (int \<times> string option \<times> h264dec_vars \<times> rtsp_conn) res" where
  "rtsp_cmd_describe stream g c =
     bind_res (rtsp_exchange (opt_verbose g) (CMD_DESCRIBE stream (rtsp_cseq g)) c) (\<lambda>(buf, n, c).
     bind_res (rtsp_response_status buf) (\<lambda>(status, err).
     let ret = (if status = 200 then 0 else -1); g = rtsp_cseq_inc g in
     case strstr buf (crlf @ crlf) of
       None \<Rightarrow> Inr (-1, None, g, c)
     | Some p \<Rightarrow>
         (let text = drop (p + 4) buf; g = g\<lparr>dsp := Some text\<rparr> in
          case strstr text RTP_SPROP of
            None \<Rightarrow> Inr (-1, None, g, c)
          | Some p \<Rightarrow>
              (case strchr (drop p text) CR of
                 None \<Rightarrow> Inr (-1, None, g, c)
               | Some end \<Rightarrow>
                   (let prop_size = end - 21 in
                    Inr (ret, Some (take prop_size (drop (p + 21) text)), g, c))))))"

text \<open>The session number: the rest of the line is copied to an array of 16 characters.\<close>

definition session_field :: "string \<Rightarrow> u64 option res" where
  "session_field buf =
     (case strstr buf SETUP_SESSION of
        None \<Rightarrow> Inr None
      | Some p \<Rightarrow>
          (case strchr (drop p buf) CR of
             None \<Rightarrow> Inl Null_Deref
           | Some sep \<Rightarrow>
               (let n = sep - 9; text = take n (drop (p + 9) buf) in
                if 16 < n then Inl Write_Overflow
                else
                  bind_res (atol_array (text @ replicate (16 - n) NUL)) (\<lambda>v.
                  Inr (Some (word_of_int v))))))"

definition rtsp_cmd_setup ::
  "string \<Rightarrow> rtsp_session \<Rightarrow> h264dec_vars \<Rightarrow> rtsp_conn \<Rightarrow>
   (int \<times> rtsp_session \<times> h264dec_vars \<times> rtsp_conn) res" where
  "rtsp_cmd_setup stream session g c =
     bind_res (rtsp_exchange (opt_verbose g) (CMD_SETUP stream (rtsp_cseq g)) c) (\<lambda>(buf, n, c).
     bind_res (rtsp_response_status buf) (\<lambda>(status, err).
     let failed = bind_res (debug_print (opt_verbose g) buf) (\<lambda>_. Inr (-1, session, g, c)) in
     if status = 200 then
       (case strstr buf ''Transport: '' of
          None \<Rightarrow> failed
        | Some _ \<Rightarrow>
            bind_res (session_field buf) (\<lambda>f.
            case f of
              None \<Rightarrow> failed
            | Some v \<Rightarrow>
                (let session = session\<lparr>packetization := 1, cport_from := -1, cport_to := -1,
                       sport_from := -1, sport_to := -1, session_id := v\<rparr>
                 in bind_res (debug_print (opt_verbose g) buf) (\<lambda>_.
                    Inr (0, session, rtsp_cseq_inc g, c)))))
     else failed))"

definition rtsp_cmd_play ::
  "string \<Rightarrow> u64 \<Rightarrow> h264dec_vars \<Rightarrow> rtsp_conn \<Rightarrow> (int \<times> h264dec_vars \<times> rtsp_conn) res" where
  "rtsp_cmd_play stream session g c =
     bind_res (rtsp_exchange (opt_verbose g) (CMD_PLAY stream (rtsp_cseq g) session) c) (\<lambda>(buf, n, c).
     bind_res (rtsp_response_status buf) (\<lambda>(status, err).
     let ret = (if status = 200 then 0 else -1) in
     bind_res (debug_print (opt_verbose g) buf) (\<lambda>_.
     Inr (ret, rtsp_cseq_inc g, c))))"

section \<open>Addresses\<close>

text \<open>The host of a stream address: up to a colon, or else up to a slash.\<close>

definition stream_host_part :: "string \<Rightarrow> string option" where
  "stream_host_part stream =
     (let rest = drop 7 stream in
      case strchr rest (CHR '':'') of
        Some n \<Rightarrow> Some (take n rest)
      | None \<Rightarrow>
          (case strchr rest (CHR ''/'') of Some n \<Rightarrow> Some (take n rest) | None \<Rightarrow> None))"

definition rtp_connect ::
  "(string \<Rightarrow> nat \<Rightarrow> int) \<Rightarrow> string \<Rightarrow> int res" where
  "rtp_connect connect stream =
     (case stream_host_part stream of
        None \<Rightarrow> Inl Exited
      | Some host \<Rightarrow> Inr (connect host 0))"

text \<open>\<open>connect\<close> is \<^verbatim>\<open>net_tcp_connect\<close> with the answers of the operating system.\<close>

definition rtsp_connect ::
  "(string \<Rightarrow> nat \<Rightarrow> int) \<Rightarrow> string \<Rightarrow> h264dec_vars \<Rightarrow> (int \<times> h264dec_vars) res" where
  "rtsp_connect connect stream g =
     (case stream_host_part stream of
        None \<Rightarrow> Inl Exited
      | Some host \<Rightarrow>
          bind_res
            (case strchr (drop 8 stream) (CHR '':'') of
               None \<Rightarrow> Inr g
             | Some sep \<Rightarrow>
                 (let pos = 8 + sep + 1 in
                  case strchr (drop pos stream) (CHR ''/'') of
                    None \<Rightarrow> Inl Exited
                  | Some len \<Rightarrow>
                      if 7 < len then Inl Exited
                      else Inr (g\<lparr>stream_port := word_of_int (atol (take len (drop pos stream)))\<rparr>)))
            (\<lambda>g. let g = g\<lparr>stream_host := Some host\<rparr>
                 in Inr (connect host (unat (stream_port g)), g)))"

section \<open>One exchange\<close>

text \<open>The answer \<open>reply\<close> arrives in one piece and fits the buffer.\<close>

definition answers :: "rtsp_conn \<Rightarrow> string \<Rightarrow> bool" where
  "answers c reply \<longleftrightarrow> conn_in c \<noteq> [] \<and> hd (conn_in c) = text_bytes reply \<and> reply \<noteq> [] \<and>
     length reply \<le> 4095 \<and> NUL \<notin> set reply"

definition after_exchange :: "string \<Rightarrow> rtsp_conn \<Rightarrow> rtsp_conn" where
  "after_exchange req c = c\<lparr>conn_in := tl (conn_in c), conn_out := conn_out c @ text_bytes req\<rparr>"

lemma rtsp_exchange_run:
  assumes "answers c reply" "length req \<le> 4095" "debug_print verbose req = Inr ()"
  shows "rtsp_exchange verbose req c = Inr (reply, length reply, after_exchange req c)"
proof -
  obtain ds where c: "conn_in c = text_bytes reply # ds"
    using assms(1) by (cases "conn_in c") (auto simp: answers_def)
  have reply: "length reply \<le> 4095" "NUL \<notin> set reply" "text_bytes reply \<noteq> []"
    using assms(1) by (auto simp: answers_def text_bytes_def)
  have "rd_block (req @ replicate (4096 - length req) NUL) 0 (length req) = Inr req"
    using assms(2) by (subst rd_block_Inr) auto
  then show ?thesis
    using assms(2,3) reply
    by (simp add: rtsp_exchange_def Let_def recv_bytes_def c after_exchange_def)
qed

lemma debug_print_quiet [simp]: "debug_print False s = Inr ()"
  by (simp add: debug_print_def)

section \<open>Answers read\<close>

lemma atoi_dec_nat: "n < 2 ^ 31 \<Longrightarrow> atoi (dec_nat n) = int n"
  using strtol_dec_nat [of n "[]"]
  by (simp add: atoi_def atol_def signed_of_int signed_of_nat signed_take_bit_int_eq_self)

lemma isdigit_not: "isdigit c \<Longrightarrow> c \<noteq> CHR '' '' \<and> c \<noteq> CR"
  by (auto simp: isdigit_def)

lemma rtsp_response_status_run:
  assumes "n < 10 ^ 7" "CR \<notin> set reason"
  shows "rtsp_response_status (''RTSP/1.0 '' @ dec_nat n @ '' '' @ reason @ CR # rest) = Inr (int n, reason)"
proof -
  have digits: "CHR '' '' \<notin> set (dec_nat n)" "CR \<notin> set (dec_nat n)"
    using isdigit_dec_nat [of n] isdigit_not by blast+
  have len: "length (dec_nat n) \<le> 7" using assms(1) by (intro length_dec_nat) auto
  have sp: "strchr (dec_nat n @ CHR '' '' # reason @ CR # rest) (CHR '' '') = Some (length (dec_nat n))"
    by (rule strchr_append [OF digits(1)])
  have "strchr ((''RTSP/1.0 '' @ dec_nat n @ '' '' @ reason) @ CR # rest) CR =
      Some (length (''RTSP/1.0 '' @ dec_nat n @ '' '' @ reason))"
    by (rule strchr_append) (use digits(2) assms(2) in auto)
  then have eol: "strchr (''RTSP/1.0 '' @ dec_nat n @ '' '' @ reason @ CR # rest) CR =
      Some (10 + length (dec_nat n) + length reason)" by simp
  have "drop (10 + length (dec_nat n)) (''RTSP/1.0 '' @ dec_nat n @ '' '' @ reason @ CR # rest) =
      reason @ CR # rest" by (simp add: numeral_eq_Suc)
  moreover have "n < 2 ^ 31" using assms(1) by simp
  ultimately show ?thesis
    using len sp eol
    by (simp add: rtsp_response_status_def RTSP_RESPONSE_def starts_with_def atoi_dec_nat Let_def)
qed

text \<open>The head of the usual answer.\<close>

definition ok_line :: string where "ok_line = ''RTSP/1.0 200 OK'' @ crlf"

lemma rtsp_response_status_ok: "rtsp_response_status (ok_line @ rest) = Inr (200, ''OK'')"
proof -
  have "dec_nat 200 = ''200''" by code_simp
  moreover have "CR \<notin> set ''OK''" by simp
  ultimately show ?thesis
    using rtsp_response_status_run [of 200 "''OK''" "LF # rest"] by (simp add: ok_line_def crlf_def)
qed

lemma session_field_run:
  assumes "strstr (s @ butlast SETUP_SESSION) SETUP_SESSION = None" "CR \<notin> set v"
  shows "session_field (s @ SETUP_SESSION @ v @ CR # rest) =
    (if 16 < length v then Inl Write_Overflow
     else bind_res (atol_array (v @ replicate (16 - length v) NUL)) (\<lambda>x. Inr (Some (word_of_int x))))"
proof -
  let ?buf = "s @ SETUP_SESSION @ v @ CR # rest"
  have 1: "strstr ?buf SETUP_SESSION = Some (length s)"
    using strstr_at [OF assms(1)] by (simp add: SETUP_SESSION_def)
  have "strchr ((SETUP_SESSION @ v) @ CR # rest) CR = Some (length (SETUP_SESSION @ v))"
    by (rule strchr_append) (use assms(2) in \<open>simp add: SETUP_SESSION_def\<close>)
  then have 2: "strchr (drop (length s) ?buf) CR = Some (9 + length v)"
    by (simp add: SETUP_SESSION_def)
  have 3: "drop (length s + 9) ?buf = v @ CR # rest"
    by (simp add: SETUP_SESSION_def numeral_eq_Suc)
  show ?thesis
    by (simp only: session_field_def 1 option.case 2 Let_def 3) simp
qed

section \<open>The commands\<close>

text \<open>A quiet client and an answer with status 200.\<close>

lemma rtsp_cmd_options_run:
  assumes "answers c (ok_line @ rest)" "stream_host g = Some host"
    "length (CMD_OPTIONS host (stream_port g) (rtsp_cseq g)) \<le> 4095" "\<not> opt_verbose g"
  shows "rtsp_cmd_options g c =
    Inr (0, g\<lparr>rtsp_cseq := rtsp_cseq g + 1\<rparr>,
      after_exchange (CMD_OPTIONS host (stream_port g) (rtsp_cseq g)) c)"
  using assms
  by (simp add: rtsp_cmd_options_def rtsp_exchange_run rtsp_response_status_ok rtsp_cseq_inc_def Let_def)

lemma rtsp_cmd_play_run:
  assumes "answers c (ok_line @ rest)" "length (CMD_PLAY stream (rtsp_cseq g) session) \<le> 4095"
    "\<not> opt_verbose g"
  shows "rtsp_cmd_play stream session g c =
    Inr (0, g\<lparr>rtsp_cseq := rtsp_cseq g + 1\<rparr>,
      after_exchange (CMD_PLAY stream (rtsp_cseq g) session) c)"
  using assms
  by (simp add: rtsp_cmd_play_def rtsp_exchange_run rtsp_response_status_ok rtsp_cseq_inc_def Let_def)

lemma rtsp_cmd_describe_run:
  assumes "answers c (ok_line @ hs @ crlf @ crlf @ sdp @ RTP_SPROP @ v @ CR # rest)"
    "strstr (ok_line @ hs @ butlast (crlf @ crlf)) (crlf @ crlf) = None"
    "strstr (sdp @ butlast RTP_SPROP) RTP_SPROP = None" "CR \<notin> set v"
    "length (CMD_DESCRIBE stream (rtsp_cseq g)) \<le> 4095" "\<not> opt_verbose g"
  shows "rtsp_cmd_describe stream g c =
    Inr (0, Some v, g\<lparr>rtsp_cseq := rtsp_cseq g + 1, dsp := Some (sdp @ RTP_SPROP @ v @ CR # rest)\<rparr>,
      after_exchange (CMD_DESCRIBE stream (rtsp_cseq g)) c)"
proof -
  let ?text = "sdp @ RTP_SPROP @ v @ CR # rest"
  let ?buf = "ok_line @ hs @ crlf @ crlf @ ?text"
  have ex: "rtsp_exchange False (CMD_DESCRIBE stream (rtsp_cseq g)) c =
      Inr (?buf, length ?buf, after_exchange (CMD_DESCRIBE stream (rtsp_cseq g)) c)"
    by (rule rtsp_exchange_run [OF assms(1,5)]) simp
  have 1: "strstr ?buf (crlf @ crlf) = Some (length (ok_line @ hs))"
    using strstr_at [of "ok_line @ hs" "crlf @ crlf" ?text] assms(2) by (simp add: crlf_def)
  have 2: "strstr ?text RTP_SPROP = Some (length sdp)"
    using strstr_at [OF assms(3)] by (simp add: RTP_SPROP_def)
  have "strchr ((RTP_SPROP @ v) @ CR # rest) CR = Some (length (RTP_SPROP @ v))"
    by (rule strchr_append) (use assms(4) in \<open>simp add: RTP_SPROP_def\<close>)
  then have 3: "strchr (drop (length sdp) ?text) CR = Some (21 + length v)"
    by (simp add: RTP_SPROP_def)
  have 4: "drop (length (ok_line @ hs) + 4) ?buf = ?text"
    by (simp add: crlf_def numeral_eq_Suc)
  have 5: "drop (length sdp + 21) ?text = v @ CR # rest"
    by (simp add: RTP_SPROP_def numeral_eq_Suc)
  show ?thesis
    using assms(6)
    by (simp only: rtsp_cmd_describe_def ex bind_res_Inr prod.case rtsp_response_status_ok Let_def 1
        option.case 4 2 3 5 rtsp_cseq_inc_def)
       simp
qed

lemma rtsp_cmd_setup_run:
  assumes "answers c (ok_line @ hs @ SETUP_SESSION @ v @ CR # rest)"
    "strstr (ok_line @ hs @ butlast SETUP_SESSION) SETUP_SESSION = None" "CR \<notin> set v"
    "strstr (ok_line @ hs @ SETUP_SESSION @ v @ CR # rest) ''Transport: '' \<noteq> None"
    "length (CMD_SETUP stream (rtsp_cseq g)) \<le> 4095" "\<not> opt_verbose g"
  shows "(16 < length v \<longrightarrow> rtsp_cmd_setup stream session g c = Inl Write_Overflow) \<and>
    (\<forall>n. v = dec_nat n \<and> n < 10 ^ 15 \<longrightarrow> (\<exists>session'.
      rtsp_cmd_setup stream session g c = Inr (0, session', g\<lparr>rtsp_cseq := rtsp_cseq g + 1\<rparr>,
        after_exchange (CMD_SETUP stream (rtsp_cseq g)) c) \<and> session_id session' = of_nat n))"
proof -
  let ?buf = "ok_line @ hs @ SETUP_SESSION @ v @ CR # rest"
  have ex: "rtsp_exchange False (CMD_SETUP stream (rtsp_cseq g)) c =
      Inr (?buf, length ?buf, after_exchange (CMD_SETUP stream (rtsp_cseq g)) c)"
    by (rule rtsp_exchange_run [OF assms(1,5)]) simp
  obtain t where t: "strstr ?buf ''Transport: '' = Some t" using assms(4) by blast
  have f: "session_field ?buf = (if 16 < length v then Inl Write_Overflow
      else bind_res (atol_array (v @ replicate (16 - length v) NUL)) (\<lambda>x. Inr (Some (word_of_int x))))"
    using session_field_run [of "ok_line @ hs" v rest] assms(2,3) by simp
  have run: "rtsp_cmd_setup stream session g c =
      bind_res (session_field ?buf) (\<lambda>f. case f of
        None \<Rightarrow> Inr (-1, session, g, after_exchange (CMD_SETUP stream (rtsp_cseq g)) c)
      | Some x \<Rightarrow> Inr (0, session\<lparr>packetization := 1, cport_from := -1, cport_to := -1,
          sport_from := -1, sport_to := -1, session_id := x\<rparr>, rtsp_cseq_inc g,
          after_exchange (CMD_SETUP stream (rtsp_cseq g)) c))"
    using assms(6) t
    by (simp add: rtsp_cmd_setup_def ex rtsp_response_status_ok Let_def cong: option.case_cong)
  have read: "atol_array (v @ replicate (16 - length v) NUL) = Inr (int n)" "length v \<le> 15"
    if "v = dec_nat n" "n < 10 ^ 15" for n
  proof -
    show len: "length v \<le> 15" unfolding that(1) by (rule length_dec_nat) (use that(2) in auto)
    have "NUL \<notin> set v" using isdigit_dec_nat [of n] by (auto simp: that(1) isdigit_def)
    then have "array_string (v @ replicate (16 - length v) NUL) = v"
      by (auto simp: array_string_def takeWhile_append)
    moreover have "NUL \<in> set (v @ replicate (16 - length v) NUL)" using len by simp
    ultimately show "atol_array (v @ replicate (16 - length v) NUL) = Inr (int n)"
      using strtol_dec_nat [of n "[]"] that by (simp add: atol_array_def atol_def)
  qed
  show ?thesis
  proof (intro conjI allI impI)
    assume "16 < length v"
    then show "rtsp_cmd_setup stream session g c = Inl Write_Overflow" by (simp add: run f)
  next
    fix n
    assume n: "v = dec_nat n \<and> n < 10 ^ 15"
    then have "\<not> 16 < length v" "atol_array (v @ replicate (16 - length v) NUL) = Inr (int n)"
      using read [of n] by simp_all
    then have "session_field ?buf = Inr (Some (of_nat n))" by (simp add: f)
    then show "\<exists>session'. rtsp_cmd_setup stream session g c =
        Inr (0, session', g\<lparr>rtsp_cseq := rtsp_cseq g + 1\<rparr>,
          after_exchange (CMD_SETUP stream (rtsp_cseq g)) c) \<and> session_id session' = of_nat n"
      by (simp add: run rtsp_cseq_inc_def)
  qed
qed

section \<open>Properties\<close>

text \<open>
  A status line with a status of at most seven digits is read back: the result is the status
  and the reason phrase.
\<close>

theorem rtsp_response_status_parsed:
  assumes "n < 10 ^ 7" "CR \<notin> set reason"
  shows "rtsp_response_status (''RTSP/1.0 '' @ dec_nat n @ '' '' @ reason @ crlf @ rest) = Inr (int n, reason)"
  using rtsp_response_status_run [OF assms, of "LF # rest"] by (simp add: crlf_def)

theorem rtsp_response_status_parsed_witness:
  "rtsp_response_status (''RTSP/1.0 404 Not Found'' @ crlf @ ''CSeq: 2'') = Inr (404, ''Not Found'')"
proof -
  have "dec_nat 404 = ''404''" by code_simp
  then show ?thesis
    using rtsp_response_status_parsed [of 404 "''Not Found''" "''CSeq: 2''"] by simp
qed

text \<open>
  What stands between the protocol version and the next blank must be shorter than eight
  characters, or the array for it overflows.  A status line without a reason phrase is enough,
  since then the next blank is the one of the first header.
\<close>

theorem rtsp_response_status_overflow:
  assumes "CHR '' '' \<notin> set token" "8 \<le> length token"
  shows "rtsp_response_status (''RTSP/1.0 '' @ token @ '' '' @ rest) =
    Inl (if length token = 8 then Read_Overflow else Write_Overflow)"
proof -
  have "strchr (token @ CHR '' '' # rest) (CHR '' '') = Some (length token)"
    by (rule strchr_append [OF assms(1)])
  then show ?thesis
    using assms(2) by (simp add: rtsp_response_status_def RTSP_RESPONSE_def starts_with_def)
qed

theorem rtsp_response_status_overflow_witness:
  "rtsp_response_status (''RTSP/1.0 200'' @ crlf @ ''CSeq: 1'' @ crlf) = Inl Write_Overflow"
  using rtsp_response_status_overflow [of "''200'' @ crlf @ ''CSeq:''" "''1'' @ crlf"]
  by (simp add: crlf_def)

text \<open>
  From the answer to DESCRIBE the client takes the parameter sets: what follows the first
  \<^verbatim>\<open>sprop-parameter-sets=\<close> of the body up to the end of the line.
\<close>

theorem rtsp_cmd_describe_sprop:
  assumes "answers c (ok_line @ hs @ crlf @ crlf @ sdp @ RTP_SPROP @ v @ CR # rest)"
    "strstr (ok_line @ hs @ butlast (crlf @ crlf)) (crlf @ crlf) = None"
    "strstr (sdp @ butlast RTP_SPROP) RTP_SPROP = None" "CR \<notin> set v"
    "length (CMD_DESCRIBE stream (rtsp_cseq g)) \<le> 4095" "\<not> opt_verbose g"
  shows "rtsp_cmd_describe stream g c =
    Inr (0, Some v, g\<lparr>rtsp_cseq := rtsp_cseq g + 1, dsp := Some (sdp @ RTP_SPROP @ v @ CR # rest)\<rparr>,
      after_exchange (CMD_DESCRIBE stream (rtsp_cseq g)) c)"
  using assms by (rule rtsp_cmd_describe_run)

definition sample_vars :: h264dec_vars where
  "sample_vars =
     \<lparr>rtsp_cseq = 0, client_port = 9500, opt_verbose = False, opt_stdout = False,
      opt_stream = Some ''rtsp://h/s'', opt_name = Some ''c'', stream_host = Some ''h'', dsp = None,
      stream_port = 554\<rparr>"

theorem rtsp_cmd_describe_sprop_witness:
  "rtsp_cmd_describe ''rtsp://h/s'' sample_vars
      \<lparr>conn_in = [text_bytes (ok_line @ ''CSeq: 0'' @ crlf @ crlf @ ''a=fmtp:96 '' @ RTP_SPROP @ ''Z0,aM'' @ CR # [LF])],
       conn_out = []\<rparr> =
    Inr (0, Some ''Z0,aM'', sample_vars\<lparr>rtsp_cseq := 1,
        dsp := Some (''a=fmtp:96 '' @ RTP_SPROP @ ''Z0,aM'' @ CR # [LF])\<rparr>,
      \<lparr>conn_in = [], conn_out = text_bytes (CMD_DESCRIBE ''rtsp://h/s'' 0)\<rparr>)"
proof -
  have dec: "dec_int 0 = ''0''" by code_simp
  have "strstr (ok_line @ ''CSeq: 0'' @ butlast (crlf @ crlf)) (crlf @ crlf) = None" by code_simp
  moreover have "strstr (''a=fmtp:96 '' @ butlast RTP_SPROP) RTP_SPROP = None" by code_simp
  moreover have "length (CMD_DESCRIBE ''rtsp://h/s'' 0) \<le> 4095"
    by (simp add: CMD_DESCRIBE_def dec crlf_def)
  ultimately show ?thesis
    using rtsp_cmd_describe_sprop [of "\<lparr>conn_in = [text_bytes (ok_line @ ''CSeq: 0'' @ crlf @ crlf @
          ''a=fmtp:96 '' @ RTP_SPROP @ ''Z0,aM'' @ CR # [LF])], conn_out = []\<rparr>"
        "''CSeq: 0''" "''a=fmtp:96 ''" "''Z0,aM''" "[LF]" "''rtsp://h/s''" sample_vars]
    by (simp add: answers_def after_exchange_def sample_vars_def ok_line_def crlf_def RTP_SPROP_def)
qed

text \<open>
  The session number of the answer to SETUP: a number of up to 15 digits is taken over, and
  a longer field, as the customary \<^verbatim>\<open>;timeout=60\<close> makes it, overflows the array of 16
  characters.
\<close>

theorem rtsp_cmd_setup_session:
  assumes "answers c (ok_line @ hs @ SETUP_SESSION @ v @ CR # rest)"
    "strstr (ok_line @ hs @ butlast SETUP_SESSION) SETUP_SESSION = None" "CR \<notin> set v"
    "strstr (ok_line @ hs @ SETUP_SESSION @ v @ CR # rest) ''Transport: '' \<noteq> None"
    "length (CMD_SETUP stream (rtsp_cseq g)) \<le> 4095" "\<not> opt_verbose g"
  shows "(16 < length v \<longrightarrow> rtsp_cmd_setup stream session g c = Inl Write_Overflow) \<and>
    (\<forall>n. v = dec_nat n \<and> n < 10 ^ 15 \<longrightarrow> (\<exists>session'.
      rtsp_cmd_setup stream session g c = Inr (0, session', g\<lparr>rtsp_cseq := rtsp_cseq g + 1\<rparr>,
        after_exchange (CMD_SETUP stream (rtsp_cseq g)) c) \<and> session_id session' = of_nat n))"
  using assms by (rule rtsp_cmd_setup_run)

definition blank_session :: rtsp_session where
  "blank_session =
     \<lparr>packetization = 0, cport_from = 0, cport_to = 0, sport_from = 0, sport_to = 0, session_id = 0\<rparr>"

theorem rtsp_cmd_setup_session_witness:
  "rtsp_cmd_setup ''rtsp://h/s'' blank_session sample_vars
      \<lparr>conn_in = [text_bytes (ok_line @ (''Transport: RTP/AVP/TCP'' @ crlf) @ SETUP_SESSION @
         ''12345678;timeout=60'' @ CR # [LF])], conn_out = []\<rparr> = Inl Write_Overflow"
proof -
  have dec: "dec_int 0 = ''0''" by code_simp
  have "strstr (ok_line @ (''Transport: RTP/AVP/TCP'' @ crlf) @ butlast SETUP_SESSION) SETUP_SESSION = None"
    by code_simp
  moreover have "strstr (ok_line @ (''Transport: RTP/AVP/TCP'' @ crlf) @ SETUP_SESSION @
      ''12345678;timeout=60'' @ CR # [LF]) ''Transport: '' \<noteq> None" by code_simp
  moreover have "length (CMD_SETUP ''rtsp://h/s'' 0) \<le> 4095"
    by (simp add: CMD_SETUP_def dec crlf_def)
  ultimately show ?thesis
    using rtsp_cmd_setup_session [of "\<lparr>conn_in = [text_bytes (ok_line @ (''Transport: RTP/AVP/TCP'' @ crlf) @
          SETUP_SESSION @ ''12345678;timeout=60'' @ CR # [LF])], conn_out = []\<rparr>"
        "''Transport: RTP/AVP/TCP'' @ crlf" "''12345678;timeout=60''" "[LF]" "''rtsp://h/s''" sample_vars
        blank_session]
    by (simp add: answers_def sample_vars_def ok_line_def crlf_def SETUP_SESSION_def)
qed

end
