(* ===== verification/Double.thy ===== *)
theory Double
  imports Prelude "HOL-Library.Log_Nat"
begin

text \<open>
  The \<^verbatim>\<open>double\<close> of the programs: IEEE 754 binary64 arithmetic with rounding to the nearest value,
  ties to even.  A finite double is the rational number it stands for, so the operations of C are
  those of the rationals followed by the rounding \<open>fl\<close>.  Conversions to an integer type cut off
  the fraction; where the result does not fit the type, C leaves it open, and the model has a
  fault.  The infinities and NaN are not modelled: no computation of the programs that is modelled
  here comes near \<open>2 ^ 1024\<close> or divides by a value that can be zero.  The sign of a zero is not
  observed by any of them either.
\<close>

type_synonym double = rat

section \<open>Rounding\<close>

definition rne :: "rat \<Rightarrow> int" where
  "rne y =
    (let f = \<lfloor>y\<rfloor>; r = y - of_int f
     in if r < 1 / 2 \<or> r = 1 / 2 \<and> even f then f else f + 1)"

definition expo :: "rat \<Rightarrow> int" where
  "expo x =
    (case quotient_of \<bar>x\<bar> of (n, d) \<Rightarrow>
      (let e = bitlen n - bitlen d in if 2 powi e \<le> \<bar>x\<bar> then e else e - 1))"

definition ulp_exp :: "rat \<Rightarrow> int" where
  "ulp_exp x = max (expo x - 52) (- 1074)"

definition fl :: "rat \<Rightarrow> double" where
  "fl x = (if x = 0 then 0 else of_int (rne (x / 2 powi ulp_exp x)) * 2 powi ulp_exp x)"

text \<open>\<^verbatim>\<open>(int64_t) x\<close>, \<^verbatim>\<open>(uint32_t) x\<close> and their kin cut off the fraction.\<close>

definition cut :: "double \<Rightarrow> int" where
  "cut x = (if 0 \<le> x then \<lfloor>x\<rfloor> else \<lceil>x\<rceil>)"

definition to_u32 :: "double \<Rightarrow> u32 res" where
  "to_u32 x = (if 0 \<le> cut x \<and> cut x < 2 ^ 32 then Inr (word_of_int (cut x)) else Inl Float_Range)"

definition to_u64 :: "double \<Rightarrow> u64 res" where
  "to_u64 x = (if 0 \<le> cut x \<and> cut x < 2 ^ 64 then Inr (word_of_int (cut x)) else Inl Float_Range)"

definition to_i64 :: "double \<Rightarrow> int res" where
  "to_i64 x = (if - (2 ^ 63) \<le> cut x \<and> cut x < 2 ^ 63 then Inr (cut x) else Inl Float_Range)"

definition to_i32 :: "double \<Rightarrow> int res" where
  "to_i32 x = (if - (2 ^ 31) \<le> cut x \<and> cut x < 2 ^ 31 then Inr (cut x) else Inl Float_Range)"

section \<open>The nearest integer\<close>

lemma rne_of_int [simp]: "rne (of_int n) = n"
  by (simp add: rne_def)

lemma rne_error: "\<bar>of_int (rne y) - y\<bar> \<le> 1 / 2"
proof -
  have "of_int \<lfloor>y\<rfloor> \<le> y" "y < of_int \<lfloor>y\<rfloor> + 1" by (simp, linarith)
  then show ?thesis by (cases "y - of_int \<lfloor>y\<rfloor> < 1 / 2 \<or> y - of_int \<lfloor>y\<rfloor> = 1 / 2 \<and> even \<lfloor>y\<rfloor>")
    (auto simp: rne_def Let_def abs_le_iff)
qed

lemma rne_mono: "x \<le> y \<Longrightarrow> rne x \<le> rne y"
proof -
  assume xy: "x \<le> y"
  have f: "\<lfloor>x\<rfloor> \<le> \<lfloor>y\<rfloor>" using xy by (rule floor_mono)
  show ?thesis
  proof (cases "\<lfloor>x\<rfloor> = \<lfloor>y\<rfloor>")
    case True
    then show ?thesis using xy by (auto simp: rne_def Let_def)
  next
    case False
    then have "\<lfloor>x\<rfloor> + 1 \<le> \<lfloor>y\<rfloor>" using f by simp
    moreover have "rne x \<le> \<lfloor>x\<rfloor> + 1" "\<lfloor>y\<rfloor> \<le> rne y" by (auto simp: rne_def Let_def)
    ultimately show ?thesis by linarith
  qed
qed

lemma rne_minus: "rne (- y) = - rne y"
proof (cases "y = of_int \<lfloor>y\<rfloor>")
  case True
  then have "rne y = \<lfloor>y\<rfloor>" "rne (- y) = - \<lfloor>y\<rfloor>"
    by (metis rne_of_int, metis of_int_minus rne_of_int)
  then show ?thesis by simp
next
  case False
  then have "\<lfloor>- y\<rfloor> = - \<lfloor>y\<rfloor> - 1" by (simp add: floor_minus ceiling_altdef)
  then show ?thesis by (auto simp: rne_def Let_def)
qed

lemma rne_bounds: "of_int k \<le> y \<Longrightarrow> k \<le> rne y" "y \<le> of_int k \<Longrightarrow> rne y \<le> k"
  using rne_mono [of "of_int k" y] rne_mono [of y "of_int k"] by simp_all

text \<open>Errors add up; an error bound gives bounds.\<close>

lemma near_trans: "\<bar>a - b\<bar> \<le> e \<Longrightarrow> \<bar>b - c\<bar> \<le> f \<Longrightarrow> e + f \<le> g \<Longrightarrow> \<bar>a - c\<bar> \<le> g" for a :: rat
  by linarith

lemma near_le: "\<bar>a - b\<bar> \<le> e \<Longrightarrow> b + e \<le> c \<Longrightarrow> a \<le> c" and near_less: "\<bar>a - b\<bar> \<le> e \<Longrightarrow> b + e < c \<Longrightarrow> a < c"
  and near_ge: "\<bar>a - b\<bar> \<le> e \<Longrightarrow> c \<le> b - e \<Longrightarrow> c \<le> a" for a :: rat
  by linarith+

section \<open>The binade of a number\<close>

lemma bitlen_le:
  assumes "0 < n"
  shows "(2::rat) powi (bitlen n - 1) \<le> of_int n" "of_int n < (2::rat) powi bitlen n"
proof -
  have "2 ^ nat (bitlen n - 1) \<le> n" "n < 2 ^ nat (bitlen n)"
    using bitlen_bounds [OF assms] by auto
  then have "(2::rat) ^ nat (bitlen n - 1) \<le> of_int n" "of_int n < (2::rat) ^ nat (bitlen n)"
    by (metis of_int_le_iff of_int_numeral of_int_power, metis of_int_less_iff of_int_numeral of_int_power)
  moreover have "1 \<le> bitlen n"
    using assms by (simp add: bitlen_ge_iff_power)
  ultimately show "(2::rat) powi (bitlen n - 1) \<le> of_int n" "of_int n < (2::rat) powi bitlen n"
    by (simp_all add: power_int_def)
qed

lemma powi_less_iff: "(2::rat) powi a < 2 powi b \<longleftrightarrow> a < b"
  by (metis linorder_neq_iff not_less_iff_gr_or_eq one_less_numeral_iff power_int_strict_increasing semiring_norm(76))

lemma powi_le_iff: "(2::rat) powi a \<le> 2 powi b \<longleftrightarrow> a \<le> b"
  by (simp add: powi_less_iff flip: linorder_not_less)

lemma powi_split: "(2::rat) powi a = 2 powi (a - b) * 2 powi b"
  by (simp flip: power_int_add)

lemma powi_pos [simp]: "(0::rat) < 2 powi a" "(2::rat) powi a \<noteq> 0" "(0::rat) \<le> 2 powi a"
  by (simp_all add: order.strict_implies_order)

lemma expo_bounds:
  assumes "x \<noteq> 0"
  shows "2 powi expo x \<le> \<bar>x\<bar>" "\<bar>x\<bar> < 2 powi (expo x + 1)"
proof -
  obtain n d where nd: "quotient_of \<bar>x\<bar> = (n, d)" by fastforce
  then have x: "\<bar>x\<bar> = of_int n / of_int d" and d: "0 < d"
    by (auto dest: quotient_of_div quotient_of_denom_pos)
  have n: "0 < n"
    using assms x d zero_less_divide_iff [of "rat_of_int n" "rat_of_int d"] by (simp flip: zero_less_abs_iff)
  let ?e = "bitlen n - bitlen d"
  have d0: "0 < rat_of_int d" using d by simp
  have "\<bar>x\<bar> < 2 powi bitlen n / 2 powi (bitlen d - 1)"
    unfolding x using bitlen_le [OF n] bitlen_le [OF d] d0 n by (intro frac_less) auto
  also have "\<dots> = 2 powi (?e + 1)" by (simp flip: power_int_diff add: algebra_simps)
  finally have u: "\<bar>x\<bar> < 2 powi (?e + 1)" .
  have "2 powi (bitlen n - 1) / 2 powi bitlen d \<le> \<bar>x\<bar>"
    unfolding x using bitlen_le [OF n] bitlen_le [OF d] d0 n by (intro frac_le) auto
  moreover have "2 powi (bitlen n - 1) / 2 powi bitlen d = (2::rat) powi (?e - 1)"
    by (simp flip: power_int_diff add: algebra_simps)
  ultimately have l: "2 powi (?e - 1) \<le> \<bar>x\<bar>" by simp
  show "2 powi expo x \<le> \<bar>x\<bar>" "\<bar>x\<bar> < 2 powi (expo x + 1)"
    using u l by (auto simp: expo_def nd Let_def)
qed

lemma expo_le: "x \<noteq> 0 \<Longrightarrow> \<bar>x\<bar> < 2 powi k \<Longrightarrow> expo x < k"
  using expo_bounds [of x] powi_less_iff [of "expo x" k] by linarith

lemma expo_ge: "2 powi k \<le> \<bar>x\<bar> \<Longrightarrow> k \<le> expo x"
proof -
  assume k: "2 powi k \<le> \<bar>x\<bar>"
  then have "0 < \<bar>x\<bar>" using powi_pos(1) [of k] by linarith
  then show "k \<le> expo x" using k expo_bounds [of x] powi_less_iff [of k "expo x + 1"] by auto
qed

lemma expo_minus [simp]: "expo (- x) = expo x"
  by (simp add: expo_def)

lemma ulp_exp_minus [simp]: "ulp_exp (- x) = ulp_exp x"
  by (simp add: ulp_exp_def)

lemma expo_mono: "x \<noteq> 0 \<Longrightarrow> \<bar>x\<bar> \<le> \<bar>y\<bar> \<Longrightarrow> expo x \<le> expo y"
  using expo_bounds(1) [of x] by (intro expo_ge) auto

section \<open>What rounding does\<close>

lemma fl_0 [simp]: "fl 0 = 0"
  by (simp add: fl_def)

lemma fl_minus: "fl (- x) = - fl x"
  using rne_minus [of "x / 2 powi ulp_exp x"] by (simp add: fl_def)

text \<open>The values of the grid that rounding uses are bounds for what it returns.\<close>

lemma fl_grid:
  assumes "x \<noteq> 0" "ulp_exp x \<le> q"
  shows "of_int k * 2 powi q \<le> x \<Longrightarrow> of_int k * 2 powi q \<le> fl x"
    and "x \<le> of_int k * 2 powi q \<Longrightarrow> fl x \<le> of_int k * 2 powi q"
proof -
  let ?e = "ulp_exp x"
  define m where "m = k * 2 ^ nat (q - ?e)"
  have m: "of_int k * (2::rat) powi q = of_int m * 2 powi ?e"
    using assms(2) powi_split [of q ?e] by (simp add: m_def power_int_def)
  have f: "fl x = of_int (rne (x / 2 powi ?e)) * 2 powi ?e" using assms(1) by (simp add: fl_def)
  show "of_int k * 2 powi q \<le> x \<Longrightarrow> of_int k * 2 powi q \<le> fl x"
    unfolding m f by (simp add: rne_bounds pos_le_divide_eq)
  show "x \<le> of_int k * 2 powi q \<Longrightarrow> fl x \<le> of_int k * 2 powi q"
    unfolding m f by (simp add: rne_bounds pos_divide_le_eq)
qed

lemma fl_exact:
  assumes "x = of_int k * 2 powi q" "\<bar>k\<bar> < 2 ^ 53" "- 1074 \<le> q"
  shows "fl x = x"
proof (cases "x = 0")
  case False
  have "\<bar>rat_of_int k\<bar> < 2 ^ 53" using assms(2) by (metis of_int_abs of_int_less_iff of_int_numeral of_int_power)
  then have "\<bar>x\<bar> < 2 powi 53 * 2 powi q" by (simp add: assms(1) abs_mult power_int_def)
  then have "\<bar>x\<bar> < 2 powi (53 + q)" by (subst power_int_add) simp_all
  then have "expo x < q + 53" using False expo_le [of x "53 + q"] by simp
  then have "ulp_exp x \<le> q" using assms(3) by (simp add: ulp_exp_def)
  then show ?thesis using fl_grid [OF False, of q k] assms(1) by simp
qed simp

lemma fl_nonneg: "0 \<le> x \<Longrightarrow> 0 \<le> fl x"
  using fl_grid(1) [of x "ulp_exp x" 0] by (cases "x = 0") auto

lemma fl_mono_step:
  assumes "0 < x" "x \<le> y" "ulp_exp x < ulp_exp y"
  shows "fl x \<le> fl y"
proof -
  have y: "y \<noteq> 0" "0 < y" using assms by auto
  have e: "ulp_exp y = expo y - 52" "expo x + 1 \<le> expo y" "ulp_exp x \<le> expo y" "ulp_exp y \<le> expo y"
    using assms(3) by (auto simp: ulp_exp_def)
  have "x < 2 powi (expo x + 1)" using expo_bounds(2) [of x] assms(1) by simp
  also have "\<dots> \<le> 2 powi expo y" using e(2) by (simp add: powi_le_iff)
  finally have "fl x \<le> 2 powi expo y" using fl_grid(2) [of x "expo y" 1] e(3) assms(1) by simp
  also have "2 powi expo y \<le> fl y"
    using fl_grid(1) [of y "expo y" 1] e(4) expo_bounds(1) [of y] y by simp
  finally show ?thesis .
qed

lemma fl_mono_pos:
  assumes "0 < x" "x \<le> y"
  shows "fl x \<le> fl y"
proof (cases "ulp_exp x = ulp_exp y")
  case True
  then show ?thesis using assms by (simp add: fl_def rne_mono divide_right_mono)
next
  case False
  moreover have "ulp_exp x \<le> ulp_exp y" using expo_mono [of x y] assms by (simp add: ulp_exp_def)
  ultimately show ?thesis using assms by (intro fl_mono_step) auto
qed

lemma fl_mono: "x \<le> y \<Longrightarrow> fl x \<le> fl y"
proof -
  assume xy: "x \<le> y"
  consider "0 < x" | "x \<le> 0" "0 \<le> y" | "y < 0" by linarith
  then show "fl x \<le> fl y"
  proof cases
    case 2
    then show ?thesis using fl_nonneg [of y] fl_nonneg [of "- x"] by (simp add: fl_minus)
  next
    case 3
    then show ?thesis using fl_mono_pos [of "- y" "- x"] xy by (simp add: fl_minus)
  qed (use xy fl_mono_pos in auto)
qed

lemma fl_error: "\<bar>fl x - x\<bar> \<le> 2 powi (ulp_exp x - 1)"
proof (cases "x = 0")
  case False
  let ?u = "(2::rat) powi ulp_exp x"
  have "\<bar>of_int (rne (x / ?u)) - x / ?u\<bar> * ?u \<le> 1 / 2 * ?u"
    by (intro mult_right_mono rne_error) simp
  moreover have "\<bar>of_int (rne (x / ?u)) - x / ?u\<bar> * ?u = \<bar>fl x - x\<bar>"
    using False by (simp add: fl_def left_diff_distrib abs_mult_pos)
  ultimately show ?thesis by (simp add: power_int_diff)
qed simp

lemma fl_error_below:
  assumes "\<bar>x\<bar> < 2 powi k" "- 1021 \<le> k"
  shows "\<bar>fl x - x\<bar> \<le> 2 powi (k - 54)"
proof (cases "x = 0")
  case False
  then have "ulp_exp x - 1 \<le> k - 54" using expo_le [OF _ assms(1)] assms(2) by (simp add: ulp_exp_def)
  then show ?thesis using fl_error [of x] powi_le_iff order_trans by blast
qed simp

text \<open>Numbers below \<open>2 ^ 53\<close> do not cross an integer when they are rounded.\<close>

lemma fl_of_int [simp]: "\<bar>k\<bar> < 2 ^ 53 \<Longrightarrow> fl (of_int k) = of_int k"
  using fl_exact [of "of_int k" k 0] by simp

lemma fl_int_bounds:
  assumes "\<bar>k\<bar> < 2 ^ 53"
  shows "of_int k \<le> x \<Longrightarrow> of_int k \<le> fl x" "x \<le> of_int k \<Longrightarrow> fl x \<le> of_int k"
  using fl_mono [of "of_int k" x] fl_mono [of x "of_int k"] assms by simp_all

lemma cut_eqI: "of_int n \<le> x \<Longrightarrow> x < of_int n + 1 \<Longrightarrow> 0 \<le> n \<Longrightarrow> cut x = n"
  unfolding cut_def using of_int_0_le_iff [of n, where 'a = rat] by (subst if_P) (linarith, simp add: floor_unique)

lemma cut_minus: "cut (- x) = - cut x"
  unfolding cut_def ceiling_def by (cases x "0::rat" rule: linorder_cases) auto

lemma cut_of_int [simp]: "cut (of_int n) = n"
  by (simp add: cut_def)

lemma to_u32_floor: "0 \<le> x \<Longrightarrow> \<lfloor>x\<rfloor> < 2 ^ 32 \<Longrightarrow> to_u32 x = Inr (word_of_int \<lfloor>x\<rfloor>)"
  by (simp add: to_u32_def cut_def)

lemma floor_near: "\<bar>of_int \<lfloor>y\<rfloor> + 1 / 2 - y\<bar> \<le> 1 / 2" for y :: rat
  using of_int_floor_le [of y] floor_correct [of y] by (intro abs_leI) linarith+

lemma uint_of_int32: "0 \<le> v \<Longrightarrow> v < 2 ^ 32 \<Longrightarrow> uint (word_of_int v :: u32) = v"
  by (simp add: unsigned_of_int take_bit_int_eq_self)

section \<open>Literals\<close>

definition lit_1e_6 :: double where "lit_1e_6 = fl (1 / 10 ^ 6)"
definition lit_1e_9 :: double where "lit_1e_9 = fl (1 / 10 ^ 9)"

lemma lit_1e_6_eq: "lit_1e_6 = 4722366482869645 / 4722366482869645213696"
  by code_simp

lemma lit_1e_9_eq: "lit_1e_9 = 4835703278458517 / 4835703278458516698824704"
  by code_simp

text \<open>Fractions of a second are scaled with an error below any that matters.\<close>

lemma scaled_1e_6:
  assumes "\<bar>u\<bar> < 1000000"
  shows "\<bar>fl (lit_1e_6 * of_int u) - of_int u / 1000000\<bar> \<le> 1 / 10 ^ 15"
proof -
  let ?x = "lit_1e_6 * of_int u"
  have "rat_of_int \<bar>u\<bar> \<le> of_int 999999" using assms by (intro of_int_le_iff [THEN iffD2]) simp
  then have u: "\<bar>rat_of_int u\<bar> \<le> 999999" by simp
  have "\<bar>?x\<bar> = lit_1e_6 * \<bar>rat_of_int u\<bar>" by (simp add: abs_mult lit_1e_6_eq)
  then have "\<bar>?x\<bar> < 2 powi 0" using u by (simp add: lit_1e_6_eq)
  from fl_error_below [OF this] have "\<bar>fl ?x - ?x\<bar> \<le> 1 / 2 ^ 54" by (simp add: power_int_def field_simps)
  moreover have "?x - of_int u / 1000000 = (lit_1e_6 - 1 / 1000000) * of_int u" by (simp add: algebra_simps)
  then have "\<bar>?x - of_int u / 1000000\<bar> = \<bar>lit_1e_6 - 1 / 1000000\<bar> * \<bar>rat_of_int u\<bar>" by (simp only: abs_mult)
  then have "\<bar>?x - of_int u / 1000000\<bar> \<le> 1 / 10 ^ 16" using u by (simp add: lit_1e_6_eq)
  ultimately show ?thesis by (rule near_trans) simp
qed

end
