(* ===== verification/RtpRecv.thy ===== *)
theory RtpRecv
  imports RtpPayload Streamer Double
begin

text \<open>
  \<^verbatim>\<open>h264dec/rtp.c\<close>: the RTP parser of the RTSP client.  \<^verbatim>\<open>rtp_parse\<close> reads the header of one
  packet, updates the statistics \<^verbatim>\<open>rtp_st\<close> and writes what the payload carries to the
  streamer.  Printing is left out.

  The packet is given by the bytes from \<^verbatim>\<open>raw\<close> to the end of the array it points into, and
  by \<^verbatim>\<open>size\<close>.  The time of the clock is a parameter.  Bytes shifted into the sign bit of an
  \<^verbatim>\<open>int\<close> wrap, as the compiler documents.
\<close>

section \<open>The code\<close>

record timeval =
  tv_sec :: int
  tv_usec :: int

record rtp_header_t =
  rh_version :: byte
  rh_padding :: bool
  rh_extension :: bool
  rh_cc :: byte
  rh_marker :: bool
  rh_pt :: byte
  rh_seq :: u16
  rh_ts :: u32
  rh_ssrc :: u32

record rtp_stats =
  first_seq :: u16
  highest_seq :: u16
  rtp_received :: u16
  rtp_identifier :: u32
  rtp_ts :: u32
  rtp_cum_lost :: u32
  rtp_expected_prior :: u32
  rtp_received_prior :: u32
  transit :: u32
  jitter :: u32
  lst :: u32
  last_dlsr :: u32
  last_rcv_SR_ts :: u32
  delay_snc_last_SR :: u32
  last_rcv_SR_time :: timeval
  last_rcv_time :: timeval
  rtt_frac :: double

definition MAX_BUF_SIZE :: nat where "MAX_BUF_SIZE = 65536 * 10"
definition RTP_FREQ :: u32 where "RTP_FREQ = 90000"
definition NAL_TYPE_UNDEFINED :: byte where "NAL_TYPE_UNDEFINED = 0"
definition NAL_TYPE_SINGLE_NAL_MIN :: byte where "NAL_TYPE_SINGLE_NAL_MIN = 1"
definition NAL_TYPE_SINGLE_NAL_MAX :: byte where "NAL_TYPE_SINGLE_NAL_MAX = 23"
definition NAL_TYPE_STAP_A :: byte where "NAL_TYPE_STAP_A = 24"
definition NAL_TYPE_FU_A :: byte where "NAL_TYPE_FU_A = 28"

text \<open>\<^verbatim>\<open>CHECK_BIT\<close> of a byte, which is widened to an \<^verbatim>\<open>int\<close> first.\<close>

definition CHECK_BIT :: "byte \<Rightarrow> nat \<Rightarrow> bool" where
  "CHECK_BIT var p \<longleftrightarrow> (ucast var :: u32) AND push_bit p 1 \<noteq> 0"

definition rtp_stats_reset :: rtp_stats where
  "rtp_stats_reset =
     \<lparr>first_seq = 0, highest_seq = 0, rtp_received = 0, rtp_identifier = 0, rtp_ts = 0,
      rtp_cum_lost = 0, rtp_expected_prior = 0, rtp_received_prior = 0, transit = 0, jitter = 0,
      lst = 0, last_dlsr = 0, last_rcv_SR_ts = 0, delay_snc_last_SR = 0,
      last_rcv_SR_time = \<lparr>tv_sec = 0, tv_usec = 0\<rparr>, last_rcv_time = \<lparr>tv_sec = 0, tv_usec = 0\<rparr>,
      rtt_frac = 0\<rparr>"

text \<open>
  \<^verbatim>\<open>rtp_stats_update\<close>.  \<^verbatim>\<open>jitter += (1.0/16.0) * ((double) delta - jitter)\<close> is exact in
  \<^verbatim>\<open>double\<close> (a multiple of 1/16 below \<open>2 ^ 33\<close>) and is then truncated.
\<close>

definition next_jitter :: "u32 \<Rightarrow> int \<Rightarrow> u32" where
  "next_jitter j delta = word_of_int ((15 * uint j + delta) div 16)"

definition rtp_stats_update :: "timeval \<Rightarrow> rtp_header_t \<Rightarrow> rtp_stats \<Rightarrow> rtp_stats res" where
  "rtp_stats_update now h st =
     (let st = st\<lparr>rtp_received := rtp_received st + 1\<rparr>;
          st = (if rh_seq h > highest_seq st then st\<lparr>highest_seq := rh_seq h\<rparr> else st);
          st = (if tv_sec (last_rcv_time st) = 0
                then st\<lparr>first_seq := rh_seq h, last_rcv_time := now\<rparr> else st);
          transit_now = delay_snc_last_SR st;
          delta = sint (transit_now - transit st);
          st = st\<lparr>transit := transit_now\<rparr>
      in if delta = - (2 ^ 31) then Inl Int_Overflow
         else
           (let delta = (if delta < 0 then - delta else delta);
                st = st\<lparr>jitter := next_jitter (jitter st) delta\<rparr>
            in Inr (st\<lparr>rtp_ts := rh_ts h\<rparr>)))"

definition parse_rtp_header :: "byte list \<Rightarrow> rtp_header_t res" where
  "parse_rtp_header raw =
     bind_res (rd raw 0) (\<lambda>b0. bind_res (rd raw 1) (\<lambda>b1.
     bind_res (rd raw 2) (\<lambda>b2. bind_res (rd raw 3) (\<lambda>b3.
     bind_res (rd raw 4) (\<lambda>b4. bind_res (rd raw 5) (\<lambda>b5.
     bind_res (rd raw 6) (\<lambda>b6. bind_res (rd raw 7) (\<lambda>b7.
     bind_res (rd raw 8) (\<lambda>b8. bind_res (rd raw 9) (\<lambda>b9.
     bind_res (rd raw 10) (\<lambda>b10. bind_res (rd raw 11) (\<lambda>b11.
     Inr \<lparr>rh_version = drop_bit 6 b0, rh_padding = CHECK_BIT b0 5, rh_extension = CHECK_BIT b0 4,
          rh_cc = b0 AND 0xF, rh_marker = CHECK_BIT b1 8, rh_pt = b1 AND 0x7f,
          rh_seq = of_be16 b2 b3, rh_ts = of_be32 b4 b5 b6 b7, rh_ssrc = of_be32 b8 b9 b10 b11\<rparr>))))))))))))"

text \<open>\<^verbatim>\<open>memset\<close> and \<^verbatim>\<open>memcpy\<close> of the payload.\<close>

definition load_payload :: "byte list \<Rightarrow> u32 \<Rightarrow> byte list res" where
  "load_payload raw paysize =
     bind_res (rd_block raw 12 (unat paysize)) (\<lambda>d. wr_block (replicate MAX_BUF_SIZE 0) 0 d)"

text \<open>The loop over the units of a STAP-A packet; \<^verbatim>\<open>q\<close> is \<^verbatim>\<open>payload + 1\<close>.\<close>

function stap_loop :: "pipe_write \<Rightarrow> byte list \<Rightarrow> u32 \<Rightarrow> nat \<Rightarrow> streamer \<Rightarrow> streamer res" where
  "stap_loop pw payload paysize nidx s =
     (if nidx < unat (paysize - 1) then
        (let s = streamer_write_nal pw s in
         bind_res (rd payload (1 + nidx)) (\<lambda>a.
         bind_res (rd payload (1 + (nidx + 1))) (\<lambda>b.
         let nalu_size = of_be16 a b; nidx2 = nidx + 2 in
         bind_res (streamer_write pw [lo16 nalu_size, hi16 nalu_size] 0 1 s) (\<lambda>s.
         if nalu_size = 0 then stap_loop pw payload paysize (nidx2 + 1) s
         else
           bind_res (streamer_write pw payload (1 + nidx2) (unat nalu_size) s) (\<lambda>s.
           stap_loop pw payload paysize (nidx2 + unat nalu_size) s)))))
      else Inr s)"
  by pat_completeness auto
termination
  by (relation "measure (\<lambda>(pw, payload, paysize, nidx, s). unat (paysize - 1) - nidx)") auto

declare stap_loop.simps [simp del]

text \<open>\<^verbatim>\<open>rtp_parse\<close>: the offset that is returned, the statistics and the streamer.\<close>

definition write_fu_start :: "pipe_write \<Rightarrow> byte \<Rightarrow> byte \<Rightarrow> streamer \<Rightarrow> streamer res" where
  "write_fu_start pw q0 q1 s =
     (let h264_type = q1 AND 0x1F;
          h264_nri = drop_bit 5 (q0 AND 0x60);
          h264_key = push_bit 5 h264_nri OR h264_type;
          s = streamer_write_nal pw s
      in streamer_write pw [h264_key] 0 1 s)"

definition parse_nal :: "pipe_write \<Rightarrow> byte list \<Rightarrow> u32 \<Rightarrow> streamer \<Rightarrow> (u32 \<times> streamer) res" where
  "parse_nal pw payload paysize s =
     bind_res (rd payload 0) (\<lambda>q0.
     let nal = q0 AND 0x1F in
     if nal \<ge> NAL_TYPE_SINGLE_NAL_MIN \<and> nal \<le> NAL_TYPE_SINGLE_NAL_MAX then
       (let s = streamer_write_nal pw s; sizeof_paysize = 4 in
        bind_res (streamer_write pw payload 0 sizeof_paysize s) (\<lambda>s. Inr (12, s)))
     else if nal = NAL_TYPE_STAP_A then
       bind_res (stap_loop pw payload paysize 0 s) (\<lambda>s. Inr (12, s))
     else if nal = NAL_TYPE_FU_A then
       bind_res (rd payload 1) (\<lambda>q1.
       bind_res (if q1 AND 0x80 \<noteq> 0 then write_fu_start pw q0 q1 s else Inr s) (\<lambda>s.
       bind_res (streamer_write pw payload 2 (unat (paysize - 2)) s) (\<lambda>s. Inr (12, s))))
     else if nal = NAL_TYPE_UNDEFINED then Inr (12, s)
     else Inr (12 + 1, s))"

definition rtp_parse ::
  "pipe_write \<Rightarrow> timeval \<Rightarrow> byte list \<Rightarrow> u32 \<Rightarrow> rtp_stats \<Rightarrow> streamer \<Rightarrow>
   (u32 \<times> rtp_stats \<times> streamer) res" where
  "rtp_parse pw now raw sz st s =
     bind_res (parse_rtp_header raw) (\<lambda>h.
     let st = st\<lparr>rtp_identifier := rh_ssrc h\<rparr>; paysize = sz - 12 in
     bind_res (load_payload raw paysize) (\<lambda>payload.
     bind_res (rtp_stats_update now h st) (\<lambda>st.
     bind_res (parse_nal pw payload paysize s) (\<lambda>(raw_offset, s).
     let raw_offset = raw_offset + paysize;
         st = (if rh_seq h > highest_seq st then st\<lparr>highest_seq := rh_seq h\<rparr> else st)
     in Inr (raw_offset, st, s)))))"

text \<open>The conversions, which the program does not use.\<close>

definition rtp_rtp2tval :: "u32 \<Rightarrow> timeval res" where
  "rtp_rtp2tval ts =
     (if ts div 8000 = 0 then Inl Div_Zero
      else Inr \<lparr>tv_sec = uint (ts * RTP_FREQ), tv_usec = uint (((ts mod RTP_FREQ) div (ts div 8000)) * 125)\<rparr>)"

definition rtp_timeval_to_ntp :: "timeval \<Rightarrow> u64 res" where
  "rtp_timeval_to_ntp tv =
     bind_res (to_u32 (fl (fl (fl (of_int (tv_usec tv)) * fl (2 ^ 32)) * lit_1e_6))) (\<lambda>lsw.
       let msw = word_of_int (tv_sec tv + 0x83AA7E80)
       in Inr (push_bit 32 msw OR ucast lsw))"

section \<open>The statistics\<close>

text \<open>The only fault of the statistics: the transit time jumps by exactly \<open>2 ^ 31\<close>.\<close>

definition stats_ok :: "rtp_stats \<Rightarrow> bool" where
  "stats_ok st \<longleftrightarrow> delay_snc_last_SR st - transit st \<noteq> 0x80000000"

lemma sint_min_iff: "sint (x :: u32) = - (2 ^ 31) \<longleftrightarrow> x = 0x80000000"
proof
  assume "sint x = - (2 ^ 31)"
  then have "(word_of_int (sint x) :: u32) = word_of_int (- (2 ^ 31))" by simp
  then show "x = 0x80000000" by simp
qed simp

lemma rtp_stats_update_run:
  assumes "stats_ok st"
  shows "\<exists>st'. rtp_stats_update now h st = Inr st' \<and> stats_ok st' \<and>
    last_rcv_SR_ts st' = last_rcv_SR_ts st \<and> rtp_received st' = rtp_received st + 1 \<and> highest_seq st' = max (highest_seq st) (rh_seq h)"
  using assms sint_min_iff [of "delay_snc_last_SR st - transit st"]
  by (auto simp: rtp_stats_update_def stats_ok_def Let_def max_def)

lemma stats_ok_simps [simp]:
  "stats_ok (st\<lparr>rtp_identifier := i\<rparr>) = stats_ok st" "stats_ok (st\<lparr>highest_seq := q\<rparr>) = stats_ok st"
  by (simp_all add: stats_ok_def)

lemma stats_ok_reset [simp]: "stats_ok rtp_stats_reset"
  by (simp add: stats_ok_def rtp_stats_reset_def)

section \<open>One packet\<close>

definition header_of :: "byte list \<Rightarrow> rtp_header_t" where
  "header_of raw =
     \<lparr>rh_version = drop_bit 6 (raw ! 0), rh_padding = CHECK_BIT (raw ! 0) 5,
      rh_extension = CHECK_BIT (raw ! 0) 4, rh_cc = (raw ! 0) AND 0xF,
      rh_marker = CHECK_BIT (raw ! 1) 8, rh_pt = (raw ! 1) AND 0x7f,
      rh_seq = of_be16 (raw ! 2) (raw ! 3),
      rh_ts = of_be32 (raw ! 4) (raw ! 5) (raw ! 6) (raw ! 7),
      rh_ssrc = of_be32 (raw ! 8) (raw ! 9) (raw ! 10) (raw ! 11)\<rparr>"

lemma parse_rtp_header_run: "12 \<le> length raw \<Longrightarrow> parse_rtp_header raw = Inr (header_of raw)"
  by (auto simp: parse_rtp_header_def header_of_def rd_def)

text \<open>The payload array when a payload \<open>pl\<close> has been copied into it.\<close>

definition padded :: "byte list \<Rightarrow> byte list" where
  "padded pl = pl @ replicate (MAX_BUF_SIZE - length pl) 0"

lemma length_padded: "length pl \<le> MAX_BUF_SIZE \<Longrightarrow> length (padded pl) = MAX_BUF_SIZE"
  by (simp add: padded_def)

lemma unat_length_word: "length pl \<le> MAX_BUF_SIZE \<Longrightarrow> unat (of_nat (length pl) :: u32) = length pl"
  by (simp add: unsigned_of_nat take_bit_nat_eq_self MAX_BUF_SIZE_def)

lemma load_payload_run:
  assumes "length hdr = 12" "length pl \<le> MAX_BUF_SIZE"
  shows "load_payload (hdr @ pl @ rest) (of_nat (length pl)) = Inr (padded pl)"
  using assms by (simp add: load_payload_def unat_length_word padded_def overlay_def)

lemma rtp_parse_run:
  assumes "length hdr = 12" "length pl \<le> MAX_BUF_SIZE" "stats_ok st"
  shows "\<exists>st'. stats_ok st' \<and> last_rcv_SR_ts st' = last_rcv_SR_ts st \<and>
    rtp_parse pw now (hdr @ pl @ rest) (of_nat (12 + length pl)) st s =
      bind_res (parse_nal pw (padded pl) (of_nat (length pl)) s)
        (\<lambda>(off, s). Inr (off + of_nat (length pl), st', s))"
proof -
  let ?raw = "hdr @ pl @ rest"
  let ?h = "header_of ?raw"
  obtain st1 where st1: "rtp_stats_update now ?h (st\<lparr>rtp_identifier := rh_ssrc ?h\<rparr>) = Inr st1" "stats_ok st1"
      "last_rcv_SR_ts st1 = last_rcv_SR_ts st"
    using rtp_stats_update_run [of "st\<lparr>rtp_identifier := rh_ssrc ?h\<rparr>"] assms(3) by auto
  define st2 where "st2 = (if rh_seq ?h > highest_seq st1 then st1\<lparr>highest_seq := rh_seq ?h\<rparr> else st1)"
  have "stats_ok st2" "last_rcv_SR_ts st2 = last_rcv_SR_ts st"
    using st1(2,3) by (simp_all add: st2_def)
  moreover have "(of_nat (12 + length pl) :: u32) - 12 = of_nat (length pl)" by simp
  ultimately show ?thesis
    using assms st1 load_payload_run [OF assms(1,2), of rest]
    by (intro exI [of _ st2]) (simp add: rtp_parse_def parse_rtp_header_run Let_def st2_def del: of_nat_add)
qed

lemma word_type_conv: "x AND 0x1F = nal_type x"
  by (simp add: nal_type_def)

lemmas nal_consts = NAL_TYPE_UNDEFINED_def NAL_TYPE_SINGLE_NAL_MIN_def NAL_TYPE_SINGLE_NAL_MAX_def
  NAL_TYPE_STAP_A_def NAL_TYPE_FU_A_def

lemma fu_key: "push_bit 5 (drop_bit 5 (q0 AND 0x60)) OR (q1 AND 0x1F) = fu_nal_header q0 (q1 :: byte)"
  by (rule byte_eqI) (simp_all add: fu_nal_header_def byte_bits)

lemma write_fu_start_eq:
  "write_fu_start pw q0 q1 s = streamer_write pw [fu_nal_header q0 q1] 0 1 (streamer_write_nal pw s)"
  by (simp only: write_fu_start_def Let_def fu_key)

lemma padded_fu:
  assumes "2 + length body \<le> MAX_BUF_SIZE"
  shows "padded (a # b # body) ! 0 = a" "padded (a # b # body) ! 1 = b"
    "take (length body) (drop 2 (padded (a # b # body))) = body"
  by (simp_all add: padded_def numeral_2_eq_2)

lemma parse_nal_fu:
  assumes "pipe_accepts pw" "nal_type ind = 28" "2 + length body \<le> MAX_BUF_SIZE"
    "unat (n - 2) = length body"
  shows "\<exists>s'. parse_nal pw (padded (ind # h # body)) n s = Inr (12, s') \<and>
    pipe_data s' = pipe_data s @
      (if h AND 0x80 = 0 then body else [0, 0, 0, 1] @ fu_nal_header ind h # body)"
proof -
  let ?p = "padded (ind # h # body)"
  have len: "length ?p = MAX_BUF_SIZE" using assms(3) by (intro length_padded) simp
  have pos: "0 < MAX_BUF_SIZE" "1 < MAX_BUF_SIZE" by (simp_all add: MAX_BUF_SIZE_def)
  have start: "\<exists>s1. write_fu_start pw ind h t = Inr s1 \<and>
      pipe_data s1 = pipe_data t @ [0, 0, 0, 1] @ [fu_nal_header ind h]" for t
    using streamer_write_run [OF assms(1), of 0 1 "[fu_nal_header ind h]" "streamer_write_nal pw t"]
      streamer_write_nal_run [OF assms(1), of t]
    by (simp add: write_fu_start_eq)
  have body: "\<exists>s2. streamer_write pw ?p 2 (length body) t = Inr s2 \<and> pipe_data s2 = pipe_data t @ body" for t
    using streamer_write_run [OF assms(1), of 2 "length body" ?p t] assms(3) len padded_fu(3) [OF assms(3)]
    by simp
  show ?thesis
  proof (cases "h AND 0x80 = 0")
    case True
    obtain s2 where "streamer_write pw ?p 2 (length body) s = Inr s2" "pipe_data s2 = pipe_data s @ body"
      using body by blast
    then show ?thesis
      using True assms(2) pos len padded_fu [OF assms(3), of ind h]
      by (simp add: parse_nal_def word_type_conv nal_consts assms(4))
  next
    case False
    obtain s1 where s1: "write_fu_start pw ind h s = Inr s1"
        "pipe_data s1 = pipe_data s @ [0, 0, 0, 1] @ [fu_nal_header ind h]"
      using start by blast
    obtain s2 where "streamer_write pw ?p 2 (length body) s1 = Inr s2" "pipe_data s2 = pipe_data s1 @ body"
      using body by blast
    then show ?thesis
      using False s1 assms(2) pos len padded_fu [OF assms(3), of ind h]
      by (simp add: parse_nal_def word_type_conv nal_consts assms(4))
  qed
qed

text \<open>A single NAL unit packet: \<^verbatim>\<open>sizeof(paysize)\<close> bytes are written.\<close>

lemma parse_nal_single:
  assumes "pipe_accepts pw" "nal \<noteq> []" "1 \<le> nal_type (hd nal)" "nal_type (hd nal) \<le> 23"
    "length nal \<le> MAX_BUF_SIZE"
  shows "\<exists>s'. parse_nal pw (padded nal) n s = Inr (12, s') \<and>
    pipe_data s' = pipe_data s @ [0, 0, 0, 1] @ take 4 (padded nal)"
proof -
  have len: "length (padded nal) = MAX_BUF_SIZE" "0 < MAX_BUF_SIZE" "4 \<le> MAX_BUF_SIZE"
    using length_padded [OF assms(5)] by (auto simp: MAX_BUF_SIZE_def)
  have 0: "rd (padded nal) 0 = Inr (hd nal)"
    using assms(2) len by (simp add: rd_def) (simp add: padded_def hd_conv_nth nth_append)
  show ?thesis
    using streamer_write_run [OF assms(1), of 0 4 "padded nal" "streamer_write_nal pw s"]
      streamer_write_nal_run [OF assms(1), of s] len(1,3) assms(3,4)
    by (auto simp: parse_nal_def 0 word_type_conv nal_consts)
qed

text \<open>An aggregation packet: the low byte of each size is written in front of the unit.\<close>

definition stap_written :: "byte list \<Rightarrow> byte list" where
  "stap_written u = [0, 0, 0, 1] @ word_of_nat (length u) # u"

lemma unat_u16: "k < 65536 \<Longrightarrow> unat (word_of_nat k :: u16) = k"
  by (simp add: unsigned_of_nat take_bit_nat_eq_self)

lemma lo16_word_of_nat [simp]: "lo16 (word_of_nat k) = word_of_nat k"
  by (simp add: lo16_def unsigned_of_nat word_of_nat_eq_iff)

lemma stap_loop_run:
  assumes "pipe_accepts pw" "\<forall>u \<in> set us. u \<noteq> [] \<and> length u < 65536"
    "length pre = Suc nidx" "unat (paysize - 1) = nidx + length (concat (map stap_unit us))"
  shows "\<exists>s'. stap_loop pw (pre @ concat (map stap_unit us) @ zs) paysize nidx s = Inr s' \<and>
    pipe_data s' = pipe_data s @ concat (map stap_written us)"
  using assms(2-)
proof (induction us arbitrary: pre nidx s)
  case Nil
  then show ?case by (subst stap_loop.simps) simp
next
  case (Cons u us)
  let ?p = "pre @ concat (map stap_unit (u # us)) @ zs"
  let ?w = "word_of_nat (length u) :: u16"
  have u: "u \<noteq> []" "length u < 65536" using Cons.prems(1) by auto
  then have w: "unat ?w = length u" by (intro unat_u16)
  then have w0: "?w \<noteq> 0" using u(1) by (metis length_0_conv unsigned_0)
  have p: "?p = pre @ hi16 ?w # lo16 ?w # u @ concat (map stap_unit us) @ zs"
    by (simp add: stap_unit_def be16_def)
  have rds: "rd ?p (1 + nidx) = Inr (hi16 ?w)" "rd ?p (1 + (nidx + 1)) = Inr (lo16 ?w)"
    unfolding p using Cons.prems(2) by (simp_all add: nth_append del: lo16_word_of_nat)
  obtain s1 where s1: "streamer_write pw [lo16 ?w, hi16 ?w] 0 1 (streamer_write_nal pw s) = Inr s1"
      "pipe_data s1 = pipe_data s @ [0, 0, 0, 1] @ [lo16 ?w]"
    using streamer_write_run [OF assms(1), of 0 1 "[lo16 ?w, hi16 ?w]" "streamer_write_nal pw s"]
      streamer_write_nal_run [OF assms(1), of s] by auto
  obtain s2 where s2: "streamer_write pw ?p (1 + (nidx + 2)) (length u) s1 = Inr s2"
      "pipe_data s2 = pipe_data s1 @ u"
    using streamer_write_run [OF assms(1), of "1 + (nidx + 2)" "length u" ?p s1] Cons.prems(2)
    unfolding p by (auto simp: numeral_2_eq_2 simp del: lo16_word_of_nat)
  have nidx: "nidx < unat (paysize - 1)" using Cons.prems(3) by simp
  have step: "stap_loop pw ?p paysize nidx s = stap_loop pw ?p paysize (nidx + 2 + length u) s2"
    by (subst stap_loop.simps)
       (simp only: nidx if_True Let_def rds bind_res_Inr of_be16_hi_lo s1(1) w0 if_False w s2(1))
  have "?p = (pre @ stap_unit u) @ concat (map stap_unit us) @ zs" by simp
  then obtain s' where "stap_loop pw ?p paysize (nidx + 2 + length u) s2 = Inr s'"
      "pipe_data s' = pipe_data s2 @ concat (map stap_written us)"
    using Cons.IH [of "pre @ stap_unit u" "nidx + 2 + length u" s2] Cons.prems by auto
  then show ?case using step s1(2) s2(2) by (simp add: stap_written_def [of u])
qed

lemma parse_nal_stap:
  assumes "pipe_accepts pw" "nal_type ind = 24" "\<forall>u \<in> set us. u \<noteq> [] \<and> length u < 65536"
    "length (ind # concat (map stap_unit us)) \<le> MAX_BUF_SIZE"
  shows "\<exists>s'. parse_nal pw (padded (ind # concat (map stap_unit us)))
      (of_nat (length (ind # concat (map stap_unit us)))) s = Inr (12, s') \<and>
    pipe_data s' = pipe_data s @ concat (map stap_written us)"
proof -
  let ?pl = "ind # concat (map stap_unit us)"
  have len: "length (padded ?pl) = MAX_BUF_SIZE" "0 < MAX_BUF_SIZE"
    using length_padded [OF assms(4)] by (auto simp: MAX_BUF_SIZE_def)
  have 0: "rd (padded ?pl) 0 = Inr ind"
    using len by (simp add: rd_def) (simp add: padded_def)
  have "unat (of_nat (length ?pl) - 1 :: u32) = length (concat (map stap_unit us))"
    using unat_length_word [of "concat (map stap_unit us)"] assms(4) by simp
  then obtain s' where "stap_loop pw (padded ?pl) (of_nat (length ?pl)) 0 s = Inr s'"
      "pipe_data s' = pipe_data s @ concat (map stap_written us)"
    using stap_loop_run [OF assms(1,3), of "[ind]" 0 "of_nat (length ?pl)"
        "replicate (MAX_BUF_SIZE - length ?pl) 0" s] by (auto simp: padded_def)
  then show ?thesis
    using assms(2) by (simp add: parse_nal_def 0 word_type_conv nal_consts)
qed

section \<open>As a receiver\<close>

text \<open>
  The client fed with the packets of the RTP channel; \<open>clk k\<close> is the time at which the
  \<open>k\<close>-th packet is parsed.
\<close>

type_synonym rtp_client = "nat \<times> rtp_stats \<times> streamer"

definition parse_packet ::
  "pipe_write \<Rightarrow> (nat \<Rightarrow> timeval) \<Rightarrow> rtp_client \<Rightarrow> byte list \<Rightarrow> rtp_client res" where
  "parse_packet pw clk c p =
     (case c of (k, st, s) \<Rightarrow>
        bind_res (rtp_parse pw (clk k) p (of_nat (length p)) st s) (\<lambda>(off, st, s).
        Inr (k + 1, st, s)))"

definition rtp_client_ok :: "pipe_write \<Rightarrow> rtp_client \<Rightarrow> bool" where
  "rtp_client_ok pw c \<longleftrightarrow> pipe_accepts pw \<and> stats_ok (fst (snd c))"

definition rtp_client_out :: "rtp_client \<Rightarrow> byte list" where
  "rtp_client_out c = pipe_data (snd (snd c))"

lemma parse_packet_run:
  assumes "rtp_client_ok pw c" "length hdr = 12" "length pl \<le> MAX_BUF_SIZE"
    and nal: "\<And>s. \<exists>s'. parse_nal pw (padded pl) (of_nat (length pl)) s = Inr (12, s') \<and>
      pipe_data s' = pipe_data s @ d"
  shows "\<exists>c'. parse_packet pw clk c (hdr @ pl) = Inr c' \<and> rtp_client_ok pw c' \<and>
    rtp_client_out c' = rtp_client_out c @ d"
proof -
  obtain k st s where c: "c = (k, st, s)" by (cases c) auto
  obtain st' where st': "stats_ok st'" "rtp_parse pw (clk k) (hdr @ pl @ []) (of_nat (12 + length pl)) st s =
      bind_res (parse_nal pw (padded pl) (of_nat (length pl)) s)
        (\<lambda>(off, s). Inr (off + of_nat (length pl), st', s))"
    using rtp_parse_run [OF assms(2,3), of st pw "clk k" "[]" s] assms(1)
    by (auto simp: c rtp_client_ok_def)
  obtain s' where "parse_nal pw (padded pl) (of_nat (length pl)) s = Inr (12, s')"
      "pipe_data s' = pipe_data s @ d" using nal by blast
  then show ?thesis
    using st' assms(1,2) by (simp add: parse_packet_def c rtp_client_ok_def rtp_client_out_def)
qed

lemma unat_body: "2 + length body \<le> MAX_BUF_SIZE \<Longrightarrow>
    unat (of_nat (length (a # b # body)) - 2 :: u32) = length body"
  using unat_length_word [of body] by simp

lemma parse_packet_fu:
  assumes "rtp_client_ok pw c" "length hdr = 12" "nal_type ind = 28" "14 + length body \<le> 65535"
  shows "\<exists>c'. parse_packet pw clk c (hdr @ ind # fuh # body) = Inr c' \<and> rtp_client_ok pw c' \<and>
    rtp_client_out c' = rtp_client_out c @
      (if fuh AND 0x80 = 0 then body else [0, 0, 0, 1] @ fu_nal_header ind fuh # body)"
proof -
  have len: "2 + length body \<le> MAX_BUF_SIZE" using assms(4) by (simp add: MAX_BUF_SIZE_def)
  show ?thesis
  proof (rule parse_packet_run [OF assms(1,2)])
    show "length (ind # fuh # body) \<le> MAX_BUF_SIZE" using len by simp
    have "pipe_accepts pw" using assms(1) by (simp add: rtp_client_ok_def)
    then show "\<exists>s'. parse_nal pw (padded (ind # fuh # body)) (of_nat (length (ind # fuh # body))) s = Inr (12, s') \<and>
        pipe_data s' = pipe_data s @
          (if fuh AND 0x80 = 0 then body else [0, 0, 0, 1] @ fu_nal_header ind fuh # body)" for s
      by (rule parse_nal_fu [OF _ assms(3) len unat_body [OF len]])
  qed
qed

interpretation h264dec: fu_depacketizer "parse_packet pw clk" rtp_client_out "rtp_client_ok pw" 65535
  for pw clk
proof
  fix s ind fuh and hdr body :: "byte list"
  assume s: "rtp_client_ok pw s" "length hdr = 12" "nal_type ind = 28" and len: "14 + length body \<le> 65535"
  show "\<exists>s'. parse_packet pw clk s (hdr @ ind # fuh # body) = Inr s' \<and> rtp_client_ok pw s' \<and>
      rtp_client_out s' = rtp_client_out s @ [0, 0, 0, 1] @ fu_nal_header ind fuh # body"
    if "fuh AND 0x80 \<noteq> 0"
    using parse_packet_fu [OF s len, of clk fuh] that by simp
  show "\<exists>s'. parse_packet pw clk s (hdr @ ind # fuh # body) = Inr s' \<and> rtp_client_ok pw s' \<and>
      rtp_client_out s' = rtp_client_out s @ body" if "fuh AND 0x80 = 0"
    using parse_packet_fu [OF s len, of clk fuh] that by simp
qed

section \<open>Properties\<close>

text \<open>
  C18: The packets of any number of fragmented NAL units, in order, put the units into the
  pipe, each behind a 4-byte start code.
\<close>

theorem rtp_parse_fragments:
  assumes "list_all2 (fu_pkts 65535) pss nals" "pipe_accepts pw" "stats_ok st"
  shows "\<exists>k' st' s'. fold_res (parse_packet pw clk) (k, st, s) (concat pss) = Inr (k', st', s') \<and>
    stats_ok st' \<and> pipe_data s' = pipe_data s @ annexb4 nals"
proof -
  have "rtp_client_ok pw (k, st, s)" using assms by (simp add: rtp_client_ok_def)
  then show ?thesis
    using h264dec.feed_fu_stream [OF assms(1), where s = "(k, st, s)" and clk = clk]
    by (auto simp: rtp_client_ok_def rtp_client_out_def)
qed

definition sample_time :: timeval where
  "sample_time = \<lparr>tv_sec = 5, tv_usec = 0\<rparr>"

definition sample_streamer :: streamer where
  "sample_streamer =
     \<lparr>stream_dump = False, stream_fs_fd = -1, fs_data = [], pipe_data = [], pipe_calls = 0\<rparr>"

theorem rtp_parse_fragments_witness:
  "\<exists>k st s. fold_res (parse_packet (\<lambda>k n. n) (\<lambda>k. \<lparr>tv_sec = 5, tv_usec = 0\<rparr>))
      (0, rtp_stats_reset, sample_streamer)
      [replicate 12 0 @ [0x7C, 0x85, 1, 2], replicate 12 0 @ [0x7C, 0x45, 3]] = Inr (k, st, s) \<and>
    pipe_data s = [0, 0, 0, 1, 0x65, 1, 2, 3]"
proof -
  have cont: "fu_cont_pkts 65535 [replicate 12 0 @ [0x7C, 0x45, 3]] [3]"
    using fc_Cons [of "replicate 12 0" "0x7C" "0x45" "[3]" 65535 "[]" "[]"]
    by (simp add: nal_type_def fc_Nil)
  then have "fu_pkts 65535 [replicate 12 0 @ [0x7C, 0x85, 1, 2], replicate 12 0 @ [0x7C, 0x45, 3]]
      [0x65, 1, 2, 3]"
    using fu_start [of "replicate 12 0" "0x7C" "0x85" "[1, 2]" 65535
        "[replicate 12 0 @ [0x7C, 0x45, 3]]" "[3]"]
    by (simp add: nal_type_def nal_f_def fu_nal_header_def)
  then show ?thesis
    using rtp_parse_fragments [of "[[replicate 12 0 @ [0x7C, 0x85, 1, 2], replicate 12 0 @ [0x7C, 0x45, 3]]]"
        "[[0x65, 1, 2, 3]]" "\<lambda>k n. n" rtp_stats_reset "\<lambda>k. \<lparr>tv_sec = 5, tv_usec = 0\<rparr>" 0 sample_streamer]
    by (auto simp: pipe_accepts_def sample_streamer_def)
qed

text \<open>
  C30: A single NAL unit packet puts a start code and the first four bytes of the unit into the
  pipe (padded with zeros), whatever the length of the unit: the byte count passed on is
  \<^verbatim>\<open>sizeof(paysize)\<close>.
\<close>

theorem rtp_parse_single_truncates:
  assumes "pipe_accepts pw" "stats_ok st" "length hdr = 12" "nal \<noteq> []"
    "1 \<le> nal_type (hd nal)" "nal_type (hd nal) \<le> 23" "length nal \<le> MAX_BUF_SIZE"
  shows "\<exists>st' s'. rtp_parse pw now (hdr @ nal) (of_nat (12 + length nal)) st s =
      Inr (of_nat (12 + length nal), st', s') \<and>
    pipe_data s' = pipe_data s @ [0, 0, 0, 1] @ take 4 (nal @ [0, 0, 0])"
proof -
  have zeros: "[0, 0, 0] = replicate 3 (0 :: byte)" by (simp add: numeral_eq_Suc)
  have "1 \<le> length nal" using assms(4) by (cases nal) auto
  then have "take 4 (padded nal) = take 4 (nal @ [0, 0, 0])"
    using assms(7) by (auto simp: zeros padded_def MAX_BUF_SIZE_def min_def)
  then obtain s' where s': "parse_nal pw (padded nal) (of_nat (length nal)) s = Inr (12, s')"
      "pipe_data s' = pipe_data s @ [0, 0, 0, 1] @ take 4 (nal @ [0, 0, 0])"
    using parse_nal_single [OF assms(1,4-7), of "of_nat (length nal)" s] by (elim exE conjE) simp
  obtain st' where "rtp_parse pw now (hdr @ nal @ []) (of_nat (12 + length nal)) st s =
      bind_res (parse_nal pw (padded nal) (of_nat (length nal)) s)
        (\<lambda>(off, s). Inr (off + of_nat (length nal), st', s))"
    using rtp_parse_run [OF assms(3,7,2)] by blast
  then have "rtp_parse pw now (hdr @ nal) (of_nat (12 + length nal)) st s =
      Inr (of_nat (12 + length nal), st', s')"
    by (simp only: append_Nil2 s'(1) bind_res_Inr prod.case) simp
  then show ?thesis using s'(2) by blast
qed

theorem rtp_parse_single_truncates_witness:
  "\<exists>st s. rtp_parse (\<lambda>k n. n) sample_time (replicate 12 0 @ [0x65, 1, 2, 3, 4, 5]) 18 rtp_stats_reset
      sample_streamer = Inr (18, st, s) \<and> pipe_data s = [0, 0, 0, 1, 0x65, 1, 2, 3]"
  using rtp_parse_single_truncates [of "\<lambda>k n. n" rtp_stats_reset "replicate 12 0" "[0x65, 1, 2, 3, 4, 5]"
      sample_time sample_streamer]
  by (simp add: pipe_accepts_def nal_type_def MAX_BUF_SIZE_def sample_streamer_def)

text \<open>
  An aggregation packet is split at its units, but between the start code and the unit the
  low byte of the unit's size goes into the pipe.
\<close>

theorem rtp_parse_stap:
  assumes "pipe_accepts pw" "stats_ok st" "length hdr = 12" "nal_type ind = 24"
    "\<forall>u \<in> set us. u \<noteq> [] \<and> length u < 65536"
    "length (ind # concat (map stap_unit us)) \<le> MAX_BUF_SIZE"
  shows "\<exists>st' s'. rtp_parse pw now (hdr @ ind # concat (map stap_unit us))
        (of_nat (12 + length (ind # concat (map stap_unit us)))) st s =
      Inr (of_nat (12 + length (ind # concat (map stap_unit us))), st', s') \<and>
    pipe_data s' = pipe_data s @
      concat (map (\<lambda>u. [0, 0, 0, 1] @ word_of_nat (length u) # u) us)"
proof -
  let ?pl = "ind # concat (map stap_unit us)"
  obtain s' where s': "parse_nal pw (padded ?pl) (of_nat (length ?pl)) s = Inr (12, s')"
      "pipe_data s' = pipe_data s @ concat (map stap_written us)"
    using parse_nal_stap [OF assms(1,4-6)] by blast
  obtain st' where "rtp_parse pw now (hdr @ ?pl @ []) (of_nat (12 + length ?pl)) st s =
      bind_res (parse_nal pw (padded ?pl) (of_nat (length ?pl)) s)
        (\<lambda>(off, s). Inr (off + of_nat (length ?pl), st', s))"
    using rtp_parse_run [OF assms(3,6,2)] by blast
  then have "rtp_parse pw now (hdr @ ?pl) (of_nat (12 + length ?pl)) st s =
      Inr (of_nat (12 + length ?pl), st', s')"
    by (simp only: append_Nil2 s'(1) bind_res_Inr prod.case) simp
  moreover have "stap_written = (\<lambda>u. [0, 0, 0, 1] @ word_of_nat (length u) # u)"
    by (rule ext) (simp add: stap_written_def)
  ultimately show ?thesis using s'(2) by auto
qed

theorem rtp_parse_stap_witness:
  "\<exists>st s. rtp_parse (\<lambda>k n. n) sample_time (replicate 12 0 @ [0x78, 0, 2, 0x67, 7, 0, 1, 0x68]) 20 rtp_stats_reset
      sample_streamer = Inr (20, st, s) \<and>
    pipe_data s = [0, 0, 0, 1, 2, 0x67, 7] @ [0, 0, 0, 1, 1, 0x68]"
  using rtp_parse_stap [of "\<lambda>k n. n" rtp_stats_reset "replicate 12 0" "0x78" "[[0x67, 7], [0x68]]"
      sample_time sample_streamer]
  by (simp add: pipe_accepts_def nal_type_def MAX_BUF_SIZE_def sample_streamer_def stap_unit_def
      be16_def hi16_def lo16_def)

text \<open>
  A packet whose announced size is shorter than the RTP header makes the payload size wrap
  around, and the copy of the payload leaves the array.
\<close>

theorem rtp_parse_short_packet:
  assumes "unat sz < 12" "length raw < 2 ^ 31"
  shows "rtp_parse pw now raw sz st s = Inl Read_Overflow"
proof (cases "12 \<le> length raw")
  case True
  have "unat (sz - 12) = 2 ^ 32 - 12 + unat sz"
    using assms(1) by (simp add: unat_sub_if_size word_size word_le_nat_alt)
  then have "load_payload raw (sz - 12) = Inl Read_Overflow"
    using assms by (simp add: load_payload_def rd_block_def)
  then show ?thesis using True by (simp add: rtp_parse_def parse_rtp_header_run)
next
  case False
  then have "rd raw 11 = Inl Read_Overflow" by (simp add: rd_def)
  then have "parse_rtp_header raw = Inl Read_Overflow"
    by (auto simp: parse_rtp_header_def rd_def bind_res_def)
  then show ?thesis by (simp add: rtp_parse_def)
qed

theorem rtp_parse_short_packet_witness:
  "rtp_parse (\<lambda>k n. n) sample_time (replicate 100 0) 8 rtp_stats_reset sample_streamer = Inl Read_Overflow"
  by (rule rtp_parse_short_packet) simp_all

lemma other_nal_types:
  assumes "nal_type b \<notin> {25, 26, 27, 29, 30, 31}"
  shows "1 \<le> nal_type b \<and> nal_type b \<le> 23 \<or> nal_type b = 24 \<or> nal_type b = 28 \<or> nal_type b = 0"
proof -
  have "nal_type b \<le> 31" by (simp add: nal_type_def word_and_le1)
  then have "uint (nal_type b) \<le> 31" by (simp add: word_le_def)
  moreover have "1 \<le> u \<and> u \<le> 23 \<or> u = 24 \<or> u = 28 \<or> u = 0"
    if "0 \<le> u" "u \<le> 31" "u \<notin> {25, 26, 27, 29, 30, 31}" for u :: int
    using that by simp presburger
  ultimately show ?thesis using assms by (simp add: word_le_def word_uint_eq_iff)
qed

lemma parse_nal_offset:
  assumes "parse_nal pw payload n s = Inr (off, s')"
  shows "off = 12 + (if nal_type (payload ! 0) \<in> {25, 26, 27, 29, 30, 31} then 1 else 0)"
proof -
  obtain q0 where q0: "rd payload 0 = Inr q0" "q0 = payload ! 0"
    using assms by (auto simp: parse_nal_def bind_res_eq_Inr rd_eq_Inr)
  show ?thesis
  proof (cases "nal_type q0 \<in> {25, 26, 27, 29, 30, 31}")
    case True
    then show ?thesis
      using assms q0 by (auto simp: parse_nal_def word_type_conv nal_consts)
  next
    case False
    then show ?thesis
      using assms q0 other_nal_types [OF False]
      by (auto simp: parse_nal_def word_type_conv nal_consts bind_res_eq_Inr split: if_splits)
  qed
qed

lemma load_payload_first:
  assumes "load_payload raw (sz - 12) = Inr payload"
  shows "12 \<le> unat sz" "payload ! 0 = (if 12 < unat sz then raw ! 12 else 0)"
proof -
  let ?n = "unat (sz - 12)"
  have n: "12 + ?n \<le> length raw" "?n \<le> MAX_BUF_SIZE"
      "payload = overlay (replicate MAX_BUF_SIZE 0) 0 (take ?n (drop 12 raw))"
    using assms by (auto simp: load_payload_def bind_res_eq_Inr rd_block_eq_Inr wr_block_eq_Inr)
  show 12: "12 \<le> unat sz"
  proof (rule ccontr)
    assume "\<not> 12 \<le> unat sz"
    then have "?n = 2 ^ 32 - 12 + unat sz" by (simp add: unat_sub_if_size word_size word_le_nat_alt)
    then show False using n(2) by (simp add: MAX_BUF_SIZE_def)
  qed
  then have "?n = unat sz - 12" by (simp add: unat_sub_if_size word_size word_le_nat_alt)
  then show "payload ! 0 = (if 12 < unat sz then raw ! 12 else 0)"
    using n(1) by (auto simp: n(3) overlay_def nth_append MAX_BUF_SIZE_def)
qed

text \<open>
  Of a packet of \<open>sz\<close> bytes \<^verbatim>\<open>rtp_parse\<close> reports \<open>sz\<close> bytes, or one more when the NAL unit
  type is one that it does not handle (25, 26, 27, 29, 30 and 31).
\<close>

theorem rtp_parse_offset:
  assumes "rtp_parse pw now raw sz st s = Inr (off, st', s')"
  shows "off = sz + (if 12 < unat sz \<and> nal_type (raw ! 12) \<in> {25, 26, 27, 29, 30, 31} then 1 else 0)"
proof -
  obtain payload off1 s1 where p: "load_payload raw (sz - 12) = Inr payload"
      "parse_nal pw payload (sz - 12) s = Inr (off1, s1)" "off = off1 + (sz - 12)"
    using assms by (auto simp: rtp_parse_def bind_res_eq_Inr Let_def)
  have "nal_type 0 = 0" by (simp add: nal_type_def)
  then show ?thesis
    using parse_nal_offset [OF p(2)] load_payload_first [OF p(1)] p(3) by auto
qed

theorem rtp_parse_offset_witness:
  "\<exists>st' s'. rtp_parse (\<lambda>k n. n) sample_time (replicate 12 0 @ [0x65, 1]) 14 rtp_stats_reset sample_streamer =
     Inr (14, st', s')"
proof -
  obtain off st' s' where r: "rtp_parse (\<lambda>k n. n) sample_time (replicate 12 0 @ [0x65, 1] @ []) (of_nat (12 + length [0x65 :: byte, 1]))
      rtp_stats_reset sample_streamer = Inr (off, st', s')"
    using rtp_parse_run [of "replicate 12 0" "[0x65, 1]" rtp_stats_reset "\<lambda>k n. n" sample_time "[]" sample_streamer]
      parse_nal_single [of "\<lambda>k n. n" "[0x65, 1]" 2 sample_streamer]
    by (auto simp: pipe_accepts_def nal_type_def MAX_BUF_SIZE_def)
  then have r2: "rtp_parse (\<lambda>k n. n) sample_time (replicate 12 0 @ [0x65, 1]) 14 rtp_stats_reset sample_streamer =
      Inr (off, st', s')" by simp
  with rtp_parse_offset [OF r2] show ?thesis by (simp add: nth_append nal_type_def)
qed

lemma next_jitter_zero: "next_jitter 0 0 = 0"
  by (simp add: next_jitter_def)

text \<open>As long as no report has set \<^verbatim>\<open>delay_snc_last_SR\<close>.\<close>

definition no_delay :: "rtp_stats \<Rightarrow> bool" where
  "no_delay st \<longleftrightarrow> delay_snc_last_SR st = 0 \<and> transit st = 0 \<and> jitter st = 0"

lemma rtp_stats_update_step:
  assumes "no_delay st"
  shows "\<exists>st'. rtp_stats_update now h st = Inr st' \<and> no_delay st' \<and>
    rtp_received st' = rtp_received st + 1 \<and> highest_seq st' = max (highest_seq st) (rh_seq h) \<and>
    (if tv_sec (last_rcv_time st) = 0 then first_seq st' = rh_seq h \<and> last_rcv_time st' = now
     else first_seq st' = first_seq st \<and> last_rcv_time st' = last_rcv_time st)"
  using assms by (auto simp: rtp_stats_update_def no_delay_def next_jitter_zero max_def Let_def)

lemma rtp_stats_update_fold:
  assumes "no_delay st" "tv_sec (last_rcv_time st) \<noteq> 0"
  shows "\<exists>st'. fold_res (\<lambda>st (now, h). rtp_stats_update now h st) st xs = Inr st' \<and> no_delay st' \<and>
    rtp_received st' = rtp_received st + of_nat (length xs) \<and> first_seq st' = first_seq st \<and>
    highest_seq st' = Max (insert (highest_seq st) (rh_seq ` snd ` set xs))"
  using assms
proof (induction xs arbitrary: st)
  case (Cons x xs)
  obtain now h where x: "x = (now, h)" by (cases x)
  obtain st1 where st1: "rtp_stats_update now h st = Inr st1" "no_delay st1"
      "rtp_received st1 = rtp_received st + 1" "highest_seq st1 = max (highest_seq st) (rh_seq h)"
      "first_seq st1 = first_seq st" "last_rcv_time st1 = last_rcv_time st"
    using rtp_stats_update_step [OF Cons.prems(1), of now h] Cons.prems(2) by auto
  have "Max (insert (max (highest_seq st) (rh_seq h)) A) = Max (insert (highest_seq st) (insert (rh_seq h) A))"
    if "finite A" for A
    using that by (cases "A = {}") (auto simp: max.assoc)
  then show ?case
    using Cons.IH [OF st1(2)] Cons.prems(2) st1 by (auto simp: x add.assoc)
qed simp

text \<open>
  C31: After the headers of any sequence of packets the statistics hold the number of packets
  (modulo \<open>2 ^ 16\<close>), the highest sequence number, which does not follow the sequence numbers
  when they wrap around, and the sequence number of the first packet; the jitter stays zero.
\<close>

theorem rtp_stats_update_counts:
  assumes "tv_sec now \<noteq> 0"
  shows "\<exists>st. fold_res (\<lambda>st (now, h). rtp_stats_update now h st) rtp_stats_reset ((now, h) # xs) = Inr st \<and>
    rtp_received st = of_nat (length ((now, h) # xs)) \<and>
    highest_seq st = Max (rh_seq ` snd ` set ((now, h) # xs)) \<and>
    first_seq st = rh_seq h \<and> jitter st = 0"
proof -
  have "no_delay rtp_stats_reset" by (simp add: no_delay_def rtp_stats_reset_def)
  then obtain st1 where st1: "rtp_stats_update now h rtp_stats_reset = Inr st1" "no_delay st1"
      "rtp_received st1 = 1" "highest_seq st1 = rh_seq h" "first_seq st1 = rh_seq h"
      "last_rcv_time st1 = now"
    using rtp_stats_update_step [of rtp_stats_reset now h]
    by (auto simp: rtp_stats_reset_def max_def)
  then show ?thesis
    using rtp_stats_update_fold [OF st1(2), of xs] assms by (auto simp: no_delay_def)
qed

theorem rtp_stats_update_counts_witness:
  "\<exists>st. fold_res (\<lambda>st (now, h). rtp_stats_update now h st) rtp_stats_reset
      [(\<lparr>tv_sec = 7, tv_usec = 0\<rparr>, header_of (replicate 12 1)),
       (\<lparr>tv_sec = 8, tv_usec = 0\<rparr>, header_of (replicate 12 2))] = Inr st \<and>
    rtp_received st = 2 \<and> highest_seq st = 0x202 \<and> first_seq st = 0x101"
  using rtp_stats_update_counts [of "\<lparr>tv_sec = 7, tv_usec = 0\<rparr>" "header_of (replicate 12 1)"
      "[(\<lparr>tv_sec = 8, tv_usec = 0\<rparr>, header_of (replicate 12 2))]"]
  by (auto simp: header_of_def of_be16_def push_bit_eq_mult)

end
