(* ===== verification/Rtcp.thy ===== *)
theory Rtcp
  imports RtpRecv
begin

text \<open>
  \<^verbatim>\<open>h264dec/rtcp.c\<close> and the report sender of \<^verbatim>\<open>h264dec/rtsp.c\<close>: decoding of the RTCP packets
  that the server interleaves with the stream, and the receiver reports that the client sends.

  \<^verbatim>\<open>rtcp_decode\<close> works on the bytes from \<^verbatim>\<open>payload\<close> to the end of the array; the array of 16
  packets comes from \<^verbatim>\<open>malloc\<close>, so its contents are a parameter.  The delay since the last
  report is computed in \<^verbatim>\<open>double\<close> and rounded as theory Double says.
  \<^verbatim>\<open>rtcp_worker\<close> starts a thread that returns at once, and \<^verbatim>\<open>compute_rtt\<close> is not called.
\<close>

section \<open>Decoding\<close>

record rtcp_pkg =
  pk_version :: byte
  pk_padding :: byte
  pk_extension :: byte
  pk_ccrc :: byte
  pk_type :: byte
  pk_length :: u16
  pk_ssrc :: u32
  pk_ts_msw :: u32
  pk_ts_lsw :: u32
  pk_ts_rtp :: u32
  pk_sd_pk_c :: u32
  pk_sd_oc_c :: u32
  pk_identifier :: u32
  pk_sdes_type :: byte
  pk_sdes_length :: byte
  pk_sdes_text :: u16
  pk_sdes_type2 :: byte

definition RTCP_SR :: byte where "RTCP_SR = 200"
definition RTCP_RR :: byte where "RTCP_RR = 201"
definition RTCP_SDES :: byte where "RTCP_SDES = 202"
definition RTCP_SSRC :: u32 where "RTCP_SSRC = 0x0c143e07"

definition rd32 :: "byte list \<Rightarrow> nat \<Rightarrow> u32 res" where
  "rd32 m k =
     bind_res (rd m (k + 3)) (\<lambda>d. bind_res (rd m (k + 2)) (\<lambda>c.
     bind_res (rd m (k + 1)) (\<lambda>b. bind_res (rd m k) (\<lambda>a. Inr (of_be32 a b c d)))))"

text \<open>The four bytes at \<^verbatim>\<open>i\<close>; the index moves on to the last of them.\<close>

definition rtcp_common :: "byte list \<Rightarrow> nat \<Rightarrow> rtcp_pkg \<Rightarrow> rtcp_pkg res" where
  "rtcp_common payload i p =
     bind_res (rd payload i) (\<lambda>b0.
     bind_res (rd payload (i + 1)) (\<lambda>b1.
     bind_res (rd payload (i + 2)) (\<lambda>b2.
     bind_res (rd payload (i + 3)) (\<lambda>b3.
     Inr (p\<lparr>pk_version := drop_bit 6 b0, pk_padding := drop_bit 5 (b0 AND 0x20),
            pk_extension := drop_bit 4 (b0 AND 0x10), pk_ccrc := b0 AND 0xF,
            pk_type := b1, pk_length := ucast b2 * 256 + ucast b3\<rparr>)))))"

text \<open>The sender count is stored in \<^verbatim>\<open>sd_pk_c\<close> twice, \<^verbatim>\<open>sd_oc_c\<close> is never assigned.\<close>

definition rtcp_sender_report :: "byte list \<Rightarrow> nat \<Rightarrow> rtcp_pkg \<Rightarrow> (nat \<times> rtcp_pkg) res" where
  "rtcp_sender_report payload i p =
     bind_res (rd32 payload (i + 1)) (\<lambda>ssrc.
     bind_res (rd32 payload (i + 5)) (\<lambda>msw.
     bind_res (rd32 payload (i + 9)) (\<lambda>lsw.
     bind_res (rd32 payload (i + 13)) (\<lambda>ts.
     bind_res (rd32 payload (i + 17)) (\<lambda>c1.
     bind_res (rd32 payload (i + 21)) (\<lambda>c2.
     let p = p\<lparr>pk_ssrc := ssrc, pk_ts_msw := msw, pk_ts_lsw := lsw, pk_ts_rtp := ts\<rparr>;
         p = p\<lparr>pk_sd_pk_c := c1\<rparr>;
         p = p\<lparr>pk_sd_pk_c := c2\<rparr>
     in Inr (i + 24, p)))))))"

definition rtcp_source_desc :: "byte list \<Rightarrow> nat \<Rightarrow> rtcp_pkg \<Rightarrow> (nat \<times> rtcp_pkg) res" where
  "rtcp_source_desc payload i p =
     bind_res (rd32 payload (i + 1)) (\<lambda>ident.
     let i = i + 5 in
     bind_res (rd payload i) (\<lambda>t.
     let i = i + 1 in
     bind_res (rd payload i) (\<lambda>l.
     let i = i + unat l + 1 in
     bind_res (rd payload i) (\<lambda>t2.
     Inr (i + 1, p\<lparr>pk_identifier := ident, pk_sdes_type := t, pk_sdes_length := l,
                   pk_sdes_type2 := t2\<rparr>)))))"

definition last_sr :: "u32 \<Rightarrow> u32 \<Rightarrow> u32" where
  "last_sr msw lsw = push_bit 16 (msw AND 0xFFFF) OR drop_bit 16 lsw"

text \<open>
  One turn of the loop.  The \<^verbatim>\<open>else\<close> that discards the packet belongs to \<^verbatim>\<open>if (debug_rtcp)\<close>,
  so without debugging the length is added for every packet, and with debugging for none.
\<close>

definition rtcp_decode_one ::
  "bool \<Rightarrow> timeval \<Rightarrow> byte list \<Rightarrow> nat \<Rightarrow> rtcp_pkg \<Rightarrow> rtp_stats \<Rightarrow>
   (nat \<times> rtcp_pkg \<times> rtp_stats) res" where
  "rtcp_decode_one debug_rtcp now payload start p st =
     bind_res (rtcp_common payload start p) (\<lambda>p.
     let i = start + 3 in
     bind_res
       (if pk_type p = RTCP_SR then
          bind_res (rtcp_sender_report payload i p) (\<lambda>(i, p).
          Inr (i, p, st\<lparr>last_rcv_SR_ts := last_sr (pk_ts_msw p) (pk_ts_lsw p),
                        last_rcv_SR_time := now, rtp_identifier := pk_ssrc p\<rparr>))
        else if pk_type p = RTCP_SDES then
          bind_res (rtcp_source_desc payload i p) (\<lambda>(i, p). Inr (i, p, st))
        else Inr (i, p, st)) (\<lambda>(i, p, st).
     if debug_rtcp then
       (if (i - start) div 4 \<noteq> unat (pk_length p) then Inl Exited else Inr (i + 1, p, st))
     else Inr (i + unat (pk_length p) + 1, p, st)))"

lemma rtcp_sender_report_pos: "rtcp_sender_report m i p = Inr (j, q) \<Longrightarrow> j = i + 24"
  by (simp add: rtcp_sender_report_def bind_res_eq_Inr Let_def) blast

lemma rtcp_source_desc_pos: "rtcp_source_desc m i p = Inr (j, q) \<Longrightarrow> i < j"
  by (auto simp add: rtcp_source_desc_def bind_res_eq_Inr Let_def)

lemma rtcp_decode_one_later:
  assumes "rtcp_decode_one dbg now payload i p st = Inr (j, q)"
  shows "i < j"
proof -
  obtain p1 k p2 st2 where p1: "rtcp_common payload i p = Inr p1"
    and k: "(if pk_type p1 = RTCP_SR then
          bind_res (rtcp_sender_report payload (i + 3) p1) (\<lambda>(i, p).
          Inr (i, p, st\<lparr>last_rcv_SR_ts := last_sr (pk_ts_msw p) (pk_ts_lsw p),
                        last_rcv_SR_time := now, rtp_identifier := pk_ssrc p\<rparr>))
        else if pk_type p1 = RTCP_SDES then
          bind_res (rtcp_source_desc payload (i + 3) p1) (\<lambda>(i, p). Inr (i, p, st))
        else Inr (i + 3, p1, st)) = Inr (k, p2, st2)"
    and j: "k < j"
    using assms unfolding rtcp_decode_one_def Let_def bind_res_eq_Inr
    by (fastforce split: if_splits prod.splits)
  have "i < k"
    using k by (auto simp: bind_res_eq_Inr dest: rtcp_sender_report_pos rtcp_source_desc_pos
        split: if_splits)
  with j show ?thesis by simp
qed

function rtcp_decode_loop ::
  "bool \<Rightarrow> timeval \<Rightarrow> byte list \<Rightarrow> nat \<Rightarrow> nat \<Rightarrow> nat \<Rightarrow> rtcp_pkg list \<Rightarrow> rtp_stats \<Rightarrow>
   (nat \<times> rtcp_pkg list \<times> rtp_stats) res" where
  "rtcp_decode_loop debug_rtcp now payload len i idx pk st =
     (if i < len then
        (if 16 \<le> idx then Inl Write_Overflow
         else
           (case rtcp_decode_one debug_rtcp now payload i (pk ! idx) st of
              Inl e \<Rightarrow> Inl e
            | Inr (j, p, st) \<Rightarrow>
                rtcp_decode_loop debug_rtcp now payload len j (idx + 1) (pk[idx := p]) st))
      else Inr (idx, pk, st))"
  by pat_completeness auto
termination
  by (relation "measure (\<lambda>(debug_rtcp, now, payload, len, i, idx, pk, st). len - i)")
     (auto dest: rtcp_decode_one_later)

declare rtcp_decode_loop.simps [simp del]

text \<open>\<^verbatim>\<open>pk0\<close> is what \<^verbatim>\<open>malloc\<close> returns; the result is the count, the packets and the statistics.\<close>

definition rtcp_decode ::
  "bool \<Rightarrow> timeval \<Rightarrow> rtcp_pkg list \<Rightarrow> byte list \<Rightarrow> nat \<Rightarrow> rtp_stats \<Rightarrow>
   (nat \<times> rtcp_pkg list \<times> rtp_stats) res" where
  "rtcp_decode debug_rtcp now pk0 payload len st =
     rtcp_decode_loop debug_rtcp now payload len 0 0 pk0 st"

section \<open>Reports\<close>

text \<open>The local variable \<^verbatim>\<open>delay\<close> of \<^verbatim>\<open>rtcp_dlsr\<close>, in units of 1/65536 seconds.\<close>

definition sr_delay :: "timeval \<Rightarrow> timeval \<Rightarrow> double" where
  "sr_delay now sr =
     fl (fl (fl (of_int (tv_sec now - tv_sec sr)) + fl (fl (of_int (tv_usec now - tv_usec sr)) * lit_1e_6))
       * 65536)"

definition rtcp_dlsr :: "timeval \<Rightarrow> rtp_stats \<Rightarrow> (u32 \<times> rtp_stats) res" where
  "rtcp_dlsr now st =
     (if last_rcv_SR_ts st = 0 then Inr (0, st)
      else
        bind_res (to_u32 (sr_delay now (last_rcv_SR_time st))) (\<lambda>d.
        Inr (d, st\<lparr>delay_snc_last_SR := d\<rparr>)))"

text \<open>
  \<^verbatim>\<open>compute_rtt\<close> stores the fraction in a local variable that hides the field of the statistics,
  and then divides the field, which is 0.
\<close>

definition compute_rtt :: "timeval \<Rightarrow> rtp_stats \<Rightarrow> rtp_stats res" where
  "compute_rtt now st =
     bind_res (rtp_timeval_to_ntp now) (\<lambda>curntp.
       let approx_ntp = ucast (drop_bit 16 curntp AND 0xFFFFFFFF) :: u32;
           last_sr_time = last_rcv_SR_ts st; sr_delay = delay_snc_last_SR st
       in if last_sr_time \<noteq> 0 \<and> sr_delay \<noteq> 0
          then let frac = fl (of_int (uint (approx_ntp - last_sr_time - sr_delay)))
               in Inr (st\<lparr>rtt_frac := fl (rtt_frac st / 65536)\<rparr>)
          else Inr st)"

definition rtcp_jitter :: "rtp_stats \<Rightarrow> u32" where "rtcp_jitter st = jitter st"

definition rtcp_receiver_report_zero :: "byte list \<Rightarrow> byte list" where
  "rtcp_receiver_report_zero out =
     net_send32 RTCP_SSRC (net_send16 1 (net_send8 RTCP_RR (net_send8 0x80 out)))"

text \<open>The fraction of lost packets is computed and not sent.\<close>

definition rtcp_losses :: "rtp_stats \<Rightarrow> rtp_stats" where
  "rtcp_losses st =
     (let extended_max = ucast (rtp_received st) + ucast (highest_seq st) :: u32;
          expected = extended_max - ucast (first_seq st) + 1;
          st = st\<lparr>rtp_cum_lost := expected - ucast (rtp_received st) - 1\<rparr>;
          expected_interval = expected - rtp_expected_prior st;
          st = st\<lparr>rtp_expected_prior := expected\<rparr>;
          received_interval = ucast (rtp_received st) - rtp_received_prior st;
          st = st\<lparr>rtp_received_prior := ucast (rtp_received st)\<rparr>
      in st)"

definition rtcp_receiver_report ::
  "timeval \<Rightarrow> rtp_stats \<Rightarrow> byte list \<Rightarrow> (rtp_stats \<times> byte list) res" where
  "rtcp_receiver_report now st out =
     (let out = net_send8 0x81 out;
          out = net_send8 RTCP_RR out;
          out = net_send16 7 out;
          out = net_send32 RTCP_SSRC out;
          out = net_send32 (rtp_identifier st) out;
          st = rtcp_losses st;
          out = net_send32 0 out;
          out = net_send16 1 out;
          out = net_send16 (highest_seq st) out;
          out = net_send32 (rtcp_jitter st) out;
          out = net_send32 (last_rcv_SR_ts st) out
      in bind_res (rtcp_dlsr now st) (\<lambda>(dlsr, st).
         Inr (st, net_send32 dlsr out)))"

definition rtcp_receiver_desc :: "byte list \<Rightarrow> byte list" where
  "rtcp_receiver_desc out =
     (let out = net_send8 0x81 out;
          out = net_send8 RTCP_SDES out;
          out = net_send16 4 out;
          out = net_send32 RTCP_SSRC out;
          out = net_send8 1 out;
          out = net_send8 6 out;
          out = out @ map of_char ''monkey''
      in net_send8 0 out)"

definition rtsp_header :: "byte \<Rightarrow> u16 \<Rightarrow> byte list \<Rightarrow> byte list" where
  "rtsp_header channel len out = net_send16 len (net_send8 channel (net_send8 0x24 out))"

definition rtsp_rtcp_reports ::
  "timeval \<Rightarrow> rtp_stats \<Rightarrow> byte list \<Rightarrow> (rtp_stats \<times> byte list) res" where
  "rtsp_rtcp_reports now st out =
     (let out = rtsp_header 1 74 out in
      bind_res (rtcp_receiver_report now st out) (\<lambda>(st, out).
      Inr (st, rtcp_receiver_desc out)))"

section \<open>Reading a packet\<close>

lemma rd32_be32:
  assumes "length pre = k"
  shows "rd32 (pre @ be32 x @ post) k = Inr x"
  using assms by (simp add: rd32_def be32_def be16_def nth_append)

text \<open>A sender report without report blocks.\<close>

definition sr_bytes :: "u32 \<Rightarrow> u32 \<Rightarrow> u32 \<Rightarrow> u32 \<Rightarrow> u32 \<Rightarrow> u32 \<Rightarrow> byte list" where
  "sr_bytes ssrc msw lsw ts packets octets =
     [0x80, 200, 0, 6] @ be32 ssrc @ be32 msw @ be32 lsw @ be32 ts @ be32 packets @ be32 octets"

lemma length_sr_bytes [simp]: "length (sr_bytes ssrc msw lsw ts pc oc) = 28"
  by (simp add: sr_bytes_def)

definition sr_pkg :: "u32 \<Rightarrow> u32 \<Rightarrow> u32 \<Rightarrow> u32 \<Rightarrow> u32 \<Rightarrow> rtcp_pkg \<Rightarrow> rtcp_pkg" where
  "sr_pkg ssrc msw lsw ts oc p =
     p\<lparr>pk_version := 2, pk_padding := 0, pk_extension := 0, pk_ccrc := 0, pk_type := 200,
       pk_length := 6, pk_ssrc := ssrc, pk_ts_msw := msw, pk_ts_lsw := lsw, pk_ts_rtp := ts,
       pk_sd_pk_c := oc\<rparr>"

definition sr_stats :: "timeval \<Rightarrow> u32 \<Rightarrow> u32 \<Rightarrow> u32 \<Rightarrow> rtp_stats \<Rightarrow> rtp_stats" where
  "sr_stats now ssrc msw lsw st =
     st\<lparr>last_rcv_SR_ts := last_sr msw lsw, last_rcv_SR_time := now, rtp_identifier := ssrc\<rparr>"

lemma rtcp_common_sr:
  "rtcp_common (sr_bytes ssrc msw lsw ts pc oc @ rest) 0 p = Inr
     (p\<lparr>pk_version := 2, pk_padding := 0, pk_extension := 0, pk_ccrc := 0, pk_type := 200,
        pk_length := 6\<rparr>)"
proof -
  have "rd (sr_bytes ssrc msw lsw ts pc oc @ rest) i = Inr ([0x80, 200, 0, 6] ! i)" if "i < 4" for i
    unfolding sr_bytes_def append_assoc by (rule rd_append1) (use that in simp)
  from this [of 0] this [of 1] this [of 2] this [of 2, unfolded numeral_2_eq_2] this [of 3] show ?thesis
    by (simp add: rtcp_common_def drop_bit_numeral_bit1 drop_bit_eq_div)
qed

lemma rtcp_sender_report_sr:
  "rtcp_sender_report (sr_bytes ssrc msw lsw ts pc oc @ rest) 3 p =
     Inr (27, p\<lparr>pk_ssrc := ssrc, pk_ts_msw := msw, pk_ts_lsw := lsw, pk_ts_rtp := ts, pk_sd_pk_c := oc\<rparr>)"
proof -
  let ?m = "sr_bytes ssrc msw lsw ts pc oc @ rest" and ?h = "[0x80, 200, 0, 6] :: byte list"
  have "rd32 ?m 4 = Inr ssrc" "rd32 ?m 8 = Inr msw" "rd32 ?m 12 = Inr lsw" "rd32 ?m 16 = Inr ts"
    "rd32 ?m 20 = Inr pc" "rd32 ?m 24 = Inr oc"
    using rd32_be32 [of ?h 4 ssrc] rd32_be32 [of "?h @ be32 ssrc" 8 msw]
      rd32_be32 [of "?h @ be32 ssrc @ be32 msw" 12 lsw]
      rd32_be32 [of "?h @ be32 ssrc @ be32 msw @ be32 lsw" 16 ts]
      rd32_be32 [of "?h @ be32 ssrc @ be32 msw @ be32 lsw @ be32 ts" 20 pc]
      rd32_be32 [of "?h @ be32 ssrc @ be32 msw @ be32 lsw @ be32 ts @ be32 pc" 24 oc]
    by (simp_all add: sr_bytes_def)
  then show ?thesis by (simp add: rtcp_sender_report_def Let_def)
qed

lemma rtcp_decode_one_sr:
  "rtcp_decode_one dbg now (sr_bytes ssrc msw lsw ts pc oc @ rest) 0 p st =
     Inr (if dbg then 28 else 34, sr_pkg ssrc msw lsw ts oc p, sr_stats now ssrc msw lsw st)"
  by (simp add: rtcp_decode_one_def rtcp_common_sr rtcp_sender_report_sr RTCP_SR_def sr_pkg_def
      sr_stats_def)

text \<open>The packets that have been decoded are not touched again.\<close>

lemma rtcp_decode_loop_step:
  assumes "rtcp_decode_loop dbg now m len i idx pk st = Inr r" "i < len"
  obtains j p st1 where "idx < 16" "rtcp_decode_one dbg now m i (pk ! idx) st = Inr (j, p, st1)"
    "rtcp_decode_loop dbg now m len j (idx + 1) (pk[idx := p]) st1 = Inr r"
  using assms by (subst (asm) rtcp_decode_loop.simps) (auto split: if_splits sum.splits)

lemma rtcp_decode_loop_prefix:
  "rtcp_decode_loop dbg now m len i idx pk st = Inr (n, pk', st') \<Longrightarrow>
   idx \<le> n \<and> take idx pk' = take idx pk"
proof (induction dbg now m len i idx pk st rule: rtcp_decode_loop.induct)
  case (1 dbg now m len i idx pk st)
  show ?case
  proof (cases "i < len")
    case True
    from rtcp_decode_loop_step [OF "1.prems" True] obtain j p st1 where one: "\<not> 16 \<le> idx"
        "rtcp_decode_one dbg now m i (pk ! idx) st = Inr (j, p, st1)"
        "rtcp_decode_loop dbg now m len j (idx + 1) (pk[idx := p]) st1 = Inr (n, pk', st')"
      by (metis not_le)
    from "1.IH" [OF True one(1,2) refl refl one(3)]
    have "take (idx + 1) pk' = take (idx + 1) (pk[idx := p])" "idx + 1 \<le> n" by auto
    from arg_cong [OF this(1), of "take idx"] this(2) show ?thesis by (simp add: min_def)
  next
    case False
    with "1.prems" show ?thesis by (subst (asm) rtcp_decode_loop.simps) simp
  qed
qed

lemma rtcp_sender_report_keeps:
  "rtcp_sender_report m i p = Inr (j, q) \<Longrightarrow> pk_type q = pk_type p \<and> pk_version q = pk_version p"
  by (simp add: rtcp_sender_report_def bind_res_eq_Inr Let_def) force

lemma rtcp_source_desc_keeps:
  "rtcp_source_desc m i p = Inr (j, q) \<Longrightarrow> pk_type q = pk_type p \<and> pk_version q = pk_version p"
  by (simp add: rtcp_source_desc_def bind_res_eq_Inr Let_def) force

lemma rtcp_decode_one_header:
  assumes "rtcp_decode_one dbg now m i p st = Inr (j, q, st')"
  shows "i + 1 < length m \<and> pk_type q = m ! (i + 1) \<and> pk_version q = drop_bit 6 (m ! i)"
proof -
  obtain p1 where p1: "rtcp_common m i p = Inr p1"
    using assms by (auto simp: rtcp_decode_one_def bind_res_eq_Inr)
  then have "i + 1 < length m \<and> pk_type p1 = m ! (i + 1) \<and> pk_version p1 = drop_bit 6 (m ! i)"
    by (auto simp: rtcp_common_def bind_res_eq_Inr rd_eq_Inr)
  moreover have "pk_type q = pk_type p1 \<and> pk_version q = pk_version p1"
    using assms unfolding rtcp_decode_one_def p1 Let_def
    by (auto simp: bind_res_eq_Inr split: if_splits dest: rtcp_sender_report_keeps rtcp_source_desc_keeps)
  ultimately show ?thesis by simp
qed

text \<open>The time of the last sender report: the middle 32 bits of its 64-bit NTP time.\<close>

lemma last_sr_middle:
  "last_sr msw lsw = ucast (drop_bit 16 (push_bit 32 (ucast msw) OR ucast lsw :: u64))"
proof -
  have mask: "(0xFFFF :: u32) = mask 16" by (simp add: mask_eq_exp_minus_1)
  have "last_sr msw lsw = push_bit 16 (take_bit 16 msw) OR drop_bit 16 lsw"
    by (simp only: last_sr_def mask take_bit_eq_mask)
  then show ?thesis
    by (simp only:) (rule bit_word_eqI,
      auto simp: bit_or_iff bit_push_bit_iff bit_ucast_iff bit_drop_bit_eq bit_take_bit_iff
        dest: bit_imp_le_length)
qed

text \<open>Packets of four bytes, of a type that is not decoded.\<close>

lemma rtcp_decode_one_bye:
  assumes "length pre = i"
  shows "\<exists>p. rtcp_decode_one dbg now (pre @ [0x80, 203, 0, 0] @ post) i q st = Inr (i + 4, p, st)"
proof -
  have "\<exists>p. rtcp_common (pre @ [0x80, 203, 0, 0] @ post) i q = Inr p \<and> pk_type p = 203 \<and> pk_length p = 0"
    using assms by (simp add: rtcp_common_def nth_append)
  then obtain p where "rtcp_common (pre @ [0x80, 203, 0, 0] @ post) i q = Inr p" "pk_type p = 203"
      "pk_length p = 0" by blast
  then show ?thesis
    by (simp add: rtcp_decode_one_def RTCP_SR_def RTCP_SDES_def Let_def)
qed

lemma rtcp_decode_loop_bye:
  assumes "idx + k = n"
  shows "(n \<le> 16 \<longrightarrow> (\<exists>pk'. rtcp_decode_loop dbg now (concat (replicate n [0x80, 203, 0, 0]))
       (4 * n) (4 * idx) idx pk st = Inr (n, pk', st))) \<and>
     (16 < n \<and> idx \<le> 16 \<longrightarrow> rtcp_decode_loop dbg now (concat (replicate n [0x80, 203, 0, 0]))
       (4 * n) (4 * idx) idx pk st = Inl Write_Overflow)"
  using assms
proof (induction k arbitrary: idx pk)
  case 0
  then show ?case by (simp add: rtcp_decode_loop.simps)
next
  case (Suc k)
  let ?m = "concat (replicate n [0x80, 203, 0, 0]) :: byte list"
  have "n = idx + Suc k" using Suc.prems by simp
  then have m: "?m = concat (replicate idx [0x80, 203, 0, 0]) @ [0x80, 203, 0, 0] @
      concat (replicate k [0x80, 203, 0, 0])"
    by (simp only: replicate_add concat_append replicate_Suc concat.simps)
  have "length (concat (replicate idx [0x80 :: byte, 203, 0, 0])) = 4 * idx"
    by (induction idx) auto
  then obtain p where "rtcp_decode_one dbg now ?m (4 * idx) (pk ! idx) st = Inr (4 * idx + 4, p, st)"
    unfolding m using rtcp_decode_one_bye by blast
  then have "rtcp_decode_loop dbg now ?m (4 * n) (4 * idx) idx pk st =
      (if 16 \<le> idx then Inl Write_Overflow
       else rtcp_decode_loop dbg now ?m (4 * n) (4 * (idx + 1)) (idx + 1) (pk[idx := p]) st)"
    using Suc.prems by (subst rtcp_decode_loop.simps) (simp add: add.commute [of 4])
  then show ?case
    using Suc.IH [of "idx + 1" "pk[idx := p]"] Suc.prems by auto
qed

section \<open>Properties\<close>

text \<open>
  A sender report sent alone is decoded field by field, except that the octet count
  replaces the packet count; the statistics keep the middle 32 bits of its NTP time, the time
  of its arrival and its source.
\<close>

theorem rtcp_decode_sender_report:
  assumes "pk0 \<noteq> []"
  shows "\<exists>p st'. rtcp_decode False now pk0 (sr_bytes ssrc msw lsw ts packets octets @ rest) 28 st =
      Inr (1, pk0[0 := p], st') \<and>
    pk_type p = RTCP_SR \<and> pk_version p = 2 \<and> pk_length p = 6 \<and> pk_ssrc p = ssrc \<and>
    pk_ts_msw p = msw \<and> pk_ts_lsw p = lsw \<and> pk_ts_rtp p = ts \<and>
    pk_sd_pk_c p = octets \<and> pk_sd_oc_c p = pk_sd_oc_c (pk0 ! 0) \<and>
    last_rcv_SR_ts st' = ucast (drop_bit 16 (push_bit 32 (ucast msw) OR ucast lsw :: u64)) \<and>
    last_rcv_SR_time st' = now \<and> rtp_identifier st' = ssrc"
proof -
  have "rtcp_decode False now pk0 (sr_bytes ssrc msw lsw ts packets octets @ rest) 28 st =
      Inr (1, pk0[0 := sr_pkg ssrc msw lsw ts octets (pk0 ! 0)], sr_stats now ssrc msw lsw st)"
    unfolding rtcp_decode_def
    by (subst rtcp_decode_loop.simps) (simp add: rtcp_decode_one_sr rtcp_decode_loop.simps)
  then show ?thesis
    by (intro exI conjI) (assumption | simp add: sr_pkg_def sr_stats_def last_sr_middle RTCP_SR_def)+
qed

definition blank_pkg :: rtcp_pkg where
  "blank_pkg =
     \<lparr>pk_version = 0, pk_padding = 0, pk_extension = 0, pk_ccrc = 0, pk_type = 0, pk_length = 0,
      pk_ssrc = 0, pk_ts_msw = 0, pk_ts_lsw = 0, pk_ts_rtp = 0, pk_sd_pk_c = 0, pk_sd_oc_c = 0,
      pk_identifier = 0, pk_sdes_type = 0, pk_sdes_length = 0, pk_sdes_text = 0, pk_sdes_type2 = 0\<rparr>"

theorem rtcp_decode_sender_report_witness:
  "\<exists>p st'. rtcp_decode False sample_time (replicate 16 blank_pkg) (sr_bytes 7 0x83AA7E80 0x80000000 5 6 9) 28
      rtp_stats_reset = Inr (1, (replicate 16 blank_pkg)[0 := p], st') \<and>
    pk_ssrc p = 7 \<and> pk_sd_pk_c p = 9 \<and> last_rcv_SR_ts st' = 0x7E808000"
  using rtcp_decode_sender_report [of "replicate 16 blank_pkg" sample_time 7 "0x83AA7E80" "0x80000000" 5 6 9
      "[]" rtp_stats_reset]
  by (auto simp: push_bit_eq_mult drop_bit_eq_div)

text \<open>
  In a compound packet that begins with a sender report the second packet is read six bytes
  too late: its type is taken from byte 35 of the payload and not from byte 29.
\<close>

theorem rtcp_decode_compound_misread:
  assumes "rtcp_decode False now pk0 (sr_bytes ssrc msw lsw ts packets octets @ second) len st =
      Inr (n, pk, st')" "34 < len" "length pk0 = 16"
  shows "2 \<le> n \<and> 7 < length second \<and> pk_type (pk ! 1) = second ! 7 \<and>
    pk_version (pk ! 1) = drop_bit 6 (second ! 6)"
proof -
  let ?m = "sr_bytes ssrc msw lsw ts packets octets @ second"
  let ?pk1 = "pk0[0 := sr_pkg ssrc msw lsw ts octets (pk0 ! 0)]"
  let ?st1 = "sr_stats now ssrc msw lsw st"
  have "rtcp_decode_loop False now ?m len 34 1 ?pk1 ?st1 = Inr (n, pk, st')"
    using assms(1,2) unfolding rtcp_decode_def
    by (subst (asm) rtcp_decode_loop.simps) (simp add: rtcp_decode_one_sr)
  from rtcp_decode_loop_step [OF this assms(2)] obtain j p st2 where
      one: "rtcp_decode_one False now ?m 34 (?pk1 ! 1) ?st1 = Inr (j, p, st2)"
      "rtcp_decode_loop False now ?m len j (1 + 1) (?pk1[1 := p]) st2 = Inr (n, pk, st')" by metis
  have "2 \<le> n" and pk: "take 2 pk = take 2 (?pk1[1 := p])"
    using rtcp_decode_loop_prefix [OF one(2)] by (auto simp: numeral_2_eq_2)
  have "pk ! 1 = p"
    using arg_cong [OF pk, of "\<lambda>xs. xs ! 1"] assms(3) by simp
  moreover have "34 + 1 < length ?m" "pk_type p = ?m ! (34 + 1)" "pk_version p = drop_bit 6 (?m ! 34)"
    using rtcp_decode_one_header [OF one(1)] by auto
  ultimately show ?thesis using \<open>2 \<le> n\<close> by (simp add: nth_append)
qed

theorem rtcp_decode_compound_misread_witness:
  "\<exists>pk st'. rtcp_decode False sample_time (replicate 16 blank_pkg)
      (sr_bytes 7 1 2 3 4 5 @ [0x81, 202, 0, 2, 0, 0, 0, 7, 1, 0, 0, 0]) 40 rtp_stats_reset =
      Inr (2, pk, st') \<and> pk_type (pk ! 1) = 7"
proof -
  let ?m = "sr_bytes 7 1 2 3 4 5 @ [0x81, 202, 0, 2, 0, 0, 0, 7, 1, 0, 0, 0]"
  have "\<exists>q. rtcp_common ?m 34 p = Inr q \<and> pk_type q = 7 \<and> pk_length q = 256" for p
    by (simp add: rtcp_common_def nth_append)
  then have "\<exists>q. rtcp_decode_one False now ?m 34 p st = Inr (294, q, st)" for now p st
    unfolding rtcp_decode_one_def RTCP_SR_def RTCP_SDES_def by (elim meta_allE [of _ p] exE conjE) simp
  then obtain q where "rtcp_decode_one False sample_time ?m 34 blank_pkg
      (sr_stats sample_time 7 1 2 rtp_stats_reset) = Inr (294, q, sr_stats sample_time 7 1 2 rtp_stats_reset)"
    by blast
  then obtain pk st' where r: "rtcp_decode False sample_time (replicate 16 blank_pkg) ?m 40 rtp_stats_reset =
      Inr (2, pk, st')"
    unfolding rtcp_decode_def by (auto simp: rtcp_decode_loop.simps rtcp_decode_one_sr)
  then show ?thesis using rtcp_decode_compound_misread [OF r] by simp
qed

text \<open>
  Of packets without contents up to 16 are decoded; with a 17th the array of packets
  overflows.
\<close>

theorem rtcp_decode_packet_limit:
  "(n \<le> 16 \<longrightarrow> (\<exists>pk. rtcp_decode dbg now pk0 (concat (replicate n [0x80, 203, 0, 0])) (4 * n) st =
      Inr (n, pk, st))) \<and>
   (16 < n \<longrightarrow> rtcp_decode dbg now pk0 (concat (replicate n [0x80, 203, 0, 0])) (4 * n) st =
      Inl Write_Overflow)"
  using rtcp_decode_loop_bye [of 0 n n dbg now pk0 st] by (simp add: rtcp_decode_def)

theorem rtcp_decode_packet_limit_witness:
  "rtcp_decode False sample_time [] (concat (replicate 17 [0x80, 203, 0, 0])) 68 rtp_stats_reset =
     Inl Write_Overflow"
  using rtcp_decode_packet_limit [of 17 False sample_time "[]" rtp_stats_reset] by simp

text \<open>
  The receiver report is a 32-byte RTCP packet with one report block, whose length field is
  right.  The loss fields are zero; the cumulative loss kept in the statistics is the difference
  of the highest and the first sequence number, whatever was received.
\<close>

theorem rtcp_receiver_report_packet:
  assumes "rtcp_receiver_report now st out = Inr (st', out')"
  shows "\<exists>dlsr. out' = out @ [0x81, 201] @ be16 7 @ be32 RTCP_SSRC @ be32 (rtp_identifier st) @
      be32 0 @ be16 1 @ be16 (highest_seq st) @ be32 (jitter st) @ be32 (last_rcv_SR_ts st) @ be32 dlsr \<and>
    length out' = length out + 4 * (7 + 1) \<and>
    (last_rcv_SR_ts st = 0 \<longrightarrow> dlsr = 0) \<and>
    rtp_cum_lost st' = ucast (highest_seq st) - ucast (first_seq st)"
  using assms
  by (auto simp: rtcp_receiver_report_def rtcp_dlsr_def rtcp_losses_def rtcp_jitter_def RTCP_RR_def
      net_send8_def net_send16_def net_send32_def bind_res_eq_Inr Let_def split: if_splits)

theorem rtcp_receiver_report_packet_witness:
  "\<exists>st' d. rtcp_receiver_report sample_time
      (rtp_stats_reset\<lparr>first_seq := 3, highest_seq := 9\<rparr>) [] = Inr (st', d) \<and>
    length d = 32 \<and> rtp_cum_lost st' = 6"
proof -
  obtain st' d where r: "rtcp_receiver_report sample_time
      (rtp_stats_reset\<lparr>first_seq := 3, highest_seq := 9\<rparr>) [] = Inr (st', d)"
    by (auto simp: rtcp_receiver_report_def rtcp_dlsr_def rtcp_losses_def rtp_stats_reset_def Let_def)
  then show ?thesis using rtcp_receiver_report_packet [OF r] by auto
qed

text \<open>
  The reports are announced as an interleaved frame of 74 bytes on channel 1, and 49 bytes
  are sent, so the server takes the next 25 bytes of the connection for a part of them.
\<close>

theorem rtsp_rtcp_reports_length:
  assumes "rtsp_rtcp_reports now st out = Inr (st', out')"
  shows "\<exists>frame. out' = out @ [0x24, 1] @ be16 74 @ frame \<and> length frame = 49"
  using assms
  by (auto simp: rtsp_rtcp_reports_def rtcp_receiver_report_def rtcp_dlsr_def rtcp_losses_def
      rtcp_receiver_desc_def rtsp_header_def
      net_send8_def net_send16_def net_send32_def bind_res_eq_Inr Let_def split: if_splits)

theorem rtsp_rtcp_reports_length_witness:
  "\<exists>st' d. rtsp_rtcp_reports sample_time rtp_stats_reset [] = Inr (st', d) \<and>
    length d = 53 \<and> take 4 d = [0x24, 1, 0, 74]"
proof -
  obtain st' d where r: "rtsp_rtcp_reports sample_time rtp_stats_reset [] = Inr (st', d)"
    by (auto simp: rtsp_rtcp_reports_def rtcp_receiver_report_def rtcp_dlsr_def rtcp_losses_def
        rtp_stats_reset_def Let_def)
  moreover have "be16 74 = [0, 74]" by (simp add: be16_def hi16_def lo16_def)
  ultimately show ?thesis using rtsp_rtcp_reports_length [OF r] by (auto simp: numeral_eq_Suc)
qed

end
