(* ===== verification/Base64.thy ===== *)
theory Base64
  imports Prelude
begin

text \<open>
  \<^verbatim>\<open>h264dec/base64.c\<close>: the decoder for the parameter sets that the SDP of a stream carries.
  The encoder of RFC 1341, which the repository does not have, is stated as the reference:
  decoding what it gives returns the data, with any characters outside the alphabet mixed in,
  and no input whatever makes the decoder leave its buffers.
\<close>

section \<open>The code\<close>

definition base64_table :: "byte list" where
  "base64_table =
     map of_nat ([65..<91] @ [97..<123] @ [48..<58] @ [43, 47])"

text \<open>\<^verbatim>\<open>dtable\<close>: filled with \<^verbatim>\<open>0x80\<close>, then the index of each letter, then \<^verbatim>\<open>'='\<close>.\<close>

definition dtable :: "byte list" where
  "dtable =
     (fold (\<lambda>i t. t[unat (base64_table ! i) := of_nat i]) [0..<64] (replicate 256 0x80))[61 := 0]"

record b64 =
  bcount :: nat
  bin :: "byte list"
  bblock :: "byte list"
  bout :: "byte list"
  bpos :: nat

text \<open>First loop: how many characters belong to the alphabet.\<close>

definition count_step :: "byte list \<Rightarrow> nat \<Rightarrow> nat \<Rightarrow> nat res" where
  "count_step src cnt i =
     bind_res (rd src i) (\<lambda>c. Inr (if dtable ! unat c \<noteq> 0x80 then cnt + 1 else cnt))"

text \<open>Second loop: a character, and three bytes when a block of four is full.\<close>

definition decode_step :: "byte list \<Rightarrow> b64 \<Rightarrow> nat \<Rightarrow> b64 res" where
  "decode_step src s i =
     bind_res (rd src i) (\<lambda>c.
     let tmp = dtable ! unat c in
     if tmp = 0x80 then Inr s
     else
       bind_res (wr (bin s) (bcount s) c) (\<lambda>inb.
       bind_res (wr (bblock s) (bcount s) tmp) (\<lambda>blk.
       let s = s\<lparr>bin := inb, bblock := blk, bcount := bcount s + 1\<rparr> in
       if bcount s = 4 then
         bind_res (wr (bout s) (bpos s) (push_bit 2 (blk ! 0) OR drop_bit 4 (blk ! 1))) (\<lambda>out.
         bind_res (wr out (bpos s + 1) (push_bit 4 (blk ! 1) OR drop_bit 2 (blk ! 2))) (\<lambda>out.
         bind_res (wr out (bpos s + 2) (push_bit 6 (blk ! 2) OR blk ! 3)) (\<lambda>out.
         Inr (s\<lparr>bout := out, bpos := bpos s + 3, bcount := 0\<rparr>))))
       else Inr s)))"

text \<open>
  \<open>mem k\<close> tells whether \<^verbatim>\<open>malloc(k)\<close> succeeds; \<open>in0\<close> and \<open>block0\<close> are the uninitialised
  local arrays.  The result is the buffer with \<^verbatim>\<open>*out_len\<close>, or \<open>None\<close> for \<^verbatim>\<open>NULL\<close>.
\<close>

definition base64_decode ::
  "(nat \<Rightarrow> bool) \<Rightarrow> byte list \<Rightarrow> byte list \<Rightarrow> byte list \<Rightarrow> nat \<Rightarrow> (byte list \<times> nat) option res" where
  "base64_decode mem in0 block0 src len =
     bind_res (fold_res (count_step src) 0 [0..<len]) (\<lambda>cnt.
     if cnt mod 4 \<noteq> 0 then Inr None
     else if \<not> mem cnt then Inr None
     else
       bind_res (fold_res (decode_step src)
           \<lparr>bcount = 0, bin = in0, bblock = block0, bout = replicate cnt 0, bpos = 0\<rparr> [0..<len]) (\<lambda>s.
       let pos =
         (if bpos s > 0 then
            if bin s ! 2 = 61 then bpos s - 2
            else if bin s ! 3 = 61 then bpos s - 1
            else bpos s
          else bpos s)
       in Inr (Some (bout s, pos))))"

section \<open>The reference encoder\<close>

definition sextet :: "nat \<Rightarrow> byte" where
  "sextet i = base64_table ! i"

definition six :: "byte \<Rightarrow> byte \<Rightarrow> byte \<Rightarrow> byte list" where
  "six a b c =
     [drop_bit 2 a, push_bit 4 (a AND 3) OR drop_bit 4 b, push_bit 2 (b AND 0xF) OR drop_bit 6 c,
      c AND 0x3F]"

fun base64_encode :: "byte list \<Rightarrow> byte list" where
  "base64_encode [] = []"
| "base64_encode [a] = map (sextet \<circ> unat) (take 2 (six a 0 0)) @ [61, 61]"
| "base64_encode [a, b] = map (sextet \<circ> unat) (take 3 (six a b 0)) @ [61]"
| "base64_encode (a # b # c # xs) = map (sextet \<circ> unat) (six a b c) @ base64_encode xs"

section \<open>The table\<close>

lemma dtable_table:
  "\<forall>i \<in> set [0..<64]. dtable ! unat (base64_table ! i) = of_nat i \<and> base64_table ! i \<noteq> 61"
  by code_simp

lemma dtable_pad: "dtable ! 61 = 0" "length dtable = 256"
  by code_simp+

lemma dtable_sextet: "i < 64 \<Longrightarrow> dtable ! unat (sextet i) = of_nat i \<and> sextet i \<noteq> 61"
  using dtable_table by (simp add: sextet_def)

section \<open>Indices and characters\<close>

text \<open>The loops over the indices are loops over the characters.\<close>

lemma fold_res_indices:
  "(\<And>s i. i < length xs \<Longrightarrow> f s i = g s (xs ! i)) \<Longrightarrow> fold_res f s [0..<length xs] = fold_res g s xs"
proof (induction xs rule: rev_induct)
  case Nil
  then show ?case by simp
next
  case (snoc x xs)
  have "fold_res f s [0..<length xs] = fold_res g s xs"
    using snoc.prems by (intro snoc.IH) (simp add: nth_append less_SucI)
  moreover have "f s (length xs) = g s x" for s using snoc.prems [of "length xs"] by simp
  ultimately show ?case by (simp add: fold_res_append)
qed

definition in_alphabet :: "byte \<Rightarrow> bool" where
  "in_alphabet c \<longleftrightarrow> dtable ! unat c \<noteq> 0x80"

definition decode_char :: "b64 \<Rightarrow> byte \<Rightarrow> b64 res" where
  "decode_char s c = decode_step [c] s 0"

lemma fold_res_skip:
  "(\<And>s c. \<not> P c \<Longrightarrow> g s c = Inr s) \<Longrightarrow> fold_res g s xs = fold_res g s (filter P xs)"
proof (induction xs arbitrary: s)
  case (Cons x xs)
  then show ?case by (cases "P x") (auto intro: bind_res_cong)
qed simp

lemma count_loop:
  "len \<le> length src \<Longrightarrow>
   fold_res (count_step src) 0 [0..<len] = Inr (length (filter in_alphabet (take len src)))"
proof -
  assume len: "len \<le> length src"
  have "fold_res (count_step src) k [0..<length (take len src)] =
      fold_res (\<lambda>n c. Inr (if in_alphabet c then n + 1 else n)) k (take len src)" for k
    using len by (intro fold_res_indices) (simp add: count_step_def in_alphabet_def)
  moreover have "fold_res (\<lambda>n c. Inr (if in_alphabet c then n + 1 else n)) k xs =
      Inr (k + length (filter in_alphabet xs))" for k xs
    by (induction xs arbitrary: k) auto
  moreover have "length (take len src) = len" using len by simp
  ultimately show ?thesis by (simp del: length_take)
qed

lemma decode_loop:
  assumes "len \<le> length src"
  shows "fold_res (decode_step src) s [0..<len] =
    fold_res decode_char s (filter in_alphabet (take len src))"
proof -
  have "fold_res (decode_step src) s [0..<length (take len src)] = fold_res decode_char s (take len src)"
    using assms by (intro fold_res_indices) (simp add: decode_char_def decode_step_def)
  also have "\<dots> = fold_res decode_char s (filter in_alphabet (take len src))"
    by (rule fold_res_skip) (simp add: decode_char_def decode_step_def in_alphabet_def Let_def)
  finally have "fold_res (decode_step src) s [0..<length (take len src)] =
    fold_res decode_char s (filter in_alphabet (take len src))" .
  moreover have "length (take len src) = len" using assms by simp
  ultimately show ?thesis by (simp del: length_take)
qed

section \<open>One block\<close>

definition b64_ok :: "nat \<Rightarrow> nat \<Rightarrow> b64 \<Rightarrow> bool" where
  "b64_ok cnt n s \<longleftrightarrow> bcount s = n mod 4 \<and> bpos s = 3 * (n div 4) \<and> length (bin s) = 4 \<and>
     length (bblock s) = 4 \<and> length (bout s) = cnt"

lemma decode_char_ok:
  assumes "b64_ok cnt n s" "n < cnt" "in_alphabet c"
  shows "\<exists>s'. decode_char s c = Inr s' \<and> b64_ok cnt (n + 1) s'"
proof -
  have d: "n = 4 * (n div 4) + n mod 4" by simp
  show ?thesis
  proof (cases "n mod 4 = 3")
    case True
    then have q: "(n + 1) mod 4 = 0" "(n + 1) div 4 = n div 4 + 1" "3 * (n div 4) + 2 < cnt"
      using d assms(2) by presburger+
    then show ?thesis
      using True assms
      by (auto simp: decode_char_def decode_step_def in_alphabet_def b64_ok_def Let_def)
  next
    case False
    then have q: "(n + 1) mod 4 = n mod 4 + 1" "(n + 1) div 4 = n div 4" "n mod 4 < 3"
      by presburger+
    then show ?thesis
      using assms
      by (auto simp: decode_char_def decode_step_def in_alphabet_def b64_ok_def Let_def)
  qed
qed

lemma decode_chars_ok:
  assumes "b64_ok cnt n s" "n + length cs \<le> cnt" "\<forall>c \<in> set cs. in_alphabet c"
  shows "\<exists>s'. fold_res decode_char s cs = Inr s' \<and> b64_ok cnt (n + length cs) s'"
  using assms
proof (induction cs arbitrary: s n)
  case (Cons c cs)
  then obtain s1 where s1: "decode_char s c = Inr s1" "b64_ok cnt (n + 1) s1"
    using decode_char_ok [of cnt n s c] by auto
  then show ?case using Cons.IH [of "n + 1" s1] Cons.prems by auto
qed simp

lemma decode_block:
  assumes "b64_ok cnt n s" "n mod 4 = 0" "n + 4 \<le> cnt"
    "dtable ! unat c0 = v0" "dtable ! unat c1 = v1" "dtable ! unat c2 = v2" "dtable ! unat c3 = v3"
    "v0 \<noteq> 0x80" "v1 \<noteq> 0x80" "v2 \<noteq> 0x80" "v3 \<noteq> 0x80"
  shows "\<exists>s'. fold_res decode_char s [c0, c1, c2, c3] = Inr s' \<and> b64_ok cnt (n + 4) s' \<and>
    bin s' = [c0, c1, c2, c3] \<and>
    bout s' = overlay (bout s) (bpos s)
      [push_bit 2 v0 OR drop_bit 4 v1, push_bit 4 v1 OR drop_bit 2 v2, push_bit 6 v2 OR v3]"
proof -
  have four: "\<exists>a b c d. xs = [a, b, c, d]" if "length xs = 4" for xs :: "byte list"
    using that by (auto simp: length_Suc_conv numeral_eq_Suc)
  obtain x0 x1 x2 x3 where x: "bin s = [x0, x1, x2, x3]"
    using four [of "bin s"] assms(1) by (auto simp: b64_ok_def)
  obtain y0 y1 y2 y3 where y: "bblock s = [y0, y1, y2, y3]"
    using four [of "bblock s"] assms(1) by (auto simp: b64_ok_def)
  have p: "bpos s + 3 \<le> length (bout s)" "bcount s = 0"
  proof -
    have "n = 4 * (n div 4)" using assms(2) by auto
    then show "bpos s + 3 \<le> length (bout s)" using assms(1,3) by (simp add: b64_ok_def)
    show "bcount s = 0" using assms(1,2) by (simp add: b64_ok_def)
  qed
  have o: "(bout s)[bpos s := a, Suc (bpos s) := b, Suc (Suc (bpos s)) := c] =
      overlay (bout s) (bpos s) [a, b, c]" for a b c
    using p(1) overlay_overlay [of "bpos s" "[a]" "[b]" "bout s"]
      overlay_overlay [of "bpos s" "[a, b]" "[c]" "bout s"]
    by (simp add: list_update_overlay)
  let ?s1 = "s\<lparr>bin := [c0, x1, x2, x3], bblock := [v0, y1, y2, y3], bcount := 1\<rparr>"
  let ?s2 = "s\<lparr>bin := [c0, c1, x2, x3], bblock := [v0, v1, y2, y3], bcount := 2\<rparr>"
  let ?s3 = "s\<lparr>bin := [c0, c1, c2, x3], bblock := [v0, v1, v2, y3], bcount := 3\<rparr>"
  let ?o = "overlay (bout s) (bpos s)
      [push_bit 2 v0 OR drop_bit 4 v1, push_bit 4 v1 OR drop_bit 2 v2, push_bit 6 v2 OR v3]"
  let ?s4 = "s\<lparr>bin := [c0, c1, c2, c3], bblock := [v0, v1, v2, v3], bout := ?o, bpos := bpos s + 3,
      bcount := 0\<rparr>"
  have upd: "[a0, a1, a2, a3][2 := z] = [a0, a1, z, a3]" "[a0, a1, a2, a3][3 := z] = [a0, a1, a2, z]"
    for a0 a1 a2 a3 z :: byte
    by (simp_all add: numeral_2_eq_2 numeral_3_eq_3)
  have d1: "decode_char s c0 = Inr ?s1"
    using assms(4,8) p(2) by (simp add: decode_char_def decode_step_def x y Let_def)
  have d2: "decode_char ?s1 c1 = Inr ?s2"
    using assms(5,9) by (simp add: decode_char_def decode_step_def Let_def)
  have d3: "decode_char ?s2 c2 = Inr ?s3"
    using assms(6,10) by (simp add: decode_char_def decode_step_def upd Let_def)
  have d4: "decode_char ?s3 c3 = Inr ?s4"
    using assms(7,11) p(1) by (simp add: decode_char_def decode_step_def upd o Let_def)
  have "b64_ok cnt (n + 4) ?s4"
    using assms(1,2) p(1) by (auto simp: b64_ok_def)
  then show ?thesis
    by (intro exI [of _ ?s4]) (simp only: fold_res.simps bind_res_Inr d1 d2 d3 d4, simp)
qed

section \<open>What the encoder gives\<close>

lemma six_small: "x \<in> set (six a b c) \<Longrightarrow> unat x < 64"
proof -
  assume "x \<in> set (six a b c)"
  then have "take_bit 6 x = x"
    by (auto simp: six_def intro!: byte_eqI simp: byte_bits bit_take_bit_iff byte_high)
  then have "take_bit 6 (unat x) = unat x" by (metis unsigned_take_bit_eq)
  then show ?thesis using take_bit_nat_less_exp [of 6 "unat x"] by simp
qed

lemma dtable_six:
  "x \<in> set (six a b c) \<Longrightarrow> dtable ! unat (sextet (unat x)) = x \<and> x \<noteq> 0x80 \<and> sextet (unat x) \<noteq> 61"
  using six_small [of x a b c] dtable_sextet [of "unat x"] by auto

lemma six_bytes:
  "six a b c = [v0, v1, v2, v3] \<Longrightarrow>
   push_bit 2 v0 OR drop_bit 4 v1 = a \<and> push_bit 4 v1 OR drop_bit 2 v2 = b \<and>
   push_bit 6 v2 OR v3 = c"
  by (auto simp: six_def intro!: byte_eqI simp: byte_bits)

lemma length_encode: "length (base64_encode d) = 4 * ((length d + 2) div 3)"
proof (induction d rule: base64_encode.induct)
  case (4 a b c xs)
  have "(length (a # b # c # xs) + 2) div 3 = (length xs + 2) div 3 + 1" by simp
  then show ?case using 4 by (simp add: six_def)
qed (simp_all add: six_def)

lemma sextet_alphabet: "x \<in> set (six a b c) \<Longrightarrow> in_alphabet (sextet (unat x))"
  using dtable_six [of x a b c] by (simp add: in_alphabet_def)

lemma pad_alphabet: "in_alphabet 61"
  by (simp add: in_alphabet_def dtable_pad)

lemma encode_alphabet: "c \<in> set (base64_encode d) \<Longrightarrow> in_alphabet c"
proof (induction d rule: base64_encode.induct)
  case (2 a)
  then show ?case by (auto simp: pad_alphabet dest!: in_set_takeD intro: sextet_alphabet)
next
  case (3 a b)
  then show ?case by (auto simp: pad_alphabet dest!: in_set_takeD intro: sextet_alphabet)
next
  case (4 a b c xs)
  then show ?case by (auto intro: sextet_alphabet)
qed simp

lemma b64_room: "b64_ok cnt n s \<Longrightarrow> n mod 4 = 0 \<Longrightarrow> n + 4 \<le> cnt \<Longrightarrow> bpos s + 3 \<le> length (bout s)"
proof -
  assume *: "b64_ok cnt n s" "n mod 4 = 0" "n + 4 \<le> cnt"
  then have "n = 4 * (n div 4)" by auto
  then show "bpos s + 3 \<le> length (bout s)" using * by (simp add: b64_ok_def)
qed

text \<open>One encoded block of three bytes, \<open>c2\<close> and \<open>c3\<close> being letters or the padding.\<close>

lemma decode_six:
  assumes "b64_ok cnt n s" "n mod 4 = 0" "n + 4 \<le> cnt" "six a b c = [v0, v1, v2, v3]"
    "c2 = (if p2 then 61 else sextet (unat v2))" "c3 = (if p3 then 61 else sextet (unat v3))"
    "p2 \<Longrightarrow> v2 = 0" "p3 \<Longrightarrow> v3 = 0"
  shows "\<exists>s'. fold_res decode_char s [sextet (unat v0), sextet (unat v1), c2, c3] = Inr s' \<and>
    b64_ok cnt (n + 4) s' \<and> (bin s' ! 2 = 61 \<longleftrightarrow> p2) \<and> (bin s' ! 3 = 61 \<longleftrightarrow> p3) \<and>
    bout s' = overlay (bout s) (bpos s) [a, b, c]"
proof -
  have v: "v0 \<in> set (six a b c)" "v1 \<in> set (six a b c)" "v2 \<in> set (six a b c)" "v3 \<in> set (six a b c)"
    by (simp_all add: assms(4))
  note d = v [THEN dtable_six]
  have "dtable ! unat c2 = v2" "dtable ! unat c3 = v3"
    using d assms(5-8) dtable_pad(1) by auto
  then obtain s' where "fold_res decode_char s [sextet (unat v0), sextet (unat v1), c2, c3] = Inr s'"
      "b64_ok cnt (n + 4) s'" "bin s' = [sextet (unat v0), sextet (unat v1), c2, c3]"
      "bout s' = overlay (bout s) (bpos s)
        [push_bit 2 v0 OR drop_bit 4 v1, push_bit 4 v1 OR drop_bit 2 v2, push_bit 6 v2 OR v3]"
    using decode_block [OF assms(1-3), of "sextet (unat v0)" v0 "sextet (unat v1)" v1 c2 v2 c3 v3] d
    by blast
  then show ?thesis
    using six_bytes [OF assms(4)] d assms(5,6)
    by (intro exI [of _ s']) (auto simp: numeral_2_eq_2 numeral_3_eq_3)
qed

lemma take_overlay_short:
  "i + length xs \<le> length a \<Longrightarrow> k \<le> length xs \<Longrightarrow> take (i + k) (overlay a i xs) = take i a @ take k xs"
  by (simp add: overlay_def)

text \<open>The last block, of one byte or of two.\<close>

lemma decode_encode_one:
  assumes "b64_ok cnt n s" "n mod 4 = 0" "n + 4 \<le> cnt"
  shows "\<exists>s'. fold_res decode_char s (base64_encode [a]) = Inr s' \<and> b64_ok cnt (n + 4) s' \<and>
    bin s' ! 2 = 61 \<and> bin s' ! 3 = 61 \<and> take (bpos s + 1) (bout s') = take (bpos s) (bout s) @ [a]"
proof -
  obtain v0 v1 v2 v3 where v: "six a 0 0 = [v0, v1, v2, v3]" by (simp add: six_def)
  moreover have "v2 = 0" "v3 = 0" using v by (auto simp: six_def)
  moreover have "base64_encode [a] = [sextet (unat v0), sextet (unat v1), 61, 61]"
    by (simp add: v numeral_2_eq_2)
  moreover have "bpos s + 3 \<le> length (bout s)" using assms b64_room [of cnt n s] by simp
  ultimately show ?thesis
    using decode_six [of cnt n s a 0 0 v0 v1 v2 v3 61 True 61 True] assms
      take_overlay_short [of "bpos s" "[a, 0, 0]" "bout s" 1]
    by auto
qed

lemma decode_encode_two:
  assumes "b64_ok cnt n s" "n mod 4 = 0" "n + 4 \<le> cnt"
  shows "\<exists>s'. fold_res decode_char s (base64_encode [a, b]) = Inr s' \<and> b64_ok cnt (n + 4) s' \<and>
    bin s' ! 2 \<noteq> 61 \<and> bin s' ! 3 = 61 \<and>
    take (bpos s + length [a, b]) (bout s') = take (bpos s) (bout s) @ [a, b]"
proof -
  obtain v0 v1 v2 v3 where v: "six a b 0 = [v0, v1, v2, v3]" by (simp add: six_def)
  moreover have "v3 = 0" using v by (auto simp: six_def)
  moreover have "base64_encode [a, b] = [sextet (unat v0), sextet (unat v1), sextet (unat v2), 61]"
    by (simp add: v numeral_3_eq_3)
  moreover have "bpos s + 3 \<le> length (bout s)" using assms b64_room [of cnt n s] by simp
  moreover have "length [a, b] = 2" by simp
  ultimately show ?thesis
    using decode_six [of cnt n s a b 0 v0 v1 v2 v3 "sextet (unat v2)" False 61 True] assms
      take_overlay_short [of "bpos s" "[a, b, 0]" "bout s" "length [a, b]"]
    by auto
qed

lemma decode_encode:
  assumes "b64_ok cnt n s" "n mod 4 = 0" "n + length (base64_encode d) \<le> cnt"
  shows "\<exists>s'. fold_res decode_char s (base64_encode d) = Inr s' \<and>
    b64_ok cnt (n + length (base64_encode d)) s' \<and>
    take (bpos s + length d) (bout s') = take (bpos s) (bout s) @ d \<and>
    (d \<noteq> [] \<longrightarrow> (bin s' ! 2 = 61 \<longleftrightarrow> length d mod 3 = 1) \<and> (bin s' ! 3 = 61 \<longleftrightarrow> length d mod 3 \<noteq> 0))"
  using assms
proof (induction d arbitrary: s n rule: base64_encode.induct)
  case 1
  then show ?case by simp
next
  case (2 a)
  have "length (base64_encode [a]) = 4" by (simp add: six_def)
  then show ?case
    using decode_encode_one [OF "2.prems"(1,2), of a] "2.prems"(3) by auto
next
  case (3 a b)
  have "length (base64_encode [a, b]) = 4" by (simp add: six_def)
  then show ?case
    using decode_encode_two [OF "3.prems"(1,2), of a b] "3.prems"(3) by auto
next
  case (4 a b c xs)
  obtain v0 v1 v2 v3 where v: "six a b c = [v0, v1, v2, v3]" by (simp add: six_def)
  have len: "n + 4 + length (base64_encode xs) \<le> cnt" using "4.prems"(3) by (simp add: six_def)
  then obtain s1 where s1: "fold_res decode_char s
        [sextet (unat v0), sextet (unat v1), sextet (unat v2), sextet (unat v3)] = Inr s1"
      "b64_ok cnt (n + 4) s1" "bin s1 ! 2 \<noteq> 61" "bin s1 ! 3 \<noteq> 61"
      "bout s1 = overlay (bout s) (bpos s) [a, b, c]"
    using decode_six [OF "4.prems"(1,2) _ v, of "sextet (unat v2)" False "sextet (unat v3)" False] by auto
  have bp: "bpos s1 = bpos s + 3" "bpos s + 3 \<le> length (bout s)"
    using s1(2) "4.prems" len b64_room [of cnt n s] by (auto simp: b64_ok_def)
  obtain s' where s': "fold_res decode_char s1 (base64_encode xs) = Inr s'"
      "b64_ok cnt (n + 4 + length (base64_encode xs)) s'"
      "take (bpos s1 + length xs) (bout s') = take (bpos s1) (bout s1) @ xs"
      "xs \<noteq> [] \<longrightarrow> (bin s' ! 2 = 61 \<longleftrightarrow> length xs mod 3 = 1) \<and> (bin s' ! 3 = 61 \<longleftrightarrow> length xs mod 3 \<noteq> 0)"
    using "4.IH" [of "n + 4" s1] s1(2) "4.prems"(2) len by auto
  have tk: "take (bpos s + 3) (bout s1) = take (bpos s) (bout s) @ [a, b, c]"
    using take_overlay [of "bpos s" "[a, b, c]" "bout s"] bp(2) s1(5) by (simp add: numeral_3_eq_3)
  have enc: "base64_encode (a # b # c # xs) =
      [sextet (unat v0), sextet (unat v1), sextet (unat v2), sextet (unat v3)] @ base64_encode xs"
    by (simp add: v)
  have run: "fold_res decode_char s (base64_encode (a # b # c # xs)) = Inr s'"
    using s1(1) s'(1) by (simp only: enc fold_res_append bind_res_Inr)
  have "xs = [] \<Longrightarrow> s' = s1" using s'(1) by simp
  moreover have "take (bpos s + length (a # b # c # xs)) (bout s') = take (bpos s) (bout s) @ a # b # c # xs"
    using s'(3) tk by (simp add: bp(1) add.assoc numeral_3_eq_3)
  moreover have "(length (a # b # c # xs)) mod 3 = length xs mod 3" by simp
  moreover have "n + length (base64_encode (a # b # c # xs)) = n + 4 + length (base64_encode xs)"
    by (simp only: enc) simp
  ultimately show ?case
    using run s'(2,4) s1(3,4) by (intro exI [of _ s']) (cases "xs = []"; simp add: add.assoc)
qed

section \<open>Properties\<close>

lemma base64_decode_run:
  assumes "len \<le> length src" "length in0 = 4" "length block0 = 4"
    "cs = filter in_alphabet (take len src)"
  shows "base64_decode mem in0 block0 src len =
    (if length cs mod 4 \<noteq> 0 \<or> \<not> mem (length cs) then Inr None
     else bind_res (fold_res decode_char
         \<lparr>bcount = 0, bin = in0, bblock = block0, bout = replicate (length cs) 0, bpos = 0\<rparr> cs) (\<lambda>s.
       Inr (Some (bout s,
         if bpos s > 0 then
           if bin s ! 2 = 61 then bpos s - 2 else if bin s ! 3 = 61 then bpos s - 1 else bpos s
         else bpos s))))"
  using assms by (simp add: base64_decode_def count_loop decode_loop Let_def)

lemma base64_decode_encoded:
  assumes "filter in_alphabet src = base64_encode d" "mem (length (base64_encode d))"
    "length in0 = 4" "length block0 = 4"
  shows "\<exists>out. base64_decode mem in0 block0 src (length src) = Inr (Some (out, length d)) \<and>
    take (length d) out = d"
proof -
  let ?cs = "base64_encode d"
  let ?s = "\<lparr>bcount = 0, bin = in0, bblock = block0, bout = replicate (length ?cs) 0, bpos = 0\<rparr>"
  have "b64_ok (length ?cs) 0 ?s" using assms(3,4) by (simp add: b64_ok_def)
  then obtain s' where s': "fold_res decode_char ?s ?cs = Inr s'" "b64_ok (length ?cs) (length ?cs) s'"
      "take (length d) (bout s') = d"
      "d \<noteq> [] \<longrightarrow> (bin s' ! 2 = 61 \<longleftrightarrow> length d mod 3 = 1) \<and> (bin s' ! 3 = 61 \<longleftrightarrow> length d mod 3 \<noteq> 0)"
    using decode_encode [of "length ?cs" 0 ?s d] by auto
  have pos: "bpos s' = 3 * ((length d + 2) div 3)"
    using s'(2) by (simp add: b64_ok_def length_encode)
  have "(if bpos s' > 0 then
      if bin s' ! 2 = 61 then bpos s' - 2 else if bin s' ! 3 = 61 then bpos s' - 1 else bpos s'
      else bpos s') = length d"
  proof (cases "d = []")
    case True
    then show ?thesis using pos by simp
  next
    case False
    have a: "L mod 3 = 1 \<Longrightarrow> 3 * ((L + 2) div 3) - 2 = L" "L mod 3 = 2 \<Longrightarrow> 3 * ((L + 2) div 3) - 1 = L"
      "L mod 3 = 0 \<Longrightarrow> 3 * ((L + 2) div 3) = L" "0 < L \<Longrightarrow> 0 < 3 * ((L + 2) div 3)" for L :: nat
      by presburger+
    consider "length d mod 3 = 0" | "length d mod 3 = 1" | "length d mod 3 = 2" by linarith
    moreover have "0 < bpos s'" using a(4) [of "length d"] False pos by simp
    ultimately show ?thesis
      using s'(4) False a [of "length d"] by cases (simp_all add: pos)
  qed
  then show ?thesis
    using base64_decode_run [of "length src" src in0 block0 ?cs mem] assms s'(1,3)
    by (auto simp: length_encode)
qed

text \<open>
  C13: The decoder inverts Base64 encoding: for any data, and any text that consists of its
  encoding with arbitrary characters from outside the alphabet mixed in (line breaks, blanks),
  \<^verbatim>\<open>base64_decode\<close> returns a buffer that begins with the data, and their length.
\<close>

theorem base64_roundtrip:
  assumes "filter in_alphabet src = base64_encode d" "mem (length (base64_encode d))"
    "length in0 = 4" "length block0 = 4"
  shows "\<exists>out. base64_decode mem in0 block0 src (length src) = Inr (Some (out, length d)) \<and>
    take (length d) out = d"
  using assms by (rule base64_decode_encoded)

theorem base64_roundtrip_witness:
  "\<exists>out. base64_decode (\<lambda>_. True) [0, 0, 0, 0] [0, 0, 0, 0] [77, 10, 84, 73, 61] 5 = Inr (Some (out, 2)) \<and>
    take (length [0x31, 0x32 :: byte]) out = [0x31, 0x32]"
proof -
  have "filter in_alphabet [77, 10, 84, 73, 61] = base64_encode [0x31, 0x32]" by code_simp
  from base64_roundtrip [OF this, of "\<lambda>_. True" "[0, 0, 0, 0]" "[0, 0, 0, 0]"]
  show ?thesis by (simp add: numeral_eq_Suc)
qed

text \<open>
  C29: On any input at all, \<^verbatim>\<open>base64_decode\<close> reads and writes inside its arrays; it returns
  \<^verbatim>\<open>NULL\<close> exactly when the number of characters from the alphabet (padding included) is not a
  multiple of 4 or \<^verbatim>\<open>malloc\<close> does not find so many bytes, and else an array of so many bytes and a
  length that fits it.
\<close>

theorem base64_decode_safe:
  assumes "len \<le> length src" "length in0 = 4" "length block0 = 4"
  shows "\<exists>r. base64_decode mem in0 block0 src len = Inr r \<and>
    (let n = length (filter in_alphabet (take len src)) in
     case r of
       None \<Rightarrow> n mod 4 \<noteq> 0 \<or> \<not> mem n
     | Some (out, out_len) \<Rightarrow> n mod 4 = 0 \<and> mem n \<and> length out = n \<and> out_len \<le> n)"
proof -
  define cs where "cs = filter in_alphabet (take len src)"
  let ?s = "\<lparr>bcount = 0, bin = in0, bblock = block0, bout = replicate (length cs) 0, bpos = 0\<rparr>"
  have "b64_ok (length cs) 0 ?s" using assms by (simp add: b64_ok_def)
  moreover have "\<forall>c \<in> set cs. in_alphabet c" by (simp add: cs_def)
  ultimately obtain s' where s': "fold_res decode_char ?s cs = Inr s'" "b64_ok (length cs) (length cs) s'"
    using decode_chars_ok [of "length cs" 0 ?s cs] by auto
  have "3 * (k div 4) \<le> k" for k :: nat
    using div_mult_mod_eq [of k 4] by linarith
  then have "bpos s' \<le> length cs" "length (bout s') = length cs" using s'(2) by (simp_all add: b64_ok_def)
  then show ?thesis
    using base64_decode_run [OF assms cs_def, of mem] s'(1)
    by (simp add: Let_def le_diff_conv trans_le_add1 flip: cs_def)
qed

theorem base64_decode_safe_witness:
  "\<exists>r. base64_decode (\<lambda>_. True) [1, 2, 3, 4] [5, 6, 7, 8] [61, 61, 61, 61] 4 = Inr (Some r)"
proof -
  have "length (filter in_alphabet (take 4 [61, 61, 61, 61])) = 4" by code_simp
  then show ?thesis
    using base64_decode_safe [of 4 "[61, 61, 61, 61]" "[1, 2, 3, 4]" "[5, 6, 7, 8]" "\<lambda>_. True"]
    by (auto split: option.splits)
qed

end
