(* ===== verification/RtspLoop.thy ===== *)
theory RtspLoop
  imports Rtsp Rtcp Base64
begin

text \<open>
  \<^verbatim>\<open>rtsp_loop\<close> of \<^verbatim>\<open>h264dec/rtsp.c\<close> and the program \<^verbatim>\<open>h264dec\<close>: the session is set up, and then
  the frames that the server interleaves on the control connection are taken apart, RTP packets
  on channel 0, RTCP packets on the others.

  The loop is given as one round after the other: what happens from the label
  \<^verbatim>\<open>read_pending\<close>, through one \<^verbatim>\<open>recv\<close>, until it is reached again.  The receive buffer has
  1000000 bytes; the unsigned offsets stay far below \<open>2 ^ 32\<close>, only their difference can wrap
  around.
\<close>

section \<open>The environment\<close>

record rtsp_os =
  os_connect :: "string \<Rightarrow> nat \<Rightarrow> int"
  os_clock :: "nat \<Rightarrow> timeval"                   \<comment> \<open>the time at the \<open>k\<close>-th reading\<close>
  os_pipe_write :: pipe_write
  os_pkgs :: "rtcp_pkg list"                     \<comment> \<open>what \<open>malloc\<close> returns for the RTCP packets\<close>
  os_mem :: "nat \<Rightarrow> bool"                        \<comment> \<open>whether \<open>malloc\<close> succeeds in \<open>base64_decode\<close>\<close>
  os_in0 :: "byte list"                          \<comment> \<open>the uninitialised arrays of \<open>base64_decode\<close>\<close>
  os_block0 :: "byte list"
  os_open :: "string \<Rightarrow> int"
  os_unix_sock :: "string \<Rightarrow> int res"
  os_pipe :: int
  os_pipe_max :: "byte list option"
  os_setsize :: "byte list \<Rightarrow> int"

record demux =
  dx_raw :: "byte list"
  dx_length :: nat
  dx_offset :: nat
  dx_send_rtcp :: bool
  dx_ticks :: nat
  dx_stats :: rtp_stats
  dx_streamer :: streamer
  dx_conn :: rtsp_conn

definition max_buf_size :: nat where "max_buf_size = 1000000"

section \<open>One frame\<close>

definition send_reports :: "rtsp_os \<Rightarrow> demux \<Rightarrow> demux res" where
  "send_reports os s =
     bind_res (rtsp_rtcp_reports (os_clock os (dx_ticks s)) (dx_stats s)
         (conn_out (dx_conn s))) (\<lambda>(st, out).
     Inr (s\<lparr>dx_stats := st, dx_ticks := dx_ticks s + 1, dx_conn := (dx_conn s)\<lparr>conn_out := out\<rparr>\<rparr>))"

definition demux_rtcp :: "rtsp_os \<Rightarrow> nat \<Rightarrow> nat \<Rightarrow> demux \<Rightarrow> demux res" where
  "demux_rtcp os off len s =
     bind_res (rtcp_decode False (os_clock os (dx_ticks s)) (os_pkgs os) (drop off (dx_raw s)) len
         (dx_stats s)) (\<lambda>(rtcp_count, rtcp, st).
     let send = (if rtcp_count \<ge> 1 \<and> pk_type (rtcp ! 0) = RTCP_SR then True else dx_send_rtcp s)
     in Inr (s\<lparr>dx_stats := st, dx_ticks := dx_ticks s + 1, dx_send_rtcp := send,
               dx_offset := off + len\<rparr>))"

definition demux_rtp :: "rtsp_os \<Rightarrow> nat \<Rightarrow> nat \<Rightarrow> demux \<Rightarrow> demux res" where
  "demux_rtp os off len s =
     bind_res (rtp_parse (os_pipe_write os) (os_clock os (dx_ticks s)) (drop off (dx_raw s))
         (of_nat len) (dx_stats s) (dx_streamer s)) (\<lambda>(offset, st, strm).
     Inr (s\<lparr>dx_stats := st, dx_streamer := strm, dx_ticks := dx_ticks s + 1, dx_send_rtcp := False,
            dx_offset := off + (if sint offset \<le> 0 then len else unat offset)\<rparr>))"

text \<open>A complete frame, whose payload begins at \<open>off\<close>.\<close>

definition demux_frame :: "rtsp_os \<Rightarrow> byte \<Rightarrow> nat \<Rightarrow> nat \<Rightarrow> demux \<Rightarrow> demux res" where
  "demux_frame os channel off rtp_length s =
     bind_res (if rtp_received (dx_stats s) mod 20 \<noteq> 0 then send_reports os s else Inr s) (\<lambda>s.
     if channel \<ge> 1 then demux_rtcp os off rtp_length s else demux_rtp os off rtp_length s)"

text \<open>
  One turn of the inner loop: whether the loop goes on (otherwise \<^verbatim>\<open>goto read_pending\<close>), and the
  new state.
\<close>

definition demux_step :: "rtsp_os \<Rightarrow> demux \<Rightarrow> (bool \<times> demux) res" where
  "demux_step os s =
     (let off = dx_offset s in
      bind_res (rd (dx_raw s) off) (\<lambda>magic.
      if magic \<noteq> 0x24 then Inr (True, s\<lparr>dx_offset := off + 1\<rparr>)
      else
        bind_res (rd (dx_raw s) (off + 1)) (\<lambda>channel.
        bind_res (rd (dx_raw s) (off + 2)) (\<lambda>hi.
        bind_res (rd (dx_raw s) (off + 3)) (\<lambda>lo.
        let rtp_length = unat (of_be16 hi lo) in
        if dx_length s > max_buf_size then Inl Exited
        else if rtp_length = 0 then Inr (False, s)
        else if rtp_length > unat (of_nat (dx_length s) - of_nat (off + 4) :: u32) then
          bind_res (if dx_send_rtcp s then send_reports os s else Inr s) (\<lambda>s.
          Inr (False, s\<lparr>dx_send_rtcp := False\<rparr>))
        else bind_res (demux_frame os channel (off + 4) rtp_length s) (\<lambda>s. Inr (True, s)))))))"

lemma send_reports_frame:
  "send_reports os s = Inr s' \<Longrightarrow>
   dx_raw s' = dx_raw s \<and> dx_offset s' = dx_offset s \<and> dx_length s' = dx_length s"
  by (auto simp: send_reports_def bind_res_eq_Inr)

lemma demux_rtcp_frame:
  "demux_rtcp os off len s = Inr s' \<Longrightarrow>
   dx_raw s' = dx_raw s \<and> dx_length s' = dx_length s \<and> off \<le> dx_offset s'"
  by (auto simp: demux_rtcp_def bind_res_eq_Inr Let_def)

lemma demux_rtp_frame:
  "demux_rtp os off len s = Inr s' \<Longrightarrow>
   dx_raw s' = dx_raw s \<and> dx_length s' = dx_length s \<and> off \<le> dx_offset s'"
  by (auto simp: demux_rtp_def bind_res_eq_Inr)

lemma demux_frame_frame:
  "demux_frame os ch off len s = Inr s' \<Longrightarrow>
   dx_raw s' = dx_raw s \<and> dx_length s' = dx_length s \<and> off \<le> dx_offset s'"
  by (auto simp: demux_frame_def bind_res_eq_Inr split: if_splits
      dest!: send_reports_frame demux_rtcp_frame demux_rtp_frame)

lemma demux_step_frame:
  assumes "demux_step os s = Inr (goes_on, s')"
  shows "dx_raw s' = dx_raw s \<and> dx_length s' = dx_length s \<and>
    (if goes_on then dx_offset s < dx_offset s' else dx_offset s' = dx_offset s)"
  using assms
  by (auto simp: demux_step_def Let_def bind_res_eq_Inr split: if_splits
      dest: send_reports_frame demux_frame_frame)

function demux_loop :: "rtsp_os \<Rightarrow> demux \<Rightarrow> (bool \<times> demux) res" where
  "demux_loop os s =
     (if dx_offset s < dx_length s then
        (case demux_step os s of
           Inl e \<Rightarrow> Inl e
         | Inr (goes_on, s') \<Rightarrow> if goes_on then demux_loop os s' else Inr (True, s'))
      else Inr (False, s))"
  by pat_completeness auto
termination
  by (relation "measure (\<lambda>(os, s). dx_length s - dx_offset s)") (auto dest: demux_step_frame)

declare demux_loop.simps [simp del]

section \<open>One round\<close>

definition demux_reset :: "demux \<Rightarrow> demux" where
  "demux_reset s = s\<lparr>dx_offset := 0, dx_length := 0, dx_raw := replicate max_buf_size 0\<rparr>"

text \<open>The buffer is full: what is left is moved to its beginning.\<close>

definition demux_move :: "demux \<Rightarrow> demux res" where
  "demux_move s =
     (if dx_length s \<ge> max_buf_size then
        (if dx_offset s < dx_length s - 1 then
           bind_res (rd_block (dx_raw s) (dx_offset s) (dx_length s - dx_offset s)) (\<lambda>d.
           bind_res (wr_block (replicate max_buf_size 0) 0 d) (\<lambda>moved.
           Inr (s\<lparr>dx_raw := moved, dx_length := length d, dx_offset := 0\<rparr>)))
         else Inr (s\<lparr>dx_length := 0, dx_raw := replicate max_buf_size 0\<rparr>))
      else Inr s)"

definition demux_round :: "rtsp_os \<Rightarrow> demux \<Rightarrow> demux res" where
  "demux_round os s =
     bind_res (demux_move s) (\<lambda>s.
     let (d, c) = recv_bytes (max_buf_size - dx_length s) (dx_conn s) in
     if d = [] then Inl Exited
     else
       bind_res (wr_block (dx_raw s) (dx_length s) d) (\<lambda>raw.
       let s = s\<lparr>dx_raw := raw, dx_length := dx_length s + length d, dx_conn := c\<rparr> in
       bind_res (demux_loop os s) (\<lambda>(pending, s).
       Inr (if pending then s else demux_reset s))))"

primrec demux_rounds :: "rtsp_os \<Rightarrow> nat \<Rightarrow> demux \<Rightarrow> demux res" where
  "demux_rounds os 0 s = Inr s"
| "demux_rounds os (Suc n) s = bind_res (demux_round os s) (demux_rounds os n)"

section \<open>The session\<close>

text \<open>
  The parameter sets of the SDP: two strings around a comma.  The array was not terminated; its
  last character \<open>junk\<close> is what \<^verbatim>\<open>malloc\<close> left there.
\<close>

definition split_params :: "string \<Rightarrow> char \<Rightarrow> (string \<times> string) res" where
  "split_params sprop junk =
     (if junk \<noteq> NUL then Inl Read_Overflow
      else
        (case strchr sprop (CHR '','') of
           None \<Rightarrow> Inl Null_Deref
         | Some p \<Rightarrow> Inr (take p sprop, drop (p + 1) sprop)))"

definition decode_param :: "rtsp_os \<Rightarrow> string \<Rightarrow> (byte list option \<times> nat) res" where
  "decode_param os s =
     bind_res (base64_decode (os_mem os) (os_in0 os) (os_block0 os) (text_bytes s) (length s)) (\<lambda>r.
     Inr (case r of None \<Rightarrow> (None, 0) | Some (d, n) \<Rightarrow> (Some d, n)))"

text \<open>
  \<^verbatim>\<open>rtsp_loop\<close> until the streaming has gone through \<open>n\<close> rounds: \<open>Inl\<close> is the value returned when
  the session cannot be set up.  \<open>dump\<close> is the name of the dump file.  The result of the SETUP
  and PLAY commands is ignored.
\<close>

definition start_stream ::
  "rtsp_os \<Rightarrow> string option \<Rightarrow> char \<Rightarrow> string \<Rightarrow> h264dec_vars \<Rightarrow> u64 \<Rightarrow> rtsp_conn \<Rightarrow> demux res" where
  "start_stream os dump junk sprop g session c =
     bind_res (split_params sprop junk) (\<lambda>(sps, pps).
     bind_res (decode_param os sps) (\<lambda>(sps_dec, sps_len).
     bind_res (decode_param os pps) (\<lambda>(pps_dec, pps_len).
     let st = rtp_stats_reset\<lparr>rtp_identifier := ucast session\<rparr>;
         fs_fd = (case dump of Some f \<Rightarrow> os_open os f | None \<Rightarrow> -1);
         s = \<lparr>stream_dump = (dump \<noteq> None), stream_fs_fd = fs_fd, fs_data = [], pipe_data = [],
              pipe_calls = 0\<rparr> in
     bind_res (streamer_write_h264_header sps_dec sps_len pps_dec pps_len s) (\<lambda>s.
     let name = (case opt_name g of Some n \<Rightarrow> n | None \<Rightarrow> ''(null)'') in
     bind_res (streamer_prepare (os_open os) (os_unix_sock os) name sps_dec sps_len pps_dec pps_len
         (\<lambda>_. None)) (\<lambda>(files, stream_sock).
     if stream_sock \<le> 0 then Inl Exited
     else
       bind_res (streamer_pipe_init (os_pipe os) (os_pipe_max os) (os_setsize os)) (\<lambda>_.
       Inr \<lparr>dx_raw = replicate max_buf_size 0, dx_length = 0, dx_offset = 0, dx_send_rtcp = False,
            dx_ticks = 0, dx_stats = st, dx_streamer = s, dx_conn = c\<rparr>))))))"

definition rtsp_loop ::
  "rtsp_os \<Rightarrow> string option \<Rightarrow> char \<Rightarrow> rtsp_session \<Rightarrow> string \<Rightarrow> nat \<Rightarrow> h264dec_vars \<Rightarrow> rtsp_conn \<Rightarrow>
   (int + h264dec_vars \<times> demux) res" where
  "rtsp_loop os dump junk session0 stream n g c =
     bind_res (rtsp_connect (os_connect os) stream g) (\<lambda>(fd, g).
     if fd \<le> 0 then Inr (Inl (-1))
     else
       bind_res (rtsp_cmd_options g c) (\<lambda>(ret, g, c).
       if ret \<noteq> 0 then Inr (Inl (-1))
       else
         bind_res (rtsp_cmd_describe stream g c) (\<lambda>(ret, sprop, g, c).
         if ret \<noteq> 0 then Inr (Inl (-1))
         else
           (case sprop of
              None \<Rightarrow> Inl Null_Deref
            | Some params \<Rightarrow>
                bind_res (rtsp_cmd_setup stream session0 g c) (\<lambda>(_, session, g, c).
                bind_res (rtsp_cmd_play stream (session_id session) g c) (\<lambda>(_, g, c).
                bind_res (start_stream os dump junk params g (session_id session) c) (\<lambda>s.
                bind_res (demux_rounds os n s) (\<lambda>s. Inr (Inr (g, s))))))))))"

section \<open>The program\<close>

text \<open>
  \<^verbatim>\<open>main\<close> of \<^verbatim>\<open>h264dec.c\<close>: \<open>opts\<close> is what \<^verbatim>\<open>getopt_long\<close> delivers, option by option with its
  argument, \<^verbatim>\<open>'?'\<close> for an unknown one.  The state is the variables and the name of the dump file.
\<close>

definition default_vars :: h264dec_vars where
  "default_vars =
     \<lparr>rtsp_cseq = 0, client_port = 9500, opt_verbose = False, opt_stdout = False, opt_stream = None,
      opt_name = None, stream_host = None, dsp = None, stream_port = 554\<rparr>"

definition h264dec_option ::
  "h264dec_vars \<times> string option \<Rightarrow> char \<times> string \<Rightarrow> (h264dec_vars \<times> string option) res" where
  "h264dec_option v opt =
     (let (g, dump) = v; (c, optarg) = opt in
      if c = CHR ''o'' then Inr (g\<lparr>opt_stdout := True\<rparr>, dump)
      else if c = CHR ''d'' then Inr (g, Some optarg)
      else if c = CHR ''s'' then Inr (g\<lparr>opt_stream := Some optarg\<rparr>, dump)
      else if c = CHR ''p'' then Inr (g\<lparr>client_port := atoi optarg\<rparr>, dump)
      else if c = CHR ''n'' then Inr (g\<lparr>opt_name := Some optarg\<rparr>, dump)
      else if c = CHR ''v'' then Inl Exited
      else if c = CHR ''V'' then Inr (g\<lparr>opt_verbose := True\<rparr>, dump)
      else if c = CHR ''h'' then Inl Exited
      else if c = CHR ''?'' then Inl Exited
      else Inr (g, dump))"

text \<open>After \<^verbatim>\<open>rtsp_loop\<close> the program waits and exits, so that it never returns from \<^verbatim>\<open>main\<close>.\<close>

definition h264dec_main ::
  "rtsp_os \<Rightarrow> char \<Rightarrow> rtsp_session \<Rightarrow> nat \<Rightarrow> rtsp_conn \<Rightarrow> (char \<times> string) list \<Rightarrow> (h264dec_vars \<times> demux) res" where
  "h264dec_main os junk session0 n c opts =
     bind_res (fold_res h264dec_option (default_vars, None) opts) (\<lambda>(g, dump).
     case opt_stream g of
       None \<Rightarrow> Inl Exited
     | Some stream \<Rightarrow>
         if \<not> starts_with stream PROTOCOL_PREFIX then Inl Exited
         else if opt_name g = None then Inl Exited
         else
           bind_res (rtsp_loop os dump junk session0 stream n g c) (\<lambda>r.
           case r of Inl _ \<Rightarrow> Inl Exited | Inr s \<Rightarrow> Inr s))"

end
