(* ===== verification/RtspDemux.thy ===== *)
theory RtspDemux
  imports RtspLoop
begin

text \<open>
  What the demultiplexer of \<^verbatim>\<open>rtsp_loop\<close> delivers: RTP packets that are interleaved on channel 0
  reach the stream in order, however the connection cuts the bytes, as long as no \<^verbatim>\<open>recv\<close> ends
  inside a frame header; and what happens when one does, or when a frame is empty.
\<close>

section \<open>Frames and packets\<close>

definition rtp_frame :: "byte list \<Rightarrow> byte list" where
  "rtp_frame p = [0x24, 0] @ be16 (word_of_nat (length p)) @ p"

lemma length_rtp_frame [simp]: "length (rtp_frame p) = 4 + length p"
  by (simp add: rtp_frame_def)

lemma rtp_frame_not_Nil [simp]: "rtp_frame p \<noteq> []"
  by (simp add: rtp_frame_def)

text \<open>A packet of which \<^verbatim>\<open>rtp_parse\<close> writes \<open>d\<close> into the pipe.\<close>

definition emits :: "byte list \<Rightarrow> byte list \<Rightarrow> bool" where
  "emits p d \<longleftrightarrow> 12 \<le> length p \<and> length p < 65536 \<and>
     (\<forall>pw now st s rest. pipe_accepts pw \<longrightarrow> stats_ok st \<longrightarrow>
       (\<exists>st' s'. rtp_parse pw now (p @ rest) (of_nat (length p)) st s = Inr (of_nat (length p), st', s') \<and>
          stats_ok st' \<and> last_rcv_SR_ts st' = last_rcv_SR_ts st \<and> pipe_data s' = pipe_data s @ d))"

lemma emitsI:
  assumes "length hdr = 12" "12 + length pl < 65536"
    and "\<And>pw s. pipe_accepts pw \<Longrightarrow>
      \<exists>s'. parse_nal pw (padded pl) (of_nat (length pl)) s = Inr (12, s') \<and> pipe_data s' = pipe_data s @ d"
  shows "emits (hdr @ pl) d"
  unfolding emits_def
proof (intro conjI allI impI)
  fix pw now st s and rest :: "byte list"
  assume ok: "pipe_accepts pw" "stats_ok st"
  obtain s' where s': "parse_nal pw (padded pl) (of_nat (length pl)) s = Inr (12, s')"
      "pipe_data s' = pipe_data s @ d" using assms(3) [OF ok(1)] by blast
  have "length pl \<le> MAX_BUF_SIZE" using assms(2) by (simp add: MAX_BUF_SIZE_def)
  from rtp_parse_run [OF assms(1) this ok(2), of pw now rest s] s'
  show "\<exists>st' s'. rtp_parse pw now ((hdr @ pl) @ rest) (of_nat (length (hdr @ pl))) st s =
        Inr (of_nat (length (hdr @ pl)), st', s') \<and>
      stats_ok st' \<and> last_rcv_SR_ts st' = last_rcv_SR_ts st \<and> pipe_data s' = pipe_data s @ d"
    using assms(1) by auto
qed (use assms in auto)

lemma emits_fu:
  assumes "length hdr = 12" "nal_type ind = 28" "14 + length body \<le> 65535"
  shows "emits (hdr @ ind # fuh # body)
    (if fuh AND 0x80 = 0 then body else [0, 0, 0, 1] @ fu_nal_header ind fuh # body)"
proof (rule emitsI [OF assms(1)])
  have len: "2 + length body \<le> MAX_BUF_SIZE" using assms(3) by (simp add: MAX_BUF_SIZE_def)
  show "\<exists>s'. parse_nal pw (padded (ind # fuh # body)) (of_nat (length (ind # fuh # body))) s = Inr (12, s') \<and>
      pipe_data s' = pipe_data s @
        (if fuh AND 0x80 = 0 then body else [0, 0, 0, 1] @ fu_nal_header ind fuh # body)"
    if "pipe_accepts pw" for pw s
    by (rule parse_nal_fu [OF that assms(2) len unat_body [OF len]])
qed (use assms(3) in simp)

lemma emits_fu_cont:
  "fu_cont_pkts 65535 ps bs \<Longrightarrow> \<exists>ds. list_all2 emits ps ds \<and> concat ds = bs"
proof (induction rule: fu_cont_pkts.induct)
  case (fc_Cons hdr ind fuh body ps bs)
  then obtain ds where "list_all2 emits ps ds" "concat ds = bs" by blast
  with emits_fu [of hdr ind body fuh] fc_Cons.hyps show ?case
    by (intro exI [of _ "body # ds"]) simp
qed simp

lemma emits_fu_pkts:
  assumes "fu_pkts 65535 ps nal"
  shows "\<exists>ds. list_all2 emits ps ds \<and> concat ds = [0, 0, 0, 1] @ nal"
  using assms
proof (cases rule: fu_pkts.cases)
  case (fu_start hdr ind fuh body ps' bs)
  then obtain ds where "list_all2 emits ps' ds" "concat ds = bs" using emits_fu_cont by blast
  with emits_fu [of hdr ind body fuh] fu_start show ?thesis
    by (intro exI [of _ "([0, 0, 0, 1] @ fu_nal_header ind fuh # body) # ds"]) simp
qed

lemma emits_fu_stream:
  "list_all2 (fu_pkts 65535) pss nals \<Longrightarrow> \<exists>ds. list_all2 emits (concat pss) ds \<and> concat ds = annexb4 nals"
proof (induction rule: list_all2_induct)
  case (Cons ps pss nal nals)
  then obtain ds es where "list_all2 emits ps ds" "concat ds = [0, 0, 0, 1] @ nal"
      "list_all2 emits (concat pss) es" "concat es = annexb4 nals"
    using emits_fu_pkts by blast
  then show ?case by (intro exI [of _ "ds @ es"]) (simp add: list_all2_appendI)
qed simp

section \<open>One frame\<close>

definition demux_ok :: "rtsp_os \<Rightarrow> demux \<Rightarrow> bool" where
  "demux_ok os s \<longleftrightarrow> pipe_accepts (os_pipe_write os) \<and> stats_ok (dx_stats s) \<and>
     last_rcv_SR_ts (dx_stats s) = 0"

text \<open>The parts of the state that reports leave alone.\<close>

definition same_input :: "demux \<Rightarrow> demux \<Rightarrow> bool" where
  "same_input s s' \<longleftrightarrow> dx_raw s' = dx_raw s \<and> dx_length s' = dx_length s \<and>
     conn_in (dx_conn s') = conn_in (dx_conn s)"

lemma same_input_refl [simp]: "same_input s s"
  by (simp add: same_input_def)

lemma same_input_trans: "same_input s t \<Longrightarrow> same_input t u \<Longrightarrow> same_input s u"
  by (simp add: same_input_def)

lemma rtsp_rtcp_reports_run:
  assumes "last_rcv_SR_ts st = 0" "stats_ok st"
  shows "\<exists>st' out'. rtsp_rtcp_reports now st out = Inr (st', out') \<and> stats_ok st' \<and>
    last_rcv_SR_ts st' = 0"
  using assms
  by (simp add: rtsp_rtcp_reports_def rtcp_receiver_report_def rtcp_dlsr_def rtcp_losses_def Let_def
      stats_ok_def)

lemma send_reports_run:
  assumes "demux_ok os s"
  shows "\<exists>s'. send_reports os s = Inr s' \<and> demux_ok os s' \<and> same_input s s' \<and>
    dx_offset s' = dx_offset s \<and> dx_streamer s' = dx_streamer s"
proof -
  have "last_rcv_SR_ts (dx_stats s) = 0" "stats_ok (dx_stats s)"
    using assms by (simp_all add: demux_ok_def)
  from rtsp_rtcp_reports_run [OF this] obtain st' out' where
      "rtsp_rtcp_reports (os_clock os (dx_ticks s)) (dx_stats s) (conn_out (dx_conn s)) =
        Inr (st', out')" "stats_ok st'" "last_rcv_SR_ts st' = 0" by blast
  with assms show ?thesis
    by (auto simp: send_reports_def demux_ok_def same_input_def)
qed

lemma maybe_reports_run:
  assumes "demux_ok os s"
  shows "\<exists>s'. (if b then send_reports os s else Inr s) = Inr s' \<and> demux_ok os s' \<and> same_input s s' \<and>
    dx_offset s' = dx_offset s \<and> dx_streamer s' = dx_streamer s"
  using send_reports_run [OF assms] assms by (cases b) simp_all

definition frame_head :: "byte list \<Rightarrow> byte list" where
  "frame_head p = [0x24, 0, hi16 (word_of_nat (length p)), lo16 (word_of_nat (length p))]"

lemma rtp_frame_head: "rtp_frame p = frame_head p @ p"
  by (simp add: rtp_frame_def frame_head_def be16_def)

lemma frame_header:
  assumes "take 4 (drop off m) = frame_head p"
  shows "rd m off = Inr 0x24" "rd m (off + 1) = Inr 0"
    "rd m (off + 2) = Inr (hi16 (word_of_nat (length p)))"
    "rd m (off + 3) = Inr (lo16 (word_of_nat (length p)))"
proof -
  have len: "off + 4 \<le> length m"
    using arg_cong [OF assms, of length] by (simp add: frame_head_def)
  have nth: "m ! (off + k) = frame_head p ! k" if "k < 4" for k
    using arg_cong [OF assms, of "\<lambda>xs. xs ! k"] that len by simp
  show "rd m off = Inr 0x24" "rd m (off + 1) = Inr 0"
    "rd m (off + 2) = Inr (hi16 (word_of_nat (length p)))"
    "rd m (off + 3) = Inr (lo16 (word_of_nat (length p)))"
    using nth [of 0] nth [of 1] nth [of 2] nth [of 2, unfolded numeral_2_eq_2] nth [of 3] len
    by (simp_all add: rd_def frame_head_def)
qed

lemma frame_payload:
  assumes "drop off m = rtp_frame p @ rest"
  shows "take 4 (drop off m) = frame_head p" "drop (off + 4) m = p @ rest"
proof -
  have "drop (off + 4) m = drop 4 (drop off m)" by (simp add: add.commute)
  then show "take 4 (drop off m) = frame_head p" "drop (off + 4) m = p @ rest"
    by (simp_all only: assms rtp_frame_head) (simp_all add: frame_head_def)
qed

lemma unat_len: "length p < 65536 \<Longrightarrow> unat (of_be16 (hi16 (word_of_nat (length p))) (lo16 (word_of_nat (length p)))) = length p"
  by (simp only: of_be16_hi_lo unat_u16)

lemma unat_avail:
  "off \<le> len \<Longrightarrow> len \<le> 1000000 \<Longrightarrow> unat (of_nat len - of_nat off :: u32) = len - off"
  by (simp add: unsigned_of_nat take_bit_nat_eq_self flip: of_nat_diff)

lemma demux_rtp_run:
  assumes "demux_ok os s" "emits p d" "drop off (dx_raw s) = p @ rest"
  shows "\<exists>s'. demux_rtp os off (length p) s = Inr s' \<and> demux_ok os s' \<and> same_input s s' \<and>
    dx_offset s' = off + length p \<and> pipe_data (dx_streamer s') = pipe_data (dx_streamer s) @ d"
proof -
  have ok: "pipe_accepts (os_pipe_write os)" "stats_ok (dx_stats s)" "last_rcv_SR_ts (dx_stats s) = 0"
    using assms(1) by (simp_all add: demux_ok_def)
  have len: "12 \<le> length p" "length p < 65536" using assms(2) by (simp_all add: emits_def)
  obtain st' strm' where "rtp_parse (os_pipe_write os) (os_clock os (dx_ticks s)) (p @ rest)
        (of_nat (length p)) (dx_stats s) (dx_streamer s) = Inr (of_nat (length p), st', strm')"
      "stats_ok st'" "last_rcv_SR_ts st' = last_rcv_SR_ts (dx_stats s)"
      "pipe_data strm' = pipe_data (dx_streamer s) @ d"
    using assms(2) ok(1,2) unfolding emits_def by meson
  moreover have "sint (of_nat (length p) :: u32) = int (length p)" "unat (of_nat (length p) :: u32) = length p"
    using len(2) by (simp_all add: signed_of_nat signed_take_bit_int_eq_self unsigned_of_nat take_bit_nat_eq_self)
  ultimately show ?thesis
    using ok len(1) assms(3) by (auto simp: demux_rtp_def demux_ok_def same_input_def)
qed

lemma demux_step_rtp:
  assumes "demux_ok os s" "emits p d" "drop (dx_offset s) (dx_raw s) = rtp_frame p @ rest"
    "dx_offset s + 4 + length p \<le> dx_length s" "dx_length s \<le> max_buf_size"
  shows "\<exists>s'. demux_step os s = Inr (True, s') \<and> demux_ok os s' \<and> same_input s s' \<and>
    dx_offset s' = dx_offset s + 4 + length p \<and>
    pipe_data (dx_streamer s') = pipe_data (dx_streamer s) @ d"
proof -
  note hdr = frame_header [OF frame_payload(1) [OF assms(3)]]
  have len: "12 \<le> length p" "length p < 65536" using assms(2) by (simp_all add: emits_def)
  obtain t where t: "(if rtp_received (dx_stats s) mod 20 \<noteq> 0 then send_reports os s else Inr s) = Inr t"
      "demux_ok os t" "same_input s t" "dx_offset t = dx_offset s" "dx_streamer t = dx_streamer s"
    using maybe_reports_run [OF assms(1)] by blast
  have "drop (dx_offset s + 4) (dx_raw t) = p @ rest"
    using t(3) frame_payload(2) [OF assms(3)] by (simp add: same_input_def)
  then obtain s' where s': "demux_rtp os (dx_offset s + 4) (length p) t = Inr s'" "demux_ok os s'"
      "same_input t s'" "dx_offset s' = dx_offset s + 4 + length p"
      "pipe_data (dx_streamer s') = pipe_data (dx_streamer t) @ d"
    using demux_rtp_run [OF t(2) assms(2)] by blast
  have fr: "demux_frame os 0 (dx_offset s + 4) (length p) s = Inr s'"
    unfolding demux_frame_def t(1) using s'(1) by simp
  have fits: "\<not> length p > unat (of_nat (dx_length s) - of_nat (dx_offset s + 4) :: u32)"
    using assms(4,5) by (subst unat_avail) (simp_all add: max_buf_size_def)
  have "demux_step os s = Inr (True, s')"
    unfolding demux_step_def Let_def hdr bind_res_Inr unat_len [OF len(2)]
    using len(1) assms(5) fits fr by (auto simp del: of_nat_add)
  then show ?thesis
    using s' t same_input_trans by auto
qed

lemma demux_step_pending:
  assumes "demux_ok os s" "emits p d" "take 4 (drop (dx_offset s) (dx_raw s)) = frame_head p"
    "dx_offset s + 4 \<le> dx_length s" "dx_length s < dx_offset s + 4 + length p"
    "dx_length s \<le> max_buf_size"
  shows "\<exists>s'. demux_step os s = Inr (False, s') \<and> demux_ok os s' \<and> same_input s s' \<and>
    dx_offset s' = dx_offset s \<and> dx_streamer s' = dx_streamer s"
proof -
  note hdr = frame_header [OF assms(3)]
  have len: "12 \<le> length p" "length p < 65536" using assms(2) by (simp_all add: emits_def)
  obtain t where t: "(if dx_send_rtcp s then send_reports os s else Inr s) = Inr t"
      "demux_ok os t" "same_input s t" "dx_offset t = dx_offset s" "dx_streamer t = dx_streamer s"
    using maybe_reports_run [OF assms(1)] by blast
  have more: "length p > unat (of_nat (dx_length s) - of_nat (dx_offset s + 4) :: u32)"
    using assms(4-6) by (subst unat_avail) (simp_all add: max_buf_size_def)
  have "demux_step os s = Inr (False, t\<lparr>dx_send_rtcp := False\<rparr>)"
    unfolding demux_step_def Let_def hdr bind_res_Inr unat_len [OF len(2)] t(1)
    using len(1) assms(6) more by (auto simp del: of_nat_add)
  then show ?thesis
    using t by (auto simp: demux_ok_def same_input_def)
qed

section \<open>The inner loop\<close>

text \<open>The first \<open>n\<close> bytes of the frames do not end inside a frame header.\<close>

fun aligned :: "byte list list \<Rightarrow> nat \<Rightarrow> bool" where
  "aligned [] n = True"
| "aligned (p # ps) n = (n = 0 \<or> 4 \<le> n \<and> (4 + length p \<le> n \<longrightarrow> aligned ps (n - (4 + length p))))"

text \<open>The bytes of the buffer that have not been parsed.\<close>

definition avail :: "demux \<Rightarrow> byte list" where
  "avail s = take (dx_length s - dx_offset s) (drop (dx_offset s) (dx_raw s))"

definition fits :: "demux \<Rightarrow> bool" where
  "fits s \<longleftrightarrow> dx_offset s \<le> dx_length s \<and> dx_length s \<le> max_buf_size \<and>
     length (dx_raw s) = max_buf_size"

lemma length_avail: "fits s \<Longrightarrow> length (avail s) = dx_length s - dx_offset s"
  by (auto simp: avail_def fits_def min_def)

lemma avail_prefix:
  assumes "avail s = x @ y"
  shows "\<exists>z. drop (dx_offset s) (dx_raw s) = x @ z"
proof -
  have "drop (dx_offset s) (dx_raw s) = avail s @ drop (dx_length s - dx_offset s) (drop (dx_offset s) (dx_raw s))"
    by (simp only: avail_def append_take_drop_id)
  then show ?thesis using assms by auto
qed

lemma avail_advance:
  assumes "avail s = x @ y" "same_input s t" "dx_offset t = dx_offset s + length x" "fits s"
  shows "avail t = y \<and> fits t"
proof -
  have len: "length x + length y = dx_length s - dx_offset s"
    using length_avail [OF assms(4)] assms(1) by simp
  have "avail t = drop (length x) (avail s)"
    using assms(2,3) by (simp add: avail_def same_input_def drop_take add.commute)
  then show ?thesis
    using assms len by (auto simp: fits_def same_input_def)
qed

text \<open>The three ways in which a pass of the loop begins: nothing left, a part of a frame, a whole frame.\<close>

lemma demux_loop_empty:
  assumes "avail s = []" "fits s"
  shows "demux_loop os s = Inr (False, s)"
proof -
  have "\<not> dx_offset s < dx_length s" using length_avail [OF assms(2)] assms(1) by simp
  then show ?thesis by (subst demux_loop.simps) simp
qed

lemma demux_loop_partial:
  assumes "demux_ok os s" "fits s" "emits p d" "avail s @ todo = rtp_frame p @ z"
    "4 \<le> length (avail s)" "length (avail s) < 4 + length p"
  shows "\<exists>s'. demux_loop os s = Inr (True, s') \<and> demux_ok os s' \<and> fits s' \<and> same_input s s' \<and>
    avail s' = avail s \<and> dx_streamer s' = dx_streamer s"
proof -
  have "take 4 (avail s @ todo) = frame_head p"
    using assms(4) by (simp add: rtp_frame_head [of p]) (simp add: frame_head_def)
  then have head: "take 4 (drop (dx_offset s) (dx_raw s)) = frame_head p"
    using assms(5) length_avail [OF assms(2)] by (simp add: avail_def min_def)
  have lens: "dx_offset s + 4 \<le> dx_length s" "dx_length s < dx_offset s + 4 + length p"
      "dx_length s \<le> max_buf_size"
    using assms(2,5,6) length_avail [OF assms(2)] by (auto simp: fits_def)
  obtain s' where s': "demux_step os s = Inr (False, s')" "demux_ok os s'" "same_input s s'"
      "dx_offset s' = dx_offset s" "dx_streamer s' = dx_streamer s"
    using demux_step_pending [OF assms(1,3) head lens] by blast
  moreover have "demux_loop os s = Inr (True, s')" using lens(1) s'(1) by (subst demux_loop.simps) simp
  moreover have "avail s' = avail s \<and> fits s'"
    using avail_advance [of s "[]" "avail s" s'] s' assms(2) by auto
  ultimately show ?thesis by blast
qed

lemma demux_loop_frame:
  assumes "demux_ok os s" "fits s" "emits p d" "avail s @ todo = rtp_frame p @ z"
    "4 + length p \<le> length (avail s)"
  shows "\<exists>t. demux_loop os s = demux_loop os t \<and> demux_ok os t \<and> fits t \<and> same_input s t \<and>
    length (avail s) = 4 + length p + length (avail t) \<and> avail t @ todo = z \<and>
    pipe_data (dx_streamer t) = pipe_data (dx_streamer s) @ d"
proof -
  define y where "y = drop (4 + length p) (avail s)"
  have "take (4 + length p) (avail s) = rtp_frame p" "y @ todo = z"
    using assms(4,5) unfolding y_def by (auto simp: append_eq_append_conv_if split: if_splits)
  then have y: "avail s = rtp_frame p @ y" "y @ todo = z"
    unfolding y_def by (metis append_take_drop_id, simp)
  obtain w where w: "drop (dx_offset s) (dx_raw s) = rtp_frame p @ w" using y(1) avail_prefix by blast
  have lens: "dx_offset s + 4 + length p \<le> dx_length s" "dx_length s \<le> max_buf_size"
    using assms(2,5) length_avail [OF assms(2)] by (auto simp: fits_def)
  obtain t where t: "demux_step os s = Inr (True, t)" "demux_ok os t" "same_input s t"
      "dx_offset t = dx_offset s + 4 + length p"
      "pipe_data (dx_streamer t) = pipe_data (dx_streamer s) @ d"
    using demux_step_rtp [OF assms(1,3) w lens] by blast
  have "avail t = y" "fits t" using avail_advance [OF y(1) t(3) _ assms(2)] t(4) by auto
  moreover have "demux_loop os s = demux_loop os t" using lens(1) t(1) by (subst demux_loop.simps) simp
  ultimately show ?thesis using t y by (intro exI [of _ t]) simp
qed

lemma demux_loop_run:
  assumes "list_all2 emits ps ds" "demux_ok os s" "fits s"
    "avail s @ todo = concat (map rtp_frame ps)" "aligned ps (length (avail s))"
  shows "\<exists>k pend s'. demux_loop os s = Inr (pend, s') \<and> demux_ok os s' \<and> fits s' \<and> same_input s s' \<and>
    avail s' @ todo = concat (map rtp_frame (drop k ps)) \<and>
    pipe_data (dx_streamer s') = pipe_data (dx_streamer s) @ concat (take k ds) \<and>
    (pend \<longleftrightarrow> avail s' \<noteq> []) \<and>
    (drop k ps \<noteq> [] \<longrightarrow> length (avail s') < 4 + length (hd (drop k ps))) \<and>
    (\<forall>n. aligned ps (length (avail s) + n) \<longrightarrow> aligned (drop k ps) (length (avail s') + n))"
  using assms
proof (induction arbitrary: s rule: list_all2_induct)
  case Nil
  then show ?case
    using demux_loop_empty [of s os] by (intro exI [of _ 0] exI [of _ False] exI [of _ s]) simp
next
  case (Cons p ps d ds)
  have todo: "avail s @ todo = rtp_frame p @ concat (map rtp_frame ps)" using Cons.prems(3) by simp
  consider "avail s = []" | "4 \<le> length (avail s)" "length (avail s) < 4 + length p"
    | "4 + length p \<le> length (avail s)" using Cons.prems(4) by force
  then show ?case
  proof cases
    case 1
    then show ?thesis using demux_loop_empty [OF 1 Cons.prems(2)] Cons.prems
      by (intro exI [of _ 0] exI [of _ False] exI [of _ s]) simp
  next
    case 2
    from demux_loop_partial [OF Cons.prems(1,2) Cons.hyps(1) todo 2] obtain s' where
      "demux_loop os s = Inr (True, s')" "demux_ok os s'" "fits s'" "same_input s s'"
      "avail s' = avail s" "dx_streamer s' = dx_streamer s" by blast
    then show ?thesis
      using Cons.prems 2 by (intro exI [of _ 0] exI [of _ True] exI [of _ s']) auto
  next
    case 3
    from demux_loop_frame [OF Cons.prems(1,2) Cons.hyps(1) todo 3] obtain t where
      t: "demux_loop os s = demux_loop os t" "demux_ok os t" "fits t" "same_input s t"
      "length (avail s) = 4 + length p + length (avail t)" "avail t @ todo = concat (map rtp_frame ps)"
      "pipe_data (dx_streamer t) = pipe_data (dx_streamer s) @ d" by blast
    have "aligned ps (length (avail t))" using Cons.prems(4) t(5) by simp
    from Cons.IH [OF t(2,3,6) this] obtain k pend s' where
      ih: "demux_loop os t = Inr (pend, s')" "demux_ok os s'" "fits s'" "same_input t s'"
      "avail s' @ todo = concat (map rtp_frame (drop k ps))"
      "pipe_data (dx_streamer s') = pipe_data (dx_streamer t) @ concat (take k ds)"
      "pend \<longleftrightarrow> avail s' \<noteq> []"
      "drop k ps \<noteq> [] \<longrightarrow> length (avail s') < 4 + length (hd (drop k ps))"
      "\<forall>n. aligned ps (length (avail t) + n) \<longrightarrow> aligned (drop k ps) (length (avail s') + n)"
      by auto
    have "aligned (drop (Suc k) (p # ps)) (length (avail s') + m)"
      if "aligned (p # ps) (length (avail s) + m)" for m
      using that ih(9) t(5) by (simp add: add.commute add.left_commute)
    then show ?thesis
      using ih t same_input_trans [OF t(4) ih(4)]
      by (intro exI [of _ "Suc k"] exI [of _ pend] exI [of _ s']) auto
  qed
qed

section \<open>Rounds\<close>

text \<open>
  Between two rounds: the bytes of the buffer and of the chunks to come are the frames of the
  packets \<open>ps\<close>, the first of which is not complete yet, and no chunk ends inside a header.
\<close>

definition streaming :: "rtsp_os \<Rightarrow> demux \<Rightarrow> byte list list \<Rightarrow> byte list list \<Rightarrow> bool" where
  "streaming os s cuts ps \<longleftrightarrow>
     demux_ok os s \<and> fits s \<and> conn_in (dx_conn s) = cuts \<and> [] \<notin> set cuts \<and>
     dx_length s + length (concat cuts) < max_buf_size \<and>
     avail s @ concat cuts = concat (map rtp_frame ps) \<and>
     (ps \<noteq> [] \<longrightarrow> length (avail s) < 4 + length (hd ps)) \<and>
     (\<forall>k \<le> length cuts. aligned ps (length (avail s) + length (concat (take k cuts))))"

lemma streaming_end: "streaming os s [] ps \<Longrightarrow> ps = []"
  by (cases ps) (auto simp: streaming_def)

lemma receive_chunk:
  fixes s :: demux and c :: "byte list" and conn :: rtsp_conn
  assumes "fits s" "dx_length s + length c \<le> max_buf_size"
  defines "t \<equiv> s\<lparr>dx_raw := overlay (dx_raw s) (dx_length s) c, dx_length := dx_length s + length c,
      dx_conn := conn\<rparr>"
  shows "avail t = avail s @ c" "fits t"
proof -
  let ?o = "dx_offset s" and ?l = "dx_length s"
  have len: "?o \<le> ?l" "?l + length c \<le> length (dx_raw s)" "length (dx_raw s) = max_buf_size"
    using assms(1,2) by (auto simp: fits_def)
  have "take (?l + length c) (overlay (dx_raw s) ?l c) = take ?l (dx_raw s) @ c"
    by (rule take_overlay) (use len in simp)
  from arg_cong [OF this, of "drop ?o"] show "avail t = avail s @ c"
    using len by (simp add: avail_def t_def drop_take)
  show "fits t" using assms(1,2) len by (simp add: fits_def t_def)
qed

lemma demux_round_run:
  assumes "streaming os s (c # cs) ps" "list_all2 emits ps ds"
  shows "\<exists>k s'. demux_round os s = Inr s' \<and> streaming os s' cs (drop k ps) \<and>
    pipe_data (dx_streamer s') = pipe_data (dx_streamer s) @ concat (take k ds)"
proof -
  have st: "demux_ok os s" "fits s" "conn_in (dx_conn s) = c # cs" "c \<noteq> []" "[] \<notin> set cs"
      "dx_length s + length c + length (concat cs) < max_buf_size"
      "(avail s @ c) @ concat cs = concat (map rtp_frame ps)"
    using assms(1) by (auto simp: streaming_def)
  have al: "aligned ps (length (avail s) + length (concat (take k (c # cs))))" if "k \<le> Suc (length cs)" for k
    using assms(1) that by (simp add: streaming_def)
  define t where "t = s\<lparr>dx_raw := overlay (dx_raw s) (dx_length s) c,
      dx_length := dx_length s + length c, dx_conn := (dx_conn s)\<lparr>conn_in := cs\<rparr>\<rparr>"
  have t: "avail t = avail s @ c" "fits t"
    using receive_chunk [OF st(2), of c] st(6) by (auto simp: t_def)
  have ok: "demux_ok os t" using st(1) by (simp add: t_def demux_ok_def)
  have al1: "aligned ps (length (avail t))" using al [of 1] t(1) by simp
  have eq: "avail t @ concat cs = concat (map rtp_frame ps)" using st(7) t(1) by simp
  from demux_loop_run [OF assms(2) ok t(2) eq al1] obtain k pend s' where s': "demux_loop os t = Inr (pend, s')" "demux_ok os s'" "fits s'"
      "same_input t s'" "avail s' @ concat cs = concat (map rtp_frame (drop k ps))"
      "pipe_data (dx_streamer s') = pipe_data (dx_streamer t) @ concat (take k ds)"
      "pend \<longleftrightarrow> avail s' \<noteq> []"
      "drop k ps \<noteq> [] \<longrightarrow> length (avail s') < 4 + length (hd (drop k ps))"
      "\<forall>n. aligned ps (length (avail t) + n) \<longrightarrow> aligned (drop k ps) (length (avail s') + n)"
    by blast
  have al': "aligned (drop k ps) (length (avail s') + length (concat (take j cs)))" if "j \<le> length cs" for j
    using al [of "Suc j"] that s'(9) t(1) by (simp add: add.assoc)
  have move: "demux_move s = Inr s" using st(6) by (simp add: demux_move_def)
  have recv: "recv_bytes (max_buf_size - dx_length s) (dx_conn s) = (c, (dx_conn s)\<lparr>conn_in := cs\<rparr>)"
    using st(3,6) by (simp add: recv_bytes_def)
  have wr: "wr_block (dx_raw s) (dx_length s) c = Inr (overlay (dx_raw s) (dx_length s) c)"
    using st(2,6) by (simp add: fits_def)
  have round: "demux_round os s = Inr (if pend then s' else demux_reset s')"
    by (simp add: demux_round_def move recv st(4) wr s'(1) flip: t_def)
  have conn: "conn_in (dx_conn s') = cs" "dx_length s' = dx_length s + length c"
      "pipe_data (dx_streamer t) = pipe_data (dx_streamer s)"
    using s'(4) by (simp_all add: same_input_def t_def)
  have reset: "avail (demux_reset s') = []" "fits (demux_reset s')"
    by (simp_all add: avail_def fits_def demux_reset_def)
  have "streaming os (if pend then s' else demux_reset s') cs (drop k ps)"
    using s' st(5,6) conn reset al' unfolding streaming_def
    by (auto simp: demux_ok_def demux_reset_def)
  moreover have "pipe_data (dx_streamer (if pend then s' else demux_reset s')) =
      pipe_data (dx_streamer s) @ concat (take k ds)"
    using s'(6) conn(3) by (simp add: demux_reset_def)
  ultimately show ?thesis using round by blast
qed

lemma demux_rounds_run:
  assumes "streaming os s cuts ps" "list_all2 emits ps ds"
  shows "\<exists>s'. demux_rounds os (length cuts) s = Inr s' \<and> streaming os s' [] [] \<and>
    pipe_data (dx_streamer s') = pipe_data (dx_streamer s) @ concat ds"
  using assms
proof (induction cuts arbitrary: s ps ds)
  case Nil
  then have "ps = []" by (blast dest: streaming_end)
  with Nil show ?case by simp
next
  case (Cons c cs)
  obtain k s1 where s1: "demux_round os s = Inr s1" "streaming os s1 cs (drop k ps)"
      "pipe_data (dx_streamer s1) = pipe_data (dx_streamer s) @ concat (take k ds)"
    using demux_round_run [OF Cons.prems] by blast
  have "list_all2 emits (drop k ps) (drop k ds)" using Cons.prems(2) by (rule list_all2_dropI)
  from Cons.IH [OF s1(2) this] s1 show ?case
    by (metis (no_types, lifting) append.assoc append_take_drop_id bind_res_Inr concat_append
        demux_rounds.simps(2) length_Cons)
qed

section \<open>Empty and split frames\<close>

text \<open>The four bytes of a frame without payload, at the beginning of the buffer.\<close>

definition stalled :: "byte \<Rightarrow> demux \<Rightarrow> bool" where
  "stalled ch s \<longleftrightarrow> fits s \<and> dx_offset s = 0 \<and> 4 \<le> dx_length s \<and>
     take 4 (dx_raw s) = [0x24, ch, 0, 0]"

lemma stalled_loop:
  assumes "stalled ch s"
  shows "demux_loop os s = Inr (True, s)"
proof -
  have len: "4 \<le> length (dx_raw s)" "dx_length s \<le> max_buf_size" "0 < dx_length s" "dx_offset s = 0"
    using assms by (auto simp: stalled_def fits_def)
  have nth: "rd (dx_raw s) k = Inr ([0x24, ch, 0, 0] ! k)" if "k < 4" for k
  proof -
    have "take 4 (dx_raw s) = [0x24, ch, 0, 0]" using assms by (simp add: stalled_def)
    from arg_cong [OF this, of "\<lambda>xs. xs ! k"] that len(1) show ?thesis by (simp add: rd_def)
  qed
  have "demux_step os s = Inr (False, s)"
    using nth [of 0] nth [of 1] nth [of 2] nth [of 2, unfolded numeral_2_eq_2] nth [of 3] len
    by (simp add: demux_step_def of_be16_def)
  then show ?thesis using len by (subst demux_loop.simps) simp
qed

definition received :: "byte list \<Rightarrow> byte list list \<Rightarrow> demux \<Rightarrow> demux" where
  "received c cs s = s\<lparr>dx_raw := overlay (dx_raw s) (dx_length s) c, dx_length := dx_length s + length c,
     dx_conn := (dx_conn s)\<lparr>conn_in := cs\<rparr>\<rparr>"

lemma demux_round_received:
  assumes "fits s" "conn_in (dx_conn s) = c # cs" "c \<noteq> []" "dx_length s + length c < max_buf_size"
  shows "demux_round os s = bind_res (demux_loop os (received c cs s)) (\<lambda>(pending, s).
    Inr (if pending then s else demux_reset s))"
proof -
  have "\<not> max_buf_size - dx_length s < length c" using assms(4) by simp
  then show ?thesis
    using assms by (simp add: demux_round_def demux_move_def recv_bytes_def Let_def received_def fits_def)
qed

lemma stalled_rounds:
  assumes "stalled ch s" "conn_in (dx_conn s) = cuts" "[] \<notin> set cuts"
    "dx_length s + length (concat cuts) < max_buf_size"
  shows "\<exists>s'. demux_rounds os (length cuts) s = Inr s' \<and> stalled ch s' \<and>
    dx_length s' = dx_length s + length (concat cuts) \<and> dx_streamer s' = dx_streamer s \<and>
    dx_stats s' = dx_stats s"
  using assms
proof (induction cuts arbitrary: s)
  case (Cons c cs)
  have len: "fits s" "4 \<le> dx_length s" "dx_length s + length c < max_buf_size" "c \<noteq> []"
    using Cons.prems by (auto simp: stalled_def)
  then have raw: "length (dx_raw s) = max_buf_size" by (simp add: fits_def)
  have "take 4 (overlay (dx_raw s) (dx_length s) c) = take 4 (dx_raw s)"
    using len raw by (intro take_overlay_before) auto
  then have t: "stalled ch (received c cs s)"
    using Cons.prems(1) receive_chunk(2) [OF len(1) less_imp_le [OF len(3)], of "(dx_conn s)\<lparr>conn_in := cs\<rparr>"]
    by (simp add: stalled_def received_def)
  have "demux_round os s = Inr (received c cs s)"
    using demux_round_received [OF len(1) Cons.prems(2) len(4,3)] stalled_loop [OF t] by simp
  moreover obtain s' where "demux_rounds os (length cs) (received c cs s) = Inr s'" "stalled ch s'"
      "dx_length s' = dx_length (received c cs s) + length (concat cs)"
      "dx_streamer s' = dx_streamer (received c cs s)" "dx_stats s' = dx_stats (received c cs s)"
    using Cons.IH [OF t] Cons.prems by (auto simp: received_def)
  ultimately show ?case by (auto simp: received_def)
qed simp

lemma emits_zeros:
  assumes "12 \<le> n" "n < 65536"
  shows "emits (replicate n 0) []"
proof -
  have "n - 12 \<le> MAX_BUF_SIZE" using assms by (simp add: MAX_BUF_SIZE_def)
  then have "padded (replicate (n - 12) 0) = replicate MAX_BUF_SIZE 0"
    by (simp add: padded_def flip: replicate_add)
  then have "rd (padded (replicate (n - 12) 0)) 0 = Inr 0"
    by (simp add: rd_def MAX_BUF_SIZE_def)
  then have "emits (replicate 12 0 @ replicate (n - 12) 0) []"
    using assms by (intro emitsI) (simp_all add: parse_nal_def nal_consts)
  then show ?thesis using assms by (simp flip: replicate_add)
qed

lemma demux_stream_run:
  assumes "list_all2 (fu_pkts 65535) pss nals" "pipe_accepts (os_pipe_write os)"
    "stats_ok (dx_stats s)" "last_rcv_SR_ts (dx_stats s) = 0"
    "concat (conn_in (dx_conn s)) = concat (map rtp_frame (concat pss))"
    "[] \<notin> set (conn_in (dx_conn s))" "length (concat (conn_in (dx_conn s))) < max_buf_size"
    "\<forall>k \<le> length (conn_in (dx_conn s)).
      aligned (concat pss) (length (concat (take k (conn_in (dx_conn s)))))"
  shows "\<exists>s'. demux_rounds os (length (conn_in (dx_conn s))) (demux_reset s) = Inr s' \<and>
    pipe_data (dx_streamer s') = pipe_data (dx_streamer s) @ annexb4 nals"
proof -
  obtain ds where ds: "list_all2 emits (concat pss) ds" "concat ds = annexb4 nals"
    using emits_fu_stream [OF assms(1)] by blast
  have "avail (demux_reset s) = []" "fits (demux_reset s)"
    by (simp_all add: avail_def fits_def demux_reset_def)
  then have "streaming os (demux_reset s) (conn_in (dx_conn s)) (concat pss)"
    using assms(2-) by (auto simp: streaming_def demux_ok_def demux_reset_def)
  from demux_rounds_run [OF this ds(1)] show ?thesis
    using ds(2) by (auto simp: demux_reset_def)
qed

section \<open>Properties\<close>

text \<open>
  C12: The packets of fragmented NAL units that are interleaved on channel 0, with their frame
  headers less than 1000000 bytes in all, so that the receive buffer does not fill up, put
  the units into the pipe, each behind a start code, in whatever pieces the bytes arrive, as
  long as no piece ends inside a 4-byte frame header.  The pipe takes what is written, no sender
  report has been received before, so that the reports that the client sends hold no delay, and the
  transit time of the statistics is not the one whose difference overflows (as in a new session).
\<close>

theorem demux_delivers:
  assumes "list_all2 (fu_pkts 65535) pss nals" "pipe_accepts (os_pipe_write os)"
    "stats_ok (dx_stats s)" "last_rcv_SR_ts (dx_stats s) = 0"
    "concat (conn_in (dx_conn s)) = concat (map rtp_frame (concat pss))"
    "[] \<notin> set (conn_in (dx_conn s))" "length (concat (conn_in (dx_conn s))) < max_buf_size"
    "\<forall>k \<le> length (conn_in (dx_conn s)).
      aligned (concat pss) (length (concat (take k (conn_in (dx_conn s)))))"
  shows "\<exists>s'. demux_rounds os (length (conn_in (dx_conn s))) (demux_reset s) = Inr s' \<and>
    pipe_data (dx_streamer s') = pipe_data (dx_streamer s) @ annexb4 nals"
  using assms by (rule demux_stream_run)

text \<open>
  C32: A frame without payload blocks the client: what arrives behind it is stored and never
  parsed.
\<close>

theorem demux_empty_frame_blocks:
  assumes "conn_in (dx_conn s) = ([0x24, ch, 0, 0] @ rest) # cuts" "[] \<notin> set cuts"
    "length (concat (conn_in (dx_conn s))) < max_buf_size"
  shows "\<exists>s'. demux_rounds os (length (conn_in (dx_conn s))) (demux_reset s) = Inr s' \<and>
    dx_length s' = length (concat (conn_in (dx_conn s))) \<and> dx_offset s' = 0 \<and>
    dx_streamer s' = dx_streamer s \<and> dx_stats s' = dx_stats s"
proof -
  let ?c = "[0x24, ch, 0, 0] @ rest" and ?r = "demux_reset s"
  have r: "fits ?r" "dx_length ?r = 0" "dx_conn ?r = dx_conn s" "dx_raw ?r = replicate max_buf_size 0"
    by (simp_all add: fits_def demux_reset_def)
  have len: "dx_length ?r + length ?c < max_buf_size" using assms(1,3) r(2) by simp
  have t: "stalled ch (received ?c cuts ?r)"
    using receive_chunk(2) [OF r(1) less_imp_le [OF len], of "(dx_conn ?r)\<lparr>conn_in := cuts\<rparr>"] r
    by (simp add: stalled_def received_def overlay_def demux_reset_def)
  have round: "demux_round os ?r = Inr (received ?c cuts ?r)"
    using demux_round_received [OF r(1) _ _ len, of cuts] r(3) assms(1) stalled_loop [OF t] by simp
  have "dx_length (received ?c cuts ?r) + length (concat cuts) < max_buf_size"
    using assms(1,3) r(2) by (simp add: received_def)
  from stalled_rounds [OF t _ assms(2) this, of os] obtain s' where s':
      "demux_rounds os (length cuts) (received ?c cuts ?r) = Inr s'" "stalled ch s'"
      "dx_length s' = dx_length (received ?c cuts ?r) + length (concat cuts)"
      "dx_streamer s' = dx_streamer (received ?c cuts ?r)" "dx_stats s' = dx_stats (received ?c cuts ?r)"
    by (auto simp: received_def)
  have "dx_length s' = length (concat (conn_in (dx_conn s)))" "dx_streamer s' = dx_streamer s"
    "dx_stats s' = dx_stats s"
    using s'(3-5) assms(1) r(2) by (simp_all add: received_def demux_reset_def)
  moreover have "dx_offset s' = 0" using s'(2) by (simp add: stalled_def)
  moreover have "demux_rounds os (length (conn_in (dx_conn s))) ?r = Inr s'"
    using s'(1) round assms(1) by simp
  ultimately show ?thesis by blast
qed

text \<open>
  When three bytes of a frame header arrive first, and the high byte of the length is not
  zero, the client takes the frame for complete, because the number of bytes left wraps around:
  the header is consumed, the buffer is reset and nothing reaches the stream, so what follows
  on the connection is not read as the payload.
\<close>

theorem demux_split_header:
  assumes "conn_in (dx_conn s) = [0x24, 0, hi] # cuts" "hi \<noteq> 0" "demux_ok os s"
  shows "\<exists>s'. demux_round os (demux_reset s) = Inr s' \<and> dx_length s' = 0 \<and> dx_offset s' = 0 \<and>
    conn_in (dx_conn s') = cuts \<and> pipe_data (dx_streamer s') = pipe_data (dx_streamer s)"
proof -
  let ?r = "demux_reset s" and ?c = "[0x24, 0, hi]"
  have r: "fits ?r" "dx_length ?r = 0" "dx_conn ?r = dx_conn s"
    by (simp_all add: fits_def demux_reset_def)
  have round: "demux_round os ?r = bind_res (demux_loop os (received ?c cuts ?r)) (\<lambda>(pending, s).
      Inr (if pending then s else demux_reset s))"
    using demux_round_received [OF r(1), of ?c cuts os] r assms(1) by (simp add: max_buf_size_def)
  define t where "t = received ?c cuts ?r"
  have t: "dx_raw t = [0x24, 0, hi] @ replicate (max_buf_size - 3) 0" "dx_length t = 3"
      "dx_offset t = 0" "conn_in (dx_conn t) = cuts" "dx_streamer t = dx_streamer s" "demux_ok os t"
    using assms(3) by (simp_all add: t_def received_def demux_reset_def overlay_def demux_ok_def)
  define n where "n = 256 * unat hi"
  have hi: "0 < unat hi" "unat hi < 256" using assms(2) unsigned_less [of hi] by (auto simp: unat_gt_0)
  then have n: "12 \<le> n" "n < 65536" "unat (of_be16 hi 0) = n" by (auto simp: n_def unat_of_be16)
  obtain t2 where t2: "(if rtp_received (dx_stats t) mod 20 \<noteq> 0 then send_reports os t else Inr t) = Inr t2"
      "demux_ok os t2" "same_input t t2" "dx_streamer t2 = dx_streamer t"
    using maybe_reports_run [OF t(6)] by blast
  have "drop 4 (dx_raw t2) = replicate n 0 @ replicate (max_buf_size - 4 - n) 0"
    using t2(3) n(2) by (simp add: same_input_def t(1) max_buf_size_def flip: replicate_add)
  from demux_rtp_run [OF t2(2) emits_zeros [OF n(1,2)] this]
  obtain s1 where s1: "demux_rtp os 4 n t2 = Inr s1" "same_input t2 s1" "dx_offset s1 = 4 + n"
      "pipe_data (dx_streamer s1) = pipe_data (dx_streamer t2)" by auto
  have fr: "demux_frame os 0 4 n t = Inr s1"
    unfolding demux_frame_def t2(1) using s1(1) by simp
  have "unat (of_nat 3 - of_nat (0 + 4) :: u32) = 2 ^ 32 - 1"
    by (simp add: unsigned_minus_1_eq_mask mask_eq_exp_minus_1)
  then have step: "demux_step os t = Inr (True, s1)"
    using n t(1-3) fr by (auto simp: demux_step_def max_buf_size_def rd_def nth_append)
  have "demux_loop os t = demux_loop os s1"
    using step t(2,3) by (subst demux_loop.simps) simp
  also have "\<dots> = Inr (False, s1)"
    using s1(2,3) t2(3) t(2) by (subst demux_loop.simps) (simp add: same_input_def)
  finally have "demux_round os ?r = Inr (demux_reset s1)" using round by (simp add: t_def)
  moreover have "conn_in (dx_conn s1) = cuts" using s1(2) t2(3) t(4) by (simp add: same_input_def)
  ultimately show ?thesis
    using s1(4) t2(4) t(5) by (auto simp: demux_reset_def)
qed

section \<open>Instances\<close>

definition sample_os :: rtsp_os where
  "sample_os =
     \<lparr>os_connect = (\<lambda>h p. 3), os_clock = (\<lambda>k. sample_time),
      os_pipe_write = (\<lambda>k n. n), os_pkgs = replicate 16 blank_pkg, os_mem = (\<lambda>k. True),
      os_in0 = [0, 0, 0, 0], os_block0 = [0, 0, 0, 0], os_open = (\<lambda>f. 5),
      os_unix_sock = (\<lambda>f. Inr 6), os_pipe = 0, os_pipe_max = None, os_setsize = (\<lambda>b. 0)\<rparr>"

definition sample_demux :: "byte list list \<Rightarrow> demux" where
  "sample_demux cuts =
     \<lparr>dx_raw = [], dx_length = 0, dx_offset = 0, dx_send_rtcp = False, dx_ticks = 0,
      dx_stats = rtp_stats_reset, dx_streamer = sample_streamer,
      dx_conn = \<lparr>conn_in = cuts, conn_out = []\<rparr>\<rparr>"

lemma sample_demux_ok: "demux_ok sample_os (sample_demux cuts)"
  by (simp add: demux_ok_def sample_os_def sample_demux_def pipe_accepts_def rtp_stats_reset_def
      stats_ok_def)

theorem demux_empty_frame_blocks_witness:
  "\<exists>s'. demux_rounds sample_os 2 (demux_reset (sample_demux [[0x24, 0, 0, 0], rtp_frame (replicate 20 1)])) =
      Inr s' \<and> dx_offset s' = 0 \<and> dx_length s' = 28 \<and> dx_streamer s' = sample_streamer"
  using demux_empty_frame_blocks [of "sample_demux [[0x24, 0, 0, 0], rtp_frame (replicate 20 1)]" 0 "[]"
      "[rtp_frame (replicate 20 1)]" sample_os]
  by (auto simp: sample_demux_def max_buf_size_def numeral_2_eq_2 rtp_frame_not_Nil [symmetric])

theorem demux_split_header_witness:
  "\<exists>s'. demux_round sample_os (demux_reset (sample_demux [[0x24, 0, 1], [0]])) = Inr s' \<and>
     dx_length s' = 0 \<and> conn_in (dx_conn s') = [[0]]"
  using demux_split_header [of "sample_demux [[0x24, 0, 1], [0]]" 1 "[[0]]" sample_os] sample_demux_ok
  by (auto simp: sample_demux_def)

definition sample_packets :: "byte list list" where
  "sample_packets = [replicate 12 0 @ [0x7C, 0x85, 1, 2], replicate 12 0 @ [0x7C, 0x45, 3]]"

lemma sample_packets_fu: "fu_pkts 65535 sample_packets [0x65, 1, 2, 3]"
proof -
  have "fu_cont_pkts 65535 [replicate 12 0 @ [0x7C, 0x45, 3]] [3]"
    using fc_Cons [of "replicate 12 0" "0x7C" "0x45" "[3]" 65535 "[]" "[]"]
    by (simp add: nal_type_def fc_Nil)
  then show ?thesis
    using fu_start [of "replicate 12 0" "0x7C" "0x85" "[1, 2]" 65535
        "[replicate 12 0 @ [0x7C, 0x45, 3]]" "[3]"]
    by (simp add: nal_type_def nal_f_def fu_nal_header_def sample_packets_def)
qed

text \<open>Two packets in three pieces, the first of which ends inside the first packet.\<close>

definition sample_cuts :: "byte list list" where
  "sample_cuts =
     (let bs = concat (map rtp_frame sample_packets)
      in [take 9 bs, take 21 (drop 9 bs), drop 30 bs])"

theorem demux_delivers_witness:
  "\<exists>s'. demux_rounds sample_os 3 (demux_reset (sample_demux sample_cuts)) = Inr s' \<and>
     pipe_data (dx_streamer s') = [0, 0, 0, 1, 0x65, 1, 2, 3]"
proof -
  let ?s = "sample_demux sample_cuts"
  have conn: "conn_in (dx_conn ?s) = sample_cuts" by (simp add: sample_demux_def)
  have cuts: "length sample_cuts = 3" "[] \<notin> set sample_cuts" "length (concat sample_cuts) = 39"
      "concat sample_cuts = concat (map rtp_frame (concat [sample_packets]))"
    by code_simp+
  have "\<forall>k \<in> set [0..<4]. aligned (concat [sample_packets]) (length (concat (take k sample_cuts)))"
    by code_simp
  then have al: "\<forall>k \<le> 3. aligned (concat [sample_packets]) (length (concat (take k sample_cuts)))"
    by simp
  have "pipe_accepts (os_pipe_write sample_os)" "stats_ok (dx_stats ?s)" "last_rcv_SR_ts (dx_stats ?s) = 0"
    using sample_demux_ok [of sample_cuts] by (simp_all add: demux_ok_def)
  then show ?thesis
    using demux_delivers [of "[sample_packets]" "[[0x65, 1, 2, 3]]" sample_os ?s] sample_packets_fu
      conn cuts al
    by (simp add: max_buf_size_def) (simp add: sample_demux_def sample_streamer_def)
qed

end
