(* ===== verification/H264decRun.thy ===== *)
theory H264decRun
  imports RtspDemux
begin

text \<open>
  A whole session of the program \<^verbatim>\<open>h264dec\<close>: the options, the connection, the four commands with
  the answers of the server, the parameter sets of the description, the files and the pipe of the
  streamer, and then the interleaved stream.
\<close>

section \<open>What is sent\<close>

text \<open>The demultiplexer only appends to what has been sent on the control connection.\<close>

definition sends_more :: "demux \<Rightarrow> demux \<Rightarrow> bool" where
  "sends_more s s' \<longleftrightarrow> (\<exists>t. conn_out (dx_conn s') = conn_out (dx_conn s) @ t)"

lemma sends_more_refl [simp]: "sends_more s s"
  by (simp add: sends_more_def)

lemma sends_more_trans: "sends_more s t \<Longrightarrow> sends_more t u \<Longrightarrow> sends_more s u"
  by (auto simp: sends_more_def)

lemma sends_more_conn: "conn_out (dx_conn s') = conn_out (dx_conn s) \<Longrightarrow> sends_more s s'"
  by (simp add: sends_more_def)

lemma rtsp_rtcp_reports_out:
  "rtsp_rtcp_reports now st out = Inr (st', out') \<Longrightarrow> \<exists>t. out' = out @ t"
  by (auto simp: rtsp_rtcp_reports_def rtcp_receiver_report_def rtcp_receiver_desc_def rtsp_header_def
      net_send8_def net_send16_def net_send32_def Let_def bind_res_eq_Inr)

lemma send_reports_out: "send_reports os s = Inr s' \<Longrightarrow> sends_more s s'"
  by (auto simp: send_reports_def bind_res_eq_Inr sends_more_def dest: rtsp_rtcp_reports_out)

lemma demux_frame_out:
  assumes "demux_frame os ch off len s = Inr s'"
  shows "sends_more s s'"
proof -
  obtain t where t: "(if rtp_received (dx_stats s) mod 20 \<noteq> 0 then send_reports os s else Inr s) = Inr t"
      "(if ch \<ge> 1 then demux_rtcp os off len t else demux_rtp os off len t) = Inr s'"
    using assms by (auto simp: demux_frame_def bind_res_eq_Inr)
  have "sends_more s t" using t(1) by (auto dest: send_reports_out split: if_splits)
  moreover have "dx_conn s' = dx_conn t"
    using t(2) by (auto simp: demux_rtcp_def demux_rtp_def bind_res_eq_Inr Let_def split: if_splits)
  ultimately show ?thesis by (simp add: sends_more_def)
qed

lemma demux_step_out: "demux_step os s = Inr (goes_on, s') \<Longrightarrow> sends_more s s'"
  by (auto simp: demux_step_def Let_def bind_res_eq_Inr sends_more_conn split: if_splits
      dest!: send_reports_out demux_frame_out)
     (auto simp: sends_more_def)

lemma demux_loop_out: "demux_loop os s = Inr (pend, s') \<Longrightarrow> sends_more s s'"
proof (induction os s rule: demux_loop.induct)
  case (1 os s)
  show ?case
  proof (cases "dx_offset s < dx_length s")
    case True
    then obtain goes_on t where t: "demux_step os s = Inr (goes_on, t)"
      using 1(2) by (subst (asm) demux_loop.simps) (auto split: sum.splits)
    have "sends_more t s'"
      using 1(1) [OF True t] 1(2) True t
      by (subst (asm) (2) demux_loop.simps) (auto split: if_splits)
    then show ?thesis using demux_step_out [OF t] sends_more_trans by blast
  next
    case False
    then show ?thesis using 1(2) by (subst (asm) demux_loop.simps) simp
  qed
qed

lemma demux_move_out: "demux_move s = Inr s' \<Longrightarrow> sends_more s s'"
  by (auto simp: demux_move_def bind_res_eq_Inr sends_more_conn split: if_splits)

lemma demux_round_out:
  assumes "demux_round os s = Inr s'"
  shows "sends_more s s'"
proof -
  obtain t where t: "demux_move s = Inr t" using assms by (auto simp: demux_round_def bind_res_eq_Inr)
  obtain d c where d: "recv_bytes (max_buf_size - dx_length t) (dx_conn t) = (d, c)" by fastforce
  have c: "conn_out c = conn_out (dx_conn t)"
    using d by (auto simp: recv_bytes_def split: list.splits)
  obtain raw pend u where u:
      "demux_loop os (t\<lparr>dx_raw := raw, dx_length := dx_length t + length d, dx_conn := c\<rparr>) = Inr (pend, u)"
      "s' = (if pend then u else demux_reset u)"
    using assms by (auto simp: demux_round_def t d bind_res_eq_Inr Let_def split: if_splits)
  have "sends_more t u" using demux_loop_out [OF u(1)] c by (simp add: sends_more_def)
  then have "sends_more t s'" using u(2) by (auto simp: sends_more_def demux_reset_def)
  then show ?thesis using demux_move_out [OF t] sends_more_trans by blast
qed

lemma demux_rounds_out: "demux_rounds os n s = Inr s' \<Longrightarrow> sends_more s s'"
  by (induction n arbitrary: s)
     (auto simp: bind_res_eq_Inr intro: sends_more_trans dest: demux_round_out)

section \<open>The server and the system\<close>

definition session_os :: "rtsp_os \<Rightarrow> string \<Rightarrow> bool" where
  "session_os os host \<longleftrightarrow>
     0 < os_connect os host 554 \<and> pipe_accepts (os_pipe_write os) \<and> (\<forall>k. os_mem os k) \<and>
     length (os_in0 os) = 4 \<and> length (os_block0 os) = 4 \<and> (\<forall>f. 0 < os_open os f) \<and>
     (\<forall>f. \<exists>fd. os_unix_sock os f = Inr fd \<and> 0 < fd) \<and> os_pipe os = 0 \<and>
     (\<forall>m. os_pipe_max os = Some m \<longrightarrow> m \<noteq> [] \<and> os_setsize os (take 64 m) \<noteq> -1)"

definition stream_url :: "string \<Rightarrow> string \<Rightarrow> string" where
  "stream_url host path = ''rtsp://'' @ host @ ''/'' @ path"

definition url_ok :: "string \<Rightarrow> string \<Rightarrow> bool" where
  "url_ok host path \<longleftrightarrow> host \<noteq> [] \<and> CHR '':'' \<notin> set (host @ path) \<and> CHR ''/'' \<notin> set host \<and>
     length (stream_url host path) \<le> 3900"

text \<open>The answers that carry something; an answer has to fit the buffer.\<close>

definition reply_ok :: "string \<Rightarrow> bool" where
  "reply_ok r \<longleftrightarrow> length r \<le> 4095 \<and> NUL \<notin> set r"

definition describe_reply :: "string \<Rightarrow> string \<Rightarrow> string \<Rightarrow> string \<Rightarrow> string" where
  "describe_reply hs sdp v rest = ok_line @ hs @ crlf @ crlf @ sdp @ RTP_SPROP @ v @ CR # rest"

definition describe_reply_ok :: "string \<Rightarrow> string \<Rightarrow> string \<Rightarrow> string \<Rightarrow> bool" where
  "describe_reply_ok hs sdp v rest \<longleftrightarrow> reply_ok (describe_reply hs sdp v rest) \<and>
     strstr (ok_line @ hs @ butlast (crlf @ crlf)) (crlf @ crlf) = None \<and>
     strstr (sdp @ butlast RTP_SPROP) RTP_SPROP = None \<and> CR \<notin> set v"

definition setup_reply :: "string \<Rightarrow> nat \<Rightarrow> string \<Rightarrow> string" where
  "setup_reply hs n rest = ok_line @ hs @ SETUP_SESSION @ dec_nat n @ CR # rest"

definition setup_reply_ok :: "string \<Rightarrow> nat \<Rightarrow> string \<Rightarrow> bool" where
  "setup_reply_ok hs n rest \<longleftrightarrow> reply_ok (setup_reply hs n rest) \<and> n < 10 ^ 15 \<and>
     strstr (ok_line @ hs @ butlast SETUP_SESSION) SETUP_SESSION = None \<and>
     strstr (setup_reply hs n rest) ''Transport: '' \<noteq> None"

definition session_requests :: "string \<Rightarrow> string \<Rightarrow> nat \<Rightarrow> string" where
  "session_requests host stream n =
     CMD_OPTIONS host 554 0 @ CMD_DESCRIBE stream 1 @ CMD_SETUP stream 2 @ CMD_PLAY stream 3 (of_nat n)"

text \<open>A parameter set in Base64, without a comma.\<close>

definition param_text :: "string \<Rightarrow> byte list \<Rightarrow> bool" where
  "param_text t d \<longleftrightarrow> filter in_alphabet (text_bytes t) = base64_encode d \<and> CHR '','' \<notin> set t"

section \<open>Step by step\<close>

lemma strchr_None: "c \<notin> set s \<Longrightarrow> strchr s c = None"
  by (simp add: strchr_None_iff)

lemma rtsp_connect_url:
  assumes "url_ok host path" "stream_port g = 554"
  shows "rtsp_connect connect (stream_url host path) g =
    Inr (connect host 554, g\<lparr>stream_host := Some host\<rparr>)"
proof -
  let ?r = "host @ ''/'' @ path"
  have rest: "drop 7 (stream_url host path) = ?r" "drop 8 (stream_url host path) = tl host @ ''/'' @ path"
    using assms(1) by (cases host; simp add: stream_url_def url_ok_def numeral_eq_Suc)+
  have colon: "CHR '':'' \<notin> set ?r" "CHR '':'' \<notin> set (tl host @ ''/'' @ path)"
    using assms(1) by (auto simp: url_ok_def dest: list.set_sel(2) [rotated])
  have "strchr (host @ CHR ''/'' # path) (CHR ''/'') = Some (length host)"
    by (rule strchr_append) (use assms(1) in \<open>simp add: url_ok_def\<close>)
  then have part: "stream_host_part (stream_url host path) = Some host"
    using rest(1) strchr_None [OF colon(1)] by (simp add: stream_host_part_def)
  show ?thesis
    using assms(2) rest(2) strchr_None [OF colon(2)] by (simp add: rtsp_connect_def part)
qed

lemma decode_param_run:
  assumes "session_os os host" "param_text t d"
  shows "\<exists>out. decode_param os t = Inr (Some out, length d) \<and> take (length d) out = d"
proof -
  have "\<exists>out. base64_decode (os_mem os) (os_in0 os) (os_block0 os) (text_bytes t) (length (text_bytes t)) =
      Inr (Some (out, length d)) \<and> take (length d) out = d"
    by (rule base64_decode_encoded) (use assms in \<open>simp_all add: session_os_def param_text_def\<close>)
  then show ?thesis by (auto simp: decode_param_def)
qed

lemma read_opt_run: "take n out = d \<Longrightarrow> length d = n \<Longrightarrow> read_opt (Some out) n = Inr d"
  by (auto simp: read_opt_def rd_block_def)

lemma streamer_pipe_init_run:
  assumes "session_os os host"
  shows "\<exists>r. streamer_pipe_init (os_pipe os) (os_pipe_max os) (os_setsize os) = Inr r"
  using assms by (cases "os_pipe_max os") (auto simp: streamer_pipe_init_def session_os_def)

lemma start_stream_run:
  assumes "session_os os host" "param_text t1 sps" "param_text t2 pps" "opt_name g = Some name"
  shows "\<exists>st. start_stream os None NUL (t1 @ '','' @ t2) g session c =
    Inr \<lparr>dx_raw = replicate max_buf_size 0, dx_length = 0, dx_offset = 0, dx_send_rtcp = False,
      dx_ticks = 0, dx_stats = rtp_stats_reset\<lparr>rtp_identifier := ucast session\<rparr>,
      dx_streamer = st, dx_conn = c\<rparr> \<and> pipe_data st = []"
proof -
  obtain o1 where o1: "decode_param os t1 = Inr (Some o1, length sps)" "take (length sps) o1 = sps"
    using decode_param_run [OF assms(1,2)] by blast
  obtain o2 where o2: "decode_param os t2 = Inr (Some o2, length pps)" "take (length pps) o2 = pps"
    using decode_param_run [OF assms(1,3)] by blast
  have "strchr (t1 @ CHR '','' # t2) (CHR '','') = Some (length t1)"
    by (rule strchr_append) (use assms(2) in \<open>simp add: param_text_def\<close>)
  then have sp: "split_params (t1 @ CHR '','' # t2) NUL = Inr (t1, t2)"
    by (simp add: split_params_def)
  obtain r where r: "streamer_pipe_init (os_pipe os) (os_pipe_max os) (os_setsize os) = Inr r"
    using streamer_pipe_init_run [OF assms(1)] by blast
  have os: "0 < os_open os f" "\<exists>fd. os_unix_sock os f = Inr fd \<and> 0 < fd" for f
    using assms(1) by (simp_all add: session_os_def)
  note rd = read_opt_run [OF o1(2) refl] read_opt_run [OF o2(2) refl]
  have prep: "\<exists>files fd. streamer_prepare (os_open os) (os_unix_sock os) name (Some o1) (length sps) (Some o2)
      (length pps) (\<lambda>_. None) = Inr (files, fd) \<and> 0 < fd"
    using os(1) [of "take 127 (''/tmp/'' @ name @ ''.h264s.meta'')"]
      os(2) [of "take 127 (''/tmp/'' @ name @ ''.h264s.sock'')"]
    by (auto simp: streamer_prepare_def rd Let_def)
  then obtain files fd where "streamer_prepare (os_open os) (os_unix_sock os) name (Some o1) (length sps)
      (Some o2) (length pps) (\<lambda>_. None) = Inr (files, fd)" "0 < fd" by blast
  then show ?thesis
    by (simp add: start_stream_def sp o1(1) o2(1) streamer_write_h264_header_def rd assms(4) r write_fs_def)
qed

section \<open>The session\<close>

lemma dec_int_digits: "dec_int 0 = ''0''" "dec_int 1 = ''1''" "dec_int 2 = ''2''" "dec_int 3 = ''3''"
  by code_simp+

lemma dec_nat_554: "dec_nat 554 = ''554''"
  by code_simp

lemma request_lengths:
  assumes "url_ok host path" "n < 10 ^ 15"
  shows "length (CMD_OPTIONS host 554 0) \<le> 4095" "length (CMD_DESCRIBE (stream_url host path) 1) \<le> 4095"
    "length (CMD_SETUP (stream_url host path) 2) \<le> 4095"
    "length (CMD_PLAY (stream_url host path) 3 (of_nat n)) \<le> 4095"
proof -
  have len: "length (stream_url host path) \<le> 3900" "length host \<le> length (stream_url host path)"
    using assms(1) by (simp_all add: url_ok_def stream_url_def)
  have "unat (of_nat n :: u64) = n"
    using assms(2) by (simp add: unsigned_of_nat take_bit_nat_eq_self)
  moreover have "length (dec_nat n) \<le> 15" using assms(2) by (intro length_dec_nat) auto
  ultimately show "length (CMD_OPTIONS host 554 0) \<le> 4095" "length (CMD_DESCRIBE (stream_url host path) 1) \<le> 4095"
    "length (CMD_SETUP (stream_url host path) 2) \<le> 4095"
    "length (CMD_PLAY (stream_url host path) 3 (of_nat n)) \<le> 4095"
    using len by (simp_all add: CMD_OPTIONS_def CMD_DESCRIBE_def CMD_SETUP_def CMD_PLAY_def dec_int_digits
        dec_nat_554 crlf_def)
qed

lemma answers_next:
  assumes "conn_in c = text_bytes r # ds" "reply_ok r" "r \<noteq> []"
  shows "answers c r \<and> conn_in (after_exchange req c) = ds \<and>
    conn_out (after_exchange req c) = conn_out c @ text_bytes req"
  using assms by (simp add: answers_def after_exchange_def reply_ok_def)

lemma ok_line_not_Nil [simp]: "ok_line \<noteq> []"
  by (simp add: ok_line_def)

lemma text_bytes_append: "text_bytes (s @ t) = text_bytes s @ text_bytes t"
  by (simp add: text_bytes_def)

text \<open>The commands, from the first one to the beginning of the stream.\<close>

definition handshake_replies :: "string \<Rightarrow> string \<Rightarrow> string \<Rightarrow> string \<Rightarrow> byte list list" where
  "handshake_replies r1 r2 r3 r4 = map text_bytes [ok_line @ r1, r2, r3, ok_line @ r4]"

lemma handshake_answers:
  fixes q1 q2 q3 q4 :: string and c :: rtsp_conn
  assumes "conn_in c = text_bytes r1 # text_bytes r2 # text_bytes r3 # text_bytes r4 # cuts"
    "reply_ok r1" "reply_ok r2" "reply_ok r3" "reply_ok r4" "r1 \<noteq> []" "r2 \<noteq> []" "r3 \<noteq> []" "r4 \<noteq> []"
  defines "c1 \<equiv> after_exchange q1 c"
  defines "c2 \<equiv> after_exchange q2 c1"
  defines "c3 \<equiv> after_exchange q3 c2"
  defines "c4 \<equiv> after_exchange q4 c3"
  shows "answers c r1" "answers c1 r2" "answers c2 r3" "answers c3 r4" "conn_in c4 = cuts"
    "conn_out c4 = conn_out c @ text_bytes (q1 @ q2 @ q3 @ q4)"
proof -
  note a1 = answers_next [OF assms(1,2,6), of q1, folded c1_def]
  note a2 = answers_next [OF conjunct1 [OF conjunct2 [OF a1]] assms(3,7), of q2, folded c2_def]
  note a3 = answers_next [OF conjunct1 [OF conjunct2 [OF a2]] assms(4,8), of q3, folded c3_def]
  note a4 = answers_next [OF conjunct1 [OF conjunct2 [OF a3]] assms(5,9), of q4, folded c4_def]
  show "answers c r1" "answers c1 r2" "answers c2 r3" "answers c3 r4" "conn_in c4 = cuts"
    "conn_out c4 = conn_out c @ text_bytes (q1 @ q2 @ q3 @ q4)"
    using a1 a2 a3 a4 by (simp_all add: text_bytes_append)
qed

text \<open>The four commands, each on the variables that the one before it leaves.\<close>

lemma handshake_commands:
  assumes g: "rtsp_cseq g = 0" "\<not> opt_verbose g" "stream_host g = Some host" "stream_port g = 554"
    and replies: "describe_reply_ok hs sdp v rest" "setup_reply_ok hs3 n rest3"
    and ans: "answers c (ok_line @ r1)" "answers c1 (describe_reply hs sdp v rest)"
      "answers c2 (setup_reply hs3 n rest3)" "answers c3 (ok_line @ r4)"
    and cs: "c1 = after_exchange (CMD_OPTIONS host 554 0) c" "c2 = after_exchange (CMD_DESCRIBE url 1) c1"
      "c3 = after_exchange (CMD_SETUP url 2) c2" "c4 = after_exchange (CMD_PLAY url 3 (of_nat n)) c3"
    and len: "length (CMD_OPTIONS host 554 0) \<le> 4095" "length (CMD_DESCRIBE url 1) \<le> 4095"
      "length (CMD_SETUP url 2) \<le> 4095" "length (CMD_PLAY url 3 (of_nat n)) \<le> 4095"
  shows "\<exists>g2 g3 session g4 g5.
    rtsp_cmd_options g c = Inr (0, g2, c1) \<and>
    rtsp_cmd_describe url g2 c1 = Inr (0, Some v, g3, c2) \<and>
    rtsp_cmd_setup url session0 g3 c2 = Inr (0, session, g4, c3) \<and> session_id session = of_nat n \<and>
    rtsp_cmd_play url (of_nat n) g4 c3 = Inr (0, g5, c4) \<and>
    opt_name g5 = opt_name g \<and> rtsp_cseq g5 = 4"
proof -
  define g2 where "g2 = g\<lparr>rtsp_cseq := 1\<rparr>"
  define g3 where "g3 = g2\<lparr>rtsp_cseq := 2, dsp := Some (sdp @ RTP_SPROP @ v @ CR # rest)\<rparr>"
  define g4 where "g4 = g3\<lparr>rtsp_cseq := 3\<rparr>"
  define g5 where "g5 = g4\<lparr>rtsp_cseq := 4\<rparr>"
  note gs = g2_def g3_def g4_def g5_def
  have options: "rtsp_cmd_options g c = Inr (0, g2, c1)"
    using rtsp_cmd_options_run [of c r1 g host] ans(1) g len(1) by (simp add: g2_def cs(1))
  have describe: "rtsp_cmd_describe url g2 c1 = Inr (0, Some v, g3, c2)"
    using rtsp_cmd_describe_run [of c1 hs sdp v rest url g2] ans(2) replies(1) len(2) g(2)
    by (simp add: describe_reply_def describe_reply_ok_def g2_def g3_def cs(2))
  have digits: "CR \<notin> set (dec_nat n)" using isdigit_dec_nat [of n] isdigit_not by blast
  have n: "n < 10 ^ 15" using replies(2) by (simp add: setup_reply_ok_def)
  have "\<exists>session. rtsp_cmd_setup url session0 g3 c2 = Inr (0, session, g4, c3) \<and> session_id session = of_nat n"
    using rtsp_cmd_setup_run [of c2 hs3 "dec_nat n" rest3 url g3 session0] ans(3) replies(2) digits len(3) g(2) n
    by (simp add: setup_reply_def setup_reply_ok_def g2_def g3_def g4_def cs(3))
  then obtain session where "rtsp_cmd_setup url session0 g3 c2 = Inr (0, session, g4, c3)"
    "session_id session = of_nat n" by blast
  moreover have "rtsp_cmd_play url (of_nat n) g4 c3 = Inr (0, g5, c4)"
    using rtsp_cmd_play_run [of c3 r4 url g4 "of_nat n"] ans(4) len(4) g(2) by (simp add: gs cs(4))
  moreover have "opt_name g5 = opt_name g" "rtsp_cseq g5 = 4" by (simp_all add: gs)
  ultimately show ?thesis using options describe by blast
qed

lemma rtsp_loop_run:
  assumes os: "session_os os host" and url: "url_ok host path"
    and g: "stream_port g = 554" "rtsp_cseq g = 0" "\<not> opt_verbose g" "opt_name g = Some name"
    and replies: "reply_ok (ok_line @ r1)" "describe_reply_ok hs sdp (t1 @ '','' @ t2) rest"
      "setup_reply_ok hs3 n rest3" "reply_ok (ok_line @ r4)"
    and params: "param_text t1 sps" "param_text t2 pps"
    and conn: "conn_in c = handshake_replies r1 (describe_reply hs sdp (t1 @ '','' @ t2) rest)
        (setup_reply hs3 n rest3) r4 @ cuts"
  shows "\<exists>g' s. rtsp_loop os None NUL session0 (stream_url host path) rounds g c =
      bind_res (demux_rounds os rounds s) (\<lambda>s. Inr (Inr (g', s))) \<and>
    conn_in (dx_conn s) = cuts \<and>
    conn_out (dx_conn s) = conn_out c @ text_bytes (session_requests host (stream_url host path) n) \<and>
    s = demux_reset s \<and> demux_ok os s \<and> pipe_data (dx_streamer s) = [] \<and> rtsp_cseq g' = 4"
proof -
  let ?url = "stream_url host path" and ?v = "t1 @ '','' @ t2"
  let ?r2 = "describe_reply hs sdp ?v rest" and ?r3 = "setup_reply hs3 n rest3"
  have n: "n < 10 ^ 15" using replies(3) by (simp add: setup_reply_ok_def)
  define g1 where "g1 = g\<lparr>stream_host := Some host\<rparr>"
  have g1: "rtsp_cseq g1 = 0" "\<not> opt_verbose g1" "stream_host g1 = Some host" "stream_port g1 = 554"
    using g by (simp_all add: g1_def)
  have connect: "rtsp_connect (os_connect os) ?url g = Inr (os_connect os host 554, g1)"
    by (simp add: rtsp_connect_url [OF url g(1)] g1_def)
  have ok: "reply_ok ?r2" "reply_ok ?r3" "ok_line @ r1 \<noteq> []" "?r2 \<noteq> []" "?r3 \<noteq> []" "ok_line @ r4 \<noteq> []"
    using replies(2,3) by (simp_all add: describe_reply_ok_def setup_reply_ok_def describe_reply_def setup_reply_def)
  have "conn_in c = text_bytes (ok_line @ r1) # text_bytes ?r2 # text_bytes ?r3 # text_bytes (ok_line @ r4) # cuts"
    using conn by (simp add: handshake_replies_def)
  note ans = handshake_answers [OF this replies(1) ok(1,2) replies(4) ok(3-6)]
  let ?c1 = "after_exchange (CMD_OPTIONS host 554 0) c"
  let ?c2 = "after_exchange (CMD_DESCRIBE ?url 1) ?c1"
  let ?c3 = "after_exchange (CMD_SETUP ?url 2) ?c2"
  let ?c4 = "after_exchange (CMD_PLAY ?url 3 (of_nat n)) ?c3"
  obtain g2 g3 session g4 g5 where cmds: "rtsp_cmd_options g1 c = Inr (0, g2, ?c1)"
    "rtsp_cmd_describe ?url g2 ?c1 = Inr (0, Some ?v, g3, ?c2)"
    "rtsp_cmd_setup ?url session0 g3 ?c2 = Inr (0, session, g4, ?c3)" "session_id session = of_nat n"
    "rtsp_cmd_play ?url (of_nat n) g4 ?c3 = Inr (0, g5, ?c4)" "opt_name g5 = opt_name g1" "rtsp_cseq g5 = 4"
    using handshake_commands [OF g1 replies(2,3) ans(1-4) refl refl refl refl request_lengths [OF url n]] by blast
  have c4: "conn_in ?c4 = cuts" "conn_out ?c4 = conn_out c @ text_bytes (session_requests host ?url n)"
    by (simp_all only: ans(5,6) session_requests_def append_assoc)
  have "opt_name g5 = Some name" using cmds(6) g(4) by (simp add: g1_def)
  from start_stream_run [OF os params this] obtain st where
    start: "start_stream os None NUL ?v g5 (of_nat n) ?c4 =
      Inr \<lparr>dx_raw = replicate max_buf_size 0, dx_length = 0, dx_offset = 0, dx_send_rtcp = False,
        dx_ticks = 0, dx_stats = rtp_stats_reset\<lparr>rtp_identifier := ucast (of_nat n :: u64)\<rparr>,
        dx_streamer = st, dx_conn = ?c4\<rparr>" (is "_ = Inr ?s") "pipe_data st = []" by blast
  have "rtsp_loop os None NUL session0 ?url rounds g c =
      bind_res (demux_rounds os rounds ?s) (\<lambda>s. Inr (Inr (g5, s)))"
    using os start(1) cmds by (simp add: rtsp_loop_def connect session_os_def)
  moreover have "demux_ok os ?s"
    using os by (simp add: demux_ok_def session_os_def stats_ok_def rtp_stats_reset_def)
  ultimately show ?thesis
    using c4 start(2) cmds(7) by (intro exI [of _ g5] exI [of _ ?s]) (simp add: demux_reset_def)
qed

lemma h264dec_main_run:
  assumes "session_os os host" "url_ok host path"
    and "reply_ok (ok_line @ r1)" "describe_reply_ok hs sdp (t1 @ '','' @ t2) rest"
      "setup_reply_ok hs3 n rest3" "reply_ok (ok_line @ r4)"
    and "param_text t1 sps" "param_text t2 pps"
    and "conn_in c = handshake_replies r1 (describe_reply hs sdp (t1 @ '','' @ t2) rest)
        (setup_reply hs3 n rest3) r4 @ cuts" "conn_out c = []"
    and "list_all2 (fu_pkts 65535) pss nals" "concat cuts = concat (map rtp_frame (concat pss))"
      "[] \<notin> set cuts" "length (concat cuts) < max_buf_size"
      "\<forall>k \<le> length cuts. aligned (concat pss) (length (concat (take k cuts)))"
  shows "\<exists>g s reports.
    h264dec_main os NUL session0 (length cuts) c [(CHR ''s'', stream_url host path), (CHR ''n'', name)] =
      Inr (g, s) \<and>
    pipe_data (dx_streamer s) = annexb4 nals \<and>
    conn_out (dx_conn s) = text_bytes (session_requests host (stream_url host path) n) @ reports"
proof -
  define g where "g = default_vars\<lparr>opt_stream := Some (stream_url host path), opt_name := Some name\<rparr>"
  have g: "stream_port g = 554" "rtsp_cseq g = 0" "\<not> opt_verbose g" "opt_name g = Some name"
    by (simp_all add: g_def default_vars_def)
  obtain g' s where s: "rtsp_loop os None NUL session0 (stream_url host path) (length cuts) g c =
      bind_res (demux_rounds os (length cuts) s) (\<lambda>s. Inr (Inr (g', s)))"
      "conn_in (dx_conn s) = cuts"
      "conn_out (dx_conn s) = text_bytes (session_requests host (stream_url host path) n)"
      "demux_reset s = s" "demux_ok os s" "pipe_data (dx_streamer s) = []"
    using rtsp_loop_run [OF assms(1,2) g assms(3-9), of session0 "length cuts"] assms(10) by auto
  have "\<exists>s'. demux_rounds os (length (conn_in (dx_conn s))) (demux_reset s) = Inr s' \<and>
      pipe_data (dx_streamer s') = pipe_data (dx_streamer s) @ annexb4 nals"
    by (rule demux_stream_run [OF assms(11)]) (use s(2,5) assms(12-15) in \<open>simp_all add: demux_ok_def\<close>)
  then obtain s' where s': "demux_rounds os (length cuts) s = Inr s'" "pipe_data (dx_streamer s') = annexb4 nals"
    using s(2,4,6) by auto
  have opts: "fold_res h264dec_option (default_vars, None)
      [(CHR ''s'', stream_url host path), (CHR ''n'', name)] = Inr (g, None)"
    by (simp add: h264dec_option_def g_def)
  have "h264dec_main os NUL session0 (length cuts) c [(CHR ''s'', stream_url host path), (CHR ''n'', name)] =
      Inr (g', s')"
    unfolding h264dec_main_def opts
    by (simp add: g_def s(1) [unfolded g_def] s'(1))
      (simp add: stream_url_def PROTOCOL_PREFIX_def starts_with_def)
  moreover obtain reports where "conn_out (dx_conn s') = conn_out (dx_conn s) @ reports"
    using demux_rounds_out [OF s'(1)] by (auto simp: sends_more_def)
  ultimately show ?thesis using s'(2) s(3) by auto
qed

section \<open>The receive buffer\<close>

text \<open>
  Between two rounds the buffer has its size, the read position is not behind the fill level, and
  when the buffer is full there is a whole frame header at the read position, for the round before
  has stopped there.
\<close>

definition between_rounds :: "demux \<Rightarrow> bool" where
  "between_rounds s \<longleftrightarrow> fits s \<and> (dx_length s = max_buf_size \<longrightarrow> dx_offset s + 3 < max_buf_size)"

lemma demux_loop_keeps:
  assumes "demux_loop os s = Inr (pend, s')"
  shows "dx_raw s' = dx_raw s \<and> dx_length s' = dx_length s \<and>
    (pend \<longrightarrow> dx_offset s' < dx_length s' \<and> dx_offset s' + 3 < length (dx_raw s'))"
  using assms
proof (induction os s rule: demux_loop.induct)
  case (1 os s)
  show ?case
  proof (cases "dx_offset s < dx_length s")
    case True
    then obtain goes_on t where t: "demux_step os s = Inr (goes_on, t)"
      using 1(2) by (subst (asm) demux_loop.simps) (auto split: sum.splits)
    note frame = demux_step_frame [OF t]
    show ?thesis
    proof (cases goes_on)
      case go: True
      then have "demux_loop os t = Inr (pend, s')"
        using 1(2) True t by (subst (asm) demux_loop.simps) simp
      from 1(1) [OF True t refl go this] show ?thesis using frame by auto
    next
      case False
      then have "dx_offset s + 3 < length (dx_raw s)"
        using t by (auto simp: demux_step_def Let_def bind_res_eq_Inr rd_def split: if_splits)
      then show ?thesis
        using 1(2) False True t frame by (subst (asm) demux_loop.simps) simp
    qed
  next
    case False
    then show ?thesis using 1(2) by (subst (asm) demux_loop.simps) simp
  qed
qed

lemma avail_at_start: "dx_offset t = 0 \<Longrightarrow> dx_raw t = d @ z \<Longrightarrow> dx_length t = length d \<Longrightarrow> avail t = d"
  by (simp add: avail_def)

text \<open>Making room loses nothing, and room there is, unless the buffer is full and nothing of it was read.\<close>

lemma demux_move_room:
  assumes "between_rounds s" "dx_offset s \<noteq> 0 \<or> dx_length s < max_buf_size"
  shows "\<exists>t. demux_move s = Inr t \<and> fits t \<and> dx_length t < max_buf_size \<and> avail t = avail s \<and>
    dx_conn t = dx_conn s"
proof (cases "dx_length s < max_buf_size")
  case True
  then show ?thesis using assms(1) by (simp add: demux_move_def between_rounds_def fits_def)
next
  case False
  then have s: "dx_length s = max_buf_size" "dx_offset s + 3 < max_buf_size" "length (dx_raw s) = max_buf_size"
    using assms(1) by (auto simp: between_rounds_def fits_def)
  let ?d = "avail s"
  let ?t = "s\<lparr>dx_raw := overlay (replicate max_buf_size 0) 0 ?d, dx_length := length ?d, dx_offset := 0\<rparr>"
  have d: "length ?d = max_buf_size - dx_offset s"
    using length_avail [of s] assms(1) by (simp add: between_rounds_def s(1))
  have "rd_block (dx_raw s) (dx_offset s) (dx_length s - dx_offset s) = Inr ?d"
    using s by (simp add: rd_block_def avail_def)
  moreover have "wr_block (replicate max_buf_size 0) 0 ?d = Inr (overlay (replicate max_buf_size 0) 0 ?d)"
    using d by (simp add: wr_block_def)
  moreover have "dx_offset s < dx_length s - 1" using s by simp
  ultimately have "demux_move s = Inr ?t" using s(1) by (simp add: demux_move_def)
  moreover have "avail ?t = ?d" by (rule avail_at_start) (simp_all add: overlay_def)
  moreover have "fits ?t" using d by (simp add: fits_def overlay_def)
  moreover have "dx_length ?t < max_buf_size" using assms(2) s d by simp
  ultimately show ?thesis by (intro exI [of _ ?t]) simp
qed

lemma demux_move_stuck:
  assumes "between_rounds s" "dx_offset s = 0" "dx_length s = max_buf_size"
  shows "demux_round os s = Inl Exited"
proof -
  have len: "length (dx_raw s) = max_buf_size" using assms(1) by (simp add: between_rounds_def fits_def)
  have "rd_block (dx_raw s) 0 max_buf_size = Inr (dx_raw s)" using len by (simp add: rd_block_def)
  moreover have "wr_block (replicate max_buf_size 0) 0 (dx_raw s) = Inr (dx_raw s)"
    using len by (simp add: wr_block_def overlay_def)
  moreover have "0 < max_buf_size - 1" by (simp add: max_buf_size_def)
  ultimately have "demux_move s = Inr s" using assms(2,3) len by (simp add: demux_move_def)
  then show ?thesis
    by (simp add: demux_round_def assms(3) recv_bytes_def Let_def split: list.split)
qed

text \<open>What \<^verbatim>\<open>recv\<close> takes off the connection.\<close>

lemma recv_bytes_some:
  assumes "conn_in c = d # ds" "d \<noteq> []" "0 < n"
  shows "\<exists>e c'. recv_bytes n c = (e, c') \<and> e \<noteq> [] \<and> length e \<le> n \<and>
    e @ concat (conn_in c') = concat (conn_in c)"
  using assms by (auto simp: recv_bytes_def)

text \<open>None of the steps behind the check for the fill level ends the program.\<close>

definition no_exit :: "'a res \<Rightarrow> bool" where "no_exit m \<longleftrightarrow> m \<noteq> Inl Exited"

lemma no_exit_simps [simp]:
  "no_exit (Inr x)" "no_exit (rd a i)" "no_exit (rd_block a i n)" "no_exit (wr_block a i d)" "no_exit (to_u32 r)"
  by (simp_all add: no_exit_def rd_def rd_block_def wr_block_def to_u32_def)

lemma no_exit_bind: "no_exit m \<Longrightarrow> (\<And>x. m = Inr x \<Longrightarrow> no_exit (f x)) \<Longrightarrow> no_exit (bind_res m f)"
  by (cases m) (simp_all add: no_exit_def)

lemma no_exit_write [simp]: "no_exit (streamer_write pw b i n s)"
  by (simp add: streamer_write_def Let_def no_exit_bind)

lemma no_exit_stap: "no_exit (stap_loop pw payload paysize nidx s)"
proof (induction "unat (paysize - 1) - nidx" arbitrary: nidx s rule: less_induct)
  case less
  then show ?case
    by (subst stap_loop.simps) (auto simp: Let_def intro!: no_exit_bind)
qed

lemma no_exit_rtp: "no_exit (rtp_parse pw now raw sz st s)"
proof -
  have "no_exit (parse_rtp_header raw)"
    unfolding parse_rtp_header_def by (intro no_exit_bind no_exit_simps)
  moreover have "no_exit (load_payload raw n)" for n
    unfolding load_payload_def by (intro no_exit_bind no_exit_simps)
  moreover have "no_exit (rtp_stats_update now h st)" for h st
    by (simp add: rtp_stats_update_def Let_def no_exit_def)
  moreover have "no_exit (parse_nal pw payload n s)" for payload n
    unfolding parse_nal_def
    by (auto simp: Let_def write_fu_start_def intro!: no_exit_bind no_exit_stap)
  ultimately show ?thesis
    unfolding rtp_parse_def by (auto simp: Let_def intro!: no_exit_bind)
qed

lemma no_exit_rd32 [simp]: "no_exit (rd32 m k)"
  unfolding rd32_def by (intro no_exit_bind no_exit_simps)

lemma no_exit_rtcp_one: "no_exit (rtcp_decode_one False now payload i p st)"
proof -
  have "no_exit (rtcp_common payload i p)"
    unfolding rtcp_common_def by (intro no_exit_bind no_exit_simps)
  moreover have "no_exit (rtcp_sender_report payload j p)" for j p
    unfolding rtcp_sender_report_def Let_def by (intro no_exit_bind no_exit_simps no_exit_rd32)
  moreover have "no_exit (rtcp_source_desc payload j p)" for j p
    unfolding rtcp_source_desc_def Let_def by (intro no_exit_bind no_exit_simps no_exit_rd32)
  ultimately show ?thesis
    unfolding rtcp_decode_one_def by (auto simp: Let_def intro!: no_exit_bind)
qed

lemma no_exit_rtcp: "no_exit (rtcp_decode_loop False now payload len i idx pk st)"
proof (induction "False" now payload len i idx pk st rule: rtcp_decode_loop.induct)
  case (1 now payload len i idx pk st)
  then show ?case
    using no_exit_rtcp_one [of now payload i "pk ! idx" st]
    by (subst rtcp_decode_loop.simps) (auto simp: no_exit_def split: sum.split)
qed

lemma no_exit_reports: "no_exit (send_reports os s)"
  by (auto simp: send_reports_def rtsp_rtcp_reports_def rtcp_receiver_report_def rtcp_dlsr_def Let_def
      intro!: no_exit_bind)

lemma no_exit_frame: "no_exit (demux_frame os ch off len s)"
  by (auto simp: demux_frame_def demux_rtcp_def demux_rtp_def rtcp_decode_def Let_def
      intro!: no_exit_bind no_exit_reports no_exit_rtcp no_exit_rtp)

lemma no_exit_step: "dx_length s \<le> max_buf_size \<Longrightarrow> no_exit (demux_step os s)"
  by (auto simp: demux_step_def Let_def intro!: no_exit_bind no_exit_reports no_exit_frame)

lemma no_exit_loop: "dx_length s \<le> max_buf_size \<Longrightarrow> no_exit (demux_loop os s)"
proof (induction os s rule: demux_loop.induct)
  case (1 os s)
  note step = no_exit_step [OF 1(2), of os]
  show ?case
  proof (cases "demux_step os s")
    case (Inr r)
    obtain go t where r: "r = (go, t)" by (cases r)
    have "dx_length t \<le> max_buf_size" using demux_step_frame Inr r 1(2) by fastforce
    then show ?thesis using 1(1) Inr r by (subst demux_loop.simps) auto
  qed (use step in \<open>subst demux_loop.simps; auto simp: no_exit_def\<close>)
qed

text \<open>A round: room is made, what arrives is stored behind what is left, and the inner loop runs.\<close>

lemma demux_round_receives:
  assumes "between_rounds s" "dx_offset s \<noteq> 0 \<or> dx_length s < max_buf_size"
    "conn_in (dx_conn s) = d # ds" "d \<noteq> []"
  shows "\<exists>t. demux_round os s =
      bind_res (demux_loop os t) (\<lambda>(pending, s). Inr (if pending then s else demux_reset s)) \<and>
    fits t \<and> avail t @ concat (conn_in (dx_conn t)) = avail s @ concat (d # ds) \<and>
    length (avail s) < length (avail t)"
proof -
  obtain u where u: "demux_move s = Inr u" "fits u" "dx_length u < max_buf_size" "avail u = avail s"
      "dx_conn u = dx_conn s" using demux_move_room [OF assms(1,2)] by blast
  obtain e c where e: "recv_bytes (max_buf_size - dx_length u) (dx_conn u) = (e, c)" "e \<noteq> []"
      "length e \<le> max_buf_size - dx_length u" "e @ concat (conn_in c) = concat (d # ds)"
    using recv_bytes_some [of "dx_conn u" d ds "max_buf_size - dx_length u"] assms(3,4) u(3,5) by auto
  let ?t = "u\<lparr>dx_raw := overlay (dx_raw u) (dx_length u) e, dx_length := dx_length u + length e, dx_conn := c\<rparr>"
  have le: "dx_length u + length e \<le> max_buf_size" using e(3) u(3) by simp
  have t: "avail ?t = avail s @ e" "fits ?t"
    using receive_chunk [OF u(2) le, of c] u(4) by simp_all
  have "wr_block (dx_raw u) (dx_length u) e = Inr (overlay (dx_raw u) (dx_length u) e)"
    using le u(2) by (simp add: wr_block_def fits_def)
  then have "demux_round os s =
      bind_res (demux_loop os ?t) (\<lambda>(pending, s). Inr (if pending then s else demux_reset s))"
    using u(1) e(1,2) by (simp add: demux_round_def Let_def)
  then show ?thesis using t e(2,4) by (intro exI [of _ ?t]) simp
qed

lemma between_rounds_reset: "between_rounds (demux_reset s)"
  by (simp add: between_rounds_def fits_def demux_reset_def max_buf_size_def)

lemma demux_round_between:
  assumes "demux_round os s = Inr s'" "between_rounds s"
  shows "between_rounds s'"
proof -
  have room: "dx_offset s \<noteq> 0 \<or> dx_length s < max_buf_size"
    using demux_move_stuck [OF assms(2), of os] assms by (fastforce simp: between_rounds_def fits_def)
  obtain u where u: "demux_move s = Inr u" "fits u" "dx_conn u = dx_conn s"
    using demux_move_room [OF assms(2) room] by blast
  obtain d ds where d: "conn_in (dx_conn s) = d # ds" "d \<noteq> []"
    using assms(1) u by (cases "conn_in (dx_conn s)") (auto simp: demux_round_def recv_bytes_def Let_def split: if_splits)
  obtain t where run: "demux_round os s =
      bind_res (demux_loop os t) (\<lambda>(pending, s). Inr (if pending then s else demux_reset s))" "fits t"
    using demux_round_receives [OF assms(2) room d, of os] by blast
  obtain pend v where t: "demux_loop os t = Inr (pend, v)" "s' = (if pend then v else demux_reset v)"
    using assms(1) unfolding run(1) by (auto simp: bind_res_eq_Inr)
  show ?thesis
    using demux_loop_keeps [OF t(1)] run(2) t(2) between_rounds_reset [of v]
    by (auto simp: between_rounds_def fits_def)
qed

lemma demux_rounds_between: "demux_rounds os n s = Inr s' \<Longrightarrow> between_rounds s \<Longrightarrow> between_rounds s'"
  by (induction n arbitrary: s) (auto simp: bind_res_eq_Inr dest: demux_round_between)

lemma start_stream_between:
  "start_stream os dump junk sprop g session c = Inr s \<Longrightarrow> between_rounds s"
  by (auto simp: start_stream_def bind_res_eq_Inr Let_def between_rounds_def fits_def max_buf_size_def
      split: if_splits)

lemma rtsp_loop_between:
  "rtsp_loop os dump junk session0 stream n g c = Inr (Inr (g', s)) \<Longrightarrow> between_rounds s"
  by (auto simp: rtsp_loop_def bind_res_eq_Inr split: if_splits option.splits
      dest!: start_stream_between intro: demux_rounds_between)

lemma h264dec_between:
  assumes "h264dec_main os junk session0 n c opts = Inr (g, s)"
  shows "between_rounds s"
proof -
  obtain g0 dump where run: "(case opt_stream g0 of None \<Rightarrow> Inl Exited
      | Some stream \<Rightarrow>
          if \<not> starts_with stream PROTOCOL_PREFIX then Inl Exited
          else if opt_name g0 = None then Inl Exited
          else bind_res (rtsp_loop os dump junk session0 stream n g0 c)
            (\<lambda>r. case r of Inl _ \<Rightarrow> Inl Exited | Inr s \<Rightarrow> Inr s)) = Inr (g, s)"
    using assms unfolding h264dec_main_def bind_res_eq_Inr by auto
  then obtain stream r where r: "rtsp_loop os dump junk session0 stream n g0 c = Inr r"
      "(case r of Inl _ \<Rightarrow> Inl Exited | Inr s \<Rightarrow> Inr s) = Inr (g, s)"
    by (cases "opt_stream g0") (auto simp: bind_res_eq_Inr split: if_splits)
  then have "rtsp_loop os dump junk session0 stream n g0 c = Inr (Inr (g, s))"
    by (cases r) auto
  then show ?thesis by (rule rtsp_loop_between)
qed

definition sample_sps :: "byte list" where "sample_sps = [0x67, 0x42, 0x1E]"
definition sample_pps :: "byte list" where "sample_pps = [0x68, 0xCE]"

definition sample_session_conn :: rtsp_conn where
  "sample_session_conn =
     \<lparr>conn_in = handshake_replies ''CSeq: 0'' (describe_reply ''CSeq: 1'' ''a=fmtp:96 '' (''Z0Ie'' @ '','' @ ''aM4='') [LF])
        (setup_reply (''Transport: RTP/AVP/TCP'' @ crlf) 42 [LF]) ''CSeq: 3'' @ sample_cuts, conn_out = []\<rparr>"

lemma sample_session_replies:
  "reply_ok (ok_line @ ''CSeq: 0'')" "reply_ok (ok_line @ ''CSeq: 3'')"
  "describe_reply_ok ''CSeq: 1'' ''a=fmtp:96 '' (''Z0Ie'' @ '','' @ ''aM4='') [LF]"
  "setup_reply_ok (''Transport: RTP/AVP/TCP'' @ crlf) 42 [LF]"
proof -
  have "dec_nat 42 = ''42''" by code_simp
  moreover have "strstr (ok_line @ ''CSeq: 1'' @ butlast (crlf @ crlf)) (crlf @ crlf) = None"
    "strstr (''a=fmtp:96 '' @ butlast RTP_SPROP) RTP_SPROP = None"
    "strstr (ok_line @ (''Transport: RTP/AVP/TCP'' @ crlf) @ butlast SETUP_SESSION) SETUP_SESSION = None"
    "strstr (ok_line @ (''Transport: RTP/AVP/TCP'' @ crlf) @ SETUP_SESSION @ ''42'' @ CR # [LF]) ''Transport: '' \<noteq> None"
    by code_simp+
  ultimately show "reply_ok (ok_line @ ''CSeq: 0'')" "reply_ok (ok_line @ ''CSeq: 3'')"
    "describe_reply_ok ''CSeq: 1'' ''a=fmtp:96 '' (''Z0Ie'' @ '','' @ ''aM4='') [LF]"
    "setup_reply_ok (''Transport: RTP/AVP/TCP'' @ crlf) 42 [LF]"
    by (simp_all add: reply_ok_def describe_reply_ok_def setup_reply_ok_def describe_reply_def setup_reply_def
        ok_line_def crlf_def RTP_SPROP_def SETUP_SESSION_def)
qed

lemma sample_start:
  "\<exists>g s. h264dec_main sample_os NUL blank_session 0 sample_session_conn
      [(CHR ''s'', ''rtsp://h/s''), (CHR ''n'', ''c'')] = Inr (g, s) \<and>
    conn_in (dx_conn s) = sample_cuts \<and> s = demux_reset s"
proof -
  have os: "session_os sample_os ''h''"
    by (simp add: session_os_def sample_os_def pipe_accepts_def)
  have url: "url_ok ''h'' ''s''" "stream_url ''h'' ''s'' = ''rtsp://h/s''"
    by (simp_all add: url_ok_def stream_url_def)
  have params: "param_text ''Z0Ie'' sample_sps" "param_text ''aM4='' sample_pps"
    unfolding param_text_def by code_simp+
  let ?g = "default_vars\<lparr>opt_stream := Some ''rtsp://h/s'', opt_name := Some ''c''\<rparr>"
  have g: "stream_port ?g = 554" "rtsp_cseq ?g = 0" "\<not> opt_verbose ?g" "opt_name ?g = Some ''c''"
    by (simp_all add: default_vars_def)
  have c: "conn_in sample_session_conn = handshake_replies ''CSeq: 0''
      (describe_reply ''CSeq: 1'' ''a=fmtp:96 '' (''Z0Ie'' @ '','' @ ''aM4='') [LF])
      (setup_reply (''Transport: RTP/AVP/TCP'' @ crlf) 42 [LF]) ''CSeq: 3'' @ sample_cuts"
    by (simp add: sample_session_conn_def)
  obtain g' s where s: "rtsp_loop sample_os None NUL blank_session ''rtsp://h/s'' 0 ?g sample_session_conn =
      Inr (Inr (g', s))" "conn_in (dx_conn s) = sample_cuts" "s = demux_reset s"
    using rtsp_loop_run [OF os url(1) g sample_session_replies(1,3,4,2) params c, of blank_session 0]
    unfolding url(2) by auto
  have "fold_res h264dec_option (default_vars, None) [(CHR ''s'', ''rtsp://h/s''), (CHR ''n'', ''c'')] =
      Inr (?g, None)"
    by (simp add: h264dec_option_def)
  then have "h264dec_main sample_os NUL blank_session 0 sample_session_conn
      [(CHR ''s'', ''rtsp://h/s''), (CHR ''n'', ''c'')] = Inr (g', s)"
    using s(1) by (simp add: h264dec_main_def default_vars_def PROTOCOL_PREFIX_def starts_with_def)
  then show ?thesis using s(2,3) by blast
qed

section \<open>Properties\<close>

text \<open>
  C2: A whole session of the program.  It is called with the address of a stream (without a port, of
  at most 3900 characters) and a name; connection, files, pipe and memory come about; the server
  answers the four commands, each in one piece of at most 4095 bytes without zero bytes, with two
  parameter sets in Base64 in the description and a session number below \<open>10 ^ 15\<close> behind a transport
  header, and then interleaves the packets of fragmented NAL units.  These are, with their frame
  headers, less than 1000000 bytes in all, so that the receive buffer does not fill up, and no piece in
  which they arrive ends inside a 4-byte frame header.  The byte behind the copy of the parameter
  sets, which the program does not set, happens to be 0.  Then the program sends exactly the four
  requests, with the sequence numbers 0 to 3 and the session number in the last one, before anything
  else, and after as many rounds as pieces arrive the pipe holds the NAL units, each behind a start
  code.
\<close>

theorem h264dec_session:
  assumes "session_os os host" "url_ok host path"
    and "reply_ok (ok_line @ r1)" "describe_reply_ok hs sdp (t1 @ '','' @ t2) rest"
      "setup_reply_ok hs3 n rest3" "reply_ok (ok_line @ r4)"
    and "param_text t1 sps" "param_text t2 pps"
    and "conn_in c = handshake_replies r1 (describe_reply hs sdp (t1 @ '','' @ t2) rest)
        (setup_reply hs3 n rest3) r4 @ cuts" "conn_out c = []"
    and "list_all2 (fu_pkts 65535) pss nals" "concat cuts = concat (map rtp_frame (concat pss))"
      "[] \<notin> set cuts" "length (concat cuts) < max_buf_size"
      "\<forall>k \<le> length cuts. aligned (concat pss) (length (concat (take k cuts)))"
  shows "\<exists>g s reports.
    h264dec_main os NUL session0 (length cuts) c [(CHR ''s'', stream_url host path), (CHR ''n'', name)] =
      Inr (g, s) \<and>
    pipe_data (dx_streamer s) = annexb4 nals \<and>
    conn_out (dx_conn s) = text_bytes (session_requests host (stream_url host path) n) @ reports"
  using assms by (rule h264dec_main_run)

theorem h264dec_session_witness:
  "\<exists>g s reports.
    h264dec_main sample_os NUL blank_session 3 sample_session_conn
      [(CHR ''s'', ''rtsp://h/s''), (CHR ''n'', ''c'')] = Inr (g, s) \<and>
    pipe_data (dx_streamer s) = [0, 0, 0, 1, 0x65, 1, 2, 3] \<and>
    conn_out (dx_conn s) = text_bytes (session_requests ''h'' ''rtsp://h/s'' 42) @ reports"
proof -
  have cuts: "length sample_cuts = 3" "[] \<notin> set sample_cuts" "length (concat sample_cuts) = 39"
      "concat sample_cuts = concat (map rtp_frame (concat [sample_packets]))"
    by code_simp+
  have "\<forall>k \<in> set [0..<4]. aligned (concat [sample_packets]) (length (concat (take k sample_cuts)))"
    by code_simp
  then have al: "\<forall>k \<le> 3. aligned (concat [sample_packets]) (length (concat (take k sample_cuts)))"
    by simp
  have os: "session_os sample_os ''h''"
    by (simp add: session_os_def sample_os_def pipe_accepts_def)
  have url: "url_ok ''h'' ''s''" "stream_url ''h'' ''s'' = ''rtsp://h/s''"
    by (simp_all add: url_ok_def stream_url_def)
  have params: "param_text ''Z0Ie'' sample_sps" "param_text ''aM4='' sample_pps"
    unfolding param_text_def by code_simp+
  show ?thesis
    using h264dec_session [OF os url(1) sample_session_replies(1,3,4,2) params,
        where c = sample_session_conn and cuts = sample_cuts and pss = "[sample_packets]"
          and nals = "[[0x65, 1, 2, 3]]" and ?session0.0 = blank_session and name = "''c''"]
      sample_packets_fu cuts al url(2)
    by (simp add: max_buf_size_def sample_session_conn_def)
qed

text \<open>
  C20: Whatever options the program gets and whatever the server sends, when it waits for data after
  any number of rounds the receive buffer has its 1000000 bytes and read position and fill level are
  inside.  When data come, the next round makes room, takes as much as fits and hands the inner loop
  exactly the bytes that were left and the new ones, none lost, none overwritten and none outside the
  buffer; and the inner loop never ends the program: the check for a fill level above the size never
  succeeds.  The one exception is a buffer that is full and of which nothing could be read (behind
  an empty frame): \<^verbatim>\<open>recv\<close> is then asked for 0 bytes, and the program takes the answer for the end of
  the connection and exits.
\<close>

theorem h264dec_level:
  assumes "h264dec_main os junk session0 n c opts = Inr (g, s)"
    "conn_in (dx_conn s) = d # ds" "d \<noteq> []"
  shows "length (dx_raw s) = max_buf_size \<and> dx_offset s \<le> dx_length s \<and> dx_length s \<le> max_buf_size \<and>
    (if dx_offset s = 0 \<and> dx_length s = max_buf_size then demux_round os s = Inl Exited
     else \<exists>t. demux_round os s =
         bind_res (demux_loop os t) (\<lambda>(pending, s). Inr (if pending then s else demux_reset s)) \<and>
       length (dx_raw t) = max_buf_size \<and> dx_offset t \<le> dx_length t \<and> dx_length t \<le> max_buf_size \<and>
       avail t @ concat (conn_in (dx_conn t)) = avail s @ concat (d # ds) \<and>
       length (avail s) < length (avail t) \<and> demux_loop os t \<noteq> Inl Exited)"
proof -
  have s: "between_rounds s" by (rule h264dec_between [OF assms(1)])
  then have fits: "length (dx_raw s) = max_buf_size" "dx_offset s \<le> dx_length s" "dx_length s \<le> max_buf_size"
    by (simp_all add: between_rounds_def fits_def)
  show ?thesis
  proof (cases "dx_offset s = 0 \<and> dx_length s = max_buf_size")
    case True
    then show ?thesis using demux_move_stuck [OF s, of os] fits by simp
  next
    case False
    then have room: "dx_offset s \<noteq> 0 \<or> dx_length s < max_buf_size" using fits(3) by auto
    from demux_round_receives [OF s room assms(2,3), of os] obtain t where t:
      "demux_round os s = bind_res (demux_loop os t) (\<lambda>(pending, s). Inr (if pending then s else demux_reset s))"
      "fits t" "avail t @ concat (conn_in (dx_conn t)) = avail s @ concat (d # ds)"
      "length (avail s) < length (avail t)" by blast
    moreover have "demux_loop os t \<noteq> Inl Exited"
      using no_exit_loop [of t os] t(2) by (simp add: fits_def no_exit_def)
    ultimately show ?thesis using False fits by (auto simp: fits_def)
  qed
qed

lemma sample_first: "sample_cuts \<noteq> [] \<and> hd sample_cuts \<noteq> []"
  by code_simp

theorem h264dec_level_witness:
  "\<exists>g s t. h264dec_main sample_os NUL blank_session 0 sample_session_conn
      [(CHR ''s'', ''rtsp://h/s''), (CHR ''n'', ''c'')] = Inr (g, s) \<and>
    avail t @ concat (conn_in (dx_conn t)) = concat sample_cuts \<and> avail t \<noteq> [] \<and>
    demux_round sample_os s =
      bind_res (demux_loop sample_os t) (\<lambda>(pending, s). Inr (if pending then s else demux_reset s))"
proof -
  obtain g s where s: "h264dec_main sample_os NUL blank_session 0 sample_session_conn
      [(CHR ''s'', ''rtsp://h/s''), (CHR ''n'', ''c'')] = Inr (g, s)"
      "conn_in (dx_conn s) = sample_cuts" "s = demux_reset s" using sample_start by blast
  obtain d ds where d: "sample_cuts = d # ds" "d \<noteq> []"
    using that [of "hd sample_cuts" "tl sample_cuts"] sample_first by simp
  have z: "dx_length s = 0" by (subst s(3)) (simp add: demux_reset_def)
  then have "avail s = []" "\<not> (dx_offset s = 0 \<and> dx_length s = max_buf_size)"
    by (simp_all add: avail_def max_buf_size_def)
  then show ?thesis
    using h264dec_level [OF s(1) _ d(2), of ds] s(1,2) d(1) by auto
qed

end
