(* ===== verification/HttpStreamer.thy ===== *)
theory HttpStreamer
  imports Streamer
begin

text \<open>
  \<^verbatim>\<open>h264dec/http\<close>: the web service that lists the channels of the streamers and relays one.
  A channel is a pair of files that \<^verbatim>\<open>streamer_prepare\<close> makes under \<^verbatim>\<open>/tmp\<close>.

  The web server library is a parameter in the form of its effects: the list of the events of a
  response.  The directory, the files and the local sockets are parameters.
\<close>

section \<open>The code\<close>

datatype response_event =
    Status nat
  | Header string
  | Content_Length int
  | Body "byte list"        \<comment> \<open>\<open>response->print\<close> and \<open>printf\<close>\<close>
  | Headers_Sent
  | Flush
  | Sent "byte list"        \<comment> \<open>\<open>send\<close> on the socket of the client\<close>
  | End

datatype entry_type = DT_REG | DT_SOCK | DT_OTHER

definition CH_ROOT :: string where "CH_ROOT = ''/tmp/''"
definition CH_SOCK :: string where "CH_SOCK = ''.h264s.sock''"
definition CH_META :: string where "CH_META = ''.h264s.meta''"

definition HTML_CHANNEL_HEADER :: string where
  "HTML_CHANNEL_HEADER = ''<html><head><title>H264 Streamer</title></head><body><h1>Channel List</h1>''"

definition HTML_CHANNEL_FOOTER :: string where "HTML_CHANNEL_FOOTER = ''</body></html>''"
definition HTTP_CONTENT_TYPE_H264 :: string where "HTTP_CONTENT_TYPE_H264 = ''Content-Type: video/h264''"
definition HTTP_CHUNKED_TE :: string where "HTTP_CHUNKED_TE = ''Transfer-Encoding: chunked''"

definition print_text :: "string \<Rightarrow> response_event" where "print_text s = Body (map of_char s)"

text \<open>The checks of one directory entry; \<^verbatim>\<open>sizeof\<close> counts the terminating zero.\<close>

definition listed :: "string \<times> entry_type \<Rightarrow> bool" where
  "listed ent =
     (let (d_name, d_type) = ent; sizeof_sock = length CH_SOCK + 1 in
      if d_name \<noteq> [] \<and> hd d_name = CHR ''.'' then False
      else if d_type \<noteq> DT_REG \<and> d_type \<noteq> DT_SOCK then False
      else if length d_name \<le> sizeof_sock then False
      else (let offset = length d_name - sizeof_sock + 1 in drop offset d_name = CH_SOCK))"

definition cb_list :: "(string \<times> entry_type) list option \<Rightarrow> response_event list res" where
  "cb_list dir =
     (case dir of
        None \<Rightarrow> Inl Null_Deref
      | Some ents \<Rightarrow>
          Inr (print_text HTML_CHANNEL_HEADER #
               map (\<lambda>ent. print_text (''Channel: '' @ fst ent @ ''<br>'' @ [LF])) (filter listed ents) @
               [print_text HTML_CHANNEL_FOOTER, Status 200, Header ''Content-Type: text/html'', End]))"

text \<open>\<^verbatim>\<open>network_connect\<close>: a failure is reported as 1.\<close>

definition network_connect :: "int \<Rightarrow> (string \<Rightarrow> int) \<Rightarrow> string \<Rightarrow> int" where
  "network_connect os_socket os_connect path =
     (let socket_fd = os_socket in
      if socket_fd < 0 then 1
      else if os_connect (take 107 path) \<noteq> 0 then 1
      else socket_fd)"

fun hex_nat :: "nat \<Rightarrow> string" where
  "hex_nat n =
     (if n < 16 then [''0123456789ABCDEF'' ! n]
      else hex_nat (n div 16) @ [''0123456789ABCDEF'' ! (n mod 16)])"

declare hex_nat.simps [simp del]

definition chunk_head :: "nat \<Rightarrow> byte list" where
  "chunk_head len = map of_char (hex_nat len @ crlf)"

text \<open>One turn of the loop that relays the stream; \<open>None\<close> is a \<^verbatim>\<open>recv\<close> that fails.\<close>

definition relay :: "byte list option \<Rightarrow> response_event list" where
  "relay r = (case r of None \<Rightarrow> [] | Some d \<Rightarrow> [Sent (chunk_head (length d)), Sent d])"

text \<open>
  \<^verbatim>\<open>cb_play\<close>: \<open>files\<close> are the files, \<open>size0\<close> the uninitialised \<^verbatim>\<open>st.st_size\<close> and \<open>heap0\<close> what
  \<^verbatim>\<open>malloc\<close> returns, \<open>connect\<close> is \<^verbatim>\<open>network_connect\<close>, and \<open>recvs\<close> what the stream delivers; the
  loop does not end, so the events are those until then.
\<close>

definition cb_play ::
  "(string \<Rightarrow> byte list option) \<Rightarrow> nat \<Rightarrow> (nat \<Rightarrow> byte list) \<Rightarrow> (string \<Rightarrow> int) \<Rightarrow>
   (int \<Rightarrow> byte list option list) \<Rightarrow> string \<Rightarrow> response_event list res" where
  "cb_play files size0 heap0 connect recvs uri =
     (let base_len = length ''/h264streamer/play/'';
          s = int (length uri) - int base_len;
          ev1 = (if s < 1 then [Status 404, End] else []) in
      if s < 0 then Inl Write_Overflow
      else
        (let channel = array_string (drop base_len uri);
             file_sock = CH_ROOT @ channel @ CH_SOCK;
             file_meta = CH_ROOT @ channel @ CH_META;
             (ev2, h264_header) =
               (case files file_meta of
                  None \<Rightarrow> ([Status 400, print_text ''Invalid channel'', End], heap0 size0)
                | Some d \<Rightarrow> ([], d));
             ev3 = [Status 200, Content_Length (-1), Header HTTP_CONTENT_TYPE_H264,
                    Header HTTP_CHUNKED_TE, Headers_Sent,
                    Body (chunk_head (length h264_header)), Body h264_header, Flush];
             stream = connect file_sock
         in Inr (ev1 @ ev2 @ ev3 @ concat (map relay (recvs stream)))))"

text \<open>The routes that the service registers.\<close>

definition duda_main :: "(string \<times> string) list" where
  "duda_main = [(''/channels/'', ''cb_list''), (''/play'', ''cb_play'')]"

section \<open>Properties\<close>

text \<open>
  The socket of a channel is listed if and only if the name of the channel has at least two
  characters and does not begin with a dot; a channel with a name of one character exists, but
  is not listed.
\<close>

theorem channel_listed:
  assumes "name \<noteq> []"
  shows "listed (name @ CH_SOCK, DT_SOCK) \<longleftrightarrow> 2 \<le> length name \<and> hd name \<noteq> CHR ''.''"
proof (cases "2 \<le> length name")
  case True
  then have "length (name @ CH_SOCK) - (length CH_SOCK + 1) + 1 = length name"
    by (simp add: CH_SOCK_def)
  with assms True show ?thesis by (auto simp: listed_def Let_def CH_SOCK_def)
next
  case False
  then show ?thesis by (simp add: listed_def CH_SOCK_def)
qed

theorem channel_listed_witness:
  "listed (''ab.h264s.sock'', DT_SOCK) \<and> \<not> listed (''a.h264s.sock'', DT_SOCK)"
  using channel_listed [of "''ab''"] channel_listed [of "''a''"] by (simp add: CH_SOCK_def)

text \<open>
  Playing a channel that \<^verbatim>\<open>streamer_prepare\<close> has registered answers with the parameter sets
  as the first chunk, each behind a start code, and then sends every block of the stream behind
  its size; no chunk is followed by the line end that the chunked encoding asks for.
\<close>

theorem play_after_prepare:
  assumes "streamer_prepare os_open unix_sock name (Some sps) n (Some pps) k files = Inr (files', fd)"
    "length name \<le> 110" "name \<noteq> []" "NUL \<notin> set name"
  shows "cb_play files' size0 heap0 connect recvs (''/h264streamer/play/'' @ name) =
    (let meta = [0, 0, 0, 1] @ take n sps @ [0, 0, 0, 1] @ take k pps;
         stream = connect (''/tmp/'' @ name @ ''.h264s.sock'')
     in Inr ([Status 200, Content_Length (-1), Header ''Content-Type: video/h264'',
          Header ''Transfer-Encoding: chunked'', Headers_Sent, Body (chunk_head (length meta)),
          Body meta, Flush] @
        concat (map (\<lambda>d. [Sent (chunk_head (length d)), Sent d])
          (map the (filter (\<lambda>r. r \<noteq> None) (recvs stream))))))"
proof -
  have meta: "files' (''/tmp/'' @ name @ ''.h264s.meta'') =
      Some ([0, 0, 0, 1] @ take n sps @ [0, 0, 0, 1] @ take k pps)"
    using assms(1,2)
    by (auto simp: streamer_prepare_def read_opt_def bind_res_eq_Inr rd_block_eq_Inr Let_def split: if_splits)
  have relay: "concat (map relay rs) = concat (map (\<lambda>d. [Sent (chunk_head (length d)), Sent d])
      (map the (filter (\<lambda>r. r \<noteq> None) rs)))" for rs
    by (induction rs) (auto simp: relay_def)
  have "drop (length ''/h264streamer/play/'') (''/h264streamer/play/'' @ name) = name" by simp
  moreover have "array_string name = name" using assms(4) by (auto simp: array_string_def)
  moreover have "\<not> int (length (''/h264streamer/play/'' @ name)) - int (length ''/h264streamer/play/'') < 1"
    using assms(3) by simp
  ultimately show ?thesis
    by (simp only: cb_play_def Let_def CH_ROOT_def CH_SOCK_def CH_META_def meta relay
        HTTP_CONTENT_TYPE_H264_def HTTP_CHUNKED_TE_def option.case prod.case if_False append_Nil)
       simp
qed

theorem play_after_prepare_witness:
  "\<exists>files'. streamer_prepare (\<lambda>f. 3) (\<lambda>f. Inr 4) ''cam'' (Some [0x67, 1]) 2 (Some [0x68]) 1 (\<lambda>f. None) =
      Inr (files', 4) \<and>
    cb_play files' 0 (\<lambda>n. []) (\<lambda>p. 7) (\<lambda>s. [None, Some [9]]) ''/h264streamer/play/cam'' =
      Inr [Status 200, Content_Length (-1), Header ''Content-Type: video/h264'',
        Header ''Transfer-Encoding: chunked'', Headers_Sent, Body (chunk_head 11),
        Body [0, 0, 0, 1, 0x67, 1, 0, 0, 0, 1, 0x68], Flush, Sent (chunk_head 1), Sent [9]]"
proof -
  obtain files' where r: "streamer_prepare (\<lambda>f. 3) (\<lambda>f. Inr 4) ''cam'' (Some [0x67, 1]) 2 (Some [0x68]) 1 (\<lambda>f. None) =
      Inr (files', 4)"
    by (simp add: streamer_prepare_def read_opt_def rd_block_def Let_def)
  have eleven: "(11 :: nat) = Suc (Suc (Suc (Suc (Suc (Suc (Suc (Suc (Suc (Suc (Suc 0))))))))))" by simp
  show ?thesis
    using r play_after_prepare [OF r, of 0 "\<lambda>n. []" "\<lambda>p. 7" "\<lambda>s. [None, Some [9]]"] by (auto simp: Let_def eleven)
qed

end
