(* ===== verification/Sdp.thy ===== *)
theory Sdp
  imports CString
begin

text \<open>
  \<^verbatim>\<open>rtsp_client/sdp.c\<close>: the parser and the printer of session descriptions.  The parser works
  on a copy of the text, in which it ends lines and fields with zeros and to which the fields
  of the result point.  No character is looked at again behind such a zero, so that a field
  is here the string that it points to, and a pointer into the copy is the rest of the text.

  Allocations succeed; theory SdpMemory has what they are and what \<^verbatim>\<open>sdp_destroy\<close> frees.  A failed
  parse is \<open>None\<close>.
\<close>

section \<open>Data\<close>

record sdp_connection =
  cn_nettype :: "string option"
  cn_addrtype :: "string option"
  cn_address :: "string option"

record sdp_bandwidth =
  bw_type :: string
  bw_bandwidth :: string

record sdp_origin =
  or_username :: string
  or_sess_id :: int
  or_sess_version :: int
  or_nettype :: string
  or_addrtype :: string
  or_addr :: string

record sdp_repeat =
  rp_interval :: int
  rp_duration :: int
  rp_offsets :: "int list"

record sdp_time =
  tm_start :: int
  tm_stop :: int
  tm_repeat :: "sdp_repeat list"

record sdp_zone_adjustments =
  za_adjust :: int
  za_offset :: int

record sdp_info =
  mi_type :: string
  mi_port :: int
  mi_port_n :: int
  mi_proto :: string
  mi_fmt :: "int list"

record sdp_media =
  md_info :: sdp_info
  md_title :: "string option"
  md_conn :: sdp_connection
  md_bw :: "sdp_bandwidth list"
  md_encrypt_key :: "string option"
  md_attributes :: "string list"

record sdp_payload =
  sp_proto_version :: byte
  sp_origin :: sdp_origin
  sp_session_name :: string
  sp_information :: "string option"
  sp_uri :: "string option"
  sp_emails :: "string list"
  sp_phones :: "string list"
  sp_conn :: sdp_connection
  sp_bw :: "sdp_bandwidth list"
  sp_times :: "sdp_time list"
  sp_zone_adjustments :: "sdp_zone_adjustments list"
  sp_encrypt_key :: "string option"
  sp_attributes :: "string list"
  sp_medias :: "sdp_media list"

section \<open>Lines\<close>

text \<open>
  \<^verbatim>\<open>load_next_entry\<close>: key, value and the text behind the line.  When it fails, \<^verbatim>\<open>key\<close> is 0 and
  both \<^verbatim>\<open>value\<close> and the result are \<^verbatim>\<open>NULL\<close>: \<open>None\<close>.
\<close>

type_synonym sdp_entry = "(char \<times> string \<times> string) option"

definition line_end :: "string \<Rightarrow> nat" where
  "line_end p =
     (case strstr p crlf of
        Some n \<Rightarrow> n
      | None \<Rightarrow> (case strchr p LF of Some n \<Rightarrow> n | None \<Rightarrow> length p))"

definition load_next_entry :: "string option \<Rightarrow> sdp_entry" where
  "load_next_entry q =
     (case q of
        None \<Rightarrow> None
      | Some p \<Rightarrow>
          (let endl = line_end p;
               line = take endl p;
               after = dropWhile (\<lambda>c. c = CR \<or> c = LF) (drop endl p)
           in if line = [] \<or> length line < 2 \<or> line ! 1 \<noteq> CHR ''='' then None
              else Some (line ! 0, drop 2 line, after)))"

definition entry_key :: "sdp_entry \<Rightarrow> char" where
  "entry_key e = (case e of None \<Rightarrow> NUL | Some (key, _, _) \<Rightarrow> key)"

definition entry_size :: "sdp_entry \<Rightarrow> nat" where
  "entry_size e = (case e of None \<Rightarrow> 0 | Some (_, _, p) \<Rightarrow> Suc (length p))"

lemma entry_size_next: "entry_size (load_next_entry (Some p)) \<le> length p"
proof (cases "load_next_entry (Some p)")
  case (Some e)
  then have n: "2 \<le> length (take (line_end p) p)"
    "snd (snd e) = dropWhile (\<lambda>c. c = CR \<or> c = LF) (drop (line_end p) p)"
    by (auto simp: load_next_entry_def Let_def split: if_splits)
  have "length (snd (snd e)) \<le> length p - line_end p"
    by (simp only: n(2)) (metis length_drop length_dropWhile_le)
  moreover have "2 \<le> line_end p" "2 \<le> length p" using n(1) by simp_all
  ultimately show ?thesis by (cases e) (simp add: Some entry_size_def)
qed (simp add: entry_size_def)

section \<open>Fields\<close>

text \<open>
  \<^verbatim>\<open>split_values\<close>: what it stores through its variable arguments, and the rest of the value.
  A number that cannot be read ends the value.
\<close>

datatype sdp_arg = Text (arg_text: string) | Number (arg_int: int)

definition scale_time :: "int \<Rightarrow> int \<Rightarrow> string \<Rightarrow> (int \<times> string) res" where
  "scale_time t k p =
     (if - (2 ^ 63) \<le> t * k \<and> t * k < 2 ^ 63 then Inr (t * k, p) else Inl Int_Overflow)"

definition time_suffix :: "int \<Rightarrow> string \<Rightarrow> (int \<times> string) res" where
  "time_suffix t p =
     (case p of
        [] \<Rightarrow> Inr (t, p)
      | c # q \<Rightarrow>
          if c = CHR ''d'' then scale_time t 86400 q
          else if c = CHR ''h'' then scale_time t 3600 q
          else if c = CHR ''m'' then scale_time t 60 q
          else Inr (t, p))"

definition split_one :: "char \<Rightarrow> char \<Rightarrow> string \<Rightarrow> (sdp_arg list \<times> string) res" where
  "split_one sep f p =
     (let (n, tmp) = strtol p in
      if f = CHR ''s'' then
        Inr ([Text (takeWhile (\<lambda>c. c \<noteq> sep) p)],
             dropWhile (\<lambda>c. c = sep) (dropWhile (\<lambda>c. c \<noteq> sep) p))
      else if f = CHR ''l'' then Inr ([Number n], if tmp = p then [] else tmp)
      else if f = CHR ''i'' then
        Inr ([Number (sint (word_of_int n :: u32))], if tmp = p then [] else tmp)
      else if f = CHR ''t'' then
        (if tmp = p then Inr ([Number n], [])
         else bind_res (time_suffix n tmp) (\<lambda>(t, q). Inr ([Number t], q)))
      else Inr ([], p))"

fun split_fields :: "char \<Rightarrow> string \<Rightarrow> string \<Rightarrow> (sdp_arg list \<times> string) res" where
  "split_fields sep [] p = Inr ([], p)"
| "split_fields sep (f # fmt) p =
     bind_res (split_one sep f p) (\<lambda>(a, p).
     bind_res (split_fields sep fmt (dropWhile (\<lambda>c. c = sep) p)) (\<lambda>(as, p).
     Inr (a @ as, p)))"

definition split_values :: "string \<Rightarrow> char \<Rightarrow> string \<Rightarrow> (sdp_arg list \<times> string) res" where
  "split_values p sep fmt = split_fields sep fmt (dropWhile (\<lambda>c. c = sep) p)"

lemma strtol_length: "snd (strtol s) = s \<or> length (snd (strtol s)) < length s"
proof -
  have sign: "length (snd (skip_sign u)) \<le> length u" for u by (cases u) auto
  have "takeWhile isdigit u \<noteq> [] \<Longrightarrow> length (dropWhile isdigit u) < length u" for u
    by (cases u) (auto simp: le_imp_less_Suc length_dropWhile_le split: if_splits)
  then show ?thesis
    using sign [of "dropWhile isspace s"] length_dropWhile_le [of isspace s]
    by (auto simp: strtol_def Let_def split: prod.splits) (metis le_less_trans le_trans less_le_trans snd_conv)
qed

lemma time_suffix_length: "time_suffix t p = Inr (u, q) \<Longrightarrow> length q \<le> length p"
  by (auto simp: time_suffix_def scale_time_def split: list.splits if_splits)

lemma split_one_length:
  assumes "split_one sep f p = Inr (a, q)"
  shows "length q \<le> length p"
  using assms strtol_length [of p]
  by (auto simp: split_one_def bind_res_eq_Inr length_dropWhile_le split: prod.splits if_splits
      dest!: time_suffix_length intro: le_trans [OF length_dropWhile_le])

lemma split_one_number:
  assumes "split_one sep f p = Inr (a, q)" "p \<noteq> []" "f \<in> {CHR ''i'', CHR ''t''}"
  shows "length q < length p"
  using assms strtol_length [of p]
  by (auto simp: split_one_def bind_res_eq_Inr split: prod.splits if_splits dest!: time_suffix_length)

lemma split_fields_length:
  "split_fields sep fmt p = Inr (as, q) \<Longrightarrow> length q \<le> length p"
proof (induction fmt arbitrary: p as)
  case (Cons f fmt)
  then obtain a p1 bs where 1: "split_one sep f p = Inr (a, p1)"
    and 2: "split_fields sep fmt (dropWhile (\<lambda>c. c = sep) p1) = Inr (bs, q)"
    by (auto simp: bind_res_eq_Inr)
  from Cons.IH [OF 2] length_dropWhile_le [of "\<lambda>c. c = sep" p1] split_one_length [OF 1]
  show ?case by linarith
qed simp

lemma split_values_progress:
  assumes "split_values p sep (f # fmt) = Inr (as, q)" "p \<noteq> []" "f \<in> {CHR ''i'', CHR ''t''}"
  shows "length q < length p"
proof -
  let ?p = "dropWhile (\<lambda>c. c = sep) p"
  obtain a p1 where 1: "split_one sep f ?p = Inr (a, p1)"
    and "\<exists>bs. split_fields sep fmt (dropWhile (\<lambda>c. c = sep) p1) = Inr (bs, q)"
    using assms(1) by (auto simp: split_values_def bind_res_eq_Inr)
  then have q: "length q \<le> length p1"
    using split_fields_length length_dropWhile_le le_trans by blast
  show ?thesis
  proof (cases "?p = []")
    case True
    with q split_one_length [OF 1] assms(2) show ?thesis by simp
  next
    case False
    with q split_one_number [OF 1 _ assms(3)] length_dropWhile_le [of "\<lambda>c. c = sep" p]
    show ?thesis by linarith
  qed
qed

section \<open>The parser\<close>

definition conn_info :: "sdp_connection \<Rightarrow> sdp_entry \<Rightarrow> (sdp_connection \<times> sdp_entry) res" where
  "conn_info c e =
     (case e of
        None \<Rightarrow> Inr (c, e)
      | Some (key, value, p) \<Rightarrow>
          if key = CHR ''c'' then
            bind_res (split_values value (CHR '' '') ''sss'') (\<lambda>(a, _).
            Inr (\<lparr>cn_nettype = Some (arg_text (a ! 0)), cn_addrtype = Some (arg_text (a ! 1)),
                  cn_address = Some (arg_text (a ! 2))\<rparr>,
                 load_next_entry (Some p)))
          else Inr (c, e))"

definition facultative_str :: "char \<Rightarrow> sdp_entry \<Rightarrow> string option \<times> sdp_entry" where
  "facultative_str k e =
     (case e of
        None \<Rightarrow> (None, e)
      | Some (key, value, p) \<Rightarrow>
          if key = k then (Some value, load_next_entry (Some p)) else (None, e))"

lemma next_shorter: "entry_size (load_next_entry (Some p)) < entry_size (Some (key, value, p))"
  using entry_size_next [of p] by (simp add: entry_size_def)

function multiple_str :: "char \<Rightarrow> sdp_entry \<Rightarrow> string list \<times> sdp_entry" where
  "multiple_str k e =
     (case e of
        None \<Rightarrow> ([], e)
      | Some (key, value, p) \<Rightarrow>
          if key = k then
            (let (vs, e) = multiple_str k (load_next_entry (Some p)) in (value # vs, e))
          else ([], e))"
  by pat_completeness auto
termination
  by (relation "measure (\<lambda>(k, e). entry_size e)") (use next_shorter in auto)

function bandwidth_info :: "sdp_entry \<Rightarrow> (sdp_bandwidth list \<times> sdp_entry) res" where
  "bandwidth_info e =
     (case e of
        None \<Rightarrow> Inr ([], e)
      | Some (key, value, p) \<Rightarrow>
          if key = CHR ''b'' then
            bind_res (split_values value (CHR '':'') ''ss'') (\<lambda>(a, _).
            bind_res (bandwidth_info (load_next_entry (Some p))) (\<lambda>(bs, e).
            Inr (\<lparr>bw_type = arg_text (a ! 0), bw_bandwidth = arg_text (a ! 1)\<rparr> # bs, e)))
          else Inr ([], e))"
  by pat_completeness auto
termination
  by (relation "measure entry_size") (use next_shorter in auto)

text \<open>The loops over the rest of a value, \<^verbatim>\<open>while (*value)\<close>.\<close>

function offsets_loop :: "string \<Rightarrow> int list res" where
  "offsets_loop v =
     (if v = [] then Inr []
      else
        bind_res (split_values v (CHR '' '') ''t'') (\<lambda>(a, v).
        bind_res (offsets_loop v) (\<lambda>ts. Inr (arg_int (a ! 0) # ts))))"
  by pat_completeness auto
termination
  by (relation "measure length") (auto dest!: split_values_progress)

function zone_loop :: "string \<Rightarrow> sdp_zone_adjustments list res" where
  "zone_loop v =
     (if v = [] then Inr []
      else
        bind_res (split_values v (CHR '' '') ''tt'') (\<lambda>(a, v).
        bind_res (zone_loop v) (\<lambda>zs.
        Inr (\<lparr>za_adjust = arg_int (a ! 0), za_offset = arg_int (a ! 1)\<rparr> # zs))))"
  by pat_completeness auto
termination
  by (relation "measure length") (auto dest!: split_values_progress)

function fmt_loop :: "string \<Rightarrow> int list res" where
  "fmt_loop v =
     (if v = [] then Inr []
      else
        bind_res (split_values v (CHR '' '') ''i'') (\<lambda>(a, v).
        bind_res (fmt_loop v) (\<lambda>ns. Inr (arg_int (a ! 0) # ns))))"
  by pat_completeness auto
termination
  by (relation "measure length") (auto dest!: split_values_progress)

function repeat_loop :: "sdp_entry \<Rightarrow> (sdp_repeat list \<times> sdp_entry) res" where
  "repeat_loop e =
     (case e of
        None \<Rightarrow> Inr ([], e)
      | Some (key, value, p) \<Rightarrow>
          if key = CHR ''r'' then
            bind_res (split_values value (CHR '' '') ''tt'') (\<lambda>(a, value).
            bind_res (offsets_loop value) (\<lambda>offs.
            bind_res (repeat_loop (load_next_entry (Some p))) (\<lambda>(rs, e).
            Inr (\<lparr>rp_interval = arg_int (a ! 0), rp_duration = arg_int (a ! 1),
                  rp_offsets = offs\<rparr> # rs, e))))
          else Inr ([], e))"
  by pat_completeness auto
termination
  by (relation "measure entry_size") (use next_shorter in auto)

declare multiple_str.simps [simp del] bandwidth_info.simps [simp del] repeat_loop.simps [simp del]
  offsets_loop.simps [simp del] zone_loop.simps [simp del] fmt_loop.simps [simp del]

lemma facultative_size: "entry_size (snd (facultative_str k e)) \<le> entry_size e"
  by (auto simp: facultative_str_def intro!: less_imp_le [OF next_shorter] split: option.split)

lemma multiple_size: "entry_size (snd (multiple_str k e)) \<le> entry_size e"
proof (induction k e rule: multiple_str.induct)
  case (1 k e)
  show ?case
  proof (cases "\<exists>v p. e = Some (k, v, p)")
    case True
    then obtain v p where e: "e = Some (k, v, p)" by blast
    show ?thesis
      using 1 [OF e refl refl refl] next_shorter [of p k v]
      by (subst multiple_str.simps) (simp add: e split_beta)
  qed (subst multiple_str.simps, auto split: option.split)
qed

lemma conn_size: "conn_info c e = Inr (d, e') \<Longrightarrow> entry_size e' \<le> entry_size e"
  by (auto simp: conn_info_def bind_res_eq_Inr intro!: less_imp_le [OF next_shorter]
      split: option.splits if_splits)

lemma bandwidth_size: "bandwidth_info e = Inr (bs, e') \<Longrightarrow> entry_size e' \<le> entry_size e"
proof (induction e arbitrary: bs e' rule: bandwidth_info.induct)
  case (1 e)
  show ?case
  proof (cases "\<exists>v p. e = Some (CHR ''b'', v, p)")
    case True
    then obtain v p where e: "e = Some (CHR ''b'', v, p)" by blast
    then obtain a q cs where
        s: "split_values v (CHR '':'') ''ss'' = Inr (a, q)"
      and b: "bandwidth_info (load_next_entry (Some p)) = Inr (cs, e')"
      using 1(2) by (subst (asm) bandwidth_info.simps) (auto simp: bind_res_eq_Inr)
    from 1(1) [OF e refl refl refl s refl b] next_shorter [of p "CHR ''b''" v] e
    show ?thesis by simp
  next
    case False
    then show ?thesis using 1(2) by (subst (asm) bandwidth_info.simps) (auto split: option.splits)
  qed
qed

lemma repeat_size: "repeat_loop e = Inr (rs, e') \<Longrightarrow> entry_size e' \<le> entry_size e"
proof (induction e arbitrary: rs e' rule: repeat_loop.induct)
  case (1 e)
  show ?case
  proof (cases "\<exists>v p. e = Some (CHR ''r'', v, p)")
    case True
    then obtain v p where e: "e = Some (CHR ''r'', v, p)" by blast
    then obtain a q ns cs where
        s: "split_values v (CHR '' '') ''tt'' = Inr (a, q)" and o: "offsets_loop q = Inr ns"
      and b: "repeat_loop (load_next_entry (Some p)) = Inr (cs, e')"
      using 1(2) by (subst (asm) repeat_loop.simps) (auto simp: bind_res_eq_Inr)
    from 1(1) [OF e refl refl refl s refl o b] next_shorter [of p "CHR ''r''" v] e
    show ?thesis by simp
  next
    case False
    then show ?thesis using 1(2) by (subst (asm) repeat_loop.simps) (auto split: option.splits)
  qed
qed

text \<open>
  The time fields: the first turn of the loop takes whatever line is there as a time line, and
  follows \<^verbatim>\<open>NULL\<close> if there is none.
\<close>

definition parse_time :: "string \<Rightarrow> string \<Rightarrow> (sdp_time \<times> sdp_entry) res" where
  "parse_time value p =
     bind_res (split_values value (CHR '' '') ''tt'') (\<lambda>(a, _).
     bind_res (repeat_loop (load_next_entry (Some p))) (\<lambda>(rs, e).
     Inr (\<lparr>tm_start = arg_int (a ! 0), tm_stop = arg_int (a ! 1), tm_repeat = rs\<rparr>, e)))"

lemma parse_time_size:
  "parse_time value p = Inr (t, e) \<Longrightarrow> entry_size e < entry_size (Some (key, value, p))"
  using next_shorter [of p key "value"]
  by (auto simp: parse_time_def bind_res_eq_Inr dest!: repeat_size)

function time_loop :: "sdp_entry \<Rightarrow> (sdp_time list \<times> sdp_entry) res" where
  "time_loop e =
     (case e of
        None \<Rightarrow> Inl Null_Deref
      | Some (_, value, p) \<Rightarrow>
          bind_res (parse_time value p) (\<lambda>(t, e).
          if entry_key e = CHR ''t'' then bind_res (time_loop e) (\<lambda>(ts, e). Inr (t # ts, e))
          else Inr ([t], e)))"
  by pat_completeness auto
termination
  by (relation "measure entry_size") (use parse_time_size in auto)

text \<open>One media description: its line, and the lines that belong to it.\<close>

definition media_info :: "string \<Rightarrow> sdp_info res" where
  "media_info v =
     bind_res (split_values v (CHR '' '') ''s'') (\<lambda>(a, v).
     let type = arg_text (a ! 0);
         (port, v) = strtol v;
         (port_n, v) =
           (case v of
              [] \<Rightarrow> (0, v)
            | c # u \<Rightarrow> if c = CHR ''/'' then strtol u else (0, v)) in
     bind_res (split_values v (CHR '' '') ''s'') (\<lambda>(a, v).
     bind_res (fmt_loop v) (\<lambda>fmt.
     Inr \<lparr>mi_type = type, mi_port = sint (word_of_int port :: u32),
          mi_port_n = sint (word_of_int port_n :: u32), mi_proto = arg_text (a ! 0),
          mi_fmt = fmt\<rparr>)))"

definition no_connection :: sdp_connection where
  "no_connection = \<lparr>cn_nettype = None, cn_addrtype = None, cn_address = None\<rparr>"

definition media_fields :: "sdp_info \<Rightarrow> sdp_entry \<Rightarrow> (sdp_media \<times> sdp_entry) res" where
  "media_fields info e =
     (let (title, e) = facultative_str (CHR ''i'') e in
     bind_res (conn_info no_connection e) (\<lambda>(conn, e).
     bind_res (bandwidth_info e) (\<lambda>(bw, e).
     let (key, e) = facultative_str (CHR ''k'') e;
         (attrs, e) = multiple_str (CHR ''a'') e in
     Inr (\<lparr>md_info = info, md_title = title, md_conn = conn, md_bw = bw, md_encrypt_key = key,
           md_attributes = attrs\<rparr>, e))))"

definition parse_media :: "string \<Rightarrow> string \<Rightarrow> (sdp_media \<times> sdp_entry) res" where
  "parse_media value p =
     bind_res (media_info value) (\<lambda>info. media_fields info (load_next_entry (Some p)))"

lemma media_fields_size:
  assumes "media_fields info e = Inr (m, e')"
  shows "entry_size e' \<le> entry_size e"
proof -
  obtain c e2 bs e3 where c: "conn_info no_connection (snd (facultative_str (CHR ''i'') e)) = Inr (c, e2)"
    and b: "bandwidth_info e2 = Inr (bs, e3)"
    and e: "e' = snd (multiple_str (CHR ''a'') (snd (facultative_str (CHR ''k'') e3)))"
    using assms by (auto simp: media_fields_def bind_res_eq_Inr Let_def split_beta)
  from conn_size [OF c] bandwidth_size [OF b] multiple_size facultative_size e
  show ?thesis by (meson le_trans)
qed

lemma parse_media_size:
  "parse_media value p = Inr (m, e) \<Longrightarrow> entry_size e < entry_size (Some (key, value, p))"
  using next_shorter [of p key "value"]
  by (auto simp: parse_media_def bind_res_eq_Inr dest!: media_fields_size)

function media_loop :: "sdp_entry \<Rightarrow> (sdp_media list \<times> sdp_entry) res" where
  "media_loop e =
     (case e of
        None \<Rightarrow> Inr ([], e)
      | Some (key, value, p) \<Rightarrow>
          if key = CHR ''m'' then
            bind_res (parse_media value p) (\<lambda>(m, e).
            bind_res (media_loop e) (\<lambda>(ms, e). Inr (m # ms, e)))
          else Inr ([], e))"
  by pat_completeness auto
termination
  by (relation "measure entry_size") (use parse_media_size in auto)

declare time_loop.simps [simp del] media_loop.simps [simp del]

text \<open>The session level behind the session name.\<close>

definition parse_session :: "sdp_payload \<Rightarrow> sdp_entry \<Rightarrow> (sdp_payload \<times> sdp_entry) res" where
  "parse_session sdp e =
     (let (info, e) = facultative_str (CHR ''i'') e;
          (uri, e) = facultative_str (CHR ''u'') e;
          (emails, e) = multiple_str (CHR ''e'') e;
          (phones, e) = multiple_str (CHR ''p'') e in
      bind_res (conn_info no_connection e) (\<lambda>(conn, e).
      bind_res (bandwidth_info e) (\<lambda>(bw, e).
      Inr (sdp\<lparr>sp_information := info, sp_uri := uri, sp_emails := emails, sp_phones := phones,
               sp_conn := conn, sp_bw := bw\<rparr>, e))))"

definition zone_info :: "sdp_entry \<Rightarrow> (sdp_zone_adjustments list \<times> sdp_entry) res" where
  "zone_info e =
     (case e of
        None \<Rightarrow> Inr ([], e)
      | Some (key, value, p) \<Rightarrow>
          if key = CHR ''z'' then
            bind_res (zone_loop value) (\<lambda>zs. Inr (zs, load_next_entry (Some p)))
          else Inr ([], e))"

definition parse_rest :: "sdp_payload \<Rightarrow> sdp_entry \<Rightarrow> sdp_payload res" where
  "parse_rest sdp e =
     bind_res (time_loop e) (\<lambda>(times, e).
     bind_res (zone_info e) (\<lambda>(zones, e).
     let (key, e) = facultative_str (CHR ''k'') e;
         (attrs, e) = multiple_str (CHR ''a'') e in
     bind_res (media_loop e) (\<lambda>(medias, e).
     Inr (sdp\<lparr>sp_times := times, sp_zone_adjustments := zones, sp_encrypt_key := key,
              sp_attributes := attrs, sp_medias := medias\<rparr>))))"

definition parse_origin :: "string \<Rightarrow> sdp_origin res" where
  "parse_origin v =
     bind_res (split_values v (CHR '' '') ''sllsss'') (\<lambda>(a, _).
     Inr \<lparr>or_username = arg_text (a ! 0), or_sess_id = arg_int (a ! 1),
          or_sess_version = arg_int (a ! 2), or_nettype = arg_text (a ! 3),
          or_addrtype = arg_text (a ! 4), or_addr = arg_text (a ! 5)\<rparr>)"

text \<open>
  The version is \<^verbatim>\<open>value[0] - '0'\<close> in an \<^verbatim>\<open>unsigned char\<close>; the first character of an empty value
  is its terminating zero.
\<close>

definition version_byte :: "string \<Rightarrow> byte" where
  "version_byte v = of_char (if v = [] then NUL else hd v) - of_char (CHR ''0'')"

definition sdp_parse :: "string \<Rightarrow> sdp_payload option res" where
  "sdp_parse payload =
     (case load_next_entry (Some payload) of
        None \<Rightarrow> Inr None
      | Some (key, value, p) \<Rightarrow>
     if key \<noteq> CHR ''v'' then Inr None
     else if version_byte value \<noteq> 0 \<or> length value > 1 then Inr None
     else
       (case load_next_entry (Some p) of
          None \<Rightarrow> Inr None
        | Some (key, value, p) \<Rightarrow>
       if key \<noteq> CHR ''o'' then Inr None
       else bind_res (parse_origin value) (\<lambda>orig.
         case load_next_entry (Some p) of
           None \<Rightarrow> Inr None
         | Some (key, value, p) \<Rightarrow>
         if key \<noteq> CHR ''s'' then Inr None
         else
           bind_res (parse_session
             \<lparr>sp_proto_version = 0, sp_origin = orig, sp_session_name = value,
              sp_information = None, sp_uri = None, sp_emails = [], sp_phones = [],
              sp_conn = no_connection, sp_bw = [], sp_times = [], sp_zone_adjustments = [],
              sp_encrypt_key = None, sp_attributes = [], sp_medias = []\<rparr>
             (load_next_entry (Some p))) (\<lambda>(sdp, e).
           bind_res (parse_rest sdp e) (\<lambda>sdp. Inr (Some sdp))))))"

section \<open>Attributes\<close>

text \<open>\<^verbatim>\<open>sdp_get_attr\<close>: the value of the first attribute with the key.\<close>

fun sdp_get_attr :: "string list \<Rightarrow> string \<Rightarrow> string option" where
  "sdp_get_attr [] key = None"
| "sdp_get_attr (a # attr) key =
     (if starts_with a key \<and> length key < length a \<and> a ! length key = CHR '':''
      then Some (drop (length key + 1) a)
      else sdp_get_attr attr key)"

fun sdp_has_flag_attr :: "string list \<Rightarrow> string \<Rightarrow> bool" where
  "sdp_has_flag_attr [] flag = False"
| "sdp_has_flag_attr (a # attr) flag = (if a = flag then True else sdp_has_flag_attr attr flag)"

section \<open>The printer\<close>

text \<open>\<^verbatim>\<open>sdp_dump\<close>: the text it prints.\<close>

definition opt_line :: "string \<Rightarrow> string option \<Rightarrow> string" where
  "opt_line k v = (case v of None \<Rightarrow> [] | Some s \<Rightarrow> k @ s @ [LF])"

definition dump_conn :: "sdp_connection \<Rightarrow> string" where
  "dump_conn c =
     (case (cn_nettype c, cn_addrtype c, cn_address c) of
        (Some n, Some t, Some a) \<Rightarrow> ''c='' @ n @ '' '' @ t @ '' '' @ a @ [LF]
      | _ \<Rightarrow> [])"

definition dump_bw :: "sdp_bandwidth \<Rightarrow> string" where
  "dump_bw b = ''b='' @ bw_type b @ '':'' @ bw_bandwidth b @ [LF]"

definition dump_repeat :: "sdp_repeat \<Rightarrow> string" where
  "dump_repeat r =
     ''r='' @ dec_int (rp_interval r) @ '' '' @ dec_int (rp_duration r) @
     concat (map (\<lambda>t. '' '' @ dec_int t) (rp_offsets r)) @ [LF]"

definition dump_time :: "sdp_time \<Rightarrow> string" where
  "dump_time t =
     ''t='' @ dec_int (tm_start t) @ '' '' @ dec_int (tm_stop t) @ [LF] @
     concat (map dump_repeat (tm_repeat t))"

fun dump_zones :: "sdp_zone_adjustments list \<Rightarrow> string" where
  "dump_zones [] = []"
| "dump_zones (z # zs) =
     dec_int (za_adjust z) @ '' '' @ dec_int (za_offset z) @ (if zs \<noteq> [] then '' '' else []) @
     dump_zones zs"

definition dump_info :: "sdp_info \<Rightarrow> string" where
  "dump_info i =
     ''m='' @ mi_type i @ '' '' @ dec_int (mi_port i) @
     (if mi_port_n i \<noteq> 0 then ''/'' @ dec_int (mi_port_n i) else []) @ '' '' @ mi_proto i @
     concat (map (\<lambda>n. '' '' @ dec_int n) (mi_fmt i)) @ [LF]"

definition dump_media :: "sdp_media \<Rightarrow> string" where
  "dump_media m =
     dump_info (md_info m) @ opt_line ''i='' (md_title m) @ dump_conn (md_conn m) @
     concat (map dump_bw (md_bw m)) @ opt_line ''k='' (md_encrypt_key m) @
     concat (map (\<lambda>a. ''a='' @ a @ [LF]) (md_attributes m))"

definition dump_origin :: "sdp_origin \<Rightarrow> string" where
  "dump_origin r =
     ''o='' @ or_username r @ '' '' @ dec_int (or_sess_id r) @ '' '' @ dec_int (or_sess_version r) @
     '' '' @ or_nettype r @ '' '' @ or_addrtype r @ '' '' @ or_addr r @ [LF]"

definition sdp_dump :: "sdp_payload option \<Rightarrow> string" where
  "sdp_dump s =
     (case s of
        None \<Rightarrow> ''invalid SDP'' @ [LF]
      | Some p \<Rightarrow>
          ''v='' @ dec_nat (unat (sp_proto_version p)) @ [LF] @ dump_origin (sp_origin p) @
          ''s='' @ sp_session_name p @ [LF] @
          opt_line ''i='' (sp_information p) @ opt_line ''u='' (sp_uri p) @
          concat (map (\<lambda>s. ''e='' @ s @ [LF]) (sp_emails p)) @
          concat (map (\<lambda>s. ''p='' @ s @ [LF]) (sp_phones p)) @
          dump_conn (sp_conn p) @ concat (map dump_bw (sp_bw p)) @
          concat (map dump_time (sp_times p)) @
          (if sp_zone_adjustments p \<noteq> [] then
             ''z='' @ dump_zones (sp_zone_adjustments p) @ [LF] else []) @
          opt_line ''k='' (sp_encrypt_key p) @
          concat (map (\<lambda>a. ''a='' @ a @ [LF]) (sp_attributes p)) @
          concat (map dump_media (sp_medias p)))"

end
