(* ===== verification/RtspPlayer.thy ===== *)
theory RtspPlayer
  imports Sdp RtpPayload
begin

text \<open>
  \<^verbatim>\<open>rtsp_client/RtspPlayer.cpp\<close>: the player that sets up a session over RTSP and writes the
  H.264 stream that it receives over UDP to a file.  Its thread turns around \<^verbatim>\<open>select\<close>: it handles
  a message of the server, an RTP packet, and the end of the connection attempt, each of which
  may set the next state, and then does what the state asks for.

  The state is the object with what it has sent and the file; the operating system is a record of
  answers, and a turn gets what \<^verbatim>\<open>select\<close> and the \<^verbatim>\<open>recv\<close> calls after it deliver.  Logging is left
  out.  \<^verbatim>\<open>Stop\<close> runs in another thread, between two turns here.
\<close>

section \<open>State\<close>

datatype RtspPlayerState =
    RtspSendOptions | RtspHandleOptions | RtspSendDescribe | RtspHandleDescribe
  | RtspSendVideoSetup | RtspHandleVideoSetup | RtspSendAudioSetup | RtspHandleAudioSetup
  | RtspSendPlay | RtspHandlePlay | RtspSendPause | RtspHandlePause
  | RtspSendTerminate | RtspHandleTerminate | RtspIdle | RtspTurnOff

definition RTSPOPTIONS :: int where "RTSPOPTIONS = 1"
definition RTSPDESCRIBE :: int where "RTSPDESCRIBE = 2"
definition RTSPVIDEO_SETUP :: int where "RTSPVIDEO_SETUP = 3"
definition RTSPAUDIO_SETUP :: int where "RTSPAUDIO_SETUP = 4"
definition RTSPPLAY :: int where "RTSPPLAY = 5"

definition VIDEO_RTP_PORT :: int where "VIDEO_RTP_PORT = 12000"
definition VIDEO_RTCP_PORT :: int where "VIDEO_RTCP_PORT = 12001"

datatype connect_result = Connected | In_Progress | Not_Connected

text \<open>The \<open>k\<close>-th UDP socket, and whether \<^verbatim>\<open>ioctl\<close> and \<^verbatim>\<open>bind\<close> succeed on it.\<close>

record player_os =
  po_socket :: int
  po_ioctl :: bool
  po_connect :: "string \<Rightarrow> u16 \<Rightarrow> connect_result"
  po_udp :: "nat \<Rightarrow> int \<times> bool \<times> bool"
  po_fopen :: bool

record player =
  pl_terminated :: bool
  pl_networked :: bool
  pl_state :: RtspPlayerState
  pl_eventfd :: int
  pl_rtsp_socket :: int
  pl_video_socket :: int
  pl_udp_calls :: nat
  pl_writefd :: bool                        \<comment> \<open>the RTSP socket is in \<open>_writefd\<close>\<close>
  pl_url :: string
  pl_ip :: string
  pl_sdp :: "sdp_payload option"
  pl_session :: int
  pl_sent :: "string list"                  \<comment> \<open>the requests\<close>
  pl_datagrams :: "(string \<times> u16 \<times> byte list) list"
  pl_fp :: "byte list option"               \<comment> \<open>the file, if it is open\<close>

section \<open>sscanf, sprintf and strtok\<close>

datatype scan_item = Lit string | Int32 | Int64 | SkipNot char

text \<open>What \<^verbatim>\<open>sscanf\<close> assigns; it returns how many values that are.\<close>

fun scan :: "scan_item list \<Rightarrow> string \<Rightarrow> int list" where
  "scan [] s = []"
| "scan (Lit l # fs) s = (if starts_with s l then scan fs (drop (length l) s) else [])"
| "scan (Int32 # fs) s =
     (let (n, r) = strtol s in if r = s then [] else sint (word_of_int n :: u32) # scan fs r)"
| "scan (Int64 # fs) s = (let (n, r) = strtol s in if r = s then [] else n # scan fs r)"
| "scan (SkipNot c # fs) s =
     (let r = dropWhile (\<lambda>d. d \<noteq> c) s in if r = s then [] else scan fs r)"

definition sprintf_buf :: "nat \<Rightarrow> string \<Rightarrow> string res" where
  "sprintf_buf room s = (if length s < room then Inr s else Inl Write_Overflow)"

function strtok_all :: "(char \<Rightarrow> bool) \<Rightarrow> string \<Rightarrow> string list" where
  "strtok_all delim s =
     (let t = dropWhile delim s in
      if t = [] then []
      else takeWhile (\<lambda>c. \<not> delim c) t # strtok_all delim (dropWhile (\<lambda>c. \<not> delim c) t))"
  by pat_completeness auto
termination
proof (relation "measure (\<lambda>(delim, s). length s)")
  fix delim :: "char \<Rightarrow> bool" and s t
  assume t: "t = dropWhile delim s" "t \<noteq> []"
  then have "\<not> delim (hd t)" by (simp add: hd_dropWhile)
  with t(2) have "length (dropWhile (\<lambda>c. \<not> delim c) t) < length t"
    by (cases t) (auto simp: le_imp_less_Suc length_dropWhile_le)
  also have "length t \<le> length s" using t(1) by (simp add: length_dropWhile_le)
  finally show "((delim, dropWhile (\<lambda>c. \<not> delim c) t), delim, s) \<in> measure (\<lambda>(delim, s). length s)"
    by simp
qed simp

declare strtok_all.simps [simp del]

section \<open>Connecting\<close>

definition getIPFromUrl :: "string \<Rightarrow> (string \<times> u16) option" where
  "getIPFromUrl url =
     (let d = scan [Lit ''rtsp://'', Int32, Lit ''.'', Int32, Lit ''.'', Int32, Lit ''.'', Int32,
                    Lit '':'', Int32] url;
          field = length d;
          ip = dec_int (d ! 0) @ ''.'' @ dec_int (d ! 1) @ ''.'' @ dec_int (d ! 2) @ ''.'' @ dec_int (d ! 3)
      in if field < 4 then None
         else if field = 4 then Some (ip, 554)
         else Some (ip, word_of_int (d ! 4)))"

definition NetworkInit :: "player_os \<Rightarrow> string \<Rightarrow> u16 \<Rightarrow> player \<Rightarrow> bool \<times> player" where
  "NetworkInit os ip port p =
     (let p = p\<lparr>pl_rtsp_socket := po_socket os\<rparr> in
      if pl_rtsp_socket p < 0 then (False, p)
      else
        (let p = p\<lparr>pl_eventfd := max (pl_rtsp_socket p) (pl_eventfd p)\<rparr> in
         if \<not> po_ioctl os then (False, p)
         else
           (case po_connect os ip port of
              Not_Connected \<Rightarrow> (False, p)
            | _ \<Rightarrow> (True, p\<lparr>pl_networked := True\<rparr>))))"

definition RTPSocketInit :: "player_os \<Rightarrow> int \<Rightarrow> player \<Rightarrow> bool \<times> player" where
  "RTPSocketInit os videoPort p =
     (if videoPort \<noteq> 0 then
        (let (sock, ioctl_ok, bind_ok) = po_udp os (pl_udp_calls p);
             p = p\<lparr>pl_video_socket := sock, pl_udp_calls := pl_udp_calls p + 1\<rparr> in
         if sock < 0 then (False, p)
         else
           (let p = p\<lparr>pl_eventfd := max sock (pl_eventfd p)\<rparr> in
            if \<not> ioctl_ok then (False, p)
            else if \<not> bind_ok then (False, p)
            else (True, p)))
      else (False, p))"

definition EventInit :: "player \<Rightarrow> player" where "EventInit p = p\<lparr>pl_writefd := True\<rparr>"

section \<open>Requests and answers\<close>

definition send_request :: "string \<Rightarrow> player \<Rightarrow> player res" where
  "send_request text p =
     bind_res (sprintf_buf 1024 text) (\<lambda>buf. Inr (p\<lparr>pl_sent := pl_sent p @ [buf]\<rparr>))"

definition describe_text :: "string \<Rightarrow> string" where
  "describe_text url =
     ''DESCRIBE '' @ url @ '' RTSP/1.0'' @ crlf @ ''Accept: application/sdp'' @ crlf @
     ''CSeq: '' @ dec_int RTSPDESCRIBE @ crlf @ ''User-Agent: Lavf58.12.100'' @ crlf @ crlf"

definition SendDescribe :: "string \<Rightarrow> player \<Rightarrow> player res" where
  "SendDescribe url p = send_request (describe_text url) p"

definition GetSDPFromMessage :: "string \<Rightarrow> nat \<Rightarrow> string \<Rightarrow> string list res" where
  "GetSDPFromMessage buffer len pattern =
     (if length buffer > len then Inl Write_Overflow
      else Inr (strtok_all (\<lambda>c. c \<in> set pattern) buffer))"

text \<open>One line of the answer: the session number and the text for the SDP parser.\<close>

definition describe_line :: "int \<times> string \<Rightarrow> string \<Rightarrow> int \<times> string" where
  "describe_line st substr =
     (let (session, sdp) = st in
      if strstr substr ''Session:'' \<noteq> None then
        (case scan [Lit ''Session:'', Int64] substr of [] \<Rightarrow> (session, sdp) | n # _ \<Rightarrow> (n, sdp))
      else if strchr substr (CHR ''='') \<noteq> None then (session, sdp @ substr @ [LF])
      else (session, sdp))"

definition HandleDescribe :: "string \<Rightarrow> nat \<Rightarrow> player \<Rightarrow> player res" where
  "HandleDescribe buf bufsize p =
     bind_res (GetSDPFromMessage buf bufsize crlf) (\<lambda>rvector.
     let (session, sdp) = foldl describe_line (pl_session p, []) rvector in
     bind_res (sdp_parse sdp) (\<lambda>parser. Inr (p\<lparr>pl_session := session, pl_sdp := parser\<rparr>)))"

definition setup_text :: "string \<Rightarrow> int \<Rightarrow> int \<Rightarrow> string \<Rightarrow> int \<Rightarrow> int \<Rightarrow> string" where
  "setup_text url track CSeq proto rtp_port rtcp_port =
     ''SETUP '' @ url @ ''/trackID='' @ dec_int track @ '' RTSP/1.0'' @ crlf @
     ''CSeq: '' @ dec_int CSeq @ crlf @ ''User-Agent: Lavf58.12.100'' @ crlf @
     ''Transport: '' @ proto @ '';unicast;client_port='' @ dec_int rtp_port @ ''-'' @
     dec_int rtcp_port @ crlf @ crlf"

definition RtspSetup :: "string \<Rightarrow> int \<Rightarrow> int \<Rightarrow> string \<Rightarrow> int \<Rightarrow> int \<Rightarrow> player \<Rightarrow> player res" where
  "RtspSetup url track CSeq proto rtp_port rtcp_port p =
     send_request (setup_text url track CSeq proto rtp_port rtcp_port) p"

definition track_attr :: "int \<Rightarrow> string \<Rightarrow> int" where
  "track_attr track a =
     (if strstr a ''trackID'' \<noteq> None then
        (case scan [Lit ''control:trackID='', Int32] a of [] \<Rightarrow> track | n # _ \<Rightarrow> n)
      else track)"

definition setup_media :: "int \<times> player \<Rightarrow> sdp_media \<Rightarrow> (int \<times> player) res" where
  "setup_media st m =
     (let (track, p) = st in
      if mi_type (md_info m) = ''video'' then
        (let track = foldl track_attr track (md_attributes m) in
         bind_res (RtspSetup (pl_url p) track RTSPVIDEO_SETUP (mi_proto (md_info m))
           VIDEO_RTP_PORT VIDEO_RTCP_PORT p) (\<lambda>p. Inr (track, p)))
      else Inr (track, p))"

definition SendVideoSetup :: "player \<Rightarrow> player res" where
  "SendVideoSetup p =
     (case pl_sdp p of
        None \<Rightarrow> Inl Null_Deref
      | Some sdp \<Rightarrow> bind_res (fold_res setup_media (0, p) (sp_medias sdp)) (\<lambda>(_, p). Inr p))"

definition port_field :: "string \<Rightarrow> string \<Rightarrow> int" where
  "port_field buf key =
     (case strstr buf key of
        None \<Rightarrow> 0
      | Some i \<Rightarrow>
          (case scan [Lit key, Int32, Lit ''-'', Int32] (drop i buf) of [] \<Rightarrow> 0 | n # _ \<Rightarrow> n))"

definition natpacket :: "byte list" where "natpacket = 0x80 # replicate 11 0"

definition HandleVideoSetup :: "player_os \<Rightarrow> string \<Rightarrow> player \<Rightarrow> bool \<times> player" where
  "HandleVideoSetup os buf p =
     (let rtp_port = port_field buf ''client_port='';
          remote_port = port_field buf ''server_port='';
          (ok, p) = RTPSocketInit os (if rtp_port \<noteq> 0 then rtp_port else VIDEO_RTP_PORT) p in
      if \<not> ok then (False, p)
      else (True, p\<lparr>pl_datagrams := pl_datagrams p @ [(pl_ip p, word_of_int remote_port, natpacket)]\<rparr>))"

definition play_text :: "string \<Rightarrow> int \<Rightarrow> string" where
  "play_text url session =
     ''PLAY '' @ url @ '' RTSP/1.0'' @ crlf @ ''CSeq: '' @ dec_int RTSPPLAY @ crlf @
     ''Session: '' @ dec_int session @ crlf @ ''Range: npt=0.000-'' @ crlf @
     ''User-Agent: Lavf58.12.100'' @ crlf @ crlf"

definition SendPlay :: "string \<Rightarrow> player \<Rightarrow> player res" where
  "SendPlay url p = send_request (play_text url (pl_session p)) p"

definition HandleRtspMsg :: "player_os \<Rightarrow> string \<Rightarrow> nat \<Rightarrow> player \<Rightarrow> (bool \<times> player) res" where
  "HandleRtspMsg os buf bufsize p =
     (case scan [SkipNot (CHR ''C''), Lit ''CSeq:'', Int32] buf of
        [] \<Rightarrow> Inr (False, p)
      | MsgType # _ \<Rightarrow>
          if MsgType = RTSPDESCRIBE then
            bind_res (HandleDescribe buf bufsize p) (\<lambda>p.
            Inr (True, p\<lparr>pl_state := RtspSendVideoSetup\<rparr>))
          else if MsgType = RTSPVIDEO_SETUP then
            (let (ok, p) = HandleVideoSetup os buf p in
             Inr (True, if ok then p\<lparr>pl_state := RtspSendPlay\<rparr> else p))
          else Inr (True, p))"

definition HandleRtspState :: "player \<Rightarrow> player res" where
  "HandleRtspState p =
     bind_res
       (case pl_state p of
          RtspSendDescribe \<Rightarrow> SendDescribe (pl_url p) p
        | RtspSendVideoSetup \<Rightarrow> SendVideoSetup p
        | RtspSendPlay \<Rightarrow> SendPlay (pl_url p) p
        | _ \<Rightarrow> Inr p)
       (\<lambda>p. Inr (p\<lparr>pl_state := RtspIdle\<rparr>))"

section \<open>RTP packets\<close>

definition RTP_OFFSET :: int where "RTP_OFFSET = 12"
definition FU_OFFSET :: int where "FU_OFFSET = 14"

text \<open>The first byte of a NAL unit, as a structure of bit fields.\<close>

record Nalu =
  nalu_type :: byte
  nalu_ref_idc :: byte
  nalu_forbidden :: byte

record FU =
  fu_type :: byte
  fu_R :: byte
  fu_E :: byte
  fu_S :: byte

definition Nalu_of :: "byte \<Rightarrow> Nalu" where
  "Nalu_of b = \<lparr>nalu_type = b AND 0x1f, nalu_ref_idc = drop_bit 5 b AND 3, nalu_forbidden = drop_bit 7 b AND 1\<rparr>"

text \<open>\<^verbatim>\<open>char in\<close> is signed, but the bit fields keep one bit only.\<close>

definition FU_of :: "byte \<Rightarrow> FU" where
  "FU_of i =
     \<lparr>fu_type = i AND 0x1f, fu_R = drop_bit 5 i AND 1, fu_E = drop_bit 6 i AND 1,
      fu_S = signed_drop_bit 7 i AND 1\<rparr>"

definition fwrite_fp :: "byte list \<Rightarrow> player \<Rightarrow> player" where
  "fwrite_fp d p = p\<lparr>pl_fp := map_option (\<lambda>f. f @ d) (pl_fp p)\<rparr>"

text \<open>\<^verbatim>\<open>fwrite(buf + offset, bufsize - offset, 1, fp)\<close>, the size converted to \<^verbatim>\<open>size_t\<close>.\<close>

definition fwrite_rest :: "byte list \<Rightarrow> int \<Rightarrow> int \<Rightarrow> player \<Rightarrow> player res" where
  "fwrite_rest buf bufsize offset p =
     bind_res (rd_block buf (nat offset) (unat (word_of_int (bufsize - offset) :: u64))) (\<lambda>d.
     Inr (fwrite_fp d p))"

definition HandleRtpMsg :: "player_os \<Rightarrow> byte list \<Rightarrow> int \<Rightarrow> player \<Rightarrow> player res" where
  "HandleRtpMsg os buf bufsize p =
     bind_res (rd buf (nat RTP_OFFSET)) (\<lambda>b.
     let nalu = Nalu_of b in
     if pl_fp p = None \<and> \<not> po_fopen os then Inr p
     else
       (let p = (if pl_fp p = None then p\<lparr>pl_fp := Some []\<rparr> else p) in
        if nalu_type nalu < 24 then
          fwrite_rest buf bufsize RTP_OFFSET (fwrite_fp [0, 0, 0, 1] p)
        else if nalu_type nalu = 28 then
          bind_res (rd buf (nat RTP_OFFSET + 1)) (\<lambda>i.
          let fu = FU_of i in
          if fu_S fu = 1 then
            (let naluType = push_bit 7 (nalu_forbidden nalu) OR push_bit 5 (nalu_ref_idc nalu) OR fu_type fu
             in fwrite_rest buf bufsize FU_OFFSET (fwrite_fp [naluType] (fwrite_fp [0, 0, 0, 1] p)))
          else fwrite_rest buf bufsize FU_OFFSET p)
        else Inr p))"

section \<open>The thread\<close>

text \<open>
  What \<^verbatim>\<open>select\<close> returns; what \<^verbatim>\<open>recv\<close> reads if the RTSP socket is readable, nothing for the end
  of the connection or an error; the datagram if the video socket is readable, \<open>None\<close> for an
  error; and whether the RTSP socket is writable or in error.
\<close>

record select_event =
  se_result :: int
  se_rtsp :: "byte list option"
  se_video :: "byte list option option"
  se_writable :: bool
  se_error :: bool

definition RECV_SIZE :: nat where "RECV_SIZE = 2048"

definition recvbuf :: "byte list \<Rightarrow> byte list" where
  "recvbuf d = take RECV_SIZE d @ replicate (RECV_SIZE - length d) 0"

definition on_rtsp :: "player_os \<Rightarrow> byte list option \<Rightarrow> player \<Rightarrow> (bool \<times> player) res" where
  "on_rtsp os r p =
     (case r of
        None \<Rightarrow> Inr (True, p)
      | Some d \<Rightarrow>
          if d = [] then Inr (False, p)
          else if 0 \<notin> set (recvbuf d) then Inl Read_Overflow
          else
            bind_res (HandleRtspMsg os (array_string (bytes_text (recvbuf d))) (min RECV_SIZE (length d)) p)
              (\<lambda>(_, p). Inr (True, p)))"

definition on_video :: "player_os \<Rightarrow> int \<Rightarrow> byte list option option \<Rightarrow> player \<Rightarrow> player res" where
  "on_video os selected r p =
     (if selected = 0 \<or> pl_video_socket p \<noteq> selected then Inr p
      else
        (case r of
           None \<Rightarrow> Inr p
         | Some None \<Rightarrow> HandleRtpMsg os (recvbuf []) (-1) p
         | Some (Some d) \<Rightarrow> HandleRtpMsg os (recvbuf d) (int (min RECV_SIZE (length d))) p))"

text \<open>
  One turn: whether the loop goes on.  \<^verbatim>\<open>select\<close> overwrites \<^verbatim>\<open>_writefd\<close>.  \<^verbatim>\<open>FD_SET\<close> of the
  descriptor of a failed socket writes in front of the set.
\<close>

definition play_turn :: "player_os \<Rightarrow> select_event \<Rightarrow> player \<Rightarrow> (bool \<times> player) res" where
  "play_turn os e p =
     (if pl_video_socket p < 0 then Inl Write_Overflow
      else if se_result e < 0 then Inr (False, p)
      else if se_result e = 0 then
        bind_res (HandleRtspState (p\<lparr>pl_writefd := False\<rparr>)) (\<lambda>p. Inr (True, p))
      else
        (let video = pl_video_socket p; writable = pl_writefd p \<and> se_writable e;
             p = p\<lparr>pl_writefd := writable\<rparr> in
         bind_res (on_rtsp os (se_rtsp e) p) (\<lambda>(go, p).
         if \<not> go then Inr (False, p)
         else
           bind_res (on_video os video (se_video e) p) (\<lambda>p.
           let p = (if writable then p\<lparr>pl_state := RtspSendDescribe, pl_writefd := False\<rparr> else p) in
           if se_error e then Inr (False, p)
           else bind_res (HandleRtspState p) (\<lambda>p. Inr (True, p))))))"

text \<open>After the loop the file is closed, open or not.\<close>

definition thread_end :: "player \<Rightarrow> player res" where
  "thread_end p = (case pl_fp p of None \<Rightarrow> Inl Null_Deref | Some _ \<Rightarrow> Inr p)"

fun play_thread :: "player_os \<Rightarrow> select_event list \<Rightarrow> player \<Rightarrow> player res" where
  "play_thread os [] p = (if pl_terminated p then thread_end p else Inr p)"
| "play_thread os (e # es) p =
     (if pl_terminated p then thread_end p
      else bind_res (play_turn os e p) (\<lambda>(go, p). if go then play_thread os es p else thread_end p))"

definition RtspPlayer_init :: player where
  "RtspPlayer_init =
     \<lparr>pl_terminated = False, pl_networked = False, pl_state = RtspIdle, pl_eventfd = 0,
      pl_rtsp_socket = 0, pl_video_socket = 0, pl_udp_calls = 0, pl_writefd = False, pl_url = [],
      pl_ip = [], pl_sdp = None, pl_session = 0, pl_sent = [], pl_datagrams = [], pl_fp = None\<rparr>"

text \<open>\<^verbatim>\<open>Play\<close>, up to the start of the thread.\<close>

definition Play :: "player_os \<Rightarrow> string \<Rightarrow> player \<Rightarrow> bool \<times> player" where
  "Play os url p =
     (let p = p\<lparr>pl_url := url\<rparr> in
      case getIPFromUrl url of
        None \<Rightarrow> (False, p)
      | Some (ip, port) \<Rightarrow>
          (let (ok, p) = NetworkInit os ip port (p\<lparr>pl_ip := ip\<rparr>) in
           if \<not> ok then (False, p) else (True, EventInit p)))"

definition Stop :: "player \<Rightarrow> player" where
  "Stop p = p\<lparr>pl_terminated := True, pl_state := RtspTurnOff\<rparr>"

end
