(* ===== verification/SdpRoundtrip.thy ===== *)
theory SdpRoundtrip
  imports Sdp
begin

text \<open>
  The parser of session descriptions reads back what the printer writes.  A description is
  taken apart into its lines, a key and a value each; both line endings that the parser
  accepts are considered.
\<close>

section \<open>Lines\<close>

type_synonym sdp_lines = "(char \<times> string) list"

definition clean :: "string \<Rightarrow> bool" where "clean s \<longleftrightarrow> CR \<notin> set s \<and> LF \<notin> set s"

definition clean_lines :: "sdp_lines \<Rightarrow> bool" where
  "clean_lines ls \<longleftrightarrow> (\<forall>(k, v) \<in> set ls. k \<noteq> CR \<and> k \<noteq> LF \<and> clean v)"

definition line_ending :: "string \<Rightarrow> bool" where "line_ending eol \<longleftrightarrow> eol = [LF] \<or> eol = crlf"

definition render :: "string \<Rightarrow> sdp_lines \<Rightarrow> string" where
  "render eol ls = concat (map (\<lambda>(k, v). k # ''='' @ v @ eol) ls)"

definition entry_of :: "string \<Rightarrow> sdp_lines \<Rightarrow> sdp_entry" where
  "entry_of eol ls = (case ls of [] \<Rightarrow> None | (k, v) # ls \<Rightarrow> Some (k, v, render eol ls))"

definition head_key :: "sdp_lines \<Rightarrow> char" where
  "head_key ls = (case ls of [] \<Rightarrow> NUL | (k, _) # _ \<Rightarrow> k)"

lemma clean_simps [simp]:
  "clean []" "clean (s @ t) \<longleftrightarrow> clean s \<and> clean t"
  "clean (c # s) \<longleftrightarrow> c \<noteq> CR \<and> c \<noteq> LF \<and> clean s"
  by (auto simp: clean_def)

lemma clean_lines_simps [simp]:
  "clean_lines []" "clean_lines (ls @ ls') \<longleftrightarrow> clean_lines ls \<and> clean_lines ls'"
  "clean_lines ((k, v) # ls) \<longleftrightarrow> k \<noteq> CR \<and> k \<noteq> LF \<and> clean v \<and> clean_lines ls"
  by (auto simp: clean_lines_def)

lemma render_simps [simp]:
  "render eol [] = []" "render eol (ls @ ls') = render eol ls @ render eol ls'"
  "render eol ((k, v) # ls) = k # CHR ''='' # v @ eol @ render eol ls"
  by (auto simp: render_def)

lemma entry_of_simps [simp]:
  "entry_of eol [] = None" "entry_of eol ((k, v) # ls) = Some (k, v, render eol ls)"
  by (auto simp: entry_of_def)

lemma entry_key_of [simp]: "entry_key (entry_of eol ls) = head_key ls"
  by (auto simp: entry_key_def entry_of_def head_key_def split: list.splits)

lemma head_key_simps [simp]: "head_key [] = NUL" "head_key ((k, v) # ls) = k"
  by (auto simp: head_key_def)

lemma head_key_append:
  "k \<notin> fst ` set xs \<Longrightarrow> head_key ls \<noteq> k \<Longrightarrow> head_key (xs @ ls) \<noteq> k"
  by (cases xs) (auto simp: head_key_def)

lemma no_crlf: "CR \<notin> set s \<Longrightarrow> strstr s crlf = None"
  by (induction s) (auto simp: starts_with_def crlf_def)

lemma render_no_CR: "clean_lines ls \<Longrightarrow> CR \<notin> set (render [LF] ls)"
  by (induction ls) (auto simp: clean_def)

lemma skip_line_end:
  assumes "clean_lines ls" "line_ending eol"
  shows "dropWhile (\<lambda>c. c = CR \<or> c = LF) (eol @ render eol ls) = render eol ls"
proof -
  have "dropWhile (\<lambda>c. c = CR \<or> c = LF) (render eol ls) = render eol ls"
    using assms(1) by (cases ls) (auto simp: clean_lines_def)
  with assms(2) show ?thesis by (auto simp: line_ending_def crlf_def)
qed

lemma line_end_render:
  assumes "clean_lines ((k, v) # ls)" "line_ending eol"
  shows "line_end (render eol ((k, v) # ls)) = length v + 2"
proof -
  let ?l = "k # CHR ''='' # v" and ?r = "render eol ls"
  have l: "length ?l = length v + 2" by simp
  have no: "LF \<notin> set ?l" "CR \<notin> set ?l" using assms(1) by (auto simp: clean_def)
  show ?thesis
  proof (cases "eol = [LF]")
    case True
    then have eq: "render eol ((k, v) # ls) = ?l @ LF # ?r" by simp
    have "CR \<notin> set (render eol ((k, v) # ls))"
      using render_no_CR [OF assms(1)] by (simp only: True not_False_eq_True)
    then have "strstr (?l @ LF # ?r) crlf = None" unfolding eq by (rule no_crlf)
    then show ?thesis
      unfolding eq line_end_def by (simp only: strchr_append [OF no(1)] option.case l)
  next
    case False
    then have eol: "eol = crlf" using assms(2) by (simp add: line_ending_def)
    then have eq: "render eol ((k, v) # ls) = ?l @ crlf @ ?r" by simp
    have "strstr (?l @ crlf @ ?r) crlf = Some (length ?l)"
      by (rule strstr_append [OF no(2), of _ "[LF]"]) (simp add: crlf_def)
    then show ?thesis unfolding eq line_end_def by (simp only: option.case l)
  qed
qed

lemma load_render [simp]:
  assumes "clean_lines ls" "line_ending eol"
  shows "load_next_entry (Some (render eol ls)) = entry_of eol ls"
proof (cases ls)
  case Nil
  then show ?thesis by (simp add: load_next_entry_def line_end_def crlf_def)
next
  case (Cons l ls')
  obtain k v where l: "l = (k, v)" by (cases l)
  have "line_end (render eol ls) = length v + 2"
    using line_end_render assms Cons l by blast
  moreover have "clean_lines ls'" using assms(1) by (simp add: Cons l)
  ultimately show ?thesis
    using skip_line_end [of ls' eol] assms(2) by (simp add: load_next_entry_def Cons l)
qed

section \<open>Fields\<close>

definition token :: "char \<Rightarrow> string \<Rightarrow> bool" where
  "token sep s \<longleftrightarrow> s \<noteq> [] \<and> sep \<notin> set s \<and> clean s"

definition in_width :: "nat \<Rightarrow> int \<Rightarrow> bool" where
  "in_width w n \<longleftrightarrow> - (2 ^ (w - 1)) \<le> n \<and> n < 2 ^ (w - 1)"

definition ends_number :: "string \<Rightarrow> bool" where "ends_number r \<longleftrightarrow> r = [] \<or> hd r = CHR '' ''"

lemma strtol_dec_int:
  assumes "in_width 64 n" "r = [] \<or> \<not> isdigit (hd r)"
  shows "strtol (dec_int n @ r) = (n, r)"
proof (cases "n < 0")
  case False
  then show ?thesis
    using strtol_dec_nat [of "nat n" r] assms by (simp add: dec_int_def in_width_def)
next
  case True
  have *: "takeWhile isdigit (dec_nat (nat (- n)) @ r) = dec_nat (nat (- n))"
    "dropWhile isdigit (dec_nat (nat (- n)) @ r) = r"
    using isdigit_dec_nat [of "nat (- n)"] assms(2)
    by (simp_all add: takeWhile_append2 dropWhile_append2) (cases r; simp)+
  show ?thesis
    using True assms(1) by (simp add: strtol_def dec_int_def isspace_def * in_width_def clamp_def)
qed

lemma dec_int_head: "\<exists>c cs. dec_int n = c # cs \<and> (isdigit c \<or> c = CHR ''-'')"
proof (cases "n < 0")
  case False
  obtain c cs where "dec_nat (nat n) = c # cs" by (cases "dec_nat (nat n)") auto
  then show ?thesis using isdigit_dec_nat [of "nat n"] False by (auto simp: dec_int_def)
qed (simp add: dec_int_def)

lemma dec_int_not_Nil [simp]: "dec_int n \<noteq> []" using dec_int_head [of n] by auto

lemma isdigit_chars [simp]: "\<not> isdigit (CHR '' '')" "\<not> isdigit (CHR ''/'')" "\<not> isdigit CR" "\<not> isdigit LF"
  by (simp_all add: isdigit_def)

lemma dec_int_no_space [simp]:
  "dropWhile (\<lambda>c. c = CHR '' '') (dec_int n @ r) = dec_int n @ r"
  "dropWhile (\<lambda>c. c = CHR '' '') (dec_int n) = dec_int n"
  using dec_int_head [of n] by auto

lemma clean_dec_int [simp]: "clean (dec_int n)"
proof -
  have "\<forall>c \<in> set (dec_int n). isdigit c \<or> c = CHR ''-''"
    using isdigit_dec_nat by (auto simp: dec_int_def)
  then show ?thesis by (force simp: clean_def)
qed

lemma token_no_sep:
  "token sep s \<Longrightarrow> dropWhile (\<lambda>c. c = sep) (s @ r) = s @ r"
  "token sep s \<Longrightarrow> dropWhile (\<lambda>c. c = sep) s = s"
  by (cases s; auto simp: token_def)+

lemma field_end:
  "sep \<notin> set s \<Longrightarrow> takeWhile (\<lambda>c. c \<noteq> sep) (s @ sep # r) = s"
  "sep \<notin> set s \<Longrightarrow> dropWhile (\<lambda>c. c \<noteq> sep) (s @ sep # r) = sep # r"
  "sep \<notin> set s \<Longrightarrow> takeWhile (\<lambda>c. c \<noteq> sep) s = s"
  "sep \<notin> set s \<Longrightarrow> dropWhile (\<lambda>c. c \<noteq> sep) s = []"
  by (induction s) auto

lemma split_s:
  "sep \<notin> set s \<Longrightarrow> split_one sep (CHR ''s'') (s @ sep # r) = Inr ([Text s], dropWhile (\<lambda>c. c = sep) r)"
  by (simp add: split_one_def field_end split: prod.split)

lemma split_s_end: "sep \<notin> set s \<Longrightarrow> split_one sep (CHR ''s'') s = Inr ([Text s], [])"
  by (simp add: split_one_def field_end split: prod.split)

lemma ends_digit: "ends_number r \<Longrightarrow> r = [] \<or> \<not> isdigit (hd r)"
  by (auto simp: ends_number_def)

lemma split_l:
  "in_width 64 n \<Longrightarrow> ends_number r \<Longrightarrow> split_one sep (CHR ''l'') (dec_int n @ r) = Inr ([Number n], r)"
  using strtol_dec_int [of n r] ends_digit [of r] by (simp add: split_one_def)

lemma split_t:
  "in_width 64 n \<Longrightarrow> ends_number r \<Longrightarrow> split_one sep (CHR ''t'') (dec_int n @ r) = Inr ([Number n], r)"
  using strtol_dec_int [of n r] ends_digit [of r]
  by (auto simp: split_one_def time_suffix_def ends_number_def split: list.split)

lemma sint_in_width: "in_width 32 n \<Longrightarrow> sint (word_of_int n :: u32) = n"
  by (simp add: in_width_def signed_of_int signed_take_bit_int_eq_self)

lemma in_width_64: "in_width 32 n \<Longrightarrow> in_width 64 n" by (simp add: in_width_def)

lemma split_i:
  "in_width 32 n \<Longrightarrow> ends_number r \<Longrightarrow> split_one sep (CHR ''i'') (dec_int n @ r) = Inr ([Number n], r)"
  using strtol_dec_int [of n r] ends_digit [of r] by (simp add: split_one_def sint_in_width in_width_64)

lemma ends_number_simps [simp]: "ends_number []" "ends_number (CHR '' '' # r)"
  by (simp_all add: ends_number_def)

text \<open>The last number of a value.\<close>

lemmas split_end = split_l [of _ "[]", simplified] split_t [of _ "[]", simplified] split_i [of _ "[]", simplified]

lemmas split_simps = split_values_def split_s split_s_end split_l split_t split_i split_end token_no_sep

section \<open>The lines of a description\<close>

definition opt_lines :: "char \<Rightarrow> string option \<Rightarrow> sdp_lines" where
  "opt_lines k v = (case v of None \<Rightarrow> [] | Some s \<Rightarrow> [(k, s)])"

definition conn_lines :: "sdp_connection \<Rightarrow> sdp_lines" where
  "conn_lines c =
     (case (cn_nettype c, cn_addrtype c, cn_address c) of
        (Some n, Some t, Some a) \<Rightarrow> [(CHR ''c'', n @ '' '' @ t @ '' '' @ a)]
      | _ \<Rightarrow> [])"

definition bw_line :: "sdp_bandwidth \<Rightarrow> char \<times> string" where
  "bw_line b = (CHR ''b'', bw_type b @ '':'' @ bw_bandwidth b)"

definition numbers :: "int list \<Rightarrow> string" where "numbers ns = concat (map (\<lambda>n. '' '' @ dec_int n) ns)"

definition repeat_line :: "sdp_repeat \<Rightarrow> char \<times> string" where
  "repeat_line r =
     (CHR ''r'', dec_int (rp_interval r) @ '' '' @ dec_int (rp_duration r) @ numbers (rp_offsets r))"

definition time_lines :: "sdp_time \<Rightarrow> sdp_lines" where
  "time_lines t =
     (CHR ''t'', dec_int (tm_start t) @ '' '' @ dec_int (tm_stop t)) # map repeat_line (tm_repeat t)"

definition zone_lines :: "sdp_zone_adjustments list \<Rightarrow> sdp_lines" where
  "zone_lines zs = (if zs = [] then [] else [(CHR ''z'', dump_zones zs)])"

definition info_text :: "sdp_info \<Rightarrow> string" where
  "info_text i =
     mi_type i @ '' '' @ dec_int (mi_port i) @
     (if mi_port_n i \<noteq> 0 then ''/'' @ dec_int (mi_port_n i) else []) @ '' '' @ mi_proto i @
     numbers (mi_fmt i)"

definition media_lines :: "sdp_media \<Rightarrow> sdp_lines" where
  "media_lines m =
     (CHR ''m'', info_text (md_info m)) # opt_lines (CHR ''i'') (md_title m) @ conn_lines (md_conn m) @
     map bw_line (md_bw m) @ opt_lines (CHR ''k'') (md_encrypt_key m) @
     map (Pair (CHR ''a'')) (md_attributes m)"

definition origin_text :: "sdp_origin \<Rightarrow> string" where
  "origin_text r =
     or_username r @ '' '' @ dec_int (or_sess_id r) @ '' '' @ dec_int (or_sess_version r) @
     '' '' @ or_nettype r @ '' '' @ or_addrtype r @ '' '' @ or_addr r"

definition session_lines :: "sdp_payload \<Rightarrow> sdp_lines" where
  "session_lines p =
     opt_lines (CHR ''i'') (sp_information p) @ opt_lines (CHR ''u'') (sp_uri p) @
     map (Pair (CHR ''e'')) (sp_emails p) @ map (Pair (CHR ''p'')) (sp_phones p) @
     conn_lines (sp_conn p) @ map bw_line (sp_bw p)"

definition rest_lines :: "sdp_payload \<Rightarrow> sdp_lines" where
  "rest_lines p =
     concat (map time_lines (sp_times p)) @ zone_lines (sp_zone_adjustments p) @
     opt_lines (CHR ''k'') (sp_encrypt_key p) @ map (Pair (CHR ''a'')) (sp_attributes p) @
     concat (map media_lines (sp_medias p))"

definition sdp_lines_of :: "sdp_payload \<Rightarrow> sdp_lines" where
  "sdp_lines_of p =
     (CHR ''v'', ''0'') # (CHR ''o'', origin_text (sp_origin p)) # (CHR ''s'', sp_session_name p) #
     session_lines p @ rest_lines p"

lemma render_opt [simp]: "render eol (opt_lines k v) = (case v of None \<Rightarrow> [] | Some s \<Rightarrow> k # CHR ''='' # s @ eol)"
  by (simp add: opt_lines_def split: option.split)

lemma render_map: "render eol (map f xs) = concat (map (\<lambda>x. render eol [f x]) xs)"
  by (induction xs) (auto simp: render_def)

lemma render_concat: "render eol (concat (map f xs)) = concat (map (\<lambda>x. render eol (f x)) xs)"
  by (induction xs) auto

lemma render_Cons: "render eol (l # ls) = render eol [l] @ render eol ls"
  by (cases l) simp

lemma dump_conn_lines: "render [LF] (conn_lines c) = dump_conn c"
  by (simp add: conn_lines_def dump_conn_def split: option.split)

lemma dump_bw_line: "render [LF] [bw_line b] = dump_bw b"
  by (simp add: bw_line_def dump_bw_def)

lemma dump_repeat_line: "render [LF] [repeat_line r] = dump_repeat r"
  by (simp add: repeat_line_def numbers_def dump_repeat_def)

lemma dump_time_lines: "render [LF] (time_lines t) = dump_time t"
  by (simp add: time_lines_def dump_time_def render_map dump_repeat_line)

lemma dump_media_lines: "render [LF] (media_lines m) = dump_media m"
  by (simp add: media_lines_def dump_media_def render_map dump_conn_lines dump_bw_line info_text_def
      dump_info_def numbers_def opt_line_def split: option.split)

lemma dec_nat_0: "dec_nat 0 = ''0''" by code_simp

lemma sdp_dump_lines:
  assumes "sp_proto_version p = 0"
  shows "sdp_dump (Some p) = render [LF] (sdp_lines_of p)"
proof -
  have "render [LF] (session_lines p) =
      opt_line ''i='' (sp_information p) @ opt_line ''u='' (sp_uri p) @
      concat (map (\<lambda>s. ''e='' @ s @ [LF]) (sp_emails p)) @
      concat (map (\<lambda>s. ''p='' @ s @ [LF]) (sp_phones p)) @
      dump_conn (sp_conn p) @ concat (map dump_bw (sp_bw p))"
    by (simp add: session_lines_def render_map dump_conn_lines dump_bw_line opt_line_def split: option.split)
  moreover have "render [LF] (rest_lines p) =
      concat (map dump_time (sp_times p)) @
      (if sp_zone_adjustments p \<noteq> [] then ''z='' @ dump_zones (sp_zone_adjustments p) @ [LF] else []) @
      opt_line ''k='' (sp_encrypt_key p) @
      concat (map (\<lambda>a. ''a='' @ a @ [LF]) (sp_attributes p)) @
      concat (map dump_media (sp_medias p))"
    by (simp add: rest_lines_def render_concat render_map dump_time_lines dump_media_lines zone_lines_def
        opt_line_def split: option.split)
  ultimately show ?thesis
    using assms dec_nat_0 by (simp add: sdp_dump_def sdp_lines_of_def dump_origin_def origin_text_def)
qed

section \<open>Well-formed descriptions\<close>

definition good_opt :: "string option \<Rightarrow> bool" where
  "good_opt v \<longleftrightarrow> (case v of None \<Rightarrow> True | Some s \<Rightarrow> clean s)"

definition good_conn :: "sdp_connection \<Rightarrow> bool" where
  "good_conn c \<longleftrightarrow>
     (case (cn_nettype c, cn_addrtype c, cn_address c) of
        (Some n, Some t, Some a) \<Rightarrow> token (CHR '' '') n \<and> token (CHR '' '') t \<and> token (CHR '' '') a
      | (None, None, None) \<Rightarrow> True
      | _ \<Rightarrow> False)"

definition good_bw :: "sdp_bandwidth \<Rightarrow> bool" where
  "good_bw b \<longleftrightarrow> token (CHR '':'') (bw_type b) \<and> CHR '':'' \<notin> set (bw_bandwidth b) \<and> clean (bw_bandwidth b)"

definition good_repeat :: "sdp_repeat \<Rightarrow> bool" where
  "good_repeat r \<longleftrightarrow> in_width 64 (rp_interval r) \<and> in_width 64 (rp_duration r) \<and> list_all (in_width 64) (rp_offsets r)"

definition good_time :: "sdp_time \<Rightarrow> bool" where
  "good_time t \<longleftrightarrow> in_width 64 (tm_start t) \<and> in_width 64 (tm_stop t) \<and> list_all good_repeat (tm_repeat t)"

definition good_zone :: "sdp_zone_adjustments \<Rightarrow> bool" where
  "good_zone z \<longleftrightarrow> in_width 64 (za_adjust z) \<and> in_width 64 (za_offset z)"

definition good_info :: "sdp_info \<Rightarrow> bool" where
  "good_info i \<longleftrightarrow> token (CHR '' '') (mi_type i) \<and> token (CHR '' '') (mi_proto i) \<and>
     in_width 32 (mi_port i) \<and> in_width 32 (mi_port_n i) \<and> list_all (in_width 32) (mi_fmt i)"

definition good_media :: "sdp_media \<Rightarrow> bool" where
  "good_media m \<longleftrightarrow> good_info (md_info m) \<and> good_opt (md_title m) \<and> good_conn (md_conn m) \<and>
     list_all good_bw (md_bw m) \<and> good_opt (md_encrypt_key m) \<and> list_all clean (md_attributes m)"

definition good_origin :: "sdp_origin \<Rightarrow> bool" where
  "good_origin r \<longleftrightarrow> token (CHR '' '') (or_username r) \<and> in_width 64 (or_sess_id r) \<and>
     in_width 64 (or_sess_version r) \<and> token (CHR '' '') (or_nettype r) \<and>
     token (CHR '' '') (or_addrtype r) \<and> token (CHR '' '') (or_addr r)"

definition well_formed :: "sdp_payload \<Rightarrow> bool" where
  "well_formed p \<longleftrightarrow> sp_proto_version p = 0 \<and> good_origin (sp_origin p) \<and> clean (sp_session_name p) \<and>
     good_opt (sp_information p) \<and> good_opt (sp_uri p) \<and> list_all clean (sp_emails p) \<and>
     list_all clean (sp_phones p) \<and> good_conn (sp_conn p) \<and> list_all good_bw (sp_bw p) \<and>
     sp_times p \<noteq> [] \<and> list_all good_time (sp_times p) \<and>
     list_all good_zone (sp_zone_adjustments p) \<and> good_opt (sp_encrypt_key p) \<and>
     list_all clean (sp_attributes p) \<and> list_all good_media (sp_medias p)"

lemma token_clean: "token sep s \<Longrightarrow> clean s" "token sep s \<Longrightarrow> sep \<notin> set s" "token sep s \<Longrightarrow> s \<noteq> []"
  by (simp_all add: token_def)

lemma numbers_simps [simp]:
  "numbers [] = []" "numbers (n # ns) = CHR '' '' # dec_int n @ numbers ns" "ends_number (numbers ns)"
  "clean (numbers ns)"
proof -
  show "numbers [] = []" "numbers (n # ns) = CHR '' '' # dec_int n @ numbers ns"
    by (simp_all add: numbers_def)
  show "ends_number (numbers ns)" by (cases ns) (simp_all add: numbers_def)
  show "clean (numbers ns)" by (induction ns) (auto simp: numbers_def)
qed

lemma clean_opt: "good_opt v \<Longrightarrow> k \<noteq> CR \<Longrightarrow> k \<noteq> LF \<Longrightarrow> clean_lines (opt_lines k v)"
  by (auto simp: good_opt_def opt_lines_def split: option.splits)

lemma clean_conn: "good_conn c \<Longrightarrow> clean_lines (conn_lines c)"
  by (auto simp: good_conn_def conn_lines_def split: option.splits dest: token_clean)

lemma clean_map: "list_all clean vs \<Longrightarrow> k \<noteq> CR \<Longrightarrow> k \<noteq> LF \<Longrightarrow> clean_lines (map (Pair k) vs)"
  by (induction vs) auto

lemma clean_bws: "list_all good_bw bs \<Longrightarrow> clean_lines (map bw_line bs)"
  by (induction bs) (auto simp: bw_line_def good_bw_def dest: token_clean)

lemma clean_repeats: "clean_lines (map repeat_line rs)"
  by (induction rs) (auto simp: repeat_line_def)

lemma clean_times: "clean_lines (concat (map time_lines ts))"
  by (induction ts) (auto simp: time_lines_def clean_repeats)

lemma clean_zones: "clean_lines (zone_lines zs)"
proof -
  have "clean (dump_zones zs)" by (induction zs) auto
  then show ?thesis by (simp add: zone_lines_def)
qed

lemma clean_media: "good_media m \<Longrightarrow> clean_lines (media_lines m)"
  by (auto simp: good_media_def media_lines_def info_text_def good_info_def clean_opt clean_conn clean_bws
      clean_map dest: token_clean)

lemma clean_medias: "list_all good_media ms \<Longrightarrow> clean_lines (concat (map media_lines ms))"
  by (induction ms) (auto simp: clean_media)

lemmas clean_all = clean_opt clean_conn clean_map clean_bws clean_repeats clean_times clean_zones
  clean_media clean_medias

text \<open>The keys of the lines.\<close>

lemma keys [simp]:
  "fst ` set (opt_lines k v) \<subseteq> {k}" "fst ` set (conn_lines c) \<subseteq> {CHR ''c''}"
  "fst ` set (map bw_line bs) \<subseteq> {CHR ''b''}" "fst ` set (map (Pair k) vs) \<subseteq> {k}"
  "fst ` set (map repeat_line rs) \<subseteq> {CHR ''r''}" "fst ` set (zone_lines zs) \<subseteq> {CHR ''z''}"
  by (auto simp: opt_lines_def conn_lines_def bw_line_def repeat_line_def zone_lines_def split: option.split)

lemma head_key_skip:
  "fst ` set xs \<subseteq> {j} \<Longrightarrow> j \<noteq> k \<Longrightarrow> head_key ls \<noteq> k \<Longrightarrow> head_key (xs @ ls) \<noteq> k"
  "fst ` set xs \<subseteq> {j} \<Longrightarrow> j \<noteq> k \<Longrightarrow> NUL \<noteq> k \<Longrightarrow> head_key xs \<noteq> k"
  by (cases xs; auto simp: head_key_def)+

lemmas key_skips = head_key_skip(1) [OF keys(1)] head_key_skip(1) [OF keys(2)] head_key_skip(1) [OF keys(3)]
  head_key_skip(1) [OF keys(4)] head_key_skip(1) [OF keys(5)] head_key_skip(1) [OF keys(6)]
  head_key_skip(2) [OF keys(1)] head_key_skip(2) [OF keys(2)] head_key_skip(2) [OF keys(3)]
  head_key_skip(2) [OF keys(4)] head_key_skip(2) [OF keys(5)] head_key_skip(2) [OF keys(6)]

lemma head_key_times: "ts \<noteq> [] \<Longrightarrow> head_key (concat (map time_lines ts) @ ls) = CHR ''t''"
  by (cases ts) (auto simp: time_lines_def)

lemma head_key_medias: "k \<noteq> CHR ''m'' \<Longrightarrow> k \<noteq> NUL \<Longrightarrow> head_key (concat (map media_lines ms)) \<noteq> k"
  by (cases ms) (auto simp: media_lines_def)

section \<open>Reading lines back\<close>

lemma load_Nil [simp]: "load_next_entry (Some []) = None"
  by (simp add: load_next_entry_def)

lemma facultative_lines:
  assumes "clean_lines ls" "line_ending eol" "head_key ls \<noteq> k"
  shows "facultative_str k (entry_of eol (opt_lines k v @ ls)) = (v, entry_of eol ls)"
  using assms
  by (cases ls) (auto simp: facultative_str_def opt_lines_def split: option.splits)

lemma multiple_lines:
  assumes "clean_lines ls" "line_ending eol" "head_key ls \<noteq> k" "k \<noteq> CR" "k \<noteq> LF" "list_all clean vs"
  shows "multiple_str k (entry_of eol (map (Pair k) vs @ ls)) = (vs, entry_of eol ls)"
  using assms(6)
proof (induction vs)
  case Nil
  then show ?case using assms by (cases ls) (auto simp: multiple_str.simps)
next
  case (Cons v vs)
  then have "load_next_entry (Some (render eol (map (Pair k) vs @ ls))) = entry_of eol (map (Pair k) vs @ ls)"
    using assms clean_map by (intro load_render) auto
  then show ?case using Cons by (subst multiple_str.simps) (simp add: split_beta)
qed

lemma conn_lines_run:
  assumes "clean_lines ls" "line_ending eol" "head_key ls \<noteq> CHR ''c''" "good_conn c"
  shows "conn_info no_connection (entry_of eol (conn_lines c @ ls)) = Inr (c, entry_of eol ls)"
proof (cases "conn_lines c = []")
  case True
  then have "c = no_connection"
    using assms(4) by (cases c) (auto simp: good_conn_def conn_lines_def no_connection_def split: option.splits)
  then show ?thesis using assms True by (cases ls) (auto simp: conn_info_def)
next
  case False
  then obtain n t a where c: "c = \<lparr>cn_nettype = Some n, cn_addrtype = Some t, cn_address = Some a\<rparr>"
    and tok: "token (CHR '' '') n" "token (CHR '' '') t" "token (CHR '' '') a"
    using assms(4) by (cases c) (auto simp: good_conn_def conn_lines_def split: option.splits)
  have "split_values (n @ '' '' @ t @ '' '' @ a) (CHR '' '') ''sss'' = Inr ([Text n, Text t, Text a], [])"
    using tok token_clean(2) [OF tok(1)] token_clean(2) [OF tok(2)] token_clean(2) [OF tok(3)]
    by (simp add: split_simps)
  then show ?thesis using assms(1,2) by (simp add: c conn_lines_def conn_info_def)
qed

lemma bandwidth_lines:
  assumes "clean_lines ls" "line_ending eol" "head_key ls \<noteq> CHR ''b''" "list_all good_bw bs"
  shows "bandwidth_info (entry_of eol (map bw_line bs @ ls)) = Inr (bs, entry_of eol ls)"
  using assms(4)
proof (induction bs)
  case Nil
  then show ?case using assms by (cases ls) (auto simp: bandwidth_info.simps)
next
  case (Cons b bs)
  let ?t = "bw_type b" and ?v = "bw_bandwidth b"
  have b: "token (CHR '':'') ?t" "CHR '':'' \<notin> set ?v" using Cons.prems by (auto simp: good_bw_def)
  have v: "dropWhile (\<lambda>c. c = CHR '':'') ?v = ?v" using b(2) by (cases ?v) auto
  have s: "split_values (?t @ '':'' @ ?v) (CHR '':'') ''ss'' = Inr ([Text ?t, Text ?v], [])"
    using b token_clean(2) [OF b(1)] v by (simp add: split_simps)
  have n: "load_next_entry (Some (render eol (map bw_line bs @ ls))) = entry_of eol (map bw_line bs @ ls)"
    using assms Cons.prems clean_bws by (intro load_render) auto
  have e: "entry_of eol (map bw_line (b # bs) @ ls) =
      Some (CHR ''b'', ?t @ '':'' @ ?v, render eol (map bw_line bs @ ls))"
    by (simp add: bw_line_def)
  show ?case unfolding e bandwidth_info.simps [of "Some _"] using Cons n s by simp
qed

text \<open>The loops over the rest of a value begin behind the separators.\<close>

lemma offsets_numbers:
  "list_all (in_width 64) ns \<Longrightarrow> offsets_loop (dropWhile (\<lambda>c. c = CHR '' '') (numbers ns)) = Inr ns"
proof (induction ns)
  case (Cons n ns)
  then have "split_values (dec_int n @ numbers ns) (CHR '' '') ''t'' =
      Inr ([Number n], dropWhile (\<lambda>c. c = CHR '' '') (numbers ns))"
    by (simp add: split_simps)
  then show ?case using Cons by (subst offsets_loop.simps) simp
qed (simp add: offsets_loop.simps)

lemma fmt_numbers:
  "list_all (in_width 32) ns \<Longrightarrow> fmt_loop (dropWhile (\<lambda>c. c = CHR '' '') (numbers ns)) = Inr ns"
proof (induction ns)
  case (Cons n ns)
  then have "split_values (dec_int n @ numbers ns) (CHR '' '') ''i'' =
      Inr ([Number n], dropWhile (\<lambda>c. c = CHR '' '') (numbers ns))"
    by (simp add: split_simps)
  then show ?case using Cons by (subst fmt_loop.simps) simp
qed (simp add: fmt_loop.simps)

lemma dump_zones_no_space: "dropWhile (\<lambda>c. c = CHR '' '') (dump_zones zs) = dump_zones zs"
  by (cases zs) auto

lemma zone_numbers: "list_all good_zone zs \<Longrightarrow> zone_loop (dump_zones zs) = Inr zs"
proof (induction zs)
  case (Cons z zs)
  let ?r = "(if zs \<noteq> [] then '' '' else []) @ dump_zones zs"
  have "ends_number ?r" by simp
  moreover have "dropWhile (\<lambda>c. c = CHR '' '') ?r = dump_zones zs" by (simp add: dump_zones_no_space)
  moreover have "in_width 64 (za_adjust z)" "in_width 64 (za_offset z)" using Cons.prems by (auto simp: good_zone_def)
  ultimately have "split_values (dec_int (za_adjust z) @ CHR '' '' # dec_int (za_offset z) @ ?r) (CHR '' '') ''tt'' =
      Inr ([Number (za_adjust z), Number (za_offset z)], dump_zones zs)"
    by (simp add: split_values_def split_t del: append_assoc)
  then show ?case using Cons by (subst zone_loop.simps) simp
qed (simp add: zone_loop.simps)

lemma repeat_lines_run:
  assumes "clean_lines ls" "line_ending eol" "head_key ls \<noteq> CHR ''r''" "list_all good_repeat rs"
  shows "repeat_loop (entry_of eol (map repeat_line rs @ ls)) = Inr (rs, entry_of eol ls)"
  using assms(4)
proof (induction rs)
  case Nil
  then show ?case using assms by (cases ls) (auto simp: repeat_loop.simps)
next
  case (Cons r rs)
  let ?v = "snd (repeat_line r)"
  have r: "in_width 64 (rp_interval r)" "in_width 64 (rp_duration r)" "list_all (in_width 64) (rp_offsets r)"
    using Cons.prems by (auto simp: good_repeat_def)
  have s: "split_values ?v (CHR '' '') ''tt'' = Inr ([Number (rp_interval r), Number (rp_duration r)],
      dropWhile (\<lambda>c. c = CHR '' '') (numbers (rp_offsets r)))"
    using r by (simp add: repeat_line_def split_simps)
  have n: "load_next_entry (Some (render eol (map repeat_line rs @ ls))) = entry_of eol (map repeat_line rs @ ls)"
    using assms clean_repeats by (intro load_render) auto
  have e: "entry_of eol (map repeat_line (r # rs) @ ls) =
      Some (CHR ''r'', ?v, render eol (map repeat_line rs @ ls))"
    by (simp add: repeat_line_def)
  show ?case
    unfolding e repeat_loop.simps [of "Some _"] using Cons n s offsets_numbers [OF r(3)] by simp
qed

lemma time_lines_run:
  assumes "clean_lines ls" "line_ending eol" "head_key ls \<notin> {CHR ''r'', CHR ''t''}"
    "ts \<noteq> []" "list_all good_time ts"
  shows "time_loop (entry_of eol (concat (map time_lines ts) @ ls)) = Inr (ts, entry_of eol ls)"
  using assms(4,5)
proof (induction ts)
  case (Cons t ts)
  let ?ls = "concat (map time_lines ts) @ ls"
  let ?v = "dec_int (tm_start t) @ '' '' @ dec_int (tm_stop t)"
  have t: "in_width 64 (tm_start t)" "in_width 64 (tm_stop t)" "list_all good_repeat (tm_repeat t)"
    using Cons.prems by (auto simp: good_time_def)
  have ls: "clean_lines ?ls" "head_key ?ls \<noteq> CHR ''r''"
    using assms clean_times head_key_times [of ts ls] by (cases "ts = []"; simp)+
  have s: "split_values ?v (CHR '' '') ''tt'' = Inr ([Number (tm_start t), Number (tm_stop t)], [])"
    using t by (simp add: split_simps)
  have n: "load_next_entry (Some (render eol (map repeat_line (tm_repeat t) @ ?ls))) =
      entry_of eol (map repeat_line (tm_repeat t) @ ?ls)"
    using ls(1) assms(2) clean_repeats by (intro load_render) auto
  have p: "parse_time ?v (render eol (map repeat_line (tm_repeat t) @ ?ls)) = Inr (t, entry_of eol ?ls)"
    unfolding parse_time_def n repeat_lines_run [OF ls(1) assms(2) ls(2) t(3)] using s by simp
  have e: "entry_of eol (concat (map time_lines (t # ts)) @ ls) =
      Some (CHR ''t'', ?v, render eol (map repeat_line (tm_repeat t) @ ?ls))"
    by (simp add: time_lines_def)
  show ?case
  proof (cases "ts = []")
    case True
    then show ?thesis unfolding e time_loop.simps [of "Some _"] using p assms(3) by simp
  next
    case False
    then show ?thesis
      unfolding e time_loop.simps [of "Some _"] using p Cons head_key_times [of ts ls] by simp
  qed
qed simp

lemma zone_lines_run:
  assumes "clean_lines ls" "line_ending eol" "head_key ls \<noteq> CHR ''z''" "list_all good_zone zs"
  shows "zone_info (entry_of eol (zone_lines zs @ ls)) = Inr (zs, entry_of eol ls)"
  using assms zone_numbers by (cases ls) (auto simp: zone_info_def zone_lines_def)

section \<open>Media descriptions\<close>

lemma slash_no_digit: "\<not> isdigit (hd (CHR ''/'' # r))" by simp

lemma media_info_text:
  assumes "good_info i"
  shows "media_info (info_text i) = Inr i"
proof -
  let ?rest = "CHR '' '' # mi_proto i @ numbers (mi_fmt i)"
  let ?n = "if mi_port_n i \<noteq> 0 then CHR ''/'' # dec_int (mi_port_n i) else []"
  note i = assms [unfolded good_info_def]
  have 1: "split_values (info_text i) (CHR '' '') ''s'' =
      Inr ([Text (mi_type i)], dec_int (mi_port i) @ ?n @ ?rest)"
    using i token_clean(2) by (simp add: info_text_def split_simps)
  have 2: "strtol (dec_int (mi_port i) @ ?n @ ?rest) = (mi_port i, ?n @ ?rest)"
    using i by (intro strtol_dec_int) (auto simp: in_width_64)
  have 3: "strtol (dec_int (mi_port_n i) @ ?rest) = (mi_port_n i, ?rest)"
    using i by (intro strtol_dec_int) (auto simp: in_width_64)
  have 4: "split_values ?rest (CHR '' '') ''s'' =
      Inr ([Text (mi_proto i)], dropWhile (\<lambda>c. c = CHR '' '') (numbers (mi_fmt i)))"
    using i token_clean(2) [of "CHR '' ''" "mi_proto i"]
    by (cases "mi_fmt i") (simp_all add: split_simps)
  have 5: "fmt_loop (dropWhile (\<lambda>c. c = CHR '' '') (numbers (mi_fmt i))) = Inr (mi_fmt i)"
    using i fmt_numbers by blast
  show ?thesis
  proof (cases "mi_port_n i = 0")
    case True
    then have "strtol (dec_int (mi_port i) @ ?rest) = (mi_port i, ?rest)" using 2 by simp
    with True i show ?thesis unfolding media_info_def 1 by (simp add: 4 5 sint_in_width)
  next
    case False
    then have "strtol (dec_int (mi_port i) @ CHR ''/'' # dec_int (mi_port_n i) @ ?rest) =
        (mi_port i, CHR ''/'' # dec_int (mi_port_n i) @ ?rest)" using 2 by simp
    with False i show ?thesis unfolding media_info_def 1 by (simp add: 3 4 5 sint_in_width)
  qed
qed

text \<open>Behind a medium comes another one, or the end.\<close>

definition media_next :: "sdp_lines \<Rightarrow> bool" where
  "media_next ls \<longleftrightarrow> clean_lines ls \<and> head_key ls \<in> {NUL, CHR ''m''}"

lemma media_fields_lines:
  assumes "media_next ls" "line_ending eol" "good_media m"
  shows "media_fields (md_info m) (entry_of eol (tl (media_lines m) @ ls)) = Inr (m, entry_of eol ls)"
proof -
  note m = assms(3) [unfolded good_media_def] and ls = assms(1) [unfolded media_next_def]
  let ?a = "map (Pair (CHR ''a'')) (md_attributes m) @ ls"
  let ?k = "opt_lines (CHR ''k'') (md_encrypt_key m) @ ?a"
  let ?b = "map bw_line (md_bw m) @ ?k"
  let ?c = "conn_lines (md_conn m) @ ?b"
  have h: "head_key ls \<noteq> CHR ''a''" "head_key ?a \<noteq> CHR ''k''" "head_key ?k \<noteq> CHR ''b''"
    "head_key ?b \<noteq> CHR ''c''" "head_key ?c \<noteq> CHR ''i''"
    using ls by (auto simp: key_skips)
  have c: "clean_lines ls" "clean_lines ?a" "clean_lines ?k" "clean_lines ?b" "clean_lines ?c"
    using ls m by (auto simp: clean_all)
  have "facultative_str (CHR ''i'') (entry_of eol (opt_lines (CHR ''i'') (md_title m) @ ?c)) =
      (md_title m, entry_of eol ?c)"
    by (rule facultative_lines [OF c(5) assms(2) h(5)])
  moreover have "conn_info no_connection (entry_of eol ?c) = Inr (md_conn m, entry_of eol ?b)"
    by (rule conn_lines_run [OF c(4) assms(2) h(4)]) (use m in blast)
  moreover have "bandwidth_info (entry_of eol ?b) = Inr (md_bw m, entry_of eol ?k)"
    by (rule bandwidth_lines [OF c(3) assms(2) h(3)]) (use m in blast)
  moreover have "facultative_str (CHR ''k'') (entry_of eol ?k) = (md_encrypt_key m, entry_of eol ?a)"
    by (rule facultative_lines [OF c(2) assms(2) h(2)])
  moreover have "multiple_str (CHR ''a'') (entry_of eol ?a) = (md_attributes m, entry_of eol ls)"
    by (rule multiple_lines [OF c(1) assms(2) h(1)]) (use m in auto)
  ultimately show ?thesis by (simp add: media_fields_def media_lines_def)
qed

lemma media_next_medias: "list_all good_media ms \<Longrightarrow> media_next (concat (map media_lines ms))"
  by (cases ms) (auto simp: media_next_def clean_media clean_medias, auto simp: media_lines_def)

lemma media_loop_lines:
  assumes "line_ending eol" "list_all good_media ms"
  shows "media_loop (entry_of eol (concat (map media_lines ms))) = Inr (ms, None)"
  using assms(2)
proof (induction ms)
  case (Cons m ms)
  let ?ls = "concat (map media_lines ms)"
  have m: "good_media m" "good_info (md_info m)" using Cons.prems by (auto simp: good_media_def)
  have next_ls: "media_next ?ls" using Cons.prems media_next_medias by simp
  have tl: "media_lines m = (CHR ''m'', info_text (md_info m)) # tl (media_lines m)"
    by (simp add: media_lines_def)
  have "clean_lines (media_lines m)" using m(1) by (rule clean_media)
  then have "clean_lines (tl (media_lines m) @ ?ls)"
    using next_ls by (subst (asm) tl) (simp add: media_next_def)
  then have n: "load_next_entry (Some (render eol (tl (media_lines m) @ ?ls))) =
      entry_of eol (tl (media_lines m) @ ?ls)"
    using assms(1) by (rule load_render)
  have p: "parse_media (info_text (md_info m)) (render eol (tl (media_lines m) @ ?ls)) =
      Inr (m, entry_of eol ?ls)"
    unfolding parse_media_def n media_info_text [OF m(2)]
    using media_fields_lines [OF next_ls assms(1) m(1)] by simp
  have e: "entry_of eol (concat (map media_lines (m # ms))) =
      Some (CHR ''m'', info_text (md_info m), render eol (tl (media_lines m) @ ?ls))"
    by (simp only: list.map concat.simps) (subst tl, simp)
  show ?case unfolding e media_loop.simps [of "Some _"] using p Cons by simp
qed (simp add: media_loop.simps)

section \<open>The whole description\<close>

lemma parse_session_lines:
  assumes "well_formed p" "line_ending eol" "clean_lines ls"
    "head_key ls \<notin> {CHR ''i'', CHR ''u'', CHR ''e'', CHR ''p'', CHR ''c'', CHR ''b''}"
  shows "parse_session sdp (entry_of eol (session_lines p @ ls)) =
    Inr (sdp\<lparr>sp_information := sp_information p, sp_uri := sp_uri p, sp_emails := sp_emails p,
             sp_phones := sp_phones p, sp_conn := sp_conn p, sp_bw := sp_bw p\<rparr>, entry_of eol ls)"
proof -
  note p = assms(1) [unfolded well_formed_def]
  let ?b = "map bw_line (sp_bw p) @ ls"
  let ?c = "conn_lines (sp_conn p) @ ?b"
  let ?p = "map (Pair (CHR ''p'')) (sp_phones p) @ ?c"
  let ?e = "map (Pair (CHR ''e'')) (sp_emails p) @ ?p"
  let ?u = "opt_lines (CHR ''u'') (sp_uri p) @ ?e"
  have h: "head_key ls \<noteq> CHR ''b''" "head_key ?b \<noteq> CHR ''c''" "head_key ?c \<noteq> CHR ''p''"
    "head_key ?p \<noteq> CHR ''e''" "head_key ?e \<noteq> CHR ''u''" "head_key ?u \<noteq> CHR ''i''"
    using assms(4) by (auto simp: key_skips)
  have c: "clean_lines ?b" "clean_lines ?c" "clean_lines ?p" "clean_lines ?e" "clean_lines ?u"
    using p assms(3) by (auto simp: clean_all)
  have "facultative_str (CHR ''i'') (entry_of eol (opt_lines (CHR ''i'') (sp_information p) @ ?u)) =
      (sp_information p, entry_of eol ?u)"
    by (rule facultative_lines [OF c(5) assms(2) h(6)])
  moreover have "facultative_str (CHR ''u'') (entry_of eol ?u) = (sp_uri p, entry_of eol ?e)"
    by (rule facultative_lines [OF c(4) assms(2) h(5)])
  moreover have "multiple_str (CHR ''e'') (entry_of eol ?e) = (sp_emails p, entry_of eol ?p)"
    by (rule multiple_lines [OF c(3) assms(2) h(4)]) (use p in auto)
  moreover have "multiple_str (CHR ''p'') (entry_of eol ?p) = (sp_phones p, entry_of eol ?c)"
    by (rule multiple_lines [OF c(2) assms(2) h(3)]) (use p in auto)
  moreover have "conn_info no_connection (entry_of eol ?c) = Inr (sp_conn p, entry_of eol ?b)"
    by (rule conn_lines_run [OF c(1) assms(2) h(2)]) (use p in blast)
  moreover have "bandwidth_info (entry_of eol ?b) = Inr (sp_bw p, entry_of eol ls)"
    by (rule bandwidth_lines [OF assms(3,2) h(1)]) (use p in blast)
  ultimately show ?thesis by (simp add: parse_session_def session_lines_def)
qed

lemma parse_rest_lines:
  assumes "well_formed p" "line_ending eol"
  shows "parse_rest sdp (entry_of eol (rest_lines p)) =
    Inr (sdp\<lparr>sp_times := sp_times p, sp_zone_adjustments := sp_zone_adjustments p,
             sp_encrypt_key := sp_encrypt_key p, sp_attributes := sp_attributes p,
             sp_medias := sp_medias p\<rparr>)"
proof -
  note p = assms(1) [unfolded well_formed_def]
  let ?m = "concat (map media_lines (sp_medias p))"
  let ?a = "map (Pair (CHR ''a'')) (sp_attributes p) @ ?m"
  let ?k = "opt_lines (CHR ''k'') (sp_encrypt_key p) @ ?a"
  let ?z = "zone_lines (sp_zone_adjustments p) @ ?k"
  have h: "head_key ?m \<noteq> CHR ''a''" "head_key ?a \<noteq> CHR ''k''" "head_key ?k \<noteq> CHR ''z''"
    "head_key ?z \<notin> {CHR ''r'', CHR ''t''}"
    by (simp_all add: key_skips head_key_medias)
  have c: "clean_lines ?m" "clean_lines ?a" "clean_lines ?k" "clean_lines ?z"
    using p by (auto simp: clean_all)
  have "time_loop (entry_of eol (concat (map time_lines (sp_times p)) @ ?z)) =
      Inr (sp_times p, entry_of eol ?z)"
    by (rule time_lines_run [OF c(4) assms(2) h(4)]) (use p in blast)+
  moreover have "zone_info (entry_of eol ?z) = Inr (sp_zone_adjustments p, entry_of eol ?k)"
    by (rule zone_lines_run [OF c(3) assms(2) h(3)]) (use p in blast)
  moreover have "facultative_str (CHR ''k'') (entry_of eol ?k) = (sp_encrypt_key p, entry_of eol ?a)"
    by (rule facultative_lines [OF c(2) assms(2) h(2)])
  moreover have "multiple_str (CHR ''a'') (entry_of eol ?a) = (sp_attributes p, entry_of eol ?m)"
    by (rule multiple_lines [OF c(1) assms(2) h(1)]) (use p in auto)
  moreover have "media_loop (entry_of eol ?m) = Inr (sp_medias p, None)"
    by (rule media_loop_lines [OF assms(2)]) (use p in blast)
  ultimately show ?thesis by (simp add: parse_rest_def rest_lines_def)
qed

definition head_lines :: "sdp_origin \<Rightarrow> string \<Rightarrow> sdp_lines" where
  "head_lines orig name =
     [(CHR ''v'', ''0''), (CHR ''o'', origin_text orig), (CHR ''s'', name)]"

lemma parse_origin_text:
  assumes "good_origin r"
  shows "parse_origin (origin_text r) = Inr r"
proof -
  note r = assms [unfolded good_origin_def]
  have "split_values (origin_text r) (CHR '' '') ''sllsss'' =
      Inr ([Text (or_username r), Number (or_sess_id r), Number (or_sess_version r),
            Text (or_nettype r), Text (or_addrtype r), Text (or_addr r)], [])"
    using r token_clean(2) by (simp add: origin_text_def split_simps)
  then show ?thesis by (simp add: parse_origin_def)
qed

lemma clean_origin: "good_origin r \<Longrightarrow> clean (origin_text r)"
  by (auto simp: good_origin_def origin_text_def dest: token_clean)

text \<open>What is behind the session name decides.\<close>

lemma sdp_parse_head:
  assumes "good_origin orig" "clean name" "clean_lines ls" "line_ending eol"
  shows "sdp_parse (render eol (head_lines orig name @ ls)) =
    bind_res (parse_session
      \<lparr>sp_proto_version = 0, sp_origin = orig, sp_session_name = name,
       sp_information = None, sp_uri = None, sp_emails = [], sp_phones = [],
       sp_conn = no_connection, sp_bw = [], sp_times = [], sp_zone_adjustments = [],
       sp_encrypt_key = None, sp_attributes = [], sp_medias = []\<rparr>
      (entry_of eol ls)) (\<lambda>(sdp, e).
    bind_res (parse_rest sdp e) (\<lambda>sdp. Inr (Some sdp)))"
proof -
  let ?s = "(CHR ''s'', name) # ls" and ?o = "(CHR ''o'', origin_text orig) # (CHR ''s'', name) # ls"
  have c: "clean_lines ?s" "clean_lines ?o" "clean_lines ((CHR ''v'', ''0'') # ?o)"
    using assms clean_origin by auto
  note l = load_render [OF c(1) assms(4)] load_render [OF c(2) assms(4)] load_render [OF c(3) assms(4)]
    load_render [OF assms(3,4)]
  have v: "version_byte ''0'' = 0" by (simp add: version_byte_def)
  show ?thesis
    by (simp only: sdp_parse_def head_lines_def append_Cons append_Nil l entry_of_simps option.case prod.case)
       (simp add: v l [unfolded render_simps entry_of_simps] parse_origin_text [OF assms(1)] del: render_simps)
qed

lemma sdp_parse_lines:
  assumes "well_formed p" "line_ending eol"
  shows "sdp_parse (render eol (sdp_lines_of p)) = Inr (Some p)"
proof -
  note p = assms(1) [unfolded well_formed_def]
  have rest: "clean_lines (rest_lines p)"
    using p by (auto simp: rest_lines_def clean_all)
  then have ls: "clean_lines (session_lines p @ rest_lines p)"
    using p by (auto simp: session_lines_def clean_all)
  have k: "head_key (rest_lines p) \<notin> {CHR ''i'', CHR ''u'', CHR ''e'', CHR ''p'', CHR ''c'', CHR ''b''}"
    using p head_key_times [of "sp_times p"] by (simp add: rest_lines_def)
  have "render eol (sdp_lines_of p) = render eol (head_lines (sp_origin p) (sp_session_name p) @
      session_lines p @ rest_lines p)"
    by (simp add: sdp_lines_of_def head_lines_def)
  moreover have "good_origin (sp_origin p)" "clean (sp_session_name p)" "sp_proto_version p = 0"
    using p by blast+
  ultimately show ?thesis
    using sdp_parse_head [OF _ _ ls assms(2)] parse_session_lines [OF assms rest k] parse_rest_lines [OF assms]
    by simp
qed

text \<open>The text with the line ends of the standard.\<close>

definition with_crlf :: "string \<Rightarrow> string" where
  "with_crlf s = concat (map (\<lambda>c. if c = LF then crlf else [c]) s)"

lemma with_crlf_append: "with_crlf (s @ t) = with_crlf s @ with_crlf t"
  by (simp add: with_crlf_def)

lemma with_crlf_clean: "clean s \<Longrightarrow> with_crlf s = s"
  by (induction s) (auto simp: with_crlf_def)

lemma with_crlf_render: "clean_lines ls \<Longrightarrow> with_crlf (render [LF] ls) = render crlf ls"
proof (induction ls)
  case (Cons l ls)
  obtain k v where l: "l = (k, v)" by (cases l)
  have "render [LF] (l # ls) = (k # CHR ''='' # v) @ [LF] @ render [LF] ls" by (simp add: l)
  moreover have "with_crlf (k # CHR ''='' # v) = k # CHR ''='' # v" "with_crlf [LF] = crlf"
    using Cons.prems by (auto simp: l with_crlf_clean) (simp add: with_crlf_def)
  ultimately show ?case using Cons by (simp only: with_crlf_append) (simp add: l)
qed (simp add: with_crlf_def)

section \<open>Properties\<close>

text \<open>
  C6: The parser reads back what the printer writes of a well-formed description, field by field,
  and also when the lines end with a carriage return and a line feed, as the standard demands.
\<close>

theorem sdp_roundtrip:
  assumes "well_formed p"
  shows "sdp_parse (sdp_dump (Some p)) = Inr (Some p) \<and>
    sdp_parse (with_crlf (sdp_dump (Some p))) = Inr (Some p)"
proof -
  have d: "sdp_dump (Some p) = render [LF] (sdp_lines_of p)"
    using assms by (simp add: sdp_dump_lines well_formed_def)
  have "clean_lines (sdp_lines_of p)"
    using assms
    by (auto simp: sdp_lines_of_def well_formed_def session_lines_def rest_lines_def clean_all clean_origin)
  then show ?thesis
    using sdp_parse_lines [OF assms] by (simp add: d with_crlf_render line_ending_def)
qed

text \<open>
  The time line, which the parser calls mandatory, is not checked for.  A description that
  ends with the session name makes the parser follow a null pointer; if the first line is an
  attribute instead, the attribute is taken for the time 0 to 0 and lost.
\<close>

theorem sdp_missing_time:
  assumes "good_origin orig" "clean name" "list_all clean (a # attrs)"
    "a \<noteq> []" "\<not> isdigit (hd a)" "\<not> isspace (hd a)" "hd a \<noteq> CHR ''-''" "hd a \<noteq> CHR ''+''"
  shows "sdp_parse (render [LF] (head_lines orig name)) = Inl Null_Deref \<and>
    (\<exists>p. sdp_parse (render [LF] (head_lines orig name @ map (Pair (CHR ''a'')) (a # attrs))) = Inr (Some p) \<and>
         sp_attributes p = attrs \<and> sp_times p = [\<lparr>tm_start = 0, tm_stop = 0, tm_repeat = []\<rparr>])"
proof
  have eol: "line_ending [LF]" by (simp add: line_ending_def)
  note no_lines = facultative_str_def multiple_str.simps [of _ None] bandwidth_info.simps [of None]
    conn_info_def parse_session_def
  show "sdp_parse (render [LF] (head_lines orig name)) = Inl Null_Deref"
    using sdp_parse_head [OF assms(1,2) _ eol, of "[]"]
    by (simp add: no_lines parse_rest_def time_loop.simps)
  have a: "strtol a = (0, a)" "strtol [] = (0, [])" "dropWhile (\<lambda>c. c = CHR '' '') a = a"
    using assms(4-8) by (cases a; auto simp: strtol_def isspace_def)+
  have s: "split_values a (CHR '' '') ''tt'' = Inr ([Number 0, Number 0], [])"
    by (simp add: split_values_def split_one_def a)
  let ?as = "map (Pair (CHR ''a'')) attrs"
  have c: "clean_lines ?as" using assms(3) by (simp add: clean_map)
  have e: "entry_of [LF] ((CHR ''a'', a) # ?as) = Some (CHR ''a'', a, render [LF] ?as)" by simp
  have k: "head_key ?as \<noteq> CHR ''r''" "head_key ?as \<noteq> CHR ''t''" "head_key ?as \<noteq> CHR ''z''"
      "head_key ?as \<noteq> CHR ''k''"
    by (simp_all add: key_skips)
  have r: "repeat_loop (entry_of [LF] ?as) = Inr ([], entry_of [LF] ?as)"
    using repeat_lines_run [OF c eol k(1), of "[]"] by simp
  have t: "time_loop (Some (CHR ''a'', a, render [LF] ?as)) =
      Inr ([\<lparr>tm_start = 0, tm_stop = 0, tm_repeat = []\<rparr>], entry_of [LF] ?as)"
    using k(2) by (simp add: time_loop.simps parse_time_def s load_render [OF c eol] r)
  have z: "zone_info (entry_of [LF] ?as) = Inr ([], entry_of [LF] ?as)"
    using zone_lines_run [OF c eol k(3), of "[]"] by (simp add: zone_lines_def)
  have f: "facultative_str (CHR ''k'') (entry_of [LF] ?as) = (None, entry_of [LF] ?as)"
    using facultative_lines [OF c eol k(4), of None] by (simp add: opt_lines_def)
  have m: "multiple_str (CHR ''a'') (entry_of [LF] ?as) = (attrs, None)"
    using multiple_lines [of "[]" "[LF]" "CHR ''a''" attrs] eol assms(3) by simp
  have rest: "parse_rest sdp (Some (CHR ''a'', a, render [LF] ?as)) =
      Inr (sdp\<lparr>sp_times := [\<lparr>tm_start = 0, tm_stop = 0, tm_repeat = []\<rparr>], sp_zone_adjustments := [],
        sp_encrypt_key := None, sp_attributes := attrs, sp_medias := []\<rparr>)" for sdp
    by (simp add: parse_rest_def t z f m media_loop.simps)
  have ls: "clean_lines ((CHR ''a'', a) # ?as)" using c assms(3) by simp
  have "parse_session sdp (Some (CHR ''a'', a, q)) =
      Inr (sdp\<lparr>sp_information := None, sp_uri := None, sp_emails := [], sp_phones := [],
        sp_conn := no_connection, sp_bw := []\<rparr>, Some (CHR ''a'', a, q))" for sdp q
    by (simp add: parse_session_def facultative_str_def multiple_str.simps bandwidth_info.simps conn_info_def)
  then show "\<exists>p. sdp_parse (render [LF] (head_lines orig name @ map (Pair (CHR ''a'')) (a # attrs))) =
      Inr (Some p) \<and> sp_attributes p = attrs \<and>
      sp_times p = [\<lparr>tm_start = 0, tm_stop = 0, tm_repeat = []\<rparr>]"
    using sdp_parse_head [OF assms(1,2) ls eol] by (simp add: rest del: render_simps)
qed

text \<open>
  The value of an attribute is what follows the key and a colon in the first attribute that
  begins with them, whatever comes before.
\<close>

lemma sdp_get_attr_first:
  assumes "\<forall>a \<in> set before. \<not> starts_with a (key @ '':'')"
  shows "sdp_get_attr (before @ (key @ '':'' @ v) # after) key = Some v"
proof -
  have "starts_with a key \<and> length key < length a \<and> a ! length key = CHR '':'' \<longleftrightarrow>
      starts_with a (key @ '':'')" for a
  proof
    assume a: "starts_with a key \<and> length key < length a \<and> a ! length key = CHR '':''"
    then have "take (Suc (length key)) a = take (length key) a @ [a ! length key]"
      by (intro take_Suc_conv_app_nth) blast
    with a show "starts_with a (key @ '':'')" by (simp add: starts_with_def)
  next
    assume "starts_with a (key @ '':'')"
    then have "a = (key @ '':'') @ drop (Suc (length key)) a"
      unfolding starts_with_def by (metis append_take_drop_id length_append_singleton)
    then obtain r where "a = key @ CHR '':'' # r" by simp
    then show "starts_with a key \<and> length key < length a \<and> a ! length key = CHR '':''" by simp
  qed
  with assms show ?thesis by (induction before) auto
qed

section \<open>Witnesses\<close>

definition sample_origin :: sdp_origin where
  "sample_origin = \<lparr>or_username = ''-'', or_sess_id = 20518, or_sess_version = 0, or_nettype = ''IN'',
     or_addrtype = ''IP4'', or_addr = ''203.0.113.1''\<rparr>"

definition sample_sdp :: sdp_payload where
  "sample_sdp = \<lparr>sp_proto_version = 0, sp_origin = sample_origin, sp_session_name = '' '',
     sp_information = None, sp_uri = Some ''http://h/'', sp_emails = [''a@b''], sp_phones = [],
     sp_conn = \<lparr>cn_nettype = Some ''IN'', cn_addrtype = Some ''IP4'', cn_address = Some ''203.0.113.1''\<rparr>,
     sp_bw = [\<lparr>bw_type = ''AS'', bw_bandwidth = ''64''\<rparr>],
     sp_times = [\<lparr>tm_start = 0, tm_stop = -1,
       tm_repeat = [\<lparr>rp_interval = 604800, rp_duration = 3600, rp_offsets = [0, 90000]\<rparr>]\<rparr>],
     sp_zone_adjustments = [\<lparr>za_adjust = 2882844526, za_offset = -3600\<rparr>],
     sp_encrypt_key = None, sp_attributes = [''recvonly''],
     sp_medias = [\<lparr>md_info = \<lparr>mi_type = ''video'', mi_port = 51372, mi_port_n = 2,
         mi_proto = ''RTP/AVP'', mi_fmt = [96, 97]\<rparr>,
       md_title = None, md_conn = no_connection, md_bw = [], md_encrypt_key = None,
       md_attributes = [''rtpmap:96 H264/90000'']\<rparr>]\<rparr>"

lemma sample_sdp_ok: "well_formed sample_sdp" "good_origin sample_origin"
  by (code_simp, code_simp)

theorem sdp_roundtrip_witness:
  "sdp_parse (sdp_dump (Some sample_sdp)) = Inr (Some sample_sdp)"
  using sdp_roundtrip [OF sample_sdp_ok(1)] by blast

theorem sdp_missing_time_witness:
  "sdp_parse (render [LF] (head_lines sample_origin ''x'')) = Inl Null_Deref \<and>
   (\<exists>p. sdp_parse (render [LF] (head_lines sample_origin ''x'' @ map (Pair (CHR ''a'')) [''recvonly'', ''k''])) =
     Inr (Some p) \<and> sp_attributes p = [''k''])"
proof -
  have "good_origin sample_origin" "clean ''x''" "list_all clean [''recvonly'', ''k'']" "''recvonly'' \<noteq> []"
    "\<not> isdigit (hd ''recvonly'')" "\<not> isspace (hd ''recvonly'')"
    "hd ''recvonly'' \<noteq> CHR ''-''" "hd ''recvonly'' \<noteq> CHR ''+''"
    using sample_sdp_ok(2) by (simp_all add: isdigit_def isspace_def clean_def)
  from sdp_missing_time [OF this] show ?thesis by blast
qed

end
