(* ===== verification/PlayerRun.thy ===== *)
theory PlayerRun
  imports RtspPlayer SdpRoundtrip
begin

text \<open>
  The player of \<^verbatim>\<open>RtspPlayer.cpp\<close> at work: it is a receiver as \<open>RtpPayload\<close> describes them, and
  it gets from the connection to the PLAY request when the server answers.
\<close>

section \<open>RTP packets\<close>

definition player_feed :: "player_os \<Rightarrow> player \<Rightarrow> byte list \<Rightarrow> player res" where
  "player_feed os p d = HandleRtpMsg os (recvbuf d) (int (min RECV_SIZE (length d))) p"

definition player_out :: "player \<Rightarrow> byte list" where
  "player_out p = (case pl_fp p of None \<Rightarrow> [] | Some f \<Rightarrow> f)"

definition same_player :: "player \<Rightarrow> player \<Rightarrow> bool" where
  "same_player p q \<longleftrightarrow> q = p\<lparr>pl_fp := pl_fp q\<rparr>"

text \<open>A player that is not going to do anything else, with a file or the means to open one.\<close>

definition player_ok :: "player_os \<Rightarrow> player \<Rightarrow> player \<Rightarrow> bool" where
  "player_ok os p0 p \<longleftrightarrow> (po_fopen os \<or> pl_fp p \<noteq> None) \<and> same_player p0 p"

lemma fu_S_flag: "fu_S (FU_of h) = (if h AND 0x80 = 0 then 0 else 1)"
  by (cases "bit h 7"; auto simp: FU_of_def bit_signed_drop_bit_iff byte_bits intro!: byte_eqI
        dest: arg_cong [where f = "\<lambda>b. bit b 7"])

lemma naluType_rebuilt:
  assumes "nal_f ind = 0"
  shows "push_bit 7 (nalu_forbidden (Nalu_of ind)) OR push_bit 5 (nalu_ref_idc (Nalu_of ind)) OR
     fu_type (FU_of h) = fu_nal_header ind h"
proof -
  have "\<not> bit (nal_f ind) 7" using assms by simp
  then have "\<not> bit ind 7" by (simp add: nal_f_def byte_bits)
  then show ?thesis
    by (intro byte_eqI) (simp_all add: Nalu_of_def FU_of_def fu_nal_header_def byte_bits)
qed

lemma nalu_type_nal_type [simp]: "nalu_type (Nalu_of b) = nal_type b"
  by (simp add: Nalu_of_def nal_type_def)

lemma fwrite_rest_run:
  assumes "nat offset + length d \<le> length buf" "0 \<le> offset" "offset + int (length d) < 2 ^ 64"
    "take (length d) (drop (nat offset) buf) = d"
  shows "fwrite_rest buf (offset + int (length d)) offset p = Inr (fwrite_fp d p)"
proof -
  have "unat (of_nat (length d) :: u64) = length d"
    using assms(2,3) by (simp add: unsigned_of_nat take_bit_nat_eq_self)
  with assms(1,4) show ?thesis by (simp add: fwrite_rest_def)
qed

lemma recvbuf_short: "length d \<le> RECV_SIZE \<Longrightarrow> recvbuf d = d @ replicate (RECV_SIZE - length d) 0"
  by (simp add: recvbuf_def)

definition opened :: "player \<Rightarrow> player" where
  "opened p = (if pl_fp p = None then p\<lparr>pl_fp := Some []\<rparr> else p)"

lemma opened_fwrite:
  "player_ok os p0 p \<Longrightarrow> player_ok os p0 (fwrite_fp d (opened p)) \<and>
     player_out (fwrite_fp d (opened p)) = player_out p @ d"
  "player_ok os p0 p \<Longrightarrow> player_ok os p0 (fwrite_fp c (fwrite_fp d (opened p))) \<and>
     player_out (fwrite_fp c (fwrite_fp d (opened p))) = player_out p @ d @ c"
  "player_ok os p0 p \<Longrightarrow> player_ok os p0 (fwrite_fp b (fwrite_fp c (fwrite_fp d (opened p)))) \<and>
     player_out (fwrite_fp b (fwrite_fp c (fwrite_fp d (opened p)))) = player_out p @ d @ c @ b"
  by (cases p; cases p0; auto simp: player_ok_def same_player_def opened_def fwrite_fp_def player_out_def)+

lemma HandleRtpMsg_run:
  assumes "po_fopen os \<or> pl_fp p \<noteq> None" "rd buf 12 = Inr b"
  shows "HandleRtpMsg os buf n p =
    (if nal_type b < 24 then fwrite_rest buf n 12 (fwrite_fp [0, 0, 0, 1] (opened p))
     else if nal_type b = 28 then
       bind_res (rd buf 13) (\<lambda>i.
       if i AND 0x80 = 0 then fwrite_rest buf n 14 (opened p)
       else fwrite_rest buf n 14 (fwrite_fp [push_bit 7 (nalu_forbidden (Nalu_of b)) OR
         push_bit 5 (nalu_ref_idc (Nalu_of b)) OR fu_type (FU_of i)] (fwrite_fp [0, 0, 0, 1] (opened p))))
     else Inr (opened p))"
  using assms
  by (auto simp: HandleRtpMsg_def RTP_OFFSET_def FU_OFFSET_def opened_def fu_S_flag Let_def
      intro!: arg_cong [where f = "bind_res _"])

lemma HandleRtpMsg_single:
  assumes "po_fopen os \<or> pl_fp p \<noteq> None" "length hdr = 12" "nal \<noteq> []" "nal_type (hd nal) < 24"
    "12 + length nal \<le> RECV_SIZE"
  shows "player_feed os p (hdr @ nal) = Inr (fwrite_fp nal (fwrite_fp [0, 0, 0, 1] (opened p)))"
proof -
  obtain r where buf: "recvbuf (hdr @ nal) = hdr @ nal @ r"
    using recvbuf_short [of "hdr @ nal"] assms(2,5) by simp
  have 12: "rd (hdr @ nal @ r) 12 = Inr (hd nal)"
    using assms(2,3) by (simp add: nth_append hd_conv_nth)
  have len: "int (min RECV_SIZE (length (hdr @ nal))) = 12 + int (length nal)"
    using assms(2,5) by simp
  have "fwrite_rest (hdr @ nal @ r) (12 + int (length nal)) 12 q = Inr (fwrite_fp nal q)" for q
    using assms(2,5) by (intro fwrite_rest_run) (simp_all add: RECV_SIZE_def)
  then show ?thesis
    unfolding player_feed_def buf len HandleRtpMsg_run [OF assms(1) 12] using assms(4) by simp
qed

lemma HandleRtpMsg_fu:
  assumes "po_fopen os \<or> pl_fp p \<noteq> None" "length hdr = 12" "nal_type ind = 28"
    "14 + length body \<le> RECV_SIZE" "h AND 0x80 \<noteq> 0 \<Longrightarrow> nal_f ind = 0"
  shows "player_feed os p (hdr @ ind # h # body) = Inr (fwrite_fp body
    (if h AND 0x80 = 0 then opened p
     else fwrite_fp [fu_nal_header ind h] (fwrite_fp [0, 0, 0, 1] (opened p))))"
proof -
  let ?d = "hdr @ ind # h # body"
  obtain r where buf: "recvbuf ?d = ?d @ r" using recvbuf_short [of ?d] assms(2,4) by simp
  have 12: "rd (?d @ r) 12 = Inr ind" "rd (?d @ r) 13 = Inr h"
    using assms(2) by (simp_all add: nth_append)
  have len: "int (min RECV_SIZE (length ?d)) = 14 + int (length body)" using assms(2,4) by simp
  have "fwrite_rest (?d @ r) (14 + int (length body)) 14 q = Inr (fwrite_fp body q)" for q
    using assms(2,4) by (intro fwrite_rest_run) (simp_all add: RECV_SIZE_def)
  then show ?thesis
    unfolding player_feed_def buf len HandleRtpMsg_run [OF assms(1) 12(1)]
    using assms(3,5) naluType_rebuilt [of ind h] 12(2) by simp
qed

interpretation player: nal_depacketizer "player_feed os" player_out "player_ok os p0" RECV_SIZE
  for os p0
proof
  fix s :: player and hdr body nal :: "byte list" and ind fuh :: byte
  assume ok: "player_ok os p0 s" and hdr: "length hdr = 12"
  then have open_ok: "po_fopen os \<or> pl_fp s \<noteq> None" by (simp add: player_ok_def)
  {
    assume "nal_type ind = 28" "nal_f ind = 0" "fuh AND 0x80 \<noteq> 0" "fuh AND 0x40 = 0"
      "14 + length body \<le> RECV_SIZE"
    then show "\<exists>s'. player_feed os s (hdr @ ind # fuh # body) = Inr s' \<and> player_ok os p0 s' \<and>
        player_out s' = player_out s @ [0, 0, 0, 1] @ fu_nal_header ind fuh # body"
      using HandleRtpMsg_fu [OF open_ok hdr] opened_fwrite(3) [OF ok, of body] by simp
  next
    assume "nal_type ind = 28" "fuh AND 0x80 = 0" "14 + length body \<le> RECV_SIZE"
    then show "\<exists>s'. player_feed os s (hdr @ ind # fuh # body) = Inr s' \<and> player_ok os p0 s' \<and>
        player_out s' = player_out s @ body"
      using HandleRtpMsg_fu [OF open_ok hdr] opened_fwrite(1) [OF ok] by simp
  next
    assume "nal \<noteq> []" "1 \<le> nal_type (hd nal)" "nal_type (hd nal) \<le> 23" "12 + length nal \<le> RECV_SIZE"
    moreover from this have "nal_type (hd nal) < 24" by unat_arith
    ultimately show "\<exists>s'. player_feed os s (hdr @ nal) = Inr s' \<and> player_ok os p0 s' \<and>
        player_out s' = player_out s @ [0, 0, 0, 1] @ nal"
      using HandleRtpMsg_single [OF open_ok hdr] opened_fwrite(2) [OF ok] by simp
  }
qed

text \<open>A turn in which only the video socket is readable.\<close>

definition video_event :: "byte list \<Rightarrow> select_event" where
  "video_event d = \<lparr>se_result = 1, se_rtsp = None, se_video = Some (Some d), se_writable = False,
     se_error = False\<rparr>"

definition receiving :: "player \<Rightarrow> bool" where
  "receiving p \<longleftrightarrow> \<not> pl_terminated p \<and> 0 < pl_video_socket p \<and> pl_state p = RtspIdle \<and> \<not> pl_writefd p"

lemma video_turn:
  assumes "receiving p"
  shows "play_turn os (video_event d) p = bind_res (player_feed os p d) (\<lambda>q.
    bind_res (HandleRtspState q) (\<lambda>q. Inr (True, q)))"
proof -
  have eq: "p\<lparr>pl_writefd := False\<rparr> = p" using assms by (cases p) (simp add: receiving_def)
  show ?thesis
    using assms
    by (simp add: play_turn_def video_event_def receiving_def on_rtsp_def on_video_def player_feed_def eq)
qed

lemma same_player_fwrite: "same_player p q \<Longrightarrow> same_player p (fwrite_fp d q)"
  by (cases p; cases q) (simp add: same_player_def fwrite_fp_def)

lemma same_player_opened: "same_player p (opened p)"
  by (cases p) (simp add: same_player_def opened_def)

lemma fwrite_rest_same: "fwrite_rest buf n k p = Inr q \<Longrightarrow> \<exists>d. q = fwrite_fp d p"
  by (auto simp: fwrite_rest_def bind_res_eq_Inr)

lemma feed_same:
  assumes "player_feed os p d = Inr q"
  shows "same_player p q"
proof -
  obtain b where b: "rd (recvbuf d) 12 = Inr b"
    using assms by (auto simp: player_feed_def HandleRtpMsg_def RTP_OFFSET_def bind_res_eq_Inr)
  show ?thesis
  proof (cases "po_fopen os \<or> pl_fp p \<noteq> None")
    case True
    then show ?thesis
      using assms unfolding player_feed_def HandleRtpMsg_run [OF True b]
      by (auto simp: bind_res_eq_Inr same_player_opened same_player_fwrite split: if_splits
          dest!: fwrite_rest_same)
  next
    case False
    then have "q = p"
      using assms b by (auto simp: player_feed_def HandleRtpMsg_def RTP_OFFSET_def)
    then show ?thesis by (cases p) (simp add: same_player_def)
  qed
qed

lemma receiving_same: "same_player p q \<Longrightarrow> receiving p \<Longrightarrow> receiving q \<and> HandleRtspState q = Inr q"
  by (cases p; cases q) (auto simp: same_player_def receiving_def HandleRtspState_def)

lemma video_thread:
  assumes "receiving p"
  shows "play_thread os (map video_event ps) p = fold_res (player_feed os) p ps"
  using assms
proof (induction ps arbitrary: p)
  case Nil
  then show ?case by (simp add: receiving_def)
next
  case (Cons d ps)
  show ?case
  proof (cases "player_feed os p d")
    case (Inr q)
    with receiving_same [OF feed_same [OF Inr] Cons.prems] Cons.IH [of q] Cons.prems
    show ?thesis by (simp add: video_turn [OF Cons.prems]) (simp add: receiving_def)
  qed (use Cons.prems in \<open>simp add: video_turn [OF Cons.prems] receiving_def\<close>)
qed

text \<open>
  A player that has been set up and gets, in turn after turn, the datagrams of an RTP sender
  that puts NAL units into single packets or FU-A fragments of at most 2048 bytes, writes these
  units to its file, each behind a start code, and does nothing else.
\<close>

lemma player_decodes_stream:
  assumes "stream_pkts RECV_SIZE ps nals" "receiving p" "po_fopen os"
  shows "\<exists>q. play_thread os (map video_event ps) p = Inr q \<and> same_player p q \<and>
    player_out q = player_out p @ annexb4 nals"
proof -
  have "player_ok os p p" using assms(3) by (cases p) (simp add: player_ok_def same_player_def)
  from player.feed_stream [OF assms(1) this] show ?thesis
    by (auto simp: video_thread [OF assms(2)] player_ok_def)
qed

section \<open>Messages of the server\<close>

abbreviation line_char :: "char \<Rightarrow> bool" where "line_char \<equiv> \<lambda>c. c \<in> set crlf"

lemma strtok_skip: "strtok_all line_char (crlf @ s) = strtok_all line_char s"
  by (subst (1 2) strtok_all.simps) (simp add: crlf_def)

lemma strtok_line:
  assumes "clean l" "l \<noteq> []"
  shows "strtok_all line_char (l @ crlf @ s) = l # strtok_all line_char s"
proof -
  have d: "dropWhile line_char (l @ crlf @ s) = l @ crlf @ s"
    using assms by (cases l) (auto simp: crlf_def)
  have l: "\<forall>c \<in> set l. \<not> line_char c" using assms(1) by (auto simp: clean_def crlf_def)
  have "takeWhile (\<lambda>c. \<not> line_char c) (l @ crlf @ s) = l"
    "dropWhile (\<lambda>c. \<not> line_char c) (l @ crlf @ s) = crlf @ s"
    using l by (simp_all add: takeWhile_append2 dropWhile_append2) (simp_all add: crlf_def)
  then show ?thesis
    using assms(2) strtok_skip by (subst strtok_all.simps) (simp add: d Let_def)
qed

lemma strtok_lines:
  assumes "\<forall>l \<in> set ls. clean l \<and> l \<noteq> []"
  shows "strtok_all line_char (concat (map (\<lambda>l. l @ crlf) ls) @ s) = ls @ strtok_all line_char s"
  using assms by (induction ls) (simp_all add: strtok_line)

lemma strtok_render:
  assumes "clean_lines ls"
  shows "strtok_all line_char (render crlf ls) = map (\<lambda>(k, v). k # CHR ''='' # v) ls"
  using assms
proof (induction ls)
  case (Cons l ls)
  obtain k v where l: "l = (k, v)" by (cases l)
  have "strtok_all line_char ((k # CHR ''='' # v) @ crlf @ render crlf ls) =
      (k # CHR ''='' # v) # strtok_all line_char (render crlf ls)"
    using Cons.prems by (intro strtok_line) (auto simp: l)
  then show ?case using Cons by (simp add: l)
qed (simp add: strtok_all.simps)

text \<open>A header line that means nothing to the player.\<close>

definition plain_header :: "string \<Rightarrow> bool" where
  "plain_header h \<longleftrightarrow> clean h \<and> h \<noteq> [] \<and> CHR ''='' \<notin> set h \<and> strstr h ''Session:'' = None"

lemma plain_headers: "\<forall>h \<in> set hs. plain_header h \<Longrightarrow> foldl describe_line st hs = st"
proof (induction hs)
  case (Cons h hs)
  then have "describe_line st h = st"
    by (cases st) (simp add: describe_line_def plain_header_def strchr_None_iff)
  with Cons show ?case by simp
qed simp

lemma body_lines:
  assumes "\<forall>(k, v) \<in> set ls. strstr (k # CHR ''='' # v) ''Session:'' = None"
  shows "foldl describe_line (n, sdp) (map (\<lambda>(k, v). k # CHR ''='' # v) ls) = (n, sdp @ render [LF] ls)"
  using assms
proof (induction ls arbitrary: sdp)
  case (Cons l ls)
  obtain k v where l: "l = (k, v)" by (cases l)
  have "strchr (k # CHR ''='' # v) (CHR ''='') \<noteq> None" by (simp add: strchr_None_iff)
  moreover have "strstr (k # CHR ''='' # v) ''Session:'' = None" using Cons.prems by (auto simp: l)
  ultimately have "describe_line (n, sdp) (k # CHR ''='' # v) = (n, sdp @ (k # CHR ''='' # v) @ [LF])"
    unfolding describe_line_def by simp
  then show ?case using Cons by (simp add: l)
qed simp

lemma strtol_space:
  assumes "in_width 64 n" "r = [] \<or> \<not> isdigit (hd r)"
  shows "strtol (CHR '' '' # dec_int n @ r) = (n, r)"
proof -
  obtain c cs where "dec_int n = c # cs" "isdigit c \<or> c = CHR ''-''" using dec_int_head by blast
  then have "dropWhile isspace (dec_int n @ r) = dec_int n @ r"
    using isdigit_no_space by (auto simp: isspace_def)
  then have "dropWhile isspace (CHR '' '' # dec_int n @ r) = dropWhile isspace (dec_int n @ r)"
    by (simp add: isspace_def)
  moreover have "length r < length (dec_int n @ r)" by simp
  then have "r \<noteq> dec_int n @ r" by (metis less_irrefl)
  ultimately show ?thesis
    using strtol_dec_int [OF assms] by (auto simp: strtol_def Let_def split: prod.splits if_splits)
qed

lemma scan_session:
  assumes "in_width 64 n"
  shows "scan [Lit ''Session:'', Int64] (''Session: '' @ dec_int n) = [n]"
proof -
  have s: "''Session: '' @ dec_int n = ''Session:'' @ CHR '' '' # dec_int n" by simp
  have "strtol (CHR '' '' # dec_int n) = (n, [])" using strtol_space [OF assms, of "[]"] by simp
  then show ?thesis unfolding s by (simp only: scan.simps starts_with_append) simp
qed

lemma session_line:
  assumes "in_width 64 n"
  shows "describe_line (m, sdp) (''Session: '' @ dec_int n) = (n, sdp)"
proof -
  have "strstr (''Session: '' @ dec_int n) ''Session:'' = Some 0" by (simp add: starts_with_def)
  then show ?thesis
    using scan_session [OF assms] by (simp only: describe_line_def Let_def prod.case) simp
qed

text \<open>The answers: status line, sequence number, further lines.\<close>

definition answer_head :: "int \<Rightarrow> string" where
  "answer_head cseq = ''RTSP/1.0 200 OK'' @ crlf @ ''CSeq: '' @ dec_int cseq @ crlf"

definition describe_answer :: "string list \<Rightarrow> int \<Rightarrow> string \<Rightarrow> string" where
  "describe_answer hs session body =
     answer_head 2 @ concat (map (\<lambda>h. h @ crlf) hs) @ ''Session: '' @ dec_int session @ crlf @ crlf @
     with_crlf body"

lemma scan_cseq:
  assumes "in_width 32 n"
  shows "scan [SkipNot (CHR ''C''), Lit ''CSeq:'', Int32] (answer_head n @ s) = [n]"
proof -
  let ?r = "CHR '' '' # dec_int n @ crlf @ s"
  have d: "dropWhile (\<lambda>d. d \<noteq> CHR ''C'') (answer_head n @ s) = ''CSeq:'' @ ?r"
    by (simp add: answer_head_def crlf_def)
  have ne: "''CSeq:'' @ ?r \<noteq> answer_head n @ s" by (simp add: answer_head_def)
  have t: "strtol ?r = (n, crlf @ s)"
    using assms by (intro strtol_space) (auto simp: in_width_64 crlf_def)
  have "length (crlf @ s) < length ?r" by simp
  then have ne2: "crlf @ s \<noteq> ?r" by (metis less_irrefl)
  have "scan [Lit ''CSeq:'', Int32] (''CSeq:'' @ ?r) = scan [Int32] ?r"
    by (simp only: scan.simps starts_with_append) simp
  also have "scan [Int32] ?r = [n]"
    by (simp only: scan.simps t Let_def prod.case ne2 if_False sint_in_width [OF assms])
  finally show ?thesis by (simp only: scan.simps d Let_def ne if_False)
qed

text \<open>A description none of whose lines looks like a session header.\<close>

definition no_session :: "sdp_payload \<Rightarrow> bool" where
  "no_session sdp \<longleftrightarrow>
     list_all (\<lambda>(k, v). strstr (k # CHR ''='' # v) ''Session:'' = None) (sdp_lines_of sdp)"

lemma clean_sdp_lines: "well_formed p \<Longrightarrow> clean_lines (sdp_lines_of p)"
  by (auto simp: sdp_lines_of_def well_formed_def session_lines_def rest_lines_def clean_all clean_origin)

lemma well_formed_dump: "well_formed p \<Longrightarrow> sdp_dump (Some p) = render [LF] (sdp_lines_of p)"
  by (simp add: sdp_dump_lines well_formed_def)

lemma status_lines:
  "describe_line st ''RTSP/1.0 200 OK'' = st" "describe_line st (''CSeq: '' @ dec_int 2) = st"
proof -
  have "dec_int 2 = ''2''" by code_simp
  then show "describe_line st ''RTSP/1.0 200 OK'' = st" "describe_line st (''CSeq: '' @ dec_int 2) = st"
    by (cases st; simp add: describe_line_def starts_with_def)+
qed

lemma HandleDescribe_answer:
  assumes "well_formed sdp" "no_session sdp" "\<forall>h \<in> set hs. plain_header h" "in_width 64 n"
    "length (describe_answer hs n (sdp_dump (Some sdp))) \<le> len"
  shows "HandleDescribe (describe_answer hs n (sdp_dump (Some sdp))) len p =
    Inr (p\<lparr>pl_session := n, pl_sdp := Some sdp\<rparr>)"
proof -
  note clean = clean_sdp_lines [OF assms(1)] and dump = well_formed_dump [OF assms(1)]
  let ?top = "[''RTSP/1.0 200 OK'', ''CSeq: '' @ dec_int 2]" and ?s = "''Session: '' @ dec_int n"
  let ?body = "render crlf (sdp_lines_of sdp)"
  let ?ls = "?top @ hs @ [?s]"
  have "describe_answer hs n (sdp_dump (Some sdp)) = concat (map (\<lambda>l. l @ crlf) ?ls) @ crlf @ ?body"
    by (simp add: describe_answer_def answer_head_def dump with_crlf_render [OF clean])
  moreover have "\<forall>l \<in> set ?ls. clean l \<and> l \<noteq> []"
    using assms(3) by (auto simp: plain_header_def)
  ultimately have "strtok_all line_char (describe_answer hs n (sdp_dump (Some sdp))) =
      ?ls @ strtok_all line_char (crlf @ ?body)"
    using strtok_lines by presburger
  then have toks: "strtok_all line_char (describe_answer hs n (sdp_dump (Some sdp))) =
      ?ls @ map (\<lambda>(k, v). k # CHR ''='' # v) (sdp_lines_of sdp)"
    by (simp only: strtok_skip strtok_render [OF clean])
  have "foldl describe_line (pl_session p, []) ?ls = (n, [])"
    using plain_headers [OF assms(3)] session_line [OF assms(4)]
    by (simp add: status_lines del: append_Cons)
  moreover have "foldl describe_line (n, []) (map (\<lambda>(k, v). k # CHR ''='' # v) (sdp_lines_of sdp)) =
      (n, sdp_dump (Some sdp))"
    using body_lines [of "sdp_lines_of sdp" n "[]"] assms(2) by (simp add: no_session_def list_all_iff dump)
  moreover have "sdp_parse (sdp_dump (Some sdp)) = Inr (Some sdp)"
    using sdp_parse_lines [OF assms(1), of "[LF]"] by (simp add: dump line_ending_def)
  ultimately show ?thesis
    using assms(5) by (simp add: HandleDescribe_def GetSDPFromMessage_def toks)
qed

section \<open>The conversation\<close>

definition connected_event :: select_event where
  "connected_event = \<lparr>se_result = 1, se_rtsp = None, se_video = None, se_writable = True, se_error = False\<rparr>"

definition message_event :: "string \<Rightarrow> select_event" where
  "message_event m = \<lparr>se_result = 1, se_rtsp = Some (text_bytes m), se_video = None,
     se_writable = False, se_error = False\<rparr>"

lemma char_of_0: "char_of (0 :: nat) = NUL" by code_simp

lemma message_received:
  assumes "m \<noteq> []" "NUL \<notin> set m" "length m < RECV_SIZE"
  shows "on_rtsp os (Some (text_bytes m)) p =
    bind_res (HandleRtspMsg os m (length m) p) (\<lambda>(_, p). Inr (True, p))"
proof -
  have b: "recvbuf (text_bytes m) = text_bytes m @ 0 # replicate (RECV_SIZE - length m - 1) 0"
    using assms(3) by (cases "RECV_SIZE - length m") (auto simp: recvbuf_def)
  have "bytes_text (text_bytes m @ 0 # r) = m @ NUL # bytes_text r" for r
    using char_of_0 by (simp add: bytes_text_def text_bytes_def comp_def)
  then have "array_string (bytes_text (recvbuf (text_bytes m))) = m"
    using assms(2) by (simp only: b array_string_def field_end(1) [OF assms(2)])
  moreover have "0 \<in> set (recvbuf (text_bytes m))" by (simp add: b)
  moreover have "text_bytes m \<noteq> []" using assms(1) by (simp add: text_bytes_def)
  ultimately show ?thesis using assms(3) by (simp add: on_rtsp_def)
qed

lemma message_turn:
  assumes "m \<noteq> []" "NUL \<notin> set m" "length m < RECV_SIZE" "pl_video_socket p = 0" "\<not> pl_writefd p"
  shows "play_turn os (message_event m) p =
    bind_res (HandleRtspMsg os m (length m) p) (\<lambda>(_, p).
    bind_res (HandleRtspState p) (\<lambda>p. Inr (True, p)))"
proof -
  have eq: "p\<lparr>pl_writefd := False\<rparr> = p" using assms(5) by (cases p) simp
  have "\<exists>b q. x = (b, q)" for x :: "bool \<times> player" by (cases x) simp
  then show ?thesis
    using assms(4,5) message_received [OF assms(1-3), of os p]
    by (cases "HandleRtspMsg os m (length m) p")
       (auto simp: play_turn_def message_event_def on_video_def eq split: prod.splits)
qed

lemma send_request_run:
  "length t < 1024 \<Longrightarrow> send_request t p = Inr (p\<lparr>pl_sent := pl_sent p @ [t]\<rparr>)"
  by (simp add: send_request_def sprintf_buf_def)

text \<open>The DESCRIBE request goes out once the connection is there.\<close>

lemma connected_turn:
  assumes "pl_writefd p" "pl_video_socket p = 0" "length (describe_text (pl_url p)) < 1024"
  shows "play_turn os connected_event p =
    Inr (True, p\<lparr>pl_writefd := False, pl_state := RtspIdle, pl_sent := pl_sent p @ [describe_text (pl_url p)]\<rparr>)"
  using assms
  by (simp add: play_turn_def connected_event_def on_rtsp_def on_video_def HandleRtspState_def
      SendDescribe_def send_request_run)

text \<open>The answer to it makes the player ask for the video.\<close>

lemma describe_turn:
  assumes "well_formed sdp" "no_session sdp" "\<forall>h \<in> set hs. plain_header h" "in_width 64 n"
    "msg = describe_answer hs n (sdp_dump (Some sdp))" "NUL \<notin> set msg" "length msg < RECV_SIZE"
    "pl_video_socket p = 0" "\<not> pl_writefd p"
    "sp_medias sdp = [m]" "mi_type (md_info m) = ''video''"
    "t = setup_text (pl_url p) (foldl track_attr 0 (md_attributes m)) 3 (mi_proto (md_info m)) 12000 12001"
    "length t < 1024"
  shows "play_turn os (message_event msg) p = Inr (True, p\<lparr>pl_session := n, pl_sdp := Some sdp,
    pl_state := RtspIdle, pl_sent := pl_sent p @ [t]\<rparr>)"
proof -
  have "msg \<noteq> []" by (simp add: assms(5) describe_answer_def answer_head_def)
  note turn = message_turn [OF this assms(6-9), of os]
  have "scan [SkipNot (CHR ''C''), Lit ''CSeq:'', Int32] msg = [2]"
    unfolding assms(5) describe_answer_def by (rule scan_cseq) (simp add: in_width_def)
  moreover have "HandleDescribe msg (length msg) p = Inr (p\<lparr>pl_session := n, pl_sdp := Some sdp\<rparr>)"
    unfolding assms(5) by (rule HandleDescribe_answer [OF assms(1-4)]) simp
  ultimately have "HandleRtspMsg os msg (length msg) p =
      Inr (True, p\<lparr>pl_session := n, pl_sdp := Some sdp, pl_state := RtspSendVideoSetup\<rparr>)"
    by (simp add: HandleRtspMsg_def RTSPDESCRIBE_def)
  then show ?thesis
    using assms(10,11,13)
    by (simp add: turn HandleRtspState_def SendVideoSetup_def setup_media_def RtspSetup_def assms(12)
        RTSPVIDEO_SETUP_def VIDEO_RTP_PORT_def VIDEO_RTCP_PORT_def send_request_run Let_def)
qed

text \<open>The answer to SETUP opens the socket for the video and makes the player ask to play.\<close>

lemma setup_turn:
  assumes "msg = answer_head 3 @ rest" "NUL \<notin> set msg" "length msg < RECV_SIZE"
    "pl_video_socket p = 0" "\<not> pl_writefd p" "po_udp os (pl_udp_calls p) = (sock, True, True)" "0 < sock"
    "t = play_text (pl_url p) (pl_session p)" "length t < 1024"
  shows "play_turn os (message_event msg) p = Inr (True, p\<lparr>pl_video_socket := sock,
    pl_udp_calls := pl_udp_calls p + 1, pl_eventfd := max sock (pl_eventfd p),
    pl_datagrams := pl_datagrams p @ [(pl_ip p, word_of_int (port_field msg ''server_port=''), natpacket)],
    pl_state := RtspIdle, pl_sent := pl_sent p @ [t]\<rparr>)"
proof -
  have "msg \<noteq> []" by (simp add: assms(1) answer_head_def)
  note turn = message_turn [OF this assms(2-5), of os]
  have "scan [SkipNot (CHR ''C''), Lit ''CSeq:'', Int32] msg = [3]"
    unfolding assms(1) by (rule scan_cseq) (simp add: in_width_def)
  then have "HandleRtspMsg os msg (length msg) p = Inr (True, p\<lparr>pl_video_socket := sock,
      pl_udp_calls := pl_udp_calls p + 1, pl_eventfd := max sock (pl_eventfd p),
      pl_datagrams := pl_datagrams p @ [(pl_ip p, word_of_int (port_field msg ''server_port=''), natpacket)],
      pl_state := RtspSendPlay\<rparr>)"
    using assms(6,7)
    by (simp add: HandleRtspMsg_def RTSPDESCRIBE_def RTSPVIDEO_SETUP_def HandleVideoSetup_def
        RTPSocketInit_def VIDEO_RTP_PORT_def Let_def)
  then show ?thesis
    using assms(9) by (simp add: turn HandleRtspState_def SendPlay_def assms(8) send_request_run)
qed

lemma Play_started:
  assumes "Play os url RtspPlayer_init = (True, p)"
  shows "\<exists>ip port. getIPFromUrl url = Some (ip, port) \<and>
    p = RtspPlayer_init\<lparr>pl_url := url, pl_ip := ip, pl_rtsp_socket := po_socket os,
      pl_eventfd := max (po_socket os) 0, pl_networked := True, pl_writefd := True\<rparr>"
  using assms
  by (auto simp: Play_def NetworkInit_def EventInit_def RtspPlayer_init_def Let_def
      split: option.splits if_splits connect_result.splits prod.splits)

lemma thread_Cons:
  "\<not> pl_terminated p \<Longrightarrow> play_turn os e p = Inr (True, q) \<Longrightarrow>
   play_thread os (e # es) p = play_thread os es q"
  by simp

section \<open>Properties\<close>

text \<open>
  C7: A whole session.  The player is started with an address, the connection comes about, the
  server answers DESCRIBE with header lines, none of which holds an equals sign (on which the
  player would crash) or \<^verbatim>\<open>Session:\<close>, a session number and the text of a well-formed description of
  one video without \<^verbatim>\<open>Session:\<close>, and then SETUP; after that it sends the datagrams (at most 2048 bytes each) of a stream.  Each
  answer arrives whole, is shorter than the 2048 bytes of the buffer and has no zero byte, the
  requests fit their 1024 bytes, and the file and the socket for the video come about.  The player
  sends exactly the three requests DESCRIBE, SETUP (for the track that the attributes of the video
  name) and PLAY (for the session of the answer), a datagram to the port that the server has named,
  and its file holds exactly the NAL units of the stream.
\<close>

theorem player_session:
  assumes "Play os url RtspPlayer_init = (True, p)" "po_fopen os" "po_udp os 0 = (sock, True, True)" "0 < sock"
    "well_formed sdp" "no_session sdp" "\<forall>h \<in> set hs. plain_header h" "in_width 64 n"
    "msg1 = describe_answer hs n (sdp_dump (Some sdp))" "NUL \<notin> set msg1" "length msg1 < RECV_SIZE"
    "msg2 = answer_head 3 @ rest" "NUL \<notin> set msg2" "length msg2 < RECV_SIZE"
    "sp_medias sdp = [m]" "mi_type (md_info m) = ''video''"
    "reqs = [describe_text url,
       setup_text url (foldl track_attr 0 (md_attributes m)) 3 (mi_proto (md_info m)) 12000 12001,
       play_text url n]"
    "\<forall>t \<in> set reqs. length t < 1024"
    "stream_pkts RECV_SIZE ps nals"
  shows "\<exists>q. play_thread os ([connected_event, message_event msg1, message_event msg2] @ map video_event ps) p =
      Inr q \<and> pl_sent q = reqs \<and> pl_sdp q = Some sdp \<and>
      pl_datagrams q = [(pl_ip p, word_of_int (port_field msg2 ''server_port=''), natpacket)] \<and>
      player_out q = annexb4 nals"
proof -
  obtain ip where p: "p = RtspPlayer_init\<lparr>pl_url := url, pl_ip := ip, pl_rtsp_socket := po_socket os,
      pl_eventfd := max (po_socket os) 0, pl_networked := True, pl_writefd := True\<rparr>"
    using Play_started [OF assms(1)] by blast
  let ?p1 = "p\<lparr>pl_writefd := False, pl_state := RtspIdle, pl_sent := [reqs ! 0]\<rparr>"
  let ?p2 = "?p1\<lparr>pl_session := n, pl_sdp := Some sdp, pl_sent := [reqs ! 0, reqs ! 1]\<rparr>"
  let ?p3 = "?p2\<lparr>pl_video_socket := sock, pl_udp_calls := 1, pl_eventfd := max sock (pl_eventfd p),
      pl_datagrams := [(ip, word_of_int (port_field msg2 ''server_port=''), natpacket)], pl_sent := reqs\<rparr>"
  have l: "length (reqs ! 0) < 1024" "length (reqs ! 1) < 1024" "length (reqs ! 2) < 1024"
    using assms(17,18) by simp_all
  have 1: "play_turn os connected_event p = Inr (True, ?p1)"
    using l(1) assms(17) by (subst connected_turn) (simp_all add: p RtspPlayer_init_def)
  have 2: "play_turn os (message_event msg1) ?p1 = Inr (True, ?p2)"
    using l(2) assms(17)
    by (subst describe_turn [OF assms(5-11) _ _ assms(15,16) refl]) (simp_all add: p RtspPlayer_init_def)
  have 3: "play_turn os (message_event msg2) ?p2 = Inr (True, ?p3)"
    using l(3) assms(17)
    by (subst setup_turn [OF assms(12-14) _ _ _ assms(4) refl]) (simp_all add: p RtspPlayer_init_def assms(3))
  have t: "\<not> pl_terminated p" "\<not> pl_terminated ?p1" "\<not> pl_terminated ?p2"
    by (simp_all add: p RtspPlayer_init_def)
  have "receiving ?p3" using assms(4) by (simp add: receiving_def p RtspPlayer_init_def)
  from player_decodes_stream [OF assms(19) this assms(2)] obtain q where q:
      "play_thread os (map video_event ps) ?p3 = Inr q" "same_player ?p3 q"
      "player_out q = player_out ?p3 @ annexb4 nals"
    by blast
  have "play_thread os ([connected_event, message_event msg1, message_event msg2] @ map video_event ps) p = Inr q"
    using t q(1) by (simp only: append_Cons append_Nil thread_Cons [OF _ 1] thread_Cons [OF _ 2]
        thread_Cons [OF _ 3] not_False_eq_True)
  moreover have "pl_sent q = reqs" "pl_sdp q = Some sdp" "pl_datagrams q = pl_datagrams ?p3"
    using arg_cong [OF q(2) [unfolded same_player_def], of pl_sent]
      arg_cong [OF q(2) [unfolded same_player_def], of pl_sdp]
      arg_cong [OF q(2) [unfolded same_player_def], of pl_datagrams]
    by simp_all
  moreover have "pl_ip p = ip" "player_out ?p3 = []"
    by (simp_all add: p RtspPlayer_init_def player_out_def)
  ultimately show ?thesis using q(3) by auto
qed

lemma describe_keeps:
  "\<exists>n' x. foldl describe_line (n, sdp) ls = (n', sdp @ x)"
proof (induction ls arbitrary: n sdp)
  case (Cons l ls)
  have "\<exists>n' x. describe_line (n, sdp) l = (n', sdp @ x)"
    by (auto simp: describe_line_def split: list.split)
  then obtain n1 x1 where 1: "describe_line (n, sdp) l = (n1, sdp @ x1)" by blast
  obtain n2 x2 where "foldl describe_line (n1, sdp @ x1) ls = (n2, (sdp @ x1) @ x2)"
    using Cons.IH by blast
  with 1 show ?case by (intro exI [of _ n2] exI [of _ "x1 @ x2"]) simp
qed simp

lemma sdp_parse_no_key:
  assumes "2 \<le> length h" "h ! 1 \<noteq> CHR ''=''"
  shows "sdp_parse (h @ x) = Inr None"
proof -
  have "load_next_entry (Some (h @ x)) = None"
    using assms by (auto simp: load_next_entry_def Let_def nth_append)
  then show ?thesis by (simp add: sdp_parse_def)
qed

text \<open>
  Every header line of the DESCRIBE answer that has an equals sign goes into the text for the
  SDP parser.  With such a line in front of the description, a content type with a parameter for
  example, parsing fails, which is not checked, and the player follows a null pointer when it is
  about to send SETUP.
\<close>

theorem player_header_equals:
  assumes "msg = answer_head 2 @ concat (map (\<lambda>h. h @ crlf) hs) @ h @ crlf @ rest"
    "\<forall>h \<in> set hs. plain_header h" "clean h" "CHR ''='' \<in> set h" "strstr h ''Session:'' = None"
    "2 \<le> length h" "h ! 1 \<noteq> CHR ''=''" "NUL \<notin> set msg" "length msg < RECV_SIZE"
    "pl_video_socket p = 0" "\<not> pl_writefd p"
  shows "play_turn os (message_event msg) p = Inl Null_Deref"
proof -
  let ?top = "[''RTSP/1.0 200 OK'', ''CSeq: '' @ dec_int 2]"
  let ?ls = "?top @ hs @ [h]"
  have "msg \<noteq> []" by (simp add: assms(1) answer_head_def)
  note turn = message_turn [OF this assms(8-11), of os]
  have "msg = concat (map (\<lambda>l. l @ crlf) ?ls) @ rest" by (simp add: assms(1) answer_head_def)
  moreover have "\<forall>l \<in> set ?ls. clean l \<and> l \<noteq> []"
    using assms(2,3,6) by (auto simp: plain_header_def)
  ultimately have toks: "strtok_all line_char msg = ?ls @ strtok_all line_char rest"
    using strtok_lines by presburger
  have "describe_line (pl_session p, []) h = (pl_session p, h @ [LF])"
    using assms(4,5) by (simp add: describe_line_def strchr_None_iff)
  then have "foldl describe_line (pl_session p, []) ?ls = (pl_session p, h @ [LF])"
    using plain_headers [OF assms(2)] by (simp add: status_lines del: append_Cons)
  with describe_keeps obtain n x where
      "foldl describe_line (pl_session p, []) (strtok_all line_char msg) = (n, h @ [LF] @ x)"
    by (metis append.assoc foldl_append toks)
  then have d: "HandleDescribe msg (length msg) p = Inr (p\<lparr>pl_session := n, pl_sdp := None\<rparr>)"
    using sdp_parse_no_key [OF assms(6,7)] by (simp add: HandleDescribe_def GetSDPFromMessage_def)
  have "scan [SkipNot (CHR ''C''), Lit ''CSeq:'', Int32] msg = [2]"
    unfolding assms(1) by (rule scan_cseq) (simp add: in_width_def)
  then have "HandleRtspMsg os msg (length msg) p =
      Inr (True, p\<lparr>pl_session := n, pl_sdp := None, pl_state := RtspSendVideoSetup\<rparr>)"
    by (simp add: HandleRtspMsg_def RTSPDESCRIBE_def d)
  then show ?thesis by (simp add: turn HandleRtspState_def SendVideoSetup_def)
qed

section \<open>Witnesses\<close>

definition sample_player_os :: player_os where
  "sample_player_os = \<lparr>po_socket = 4, po_ioctl = True, po_connect = (\<lambda>_ _. In_Progress),
     po_udp = (\<lambda>k. (5 + int k, True, True)), po_fopen = True\<rparr>"

theorem player_header_equals_witness:
  "play_turn sample_player_os
     (message_event (answer_head 2 @ ''Content-Type: application/sdp; charset=utf-8'' @ crlf @ crlf))
     RtspPlayer_init = Inl Null_Deref"
proof -
  have d: "dec_int 2 = ''2''" by code_simp
  show ?thesis
    by (rule player_header_equals [of _ "[]" "''Content-Type: application/sdp; charset=utf-8''" crlf])
       (simp_all add: answer_head_def d crlf_def clean_def starts_with_def RECV_SIZE_def RtspPlayer_init_def)
qed

definition sample_video :: sdp_media where
  "sample_video = \<lparr>md_info = \<lparr>mi_type = ''video'', mi_port = 0, mi_port_n = 0, mi_proto = ''RTP/AVP'',
     mi_fmt = [96]\<rparr>, md_title = None, md_conn = no_connection, md_bw = [], md_encrypt_key = None,
     md_attributes = [''control:trackID=1'']\<rparr>"

definition sample_stream_sdp :: sdp_payload where
  "sample_stream_sdp = \<lparr>sp_proto_version = 0,
     sp_origin = \<lparr>or_username = ''-'', or_sess_id = 1, or_sess_version = 2, or_nettype = ''IN'',
       or_addrtype = ''IP4'', or_addr = ''10.0.0.1''\<rparr>, sp_session_name = ''live'',
     sp_information = None, sp_uri = None, sp_emails = [], sp_phones = [], sp_conn = no_connection,
     sp_bw = [], sp_times = [\<lparr>tm_start = 0, tm_stop = 0, tm_repeat = []\<rparr>],
     sp_zone_adjustments = [], sp_encrypt_key = None, sp_attributes = [], sp_medias = [sample_video]\<rparr>"

definition sample_msg1 :: string where
  "sample_msg1 = describe_answer [''Server: x''] 7 (sdp_dump (Some sample_stream_sdp))"

definition sample_msg2 :: string where
  "sample_msg2 = answer_head 3 @ ''Transport: RTP/AVP;unicast;client_port=12000-12001;server_port=6970-6971''"

lemma sample_session_ok:
  "well_formed sample_stream_sdp" "no_session sample_stream_sdp"
  "plain_header ''Server: x''" "NUL \<notin> set sample_msg1" "length sample_msg1 < 2048"
  "NUL \<notin> set sample_msg2" "length sample_msg2 < 2048"
  by (code_simp, code_simp, code_simp, code_simp, code_simp, code_simp, code_simp)

definition sample_url :: string where "sample_url = ''rtsp://10.0.0.1/live''"

definition sample_requests :: "string list" where
  "sample_requests = [describe_text sample_url, setup_text sample_url 1 3 ''RTP/AVP'' 12000 12001,
     play_text sample_url 7]"

lemma sample_requests_short: "\<forall>t \<in> set sample_requests. length t < 1024"
proof -
  have "length (dec_int n) \<le> 5" if "n \<in> {1, 2, 3, 5, 7, 12000, 12001}" for n
    using that length_dec_nat [of "nat n" 5] by (auto simp: dec_int_def)
  from this [of 1] this [of 2] this [of 3] this [of 5] this [of 7] this [of 12000] this [of 12001]
  show ?thesis
    by (simp add: sample_requests_def describe_text_def setup_text_def play_text_def sample_url_def crlf_def
        RTSPDESCRIBE_def RTSPPLAY_def)
qed

lemma sample_play: "\<exists>p. Play sample_player_os sample_url RtspPlayer_init = (True, p)"
proof -
  have "getIPFromUrl sample_url = Some (''10.0.0.1'', 554)" by code_simp
  then show ?thesis
    by (simp add: Play_def NetworkInit_def sample_player_os_def RtspPlayer_init_def)
qed

theorem player_session_witness:
  "\<exists>p q. Play sample_player_os sample_url RtspPlayer_init = (True, p) \<and>
     play_thread sample_player_os ([connected_event, message_event sample_msg1, message_event sample_msg2] @
       map video_event [replicate 12 0 @ [0x65, 1, 2]]) p = Inr q \<and>
     pl_sent q = sample_requests \<and> player_out q = [0, 0, 0, 1, 0x65, 1, 2]"
proof -
  obtain p where p: "Play sample_player_os sample_url RtspPlayer_init = (True, p)"
    using sample_play by blast
  have track: "foldl track_attr 0 (md_attributes sample_video) = 1" by code_simp
  have nal: "nal_pkts RECV_SIZE [replicate 12 0 @ [0x65, 1, 2]] [0x65, 1, 2]"
    by (rule np_single) (simp_all add: nal_type_def RECV_SIZE_def)
  then have stream: "stream_pkts RECV_SIZE [replicate 12 0 @ [0x65, 1, 2]] [[0x65, 1, 2]]"
    using sp_Cons [OF nal sp_Nil] by simp
  have "\<exists>q. play_thread sample_player_os ([connected_event, message_event sample_msg1, message_event sample_msg2] @
       map video_event [replicate 12 0 @ [0x65, 1, 2]]) p = Inr q \<and> pl_sent q = sample_requests \<and>
     pl_sdp q = Some sample_stream_sdp \<and>
     pl_datagrams q = [(pl_ip p, word_of_int (port_field sample_msg2 ''server_port=''), natpacket)] \<and>
     player_out q = annexb4 [[0x65, 1, 2]]"
  proof (rule player_session [OF p _ _ _ sample_session_ok(1,2), where hs = "[''Server: x'']" and n = 7])
    show "po_udp sample_player_os 0 = (5, True, True)" by (simp add: sample_player_os_def)
    show "sample_requests = [describe_text sample_url, setup_text sample_url
        (foldl track_attr 0 (md_attributes sample_video)) 3 (mi_proto (md_info sample_video)) 12000 12001,
        play_text sample_url 7]"
      by (simp only: track) (simp add: sample_requests_def sample_video_def)
  qed (use sample_session_ok sample_requests_short stream in
      \<open>simp_all add: sample_player_os_def sample_msg1_def sample_msg2_def sample_stream_sdp_def
        sample_video_def in_width_def RECV_SIZE_def\<close>)
  then show ?thesis using p by auto
qed

end
