(* ===== verification/H264Send.thy ===== *)
theory H264Send
  imports RtpPayload
begin

text \<open>
  \<^verbatim>\<open>h264Send\<close>: the C++ sender.  \<^verbatim>\<open>H264ByteStreamParser\<close> reads NAL units from a file byte by byte,
  \<^verbatim>\<open>H264RtpPacketizer\<close> puts them into RTP packets of at most 1414 bytes and sends these.

  The file is the list of the bytes that are left.  Allocations succeed, printing and waiting
  are left out, and what \<^verbatim>\<open>sendto\<close> returns is ignored as in the code.  Random start values are
  part of the initial state.  The parser is handed to \<^verbatim>\<open>start\<close> by value, so that the file is
  closed twice at the end; destructors are left out.
\<close>

section \<open>NAL packets\<close>

record H264NalPacket =
  NumBytesinNALUnit :: nat
  forbiden_zero_bit :: bool
  nal_ref_idc :: byte
  nal_unit_type :: byte
  RBSP :: "byte list"

definition MAX_NAL_BUF_SIZE :: nat where "MAX_NAL_BUF_SIZE = 1500 * 100"

text \<open>The constructor, called with a positive length only; \<^verbatim>\<open>RBSP\<close> gets a zero behind the data.\<close>

definition new_H264NalPacket :: "byte list \<Rightarrow> H264NalPacket" where
  "new_H264NalPacket data =
     \<lparr>NumBytesinNALUnit = length data,
      forbiden_zero_bit = (drop_bit 7 (hd data AND 0x80) \<noteq> 0),
      nal_ref_idc = drop_bit 5 (hd data AND 0x60),
      nal_unit_type = hd data AND 0x1F,
      RBSP = data @ [0]\<rparr>"

section \<open>The parser\<close>

definition put_byte :: "byte \<Rightarrow> byte list \<Rightarrow> byte list res" where
  "put_byte b buff = (if length buff < MAX_NAL_BUF_SIZE then Inr (buff @ [b]) else Inl Write_Overflow)"

text \<open>
  \<^verbatim>\<open>next_nalu\<close>: \<open>flag\<close> is the number of zeros that are held back in \<^verbatim>\<open>tmpbuf\<close>, \<open>buff\<close> the bytes
  stored so far.  The result is the packet, if there is one, and the rest of the file.
\<close>

fun next_nalu_loop :: "nat \<Rightarrow> byte list \<Rightarrow> byte list \<Rightarrow> (H264NalPacket option \<times> byte list) res" where
  "next_nalu_loop flag buff [] = Inr (None, [])"
| "next_nalu_loop flag buff (b # file) =
     (if flag = 0 \<and> b \<noteq> 0 then bind_res (put_byte b buff) (\<lambda>buff. next_nalu_loop 0 buff file)
      else if flag = 0 then next_nalu_loop 1 buff file
      else if flag = 1 then
        (if b = 0 then next_nalu_loop 2 buff file
         else
           bind_res (put_byte 0 buff) (\<lambda>buff.
           bind_res (put_byte b buff) (\<lambda>buff. next_nalu_loop 0 buff file)))
      else if flag = 2 then
        (if b = 0 then next_nalu_loop 3 buff file
         else if b = 1 then
           (if length buff > 0 then Inr (Some (new_H264NalPacket buff), file)
            else next_nalu_loop 0 buff file)
         else
           bind_res (put_byte 0 buff) (\<lambda>buff.
           bind_res (put_byte 0 buff) (\<lambda>buff.
           bind_res (put_byte b buff) (\<lambda>buff. next_nalu_loop 0 buff file))))
      else
        (if b = 1 then
           (if length buff > 0 then Inr (Some (new_H264NalPacket buff), file)
            else next_nalu_loop 0 buff file)
         else next_nalu_loop 0 buff file))"

definition next_nalu :: "byte list \<Rightarrow> (H264NalPacket option \<times> byte list) res" where
  "next_nalu file = next_nalu_loop 0 [] file"

section \<open>Headers\<close>

record rtp_package_header =
  rp_csrc_len :: byte
  rp_extension :: byte
  rp_padding :: byte
  rp_version :: byte
  rp_payload_type :: byte
  rp_marker :: byte
  rp_seq_no :: u16
  rp_timestamp :: u32
  rp_ssrc :: u32

text \<open>The bytes of the structure, the numbers after \<^verbatim>\<open>htons\<close> and \<^verbatim>\<open>htonl\<close>.\<close>

definition rtp_package_bytes :: "rtp_package_header \<Rightarrow> byte list" where
  "rtp_package_bytes h =
     [(rp_csrc_len h AND 0xF) OR push_bit 4 (rp_extension h AND 1) OR push_bit 5 (rp_padding h AND 1) OR
        push_bit 6 (rp_version h AND 3),
      (rp_payload_type h AND 0x7F) OR push_bit 7 (rp_marker h AND 1)] @
     be16 (rp_seq_no h) @ be32 (rp_timestamp h) @ be32 (rp_ssrc h)"

definition H264_PT :: byte where "H264_PT = 96"

text \<open>The fields of the first byte of a NAL unit.\<close>

definition f_field :: "byte \<Rightarrow> byte" where "f_field b = drop_bit 7 (b AND 0x80)"
definition nri_field :: "byte \<Rightarrow> byte" where "nri_field b = drop_bit 5 (b AND 0x60)"
definition type_field :: "byte \<Rightarrow> byte" where "type_field b = b AND 0x1F"

text \<open>A \<^verbatim>\<open>nalu_header_t\<close> or \<^verbatim>\<open>fu_indicator_t\<close>, and an \<^verbatim>\<open>fu_header_t\<close>, from their fields.\<close>

definition nalu_header_t :: "byte \<Rightarrow> byte \<Rightarrow> byte \<Rightarrow> byte" where
  "nalu_header_t f nri type = (type AND 0x1F) OR push_bit 5 (nri AND 3) OR push_bit 7 (f AND 1)"

definition fu_header_t :: "byte \<Rightarrow> byte \<Rightarrow> byte \<Rightarrow> byte \<Rightarrow> byte" where
  "fu_header_t s e r type =
     (type AND 0x1F) OR push_bit 5 (r AND 1) OR push_bit 6 (e AND 1) OR push_bit 7 (s AND 1)"

section \<open>The packetizer\<close>

text \<open>
  \<open>nalu_hdr_set\<close>: the local variable \<^verbatim>\<open>nalu_hdr\<close> of \<^verbatim>\<open>start\<close> points to \<^verbatim>\<open>send_buff[12]\<close>; before the
  first single NAL unit it points nowhere.  \<open>m_sent\<close> is what has been sent.
\<close>

record H264RtpPacketizer =
  m_seq_num :: u16
  m_ssrc :: u32
  m_timestamp :: u32
  m_clock :: u64
  m_destport :: u16
  m_destaddr :: string
  nalu_hdr_set :: bool
  m_sent :: "(string \<times> u16 \<times> byte list) list"

definition RTP_PAYLOAD_MAX_SIZE :: nat where "RTP_PAYLOAD_MAX_SIZE = 1400"
definition SEND_BUFF_SIZE :: nat where "SEND_BUFF_SIZE = 1500"
definition frameRate :: u64 where "frameRate = 25"

definition writeDatagram :: "byte list \<Rightarrow> string \<Rightarrow> u16 \<Rightarrow> H264RtpPacketizer \<Rightarrow> H264RtpPacketizer" where
  "writeDatagram d addr port p = p\<lparr>m_sent := m_sent p @ [(addr, port, d)]\<rparr>"

definition send :: "byte list \<Rightarrow> nat \<Rightarrow> H264RtpPacketizer \<Rightarrow> H264RtpPacketizer res" where
  "send sendbuff send_len p =
     bind_res (rd_block sendbuff 0 send_len) (\<lambda>d. Inr (writeDatagram d (m_destaddr p) (m_destport p) p))"

text \<open>The RTP header at the front of the cleared buffer, with the next sequence number.\<close>

definition put_rtp_hdr :: "byte \<Rightarrow> H264RtpPacketizer \<Rightarrow> (byte list \<times> H264RtpPacketizer) res" where
  "put_rtp_hdr marker p =
     (let p = p\<lparr>m_seq_num := m_seq_num p + 1\<rparr> in
      bind_res (wr_block (replicate SEND_BUFF_SIZE 0) 0 (rtp_package_bytes
          \<lparr>rp_csrc_len = 0, rp_extension = 0, rp_padding = 0, rp_version = 2, rp_payload_type = H264_PT,
           rp_marker = marker, rp_seq_no = m_seq_num p, rp_timestamp = m_timestamp p,
           rp_ssrc = m_ssrc p\<rparr>)) (\<lambda>buff. Inr (buff, p)))"

text \<open>\<^verbatim>\<open>memcpy(send_buff + i, nalu_buf + j, n)\<close>.\<close>

definition copy_payload :: "byte list \<Rightarrow> nat \<Rightarrow> byte list \<Rightarrow> nat \<Rightarrow> nat \<Rightarrow> byte list res" where
  "copy_payload send_buff i nalu_buf j n =
     bind_res (rd_block nalu_buf j n) (\<lambda>d. wr_block send_buff i d)"

definition send_single_nal :: "byte list \<Rightarrow> nat \<Rightarrow> H264RtpPacketizer \<Rightarrow> H264RtpPacketizer res" where
  "send_single_nal nalu_buf nalu_len p =
     bind_res (put_rtp_hdr 0 p) (\<lambda>(buff, p).
     bind_res (rd nalu_buf 0) (\<lambda>b.
     bind_res (wr buff 12 (nalu_header_t (f_field b) (nri_field b) (type_field b))) (\<lambda>buff.
     bind_res (copy_payload buff 13 nalu_buf 1 (nalu_len - 1)) (\<lambda>buff.
     send buff (12 + nalu_len) (p\<lparr>nalu_hdr_set := True\<rparr>)))))"

text \<open>The two bytes in front of a fragment; they are written through \<^verbatim>\<open>nalu_hdr\<close>.\<close>

definition put_fu_hdr ::
  "byte \<Rightarrow> byte \<Rightarrow> byte list \<Rightarrow> byte list \<Rightarrow> H264RtpPacketizer \<Rightarrow> byte list res" where
  "put_fu_hdr s e nalu_buf buff p =
     bind_res (rd nalu_buf 0) (\<lambda>b.
     if \<not> nalu_hdr_set p then Inl Null_Deref
     else
       bind_res (wr buff 12 (nalu_header_t (f_field b) (nri_field b) 28)) (\<lambda>buff.
       wr buff 13 (fu_header_t s e 0 (type_field b))))"

definition send_fu_first :: "byte list \<Rightarrow> H264RtpPacketizer \<Rightarrow> H264RtpPacketizer res" where
  "send_fu_first nalu_buf p =
     bind_res (put_rtp_hdr 0 p) (\<lambda>(buff, p).
     bind_res (put_fu_hdr 1 0 nalu_buf buff p) (\<lambda>buff.
     bind_res (copy_payload buff 14 nalu_buf 1 (RTP_PAYLOAD_MAX_SIZE - 1)) (\<lambda>buff.
     send buff (12 + 2 + (RTP_PAYLOAD_MAX_SIZE - 1)) p)))"

definition send_fu_middle :: "byte list \<Rightarrow> nat \<Rightarrow> H264RtpPacketizer \<Rightarrow> H264RtpPacketizer res" where
  "send_fu_middle nalu_buf fu_seq p =
     bind_res (put_rtp_hdr 0 p) (\<lambda>(buff, p).
     bind_res (put_fu_hdr 0 0 nalu_buf buff p) (\<lambda>buff.
     bind_res (copy_payload buff 14 nalu_buf (RTP_PAYLOAD_MAX_SIZE * fu_seq) RTP_PAYLOAD_MAX_SIZE) (\<lambda>buff.
     send buff (12 + 2 + RTP_PAYLOAD_MAX_SIZE) p)))"

definition send_fu_last :: "byte list \<Rightarrow> nat \<Rightarrow> nat \<Rightarrow> H264RtpPacketizer \<Rightarrow> H264RtpPacketizer res" where
  "send_fu_last nalu_buf fu_seq last_fu_pack_size p =
     bind_res (put_rtp_hdr 1 p) (\<lambda>(buff, p).
     bind_res (put_fu_hdr 0 1 nalu_buf buff p) (\<lambda>buff.
     bind_res (copy_payload buff 14 nalu_buf (RTP_PAYLOAD_MAX_SIZE * fu_seq) last_fu_pack_size) (\<lambda>buff.
     send buff (12 + 2 + last_fu_pack_size) p)))"

function fu_pack_loop :: "byte list \<Rightarrow> nat \<Rightarrow> nat \<Rightarrow> nat \<Rightarrow> H264RtpPacketizer \<Rightarrow> H264RtpPacketizer res" where
  "fu_pack_loop nalu_buf fu_pack_num last_fu_pack_size fu_seq p =
     (if fu_seq < fu_pack_num then
        bind_res
          (if fu_seq = 0 then send_fu_first nalu_buf p
           else if fu_seq < fu_pack_num - 1 then send_fu_middle nalu_buf fu_seq p
           else send_fu_last nalu_buf fu_seq last_fu_pack_size p)
          (fu_pack_loop nalu_buf fu_pack_num last_fu_pack_size (fu_seq + 1))
      else Inr p)"
  by pat_completeness auto
termination
  by (relation "measure (\<lambda>(_, n, _, k, _). n - k)") auto

declare fu_pack_loop.simps [simp del]

definition send_nalu :: "H264NalPacket \<Rightarrow> H264RtpPacketizer \<Rightarrow> H264RtpPacketizer res" where
  "send_nalu nal p =
     (let nalu_buf = RBSP nal; nalu_len = NumBytesinNALUnit nal in
      if nalu_len < 1 then Inr p
      else
        (let p = p\<lparr>m_timestamp := m_timestamp p + ucast (m_clock p div frameRate)\<rparr> in
         if nalu_len \<le> RTP_PAYLOAD_MAX_SIZE then send_single_nal nalu_buf nalu_len p
         else
           (let fu_pack_num = (if nalu_len mod RTP_PAYLOAD_MAX_SIZE \<noteq> 0
                               then nalu_len div RTP_PAYLOAD_MAX_SIZE + 1
                               else nalu_len div RTP_PAYLOAD_MAX_SIZE);
                last_fu_pack_size = (if nalu_len mod RTP_PAYLOAD_MAX_SIZE \<noteq> 0
                                     then nalu_len mod RTP_PAYLOAD_MAX_SIZE
                                     else RTP_PAYLOAD_MAX_SIZE)
            in fu_pack_loop nalu_buf fu_pack_num last_fu_pack_size 0 p)))"

lemma next_nalu_loop_shorter:
  "next_nalu_loop flag buff ds = Inr (Some nal, rest) \<Longrightarrow> length rest < length ds"
proof (induction ds arbitrary: flag buff)
  case (Cons b ds)
  have "next_nalu_loop f bf ds = Inr (Some nal, rest) \<Longrightarrow> length rest < length (b # ds)" for f bf
    using Cons.IH less_SucI by fastforce
  then show ?case
    using Cons.prems by (auto simp: bind_res_eq_Inr split: if_splits)
qed simp

function start_loop :: "byte list \<Rightarrow> H264RtpPacketizer \<Rightarrow> H264RtpPacketizer res" where
  "start_loop file p =
     (case next_nalu file of
        Inl e \<Rightarrow> Inl e
      | Inr (None, _) \<Rightarrow> Inr p
      | Inr (Some nal, file) \<Rightarrow> bind_res (send_nalu nal p) (start_loop file))"
  by pat_completeness auto
termination
  by (relation "measure (\<lambda>(file, _). length file)")
     (auto simp: next_nalu_def dest: next_nalu_loop_shorter)

declare start_loop.simps [simp del]

text \<open>\<^verbatim>\<open>start\<close>; the parser has opened the file, or has none and reads through a null pointer.\<close>

definition start :: "byte list option \<Rightarrow> H264RtpPacketizer \<Rightarrow> H264RtpPacketizer res" where
  "start file p =
     (case file of None \<Rightarrow> Inl Null_Deref | Some d \<Rightarrow> start_loop d (p\<lparr>nalu_hdr_set := False\<rparr>))"

definition set_ssrc :: "u32 \<Rightarrow> H264RtpPacketizer \<Rightarrow> H264RtpPacketizer" where
  "set_ssrc ssrc p = p\<lparr>m_ssrc := ssrc\<rparr>"

definition set_clock_frequency :: "u64 \<Rightarrow> H264RtpPacketizer \<Rightarrow> H264RtpPacketizer" where
  "set_clock_frequency clock p = p\<lparr>m_clock := clock\<rparr>"

definition set_destination_addr :: "string \<Rightarrow> u16 \<Rightarrow> H264RtpPacketizer \<Rightarrow> H264RtpPacketizer" where
  "set_destination_addr addr port p = p\<lparr>m_destaddr := addr, m_destport := port\<rparr>"

text \<open>\<^verbatim>\<open>main\<close>; \<open>p0\<close> is a packetizer with the random values of its constructor.\<close>

definition h264send_main :: "(string \<Rightarrow> byte list option) \<Rightarrow> H264RtpPacketizer \<Rightarrow> H264RtpPacketizer res" where
  "h264send_main files p0 =
     start (files ''./test.h264'')
       (set_destination_addr ''172.19.0.222'' 7788 (set_clock_frequency 9000 p0))"

end
