(* ===== verification/H264SendRun.thy ===== *)
theory H264SendRun
  imports H264Send
begin

text \<open>
  What \<^verbatim>\<open>h264Send\<close> sends for a well-formed file: the packets of its NAL units in the format of
  RFC 6184, but for the last unit, which the parser never returns.
\<close>

section \<open>The parser\<close>

text \<open>Bytes without three zeros in a row and without a start code: what an encoder produces.\<close>

definition escaped :: "byte list \<Rightarrow> bool" where
  "escaped xs \<longleftrightarrow>
     (\<forall>i. i + 2 < length xs \<longrightarrow> \<not> (xs ! i = 0 \<and> xs ! (i + 1) = 0 \<and> (xs ! (i + 2) = 0 \<or> xs ! (i + 2) = 1)))"

definition encoded_nal :: "byte list \<Rightarrow> bool" where
  "encoded_nal nal \<longleftrightarrow> nal \<noteq> [] \<and> last nal \<noteq> 0 \<and> escaped nal \<and> length nal \<le> MAX_NAL_BUF_SIZE \<and>
     nal_f (hd nal) = 0 \<and> 1 \<le> nal_type (hd nal) \<and> nal_type (hd nal) \<le> 23"

lemma escaped_tl: "escaped (x # xs) \<Longrightarrow> escaped xs"
  unfolding escaped_def by (intro allI impI) (metis Suc_less_eq add_Suc length_Cons nth_Cons_Suc)

lemma escaped_append: "escaped (xs @ ys) \<Longrightarrow> escaped ys"
  by (induction xs) (auto dest: escaped_tl)

lemma escaped_two_zeros: "escaped (0 # 0 # x # xs) \<Longrightarrow> x \<noteq> 0 \<and> x \<noteq> 1"
  unfolding escaped_def by (drule spec [of _ 0]) auto

lemma put_byte_run: "length buff < MAX_NAL_BUF_SIZE \<Longrightarrow> put_byte b buff = Inr (buff @ [b])"
  by (simp add: put_byte_def)

lemma loop_zero:
  "flag \<le> 1 \<Longrightarrow> next_nalu_loop flag buff (0 # ds) = next_nalu_loop (Suc flag) buff ds"
  by (cases "flag = 0"; cases "flag = 1") (auto simp: numeral_2_eq_2)

lemma loop_byte:
  assumes "flag \<le> 1" "b \<noteq> 0" "length buff + flag < MAX_NAL_BUF_SIZE"
  shows "next_nalu_loop flag buff (b # ds) = next_nalu_loop 0 (buff @ replicate flag 0 @ [b]) ds"
proof -
  from assms(1) consider "flag = 0" | "flag = 1" by linarith
  then show ?thesis using assms(2,3) by cases (auto simp: put_byte_run)
qed

lemma loop_two:
  assumes "b \<noteq> 0" "b \<noteq> 1" "length buff + 2 < MAX_NAL_BUF_SIZE"
  shows "next_nalu_loop 2 buff (b # ds) = next_nalu_loop 0 (buff @ [0, 0, b]) ds"
  using assms by (simp add: put_byte_run)

lemma next_nalu_code:
  assumes "buff \<noteq> []"
  shows "next_nalu_loop 0 buff (start_code long @ rest) = Inr (Some (new_H264NalPacket buff), rest)"
  using assms by (simp add: start_code_def)

text \<open>A unit is read up to the next start code, with up to two zeros held back.\<close>

lemma next_nalu_unit:
  assumes "flag \<le> 2" "escaped (replicate flag 0 @ xs)" "flag = 0 \<or> xs \<noteq> []" "xs \<noteq> [] \<longrightarrow> last xs \<noteq> 0"
    "buff @ replicate flag 0 @ xs \<noteq> []" "length buff + flag + length xs \<le> MAX_NAL_BUF_SIZE"
  shows "next_nalu_loop flag buff (xs @ start_code long @ rest) =
    Inr (Some (new_H264NalPacket (buff @ replicate flag 0 @ xs)), rest)"
  using assms
proof (induction xs arbitrary: flag buff)
  case Nil
  then show ?case by (simp add: next_nalu_code)
next
  case (Cons b xs)
  have last: "xs \<noteq> [] \<longrightarrow> last xs \<noteq> 0" using Cons.prems(4) by auto
  have "flag = 0 \<or> flag = 1 \<or> flag = 2" using Cons.prems(1) by linarith
  then consider "b = 0" "flag \<le> 1" | "b \<noteq> 0" "flag \<le> 1" | "flag = 2" by auto
  then show ?case
  proof cases
    case 1
    then have ne: "xs \<noteq> []" using Cons.prems(4) by auto
    have z: "replicate (Suc flag) 0 @ xs = replicate flag 0 @ b # xs"
      using 1 by (simp add: replicate_append_same)
    have "next_nalu_loop (Suc flag) buff (xs @ start_code long @ rest) =
        Inr (Some (new_H264NalPacket (buff @ replicate (Suc flag) 0 @ xs)), rest)"
    proof (rule Cons.IH)
      show "escaped (replicate (Suc flag) 0 @ xs)" using Cons.prems(2) by (simp only: z)
    qed (use 1 ne last Cons.prems in auto)
    moreover have "next_nalu_loop flag buff ((b # xs) @ start_code long @ rest) =
        next_nalu_loop (Suc flag) buff (xs @ start_code long @ rest)"
      using loop_zero [OF 1(2)] 1(1) by simp
    ultimately show ?thesis by (simp only: z)
  next
    case 2
    have e: "escaped xs" using escaped_append [of "replicate flag 0 @ [b]" xs] Cons.prems(2) by simp
    have "next_nalu_loop 0 (buff @ replicate flag 0 @ [b]) (xs @ start_code long @ rest) =
        Inr (Some (new_H264NalPacket ((buff @ replicate flag 0 @ [b]) @ replicate 0 0 @ xs)), rest)"
      by (rule Cons.IH) (use e last Cons.prems in auto)
    moreover have "next_nalu_loop flag buff ((b # xs) @ start_code long @ rest) =
        next_nalu_loop 0 (buff @ replicate flag 0 @ [b]) (xs @ start_code long @ rest)"
      using loop_byte [OF 2(2,1)] Cons.prems(6) by simp
    ultimately show ?thesis by simp
  next
    case 3
    then have b: "b \<noteq> 0" "b \<noteq> 1" and e: "escaped xs"
      using Cons.prems(2) escaped_two_zeros [of b xs] by (auto simp: numeral_2_eq_2 dest!: escaped_tl)
    have "next_nalu_loop 0 (buff @ [0, 0, b]) (xs @ start_code long @ rest) =
        Inr (Some (new_H264NalPacket ((buff @ [0, 0, b]) @ replicate 0 0 @ xs)), rest)"
      by (rule Cons.IH) (use e last Cons.prems 3 in auto)
    moreover have "next_nalu_loop flag buff ((b # xs) @ start_code long @ rest) =
        next_nalu_loop 0 (buff @ [0, 0, b]) (xs @ start_code long @ rest)"
      using loop_two [OF b] 3 Cons.prems(6) by simp
    ultimately show ?thesis using 3 by (simp add: numeral_2_eq_2)
  qed
qed

text \<open>The start code at the beginning of the file, and the end of the file.\<close>

lemma next_nalu_first: "next_nalu_loop 0 [] (start_code long @ rest) = next_nalu_loop 0 [] rest"
  by (simp add: start_code_def)

lemma next_nalu_next:
  assumes "encoded_nal nal"
  shows "next_nalu (nal @ start_code long @ rest) = Inr (Some (new_H264NalPacket nal), rest)"
  using next_nalu_unit [of 0 nal "[]" long rest] assms by (simp add: next_nalu_def encoded_nal_def)

lemma next_nalu_end:
  assumes "escaped (replicate flag 0 @ xs)" "flag \<le> 2" "length buff + flag + length xs \<le> MAX_NAL_BUF_SIZE"
  shows "next_nalu_loop flag buff xs = Inr (None, [])"
  using assms
proof (induction xs arbitrary: flag buff)
  case (Cons b xs)
  have "flag = 0 \<or> flag = 1 \<or> flag = 2" using Cons.prems(2) by linarith
  then consider "b = 0" "flag \<le> 1" | "b \<noteq> 0" "flag \<le> 1" | "flag = 2" by auto
  then show ?case
  proof cases
    case 1
    have z: "replicate (Suc flag) 0 @ xs = replicate flag 0 @ b # xs"
      using 1 by (simp add: replicate_append_same)
    have "next_nalu_loop (Suc flag) buff xs = Inr (None, [])"
    proof (rule Cons.IH)
      show "escaped (replicate (Suc flag) 0 @ xs)" using Cons.prems(1) by (simp only: z)
    qed (use 1 Cons.prems in auto)
    then show ?thesis using loop_zero [OF 1(2)] 1(1) by simp
  next
    case 2
    have e: "escaped xs" using escaped_append [of "replicate flag 0 @ [b]" xs] Cons.prems(1) by simp
    have "next_nalu_loop 0 (buff @ replicate flag 0 @ [b]) xs = Inr (None, [])"
      by (rule Cons.IH) (use e Cons.prems in auto)
    then show ?thesis using loop_byte [OF 2(2,1)] Cons.prems(3) by simp
  next
    case 3
    then have b: "b \<noteq> 0" "b \<noteq> 1" and e: "escaped xs"
      using Cons.prems(1) escaped_two_zeros [of b xs] by (auto simp: numeral_2_eq_2 dest!: escaped_tl)
    have "next_nalu_loop 0 (buff @ [0, 0, b]) xs = Inr (None, [])"
      by (rule Cons.IH) (use e Cons.prems 3 in auto)
    then show ?thesis using loop_two [OF b] 3 Cons.prems(3) by simp
  qed
qed simp

section \<open>Packets\<close>

definition sent_to :: "H264RtpPacketizer \<Rightarrow> byte list list \<Rightarrow> (string \<times> u16 \<times> byte list) list" where
  "sent_to p ds = map (\<lambda>d. (m_destaddr p, m_destport p, d)) ds"

text \<open>The header of the next packet.\<close>

definition next_header :: "byte \<Rightarrow> H264RtpPacketizer \<Rightarrow> byte list" where
  "next_header mb p = rtp_package_bytes
     \<lparr>rp_csrc_len = 0, rp_extension = 0, rp_padding = 0, rp_version = 2, rp_payload_type = H264_PT,
      rp_marker = mb, rp_seq_no = m_seq_num p + 1, rp_timestamp = m_timestamp p, rp_ssrc = m_ssrc p\<rparr>"

text \<open>The packetizer after it has sent some packets.\<close>

definition packets_sent :: "byte list list \<Rightarrow> H264RtpPacketizer \<Rightarrow> H264RtpPacketizer" where
  "packets_sent ps p =
     p\<lparr>m_seq_num := m_seq_num p + of_nat (length ps), m_sent := m_sent p @ sent_to p ps\<rparr>"

lemma sent_to_append: "sent_to p (ps @ qs) = sent_to p ps @ sent_to p qs"
  by (simp add: sent_to_def)

lemma packets_sent_append: "packets_sent qs (packets_sent ps p) = packets_sent (ps @ qs) p"
  by (simp add: packets_sent_def sent_to_def add.assoc)

lemma packets_sent_simps [simp]:
  "packets_sent [] p = p" "nalu_hdr_set (packets_sent ps p) = nalu_hdr_set p"
  "m_sent (packets_sent ps p) = m_sent p @ sent_to p ps"
  by (simp_all add: packets_sent_def sent_to_def)

lemma length_rtp_package_bytes [simp]: "length (rtp_package_bytes h) = 12"
  by (simp add: rtp_package_bytes_def)

lemma length_next_header [simp]: "length (next_header m p) = 12"
  by (simp add: next_header_def)

lemma put_rtp_hdr_run:
  "put_rtp_hdr m p = Inr (next_header m p @ replicate 1488 0, p\<lparr>m_seq_num := m_seq_num p + 1\<rparr>)"
  by (simp add: put_rtp_hdr_def next_header_def SEND_BUFF_SIZE_def overlay_def)

text \<open>The header byte of a unit is put together again from its fields.\<close>

lemma nalu_header_t_byte:
  "nalu_header_t (f_field b) (nri_field b) (type_field b) = b"
  by (rule byte_eqI) (simp_all add: nalu_header_t_def f_field_def nri_field_def type_field_def byte_bits)

lemma fu_indicator_byte:
  assumes "nal_f b = 0"
  shows "nalu_header_t (f_field b) (nri_field b) 28 = 28 OR nal_nri b"
proof -
  have "\<not> bit (nal_f b) 7" using assms by simp
  then have "\<not> bit b 7" by (simp add: nal_f_def byte_bits)
  then show ?thesis by (intro byte_eqI) (simp_all add: nalu_header_t_def f_field_def nri_field_def nal_nri_def byte_bits)
qed

lemma fu_header_byte_of_type:
  "fu_header_t 1 0 0 (type_field b) = nal_type b OR 0x80"
  "fu_header_t 0 e 0 (type_field b) AND 0x80 = 0"
  by (rule byte_eqI; simp add: fu_header_t_def type_field_def nal_type_def byte_bits)+

lemma copy_run:
  assumes "length hdr + length d \<le> 1500" "j + length d \<le> length src" "take (length d) (drop j src) = d"
    "length buff = 1500" "take (length hdr) buff = hdr"
  shows "\<exists>r. copy_payload buff (length hdr) src j (length d) = Inr (hdr @ d @ r)"
  using assms by (simp add: copy_payload_def overlay_def)

lemma send_run: "send (d @ r) (length d) p = Inr (p\<lparr>m_sent := m_sent p @ sent_to p [d]\<rparr>)"
  by (simp add: send_def writeDatagram_def sent_to_def)

lemma send_single_nal_run:
  assumes "nal \<noteq> []" "length nal \<le> 1400"
  shows "send_single_nal (nal @ [0]) (length nal) p =
    Inr ((packets_sent [next_header 0 p @ nal] p)\<lparr>nalu_hdr_set := True\<rparr>)"
proof -
  obtain b xs where nal: "nal = b # xs" using assms(1) by (cases nal) auto
  let ?h = "next_header 0 p @ [b]"
  obtain r where c: "copy_payload (?h @ replicate 1487 0) 13 (nal @ [0]) 1 (length xs) = Inr (?h @ xs @ r)"
    using copy_run [of ?h xs 1 "nal @ [0]" "?h @ replicate 1487 0"] assms(2) by (auto simp: nal)
  have w: "wr (next_header 0 p @ replicate 1488 0) 12 b = Inr (?h @ replicate 1487 0)"
    by (simp add: list_update_append1 list_update_append numeral_eq_Suc del: replicate.simps)
       (simp add: replicate_Suc)
  have s: "send (?h @ xs @ r) (12 + length nal) q = Inr (q\<lparr>m_sent := m_sent q @ sent_to q [next_header 0 p @ nal]\<rparr>)" for q
    using send_run [of "next_header 0 p @ nal" r q] by (simp add: nal)
  show ?thesis
    using c w s by (simp add: send_single_nal_def put_rtp_hdr_run nalu_header_t_byte nal packets_sent_def sent_to_def)
qed

lemma fu_packet_run:
  assumes "nalu_hdr_set p" "nal \<noteq> []" "length d \<le> 1400" "j + length d \<le> length nal"
    "take (length d) (drop j nal) = d" "nal_f (hd nal) = 0"
  shows "bind_res (put_rtp_hdr m p) (\<lambda>(buff, p).
     bind_res (put_fu_hdr s e (nal @ [0]) buff p) (\<lambda>buff.
     bind_res (copy_payload buff 14 (nal @ [0]) j (length d)) (\<lambda>buff.
     send buff (14 + length d) p))) =
   Inr (packets_sent [next_header m p @ (28 OR nal_nri (hd nal)) #
     fu_header_t s e 0 (type_field (hd nal)) # d] p)"
proof -
  let ?ind = "28 OR nal_nri (hd nal)" and ?fuh = "fu_header_t s e 0 (type_field (hd nal))"
  let ?h = "next_header m p @ [?ind, ?fuh]"
  have b: "rd (nal @ [0]) 0 = Inr (hd nal)" using assms(2) by (cases nal) auto
  have w: "wr (next_header m p @ replicate 1488 0) 12 ?ind = Inr (next_header m p @ ?ind # replicate 1487 0)"
    by (simp add: list_update_append numeral_eq_Suc del: replicate.simps) (simp add: replicate_Suc)
  have w2: "wr (next_header m p @ ?ind # replicate 1487 0) 13 ?fuh = Inr (?h @ replicate 1486 0)"
    by (simp add: list_update_append numeral_eq_Suc del: replicate.simps) (simp add: replicate_Suc)
  have f: "put_fu_hdr s e (nal @ [0]) (next_header m p @ replicate 1488 0) q = Inr (?h @ replicate 1486 0)"
    if "nalu_hdr_set q" for q
    unfolding put_fu_hdr_def b fu_indicator_byte [OF assms(6)] bind_res_Inr w w2 using that by simp
  obtain r where c: "copy_payload (?h @ replicate 1486 0) 14 (nal @ [0]) j (length d) = Inr (?h @ d @ r)"
    using copy_run [of ?h d j "nal @ [0]" "?h @ replicate 1486 0"] assms(3-5) by auto
  have s: "send (?h @ d @ r) (14 + length d) q =
      Inr (q\<lparr>m_sent := m_sent q @ sent_to q [?h @ d]\<rparr>)" for q
    using send_run [of "?h @ d" r q] by simp
  have "nalu_hdr_set (p\<lparr>m_seq_num := m_seq_num p + 1\<rparr>)" using assms(1) by simp
  note f = f [OF this]
  show ?thesis
    unfolding put_rtp_hdr_run bind_res_Inr prod.case f c s
    by (simp add: packets_sent_def sent_to_def)
qed

text \<open>The fragments behind the first one.\<close>

lemma fu_pack_loop_rest:
  assumes "nalu_hdr_set p" "nal \<noteq> []" "nal_f (hd nal) = 0" "1 \<le> k" "k < n" "1 \<le> l" "l \<le> 1400"
    "length nal = 1400 * (n - 1) + l"
  shows "\<exists>ps. fu_pack_loop (nal @ [0]) n l k p = Inr (packets_sent ps p) \<and>
    fu_cont_pkts 1414 ps (drop (1400 * k) nal)"
  using assms
proof (induction "n - k" arbitrary: k p)
  case (Suc j)
  let ?ind = "28 OR nal_nri (hd nal)" and ?type = "type_field (hd nal)"
  have len: "length nal = 1400 * (n - 1) + l" and kn: "k < n" using Suc.prems by blast+
  show ?case
  proof (cases "k < n - 1")
    case True
    let ?d = "take 1400 (drop (1400 * k) nal)"
    have "1400 * k + 1400 \<le> 1400 * (n - 1)" using True by (metis Suc_leI mult_Suc_right mult_le_mono2 add.commute)
    then have d: "length ?d = 1400" using len by simp
    let ?pk = "next_header 0 p @ ?ind # fu_header_t 0 0 0 ?type # ?d"
    have "send_fu_middle (nal @ [0]) k p = Inr (packets_sent [?pk] p)"
      using fu_packet_run [of p nal ?d "1400 * k" 0 0 0] Suc.prems(1-3) d len
      by (simp add: send_fu_middle_def RTP_PAYLOAD_MAX_SIZE_def)
    then have loop: "fu_pack_loop (nal @ [0]) n l k p = fu_pack_loop (nal @ [0]) n l (k + 1) (packets_sent [?pk] p)"
      using Suc.prems(4) True kn by (subst fu_pack_loop.simps) simp
    have j: "j = n - (k + 1)" and k1: "k + 1 < n" using Suc.hyps(2) True by auto
    obtain ps where ps: "fu_pack_loop (nal @ [0]) n l (k + 1) (packets_sent [?pk] p) =
        Inr (packets_sent ps (packets_sent [?pk] p))" "fu_cont_pkts 1414 ps (drop (1400 * (k + 1)) nal)"
      using Suc.hyps(1) [OF j _ Suc.prems(2,3) _ k1 Suc.prems(6-8), of "packets_sent [?pk] p"]
        Suc.prems(1) by auto
    have "drop (1400 * (k + 1)) nal = drop 1400 (drop (1400 * k) nal)" by simp
    then have "drop (1400 * k) nal = ?d @ drop (1400 * (k + 1)) nal" by (simp only: append_take_drop_id)
    moreover have "fu_cont_pkts 1414 (?pk # ps) (?d @ drop (1400 * (k + 1)) nal)"
      using d by (intro fc_Cons ps) (simp_all add: fu_header_byte_of_type)
    ultimately show ?thesis
      using ps(1) loop by (auto simp: packets_sent_append)
  next
    case False
    then have k: "k = n - 1" using kn by simp
    let ?d = "drop (1400 * k) nal"
    have d: "length ?d = l" using len k by simp
    let ?pk = "next_header 1 p @ ?ind # fu_header_t 0 1 0 ?type # ?d"
    have "send_fu_last (nal @ [0]) k l p = Inr (packets_sent [?pk] p)"
      using fu_packet_run [of p nal ?d "1400 * k" 1 0 1] Suc.prems(1-3,7) d len k
      by (simp add: send_fu_last_def RTP_PAYLOAD_MAX_SIZE_def)
    then have loop: "fu_pack_loop (nal @ [0]) n l k p = fu_pack_loop (nal @ [0]) n l (k + 1) (packets_sent [?pk] p)"
      using Suc.prems(4) False kn by (subst fu_pack_loop.simps) simp
    have "fu_pack_loop (nal @ [0]) n l (k + 1) (packets_sent [?pk] p) = Inr (packets_sent [?pk] p)"
      using k kn by (subst fu_pack_loop.simps) simp
    moreover have "fu_cont_pkts 1414 [?pk] (?d @ [])"
      using d Suc.prems(7) by (intro fc_Cons fc_Nil) (simp_all add: fu_header_byte_of_type)
    ultimately show ?thesis using loop by auto
  qed
qed simp

lemma nal_rebuilt:
  assumes "nal \<noteq> []" "nal_f (hd nal) = 0"
  shows "fu_nal_header (28 OR nal_nri (hd nal)) (nal_type (hd nal) OR 0x80) # tl nal = nal"
  using assms fu_nal_header_of by (cases nal) auto

lemma pack_num:
  fixes L :: nat
  assumes "1400 < L" "n = (if L mod 1400 \<noteq> 0 then L div 1400 + 1 else L div 1400)"
    "l = (if L mod 1400 \<noteq> 0 then L mod 1400 else 1400)"
  shows "2 \<le> n" "1 \<le> l" "l \<le> 1400" "L = 1400 * (n - 1) + l"
proof -
  have "L = 1400 * (L div 1400) + L mod 1400" "L mod 1400 < 1400" by simp_all
  then show "2 \<le> n" "1 \<le> l" "l \<le> 1400" "L = 1400 * (n - 1) + l"
    using assms by (auto split: if_splits)
qed

text \<open>A unit of more than 1400 bytes.\<close>

lemma send_fragments_of:
  assumes "nalu_hdr_set p" "1400 < length nal" "nal_f (hd nal) = 0"
    "n = (if length nal mod 1400 \<noteq> 0 then length nal div 1400 + 1 else length nal div 1400)"
    "l = (if length nal mod 1400 \<noteq> 0 then length nal mod 1400 else 1400)"
  shows "\<exists>ps. fu_pack_loop (nal @ [0]) n l 0 p = Inr (packets_sent ps p) \<and> nal_pkts 1414 ps nal"
proof -
  note n = pack_num [OF assms(2,4,5)]
  have ne: "nal \<noteq> []" using assms(2) by auto
  let ?ind = "28 OR nal_nri (hd nal)" and ?fuh = "fu_header_t 1 0 0 (type_field (hd nal))"
  let ?d = "take 1399 (drop 1 nal)"
  let ?pk = "next_header 0 p @ ?ind # ?fuh # ?d"
  have d: "length ?d = 1399" using assms(2) by simp
  have "send_fu_first (nal @ [0]) p = Inr (packets_sent [?pk] p)"
    using fu_packet_run [of p nal ?d 1 0 1 0] assms(1-3) ne d
    by (simp add: send_fu_first_def RTP_PAYLOAD_MAX_SIZE_def)
  then have loop: "fu_pack_loop (nal @ [0]) n l 0 p = fu_pack_loop (nal @ [0]) n l 1 (packets_sent [?pk] p)"
    using n(1) by (subst fu_pack_loop.simps) simp
  obtain ps where ps: "fu_pack_loop (nal @ [0]) n l 1 (packets_sent [?pk] p) =
      Inr (packets_sent ps (packets_sent [?pk] p))" "fu_cont_pkts 1414 ps (drop (1400 * 1) nal)"
    using fu_pack_loop_rest [of "packets_sent [?pk] p" nal 1 n l] assms(1,3) ne n by auto
  have "fu_pkts 1414 (?pk # ps) (fu_nal_header ?ind ?fuh # ?d @ drop (1400 * 1) nal)"
    using d by (intro fu_start ps) (simp_all add: fu_header_byte_of_type fu_header_bits)
  moreover have "tl nal = ?d @ drop (1400 * 1) nal"
    using ne by (cases nal) (simp_all add: drop_Cons')
  ultimately have "fu_pkts 1414 (?pk # ps) nal"
    using nal_rebuilt [OF ne assms(3)] by (simp add: fu_header_byte_of_type)
  then show ?thesis using ps(1) loop np_fu by (auto simp: packets_sent_append)
qed

text \<open>The time stamp advances before each unit.\<close>

definition next_tick :: "H264RtpPacketizer \<Rightarrow> H264RtpPacketizer" where
  "next_tick p = p\<lparr>m_timestamp := m_timestamp p + ucast (m_clock p div frameRate)\<rparr>"

lemma next_tick_simps [simp]:
  "nalu_hdr_set (next_tick p) = nalu_hdr_set p" "m_sent (next_tick p) = m_sent p" "sent_to (next_tick p) ps = sent_to p ps"
  by (simp_all add: next_tick_def sent_to_def)

lemma send_nalu_run:
  assumes "encoded_nal nal" "length nal \<le> 1400 \<or> nalu_hdr_set p"
  shows "\<exists>ps q. send_nalu (new_H264NalPacket nal) p = Inr q \<and> nal_pkts 1414 ps nal \<and> nalu_hdr_set q \<and>
    m_sent q = m_sent p @ sent_to p ps \<and> (\<forall>qs. sent_to q qs = sent_to p qs)"
proof (cases "length nal \<le> 1400")
  case True
  have nal: "nal \<noteq> []" "1 \<le> nal_type (hd nal)" "nal_type (hd nal) \<le> 23" using assms(1) by (auto simp: encoded_nal_def)
  let ?pk = "next_header 0 (next_tick p) @ nal"
  have "send_nalu (new_H264NalPacket nal) p = Inr ((packets_sent [?pk] (next_tick p))\<lparr>nalu_hdr_set := True\<rparr>)"
    using send_single_nal_run [OF nal(1) True, of "next_tick p"] True nal(1)
    by (simp add: send_nalu_def new_H264NalPacket_def next_tick_def RTP_PAYLOAD_MAX_SIZE_def Suc_le_eq)
  moreover have "nal_pkts 1414 [?pk] nal" by (rule np_single) (use nal True in auto)
  ultimately show ?thesis
    by (intro exI [of _ "[?pk]"]) (auto simp: packets_sent_def sent_to_def next_tick_def)
next
  case False
  then have nal: "1400 < length nal" "nal_f (hd nal) = 0" "nalu_hdr_set (next_tick p)"
    using assms by (auto simp: encoded_nal_def)
  obtain ps where ps: "fu_pack_loop (nal @ [0])
      (if length nal mod 1400 \<noteq> 0 then length nal div 1400 + 1 else length nal div 1400)
      (if length nal mod 1400 \<noteq> 0 then length nal mod 1400 else 1400) 0 (next_tick p) =
      Inr (packets_sent ps (next_tick p))" "nal_pkts 1414 ps nal"
    using send_fragments_of [OF nal(3,1,2) refl refl] by blast
  have "send_nalu (new_H264NalPacket nal) p = Inr (packets_sent ps (next_tick p))"
    unfolding send_nalu_def new_H264NalPacket_def Let_def H264NalPacket.simps RTP_PAYLOAD_MAX_SIZE_def
    using nal(1) ps(1) by (cases nal) (simp_all add: next_tick_def)
  then show ?thesis
    using ps(2) nal(3) by (intro exI [of _ ps]) (auto simp: packets_sent_def sent_to_def next_tick_def)
qed

section \<open>Whole files\<close>

lemma start_loop_code: "start_loop (start_code long @ ds) p = start_loop ds p"
  by (subst (1 2) start_loop.simps) (simp add: next_nalu_def next_nalu_first)

lemma start_loop_stream:
  assumes "list_all encoded_nal (nal # map snd xs)" "length nal \<le> 1400 \<or> nalu_hdr_set p"
  shows "\<exists>ps q. start_loop (nal @ annexb xs) p = Inr q \<and> m_sent q = m_sent p @ sent_to p ps \<and>
    stream_pkts 1414 ps (butlast (nal # map snd xs))"
  using assms
proof (induction xs arbitrary: nal p)
  case Nil
  then have "next_nalu nal = Inr (None, [])"
    using next_nalu_end [of 0 nal "[]"] by (simp add: next_nalu_def encoded_nal_def)
  then show ?case
    by (intro exI [of _ "[]"]) (simp add: start_loop.simps [of nal] sent_to_def sp_Nil)
next
  case (Cons x xs)
  obtain long nal2 where x: "x = (long, nal2)" by (cases x)
  have nal: "encoded_nal nal" and rest: "list_all encoded_nal (nal2 # map snd xs)"
    using Cons.prems(1) by (auto simp: x)
  obtain ps1 q1 where 1: "send_nalu (new_H264NalPacket nal) p = Inr q1" "nal_pkts 1414 ps1 nal"
      "nalu_hdr_set q1" "m_sent q1 = m_sent p @ sent_to p ps1" "\<forall>qs. sent_to q1 qs = sent_to p qs"
    using send_nalu_run [OF nal Cons.prems(2)] by blast
  obtain ps2 q2 where 2: "start_loop (nal2 @ annexb xs) q1 = Inr q2" "m_sent q2 = m_sent q1 @ sent_to q1 ps2"
      "stream_pkts 1414 ps2 (butlast (nal2 # map snd xs))"
    using Cons.IH [OF rest] 1(3) by blast
  have "next_nalu (nal @ annexb (x # xs)) = Inr (Some (new_H264NalPacket nal), nal2 @ annexb xs)"
    using next_nalu_next [OF nal, of long "nal2 @ annexb xs"] by (simp add: x)
  then have "start_loop (nal @ annexb (x # xs)) p = Inr q2"
    using 1(1) 2(1) by (simp add: start_loop.simps [of "nal @ annexb (x # xs)"])
  moreover have "m_sent q2 = m_sent p @ sent_to p (ps1 @ ps2)"
    using 1(4,5) 2(2) by (simp add: sent_to_append)
  moreover have "stream_pkts 1414 (ps1 @ ps2) (butlast (nal # map snd (x # xs)))"
    using sp_Cons [OF 1(2) 2(3)] by (simp add: x)
  ultimately show ?case by blast
qed

lemma h264send_stream:
  assumes "xs \<noteq> []" "list_all (encoded_nal \<circ> snd) xs" "length (snd (hd xs)) \<le> 1400"
  shows "\<exists>ps q. start (Some (annexb xs)) p = Inr q \<and> m_sent q = m_sent p @ sent_to p ps \<and>
    stream_pkts 1414 ps (butlast (map snd xs))"
proof -
  obtain long nal ys where xs: "xs = (long, nal) # ys" using assms(1) by (cases xs) auto
  have "start (Some (annexb xs)) p = start_loop (nal @ annexb ys) (p\<lparr>nalu_hdr_set := False\<rparr>)"
    using start_loop_code [of long "nal @ annexb ys"] by (simp add: start_def xs)
  moreover have "sent_to (p\<lparr>nalu_hdr_set := False\<rparr>) ps = sent_to p ps" for ps by (simp add: sent_to_def)
  ultimately show ?thesis
    using start_loop_stream [of nal ys "p\<lparr>nalu_hdr_set := False\<rparr>"] assms(2,3)
    by (auto simp: xs comp_def list.pred_map)
qed

section \<open>Properties\<close>

lemma send_first_long:
  assumes "1400 < length nal" "\<not> nalu_hdr_set p"
  shows "send_nalu (new_H264NalPacket nal) p = Inl Null_Deref"
proof -
  have "send_fu_first (nal @ [0]) q = Inl Null_Deref" if "\<not> nalu_hdr_set q" for q
  proof -
    have "rd (nal @ [0]) 0 = Inr (hd nal)" using assms(1) by (cases nal) auto
    with that show ?thesis by (simp add: send_fu_first_def put_rtp_hdr_run put_fu_hdr_def)
  qed
  moreover have "0 < length nal div 1400" using assms(1) by (simp add: div_greater_zero_iff)
  ultimately show ?thesis
    using assms
    by (simp add: send_nalu_def new_H264NalPacket_def RTP_PAYLOAD_MAX_SIZE_def Let_def fu_pack_loop.simps [of _ _ _ 0])
      auto
qed

text \<open>
  C33: When the first NAL unit of a file (of at most 150000 bytes, with emulation prevention) is
  longer than 1400 bytes and another unit follows it, the packetizer writes the first fragment's
  indicator through a pointer that has not been set, for it is set only when a unit is sent in a
  single packet.  If the file holds that unit alone, the program ends without having sent anything.
\<close>

theorem h264send_first_long:
  assumes "encoded_nal nal" "1400 < length nal"
  shows "start (Some (annexb ((long, nal) # xs))) p =
    (if xs = [] then Inr (p\<lparr>nalu_hdr_set := False\<rparr>) else Inl Null_Deref)"
proof -
  let ?p = "p\<lparr>nalu_hdr_set := False\<rparr>"
  have start: "start (Some (annexb ((long, nal) # xs))) p = start_loop (nal @ annexb xs) ?p"
    using start_loop_code [of long "nal @ annexb xs"] by (simp add: start_def)
  show ?thesis
  proof (cases xs)
    case Nil
    have "next_nalu nal = Inr (None, [])"
      using next_nalu_end [of 0 nal "[]"] assms(1) by (simp add: next_nalu_def encoded_nal_def)
    then show ?thesis using start Nil by (simp add: start_loop.simps [of nal])
  next
    case (Cons x ys)
    obtain long2 nal2 where x: "x = (long2, nal2)" by (cases x)
    have "next_nalu (nal @ annexb xs) = Inr (Some (new_H264NalPacket nal), nal2 @ annexb ys)"
      using next_nalu_next [OF assms(1), of long2 "nal2 @ annexb ys"] by (simp add: Cons x)
    then show ?thesis
      using start Cons send_first_long [OF assms(2), of ?p] by (simp add: start_loop.simps [of "nal @ annexb (x # ys)"])
  qed
qed

text \<open>
  A unit without zero bytes that is longer than 150000 bytes is written past the end of the
  buffer of the parser.
\<close>

lemma put_run_overflow:
  assumes "0 \<notin> set xs" "MAX_NAL_BUF_SIZE < length buff + length xs" "length buff \<le> MAX_NAL_BUF_SIZE"
  shows "next_nalu_loop 0 buff (xs @ rest) = Inl Write_Overflow"
  using assms
proof (induction xs arbitrary: buff)
  case (Cons b xs)
  then show ?case
    by (cases "length buff < MAX_NAL_BUF_SIZE") (auto simp: put_byte_def)
qed simp

definition sample_packetizer :: H264RtpPacketizer where
  "sample_packetizer = \<lparr>m_seq_num = 0xFFFF, m_ssrc = 1, m_timestamp = 0, m_clock = 9000, m_destport = 7788,
     m_destaddr = ''127.0.0.1'', nalu_hdr_set = False, m_sent = []\<rparr>"

lemma escaped_no_zero: "0 \<notin> set xs \<Longrightarrow> escaped xs"
  unfolding escaped_def by (metis add_lessD1 nth_mem)

theorem h264send_first_long_witness:
  "start (Some (annexb [(True, 0x65 # replicate 1500 7), (False, [0x41, 9])])) sample_packetizer = Inl Null_Deref \<and>
   start (Some (annexb [(True, 0x65 # replicate 1500 7)])) sample_packetizer = Inr sample_packetizer"
proof -
  have "encoded_nal (0x65 # replicate 1500 7)"
    by (simp add: encoded_nal_def escaped_no_zero MAX_NAL_BUF_SIZE_def nal_f_def nal_type_def)
  from h264send_first_long [OF this, of True "[(False, [0x41, 9])]" sample_packetizer]
    h264send_first_long [OF this, of True "[]" sample_packetizer]
  show ?thesis by (simp add: sample_packetizer_def)
qed

end
