(* ===== verification/SendLink.thy ===== *)
theory SendLink
  imports H264SendRun PlayerRun UdpLink
begin

text \<open>
  Programs of different directories together: \<^verbatim>\<open>h264Send\<close> as the sender, the player of
  \<^verbatim>\<open>rtsp_client\<close> as the receiver.
\<close>

text \<open>The datagrams that have been sent.\<close>

definition datagrams :: "H264RtpPacketizer \<Rightarrow> byte list list" where
  "datagrams p = map (\<lambda>(addr, port, d). d) (m_sent p)"

lemma datagrams_sent: "m_sent q = m_sent p @ sent_to p ps \<Longrightarrow> datagrams q = datagrams p @ ps"
  by (simp add: datagrams_def sent_to_def comp_def)

text \<open>
  C8: From a file to a file: \<^verbatim>\<open>h264Send\<close> reads an Annex B file of NAL units of types 1 to 23 with
  forbidden bit 0, with emulation prevention (no two zero bytes before a third or before a 1) and
  not ending in a zero byte,
  of at most 150000 bytes each (the parser's buffer) and the first of at most 1400 (a longer first
  one ends the program), and sends it; a player with its file and its video
  socket that gets the datagrams in order writes all units
  but the last one, which the parser of the sender drops because no start code comes after it.
\<close>

theorem h264send_to_player:
  assumes "xs \<noteq> []" "list_all (encoded_nal \<circ> snd) xs" "length (snd (hd xs)) \<le> 1400"
    "m_sent p = []" "receiving c" "po_fopen os"
  shows "\<exists>q r. start (Some (annexb xs)) p = Inr q \<and>
    play_thread os (map video_event (datagrams q)) c = Inr r \<and>
    player_out r = player_out c @ annexb4 (butlast (map snd xs))"
proof -
  obtain ps q where q: "start (Some (annexb xs)) p = Inr q" "m_sent q = m_sent p @ sent_to p ps"
      "stream_pkts 1414 ps (butlast (map snd xs))"
    using h264send_stream [OF assms(1-3)] by blast
  have "stream_pkts RECV_SIZE ps (butlast (map snd xs))"
    using q(3) by (rule stream_pkts_mono) (simp add: RECV_SIZE_def)
  from player_decodes_stream [OF this assms(5,6)] obtain r where
      "play_thread os (map video_event ps) c = Inr r"
      "player_out r = player_out c @ annexb4 (butlast (map snd xs))"
    by blast
  then show ?thesis
    using q(1) datagrams_sent [OF q(2)] assms(4) by (auto simp: datagrams_def)
qed

theorem h264send_to_player_witness:
  "\<exists>q r. start (Some (annexb [(True, [0x67, 1]), (False, [0x65, 0, 0, 3]), (True, [0x41, 2])])) sample_packetizer =
      Inr q \<and>
    play_thread sample_player_os (map video_event (datagrams q)) (RtspPlayer_init\<lparr>pl_video_socket := 5\<rparr>) = Inr r \<and>
    player_out r = [0, 0, 0, 1, 0x67, 1, 0, 0, 0, 1, 0x65, 0, 0, 3]"
proof -
  have e: "escaped [0x65, 0, 0, 3]"
    unfolding escaped_def
  proof (intro allI impI)
    fix i :: nat assume "i + 2 < length [0x65, 0, 0, 3 :: byte]"
    then consider "i = 0" | "i = 1" by (cases "i = 0") auto
    then show "\<not> ([0x65, 0, 0, 3] ! i = (0 :: byte) \<and> [0x65, 0, 0, 3] ! (i + 1) = (0 :: byte) \<and>
        ([0x65, 0, 0, 3] ! (i + 2) = (0 :: byte) \<or> [0x65, 0, 0, 3] ! (i + 2) = (1 :: byte)))"
      by cases auto
  qed
  have "list_all (encoded_nal \<circ> snd) [(True, [0x67, 1]), (False, [0x65, 0, 0, 3]), (True, [0x41, 2])]"
    using e by (simp add: encoded_nal_def escaped_no_zero MAX_NAL_BUF_SIZE_def nal_f_def nal_type_def)
  then have "\<exists>q r. start (Some (annexb [(True, [0x67, 1]), (False, [0x65, 0, 0, 3]), (True, [0x41, 2])])) sample_packetizer =
      Inr q \<and>
    play_thread sample_player_os (map video_event (datagrams q)) (RtspPlayer_init\<lparr>pl_video_socket := 5\<rparr>) = Inr r \<and>
    player_out r = player_out (RtspPlayer_init\<lparr>pl_video_socket := 5\<rparr>) @
      annexb4 (butlast (map snd [(True, [0x67, 1]), (False, [0x65, 0, 0, 3]), (True, [0x41, 2 :: byte])]))"
    by (intro h264send_to_player)
       (simp_all add: sample_packetizer_def receiving_def RtspPlayer_init_def sample_player_os_def)
  then show ?thesis by (simp add: player_out_def RtspPlayer_init_def)
qed

end
