(* ===== verification/SendStream.thy ===== *)
theory SendStream
  imports H264SendRun SdpRoundtrip
begin

text \<open>
  The rest of \<^verbatim>\<open>h264Send\<close>: the random numbers that the packetizer is set up with, the class
  \<^verbatim>\<open>H264Stream\<close> around parser and packetizer, and the file helpers of \<^verbatim>\<open>InputFile.cpp\<close>.

  The program is the one for Unix: \<^verbatim>\<open>RTP_SUPPORT_RANDS\<close> is not defined.  Process number, time,
  processor time and the address of the object are parameters; \<^verbatim>\<open>srand\<close> is left out, since
  \<^verbatim>\<open>rand\<close> is not called.
\<close>

section \<open>Random numbers\<close>

definition PickSeed :: "u32 \<Rightarrow> u32 \<Rightarrow> u32 \<Rightarrow> u32 \<Rightarrow> u32" where
  "PickSeed pid now clk this =
     (let x = pid; x = x + now; x = x + clk; x = x XOR this in x)"

definition GetRandom8 :: byte where "GetRandom8 = 0"
definition GetRandom16 :: u16 where "GetRandom16 = 0"
definition GetRandom32 :: u32 where "GetRandom32 = 0"

text \<open>The constructor of the packetizer; the other fields keep what the memory held.\<close>

definition new_H264RtpPacketizer :: "H264RtpPacketizer \<Rightarrow> H264RtpPacketizer" where
  "new_H264RtpPacketizer junk =
     junk\<lparr>m_seq_num := GetRandom16, m_ssrc := GetRandom32, m_timestamp := GetRandom32, m_sent := []\<rparr>"

section \<open>\<^verbatim>\<open>H264Stream\<close>\<close>

record H264Stream =
  hs_packetizer :: H264RtpPacketizer
  hs_file :: "byte list option"

definition new_H264Stream :: "(string \<Rightarrow> byte list option) \<Rightarrow> string \<Rightarrow> H264RtpPacketizer \<Rightarrow> H264Stream" where
  "new_H264Stream files filename junk =
     \<lparr>hs_packetizer = new_H264RtpPacketizer junk, hs_file = files filename\<rparr>"

definition stream_H264Stream :: "H264Stream \<Rightarrow> H264Stream res" where
  "stream_H264Stream h =
     bind_res (start (hs_file h) (hs_packetizer h)) (\<lambda>p. Inr (h\<lparr>hs_packetizer := p\<rparr>))"

definition setDestinationAddress :: "string \<Rightarrow> u16 \<Rightarrow> H264Stream \<Rightarrow> H264Stream" where
  "setDestinationAddress addr port h =
     h\<lparr>hs_packetizer := set_destination_addr addr port (hs_packetizer h)\<rparr>"

definition setClockFrequency :: "int \<Rightarrow> H264Stream \<Rightarrow> H264Stream" where
  "setClockFrequency clk h =
     h\<lparr>hs_packetizer := set_clock_frequency (word_of_int clk) (hs_packetizer h)\<rparr>"

definition destinationPort :: "H264Stream \<Rightarrow> u16" where
  "destinationPort h = m_destport (hs_packetizer h)"

definition destinationAddr :: "H264Stream \<Rightarrow> string" where
  "destinationAddr h = m_destaddr (hs_packetizer h)"

text \<open>
  \<^verbatim>\<open>sessionDescription\<close>: the contents of \<^verbatim>\<open>H264SDP.sdp\<close>; if it cannot be opened, \<^verbatim>\<open>fprintf\<close> gets a
  null pointer.
\<close>

definition sessionDescription :: "bool \<Rightarrow> H264Stream \<Rightarrow> string res" where
  "sessionDescription fopen_ok h =
     (if \<not> fopen_ok then Inl Null_Deref
      else Inr (''m=video '' @ dec_nat (unat (destinationPort h)) @ '' RTP/AVP 96'' @ crlf @
        ''a=rtpmap:96 H264/90000'' @ crlf @ ''a=fmtp:96 packetization-mode=1'' @ crlf))"

section \<open>Files\<close>

text \<open>
  An open file: its bytes, the position, the end-of-file flag, and whether it can be positioned
  (a pipe cannot); \<^verbatim>\<open>stdin\<close> is told apart by a flag.
\<close>

record input_file =
  if_data :: "byte list"
  if_pos :: int
  if_eof :: bool
  if_seekable :: bool
  if_stdin :: bool
  if_closed :: bool

datatype whence = SEEK_SET | SEEK_CUR | SEEK_END

definition OpenInputFile :: "(string \<Rightarrow> input_file option) \<Rightarrow> string \<Rightarrow> input_file option" where
  "OpenInputFile files fileName = files fileName"

definition CloseInputFile :: "input_file option \<Rightarrow> input_file option" where
  "CloseInputFile fid =
     (case fid of None \<Rightarrow> None | Some f \<Rightarrow> Some (if if_stdin f then f else f\<lparr>if_closed := True\<rparr>))"

definition SeekFile64 :: "input_file option \<Rightarrow> int \<Rightarrow> whence \<Rightarrow> int \<times> input_file option" where
  "SeekFile64 fid offset wh =
     (case fid of
        None \<Rightarrow> (-1, None)
      | Some f \<Rightarrow>
          (let f = f\<lparr>if_eof := False\<rparr>;
               pos = (case wh of SEEK_SET \<Rightarrow> 0 | SEEK_CUR \<Rightarrow> if_pos f | SEEK_END \<Rightarrow> int (length (if_data f))) + offset
           in if \<not> if_seekable f \<or> pos < 0 then (-1, Some f) else (0, Some (f\<lparr>if_pos := pos\<rparr>))))"

definition TellFile64 :: "input_file option \<Rightarrow> int \<times> input_file option" where
  "TellFile64 fid =
     (case fid of
        None \<Rightarrow> (-1, None)
      | Some f \<Rightarrow>
          (let f = f\<lparr>if_eof := False\<rparr> in (if if_seekable f then if_pos f else -1, Some f)))"

text \<open>\<open>stat\<close> is the size that \<^verbatim>\<open>stat\<close> finds for a name.\<close>

definition GetFileSize ::
  "(string \<Rightarrow> u64 option) \<Rightarrow> string option \<Rightarrow> input_file option \<Rightarrow> u64 \<times> input_file option" where
  "GetFileSize stat fileName fid =
     (if (case fid of None \<Rightarrow> False | Some f \<Rightarrow> if_stdin f) then (0, fid)
      else
        (case fileName of
           None \<Rightarrow>
             (let (r, fid') = SeekFile64 fid 0 SEEK_END in
              if fid \<noteq> None \<and> r \<ge> 0 then
                (let (size, fid') = TellFile64 fid';
                     fileSize = (word_of_int size :: u64);
                     fileSize = (if fileSize = -1 then 0 else fileSize);
                     (_, fid') = SeekFile64 fid' 0 SEEK_SET
                 in (fileSize, fid'))
              else (0, fid'))
         | Some name \<Rightarrow> (case stat name of None \<Rightarrow> 0 | Some n \<Rightarrow> n, fid)))"

definition FileIsSeekable :: "input_file option \<Rightarrow> bool \<times> input_file option" where
  "FileIsSeekable fid =
     (let (r, fid) = SeekFile64 fid 1 SEEK_CUR in
      if r < 0 then (False, fid)
      else (let (_, fid) = SeekFile64 fid (-1) SEEK_CUR in (True, fid)))"

lemma FileIsSeekable_keeps_position:
  assumes "0 \<le> if_pos f"
  shows "FileIsSeekable (Some f) = (if_seekable f, Some (f\<lparr>if_eof := False\<rparr>))"
  using assms by (simp add: FileIsSeekable_def SeekFile64_def Let_def)

lemma GetFileSize_open_file:
  assumes "if_seekable f" "\<not> if_stdin f" "length (if_data f) < 2 ^ 63"
  shows "GetFileSize stat None (Some f) =
    (of_nat (length (if_data f)), Some (f\<lparr>if_eof := False, if_pos := 0\<rparr>))"
proof -
  have "of_nat (length (if_data f)) \<noteq> (-1 :: u64)"
  proof
    assume "of_nat (length (if_data f)) = (-1 :: u64)"
    then have "unat (of_nat (length (if_data f)) :: u64) = unat (-1 :: u64)" by simp
    then show False using assms(3)
      by (simp add: unsigned_of_nat take_bit_nat_eq_self unsigned_minus_1_eq_mask mask_eq_exp_minus_1)
  qed
  then show ?thesis using assms(1,2) by (simp add: GetFileSize_def SeekFile64_def TellFile64_def Let_def)
qed

section \<open>Every datagram\<close>

text \<open>The \<open>k\<close>-th datagram of a packetizer that began with the values of its constructor.\<close>

definition numbered_datagram :: "string \<Rightarrow> u16 \<Rightarrow> nat \<Rightarrow> string \<times> u16 \<times> byte list \<Rightarrow> bool" where
  "numbered_datagram addr port k x \<longleftrightarrow>
     (let (a, p, d) = x in
      a = addr \<and> p = port \<and> 13 \<le> length d \<and> length d \<le> 1414 \<and> d ! 0 = 0x80 \<and> d ! 1 AND 0x7F = 96 \<and>
      take 2 (drop 2 d) = be16 (of_nat (k + 1)) \<and> take 4 (drop 8 d) = be32 0)"

definition numbered :: "H264RtpPacketizer \<Rightarrow> bool" where
  "numbered p \<longleftrightarrow> m_ssrc p = 0 \<and> m_seq_num p = of_nat (length (m_sent p)) \<and>
     (\<forall>k < length (m_sent p). numbered_datagram (m_destaddr p) (m_destport p) k (m_sent p ! k))"

text \<open>What the steps leave alone.\<close>

definition same_target :: "H264RtpPacketizer \<Rightarrow> H264RtpPacketizer \<Rightarrow> bool" where
  "same_target p q \<longleftrightarrow> m_destaddr q = m_destaddr p \<and> m_destport q = m_destport p"

lemma same_target_trans: "same_target p q \<Longrightarrow> same_target q r \<Longrightarrow> same_target p r"
  by (simp add: same_target_def)

lemma header_bytes:
  assumes "take 12 d = next_header mb p" "m_ssrc p = 0" "mb \<in> {0, 1}" "12 < length d"
  shows "d ! 0 = 0x80" "d ! 1 AND 0x7F = 96" "take 2 (drop 2 d) = be16 (m_seq_num p + 1)"
    "take 4 (drop 8 d) = be32 0"
proof -
  obtain r where d: "d = next_header mb p @ r" by (metis append_take_drop_id assms(1))
  show "d ! 0 = 0x80" "d ! 1 AND 0x7F = 96" "take 2 (drop 2 d) = be16 (m_seq_num p + 1)"
    "take 4 (drop 8 d) = be32 0"
    using assms(2,3)
    by (auto simp: d next_header_def rtp_package_bytes_def H264_PT_def be16_def be32_def nth_append
        numeral_eq_Suc)
qed

lemma send_numbered:
  assumes "numbered p" "take 12 buff = next_header mb p" "mb \<in> {0, 1}" "12 < n" "n \<le> 1414"
    and "send buff n (p\<lparr>m_seq_num := m_seq_num p + 1, nalu_hdr_set := h\<rparr>) = Inr q"
  shows "numbered q \<and> same_target p q"
proof -
  let ?d = "take n buff"
  have n: "n \<le> length buff"
    using assms(6) by (auto simp: send_def bind_res_eq_Inr rd_block_eq_Inr)
  have q: "q = p\<lparr>m_seq_num := m_seq_num p + 1, nalu_hdr_set := h,
      m_sent := m_sent p @ [(m_destaddr p, m_destport p, ?d)]\<rparr>"
    using assms(6) by (auto simp: send_def bind_res_eq_Inr rd_block_eq_Inr writeDatagram_def)
  have "take 12 ?d = next_header mb p" using assms(2,4) by (simp add: min_def)
  from header_bytes [OF this _ assms(3)] have
      "numbered_datagram (m_destaddr p) (m_destport p) (length (m_sent p)) (m_destaddr p, m_destport p, ?d)"
    using assms(1,4,5) n by (simp add: numbered_datagram_def numbered_def add.commute)
  then show ?thesis
    using assms(1) by (auto simp: q numbered_def same_target_def nth_append less_Suc_eq)
qed

text \<open>A store behind the header keeps it.\<close>

lemma wr_header: "wr buff i x = Inr b \<Longrightarrow> 12 \<le> i \<Longrightarrow> take 12 b = take 12 buff"
  by (auto simp: wr_eq_Inr)

lemma copy_header: "copy_payload buff i src j n = Inr b \<Longrightarrow> 12 \<le> i \<Longrightarrow> take 12 b = take 12 buff"
  by (auto simp: copy_payload_def bind_res_eq_Inr wr_block_eq_Inr take_overlay_before)

lemma put_fu_hdr_header: "put_fu_hdr s e nal buff p = Inr b \<Longrightarrow> take 12 b = take 12 buff"
  by (auto simp: put_fu_hdr_def bind_res_eq_Inr wr_header split: if_splits)

lemma send_single_numbered:
  assumes "send_single_nal nal n p = Inr q" "numbered p" "0 < n" "n \<le> 1400"
  shows "numbered q \<and> same_target p q"
proof -
  let ?b0 = "next_header 0 p @ replicate 1488 0"
  obtain b1 b2 v j where b: "wr ?b0 12 v = Inr b1" "copy_payload b1 13 nal 1 j = Inr b2"
      "send b2 (12 + n) (p\<lparr>m_seq_num := m_seq_num p + 1, nalu_hdr_set := True\<rparr>) = Inr q"
    using assms(1) by (auto simp: send_single_nal_def put_rtp_hdr_run bind_res_eq_Inr)
  have "take 12 b2 = next_header 0 p" using wr_header [OF b(1)] copy_header [OF b(2)] by simp
  from send_numbered [OF assms(2) this _ _ _ b(3)] assms(3,4) show ?thesis by simp
qed

lemma fu_numbered:
  assumes "put_fu_hdr s e nal (next_header mb p @ replicate 1488 0) (p\<lparr>m_seq_num := m_seq_num p + 1\<rparr>) = Inr b1"
    "copy_payload b1 14 nal i j = Inr b2" "send b2 n (p\<lparr>m_seq_num := m_seq_num p + 1\<rparr>) = Inr q"
    "numbered p" "mb \<in> {0, 1}" "12 < n" "n \<le> 1414"
  shows "numbered q \<and> same_target p q"
proof -
  have "take 12 b2 = next_header mb p" using put_fu_hdr_header [OF assms(1)] copy_header [OF assms(2)] by simp
  from send_numbered [OF assms(4) this assms(5-7), of "nalu_hdr_set p" q] assms(3) show ?thesis by simp
qed

lemma send_fu_numbered:
  assumes "numbered p"
  shows "send_fu_first nal p = Inr q \<Longrightarrow> numbered q \<and> same_target p q"
    "send_fu_middle nal k p = Inr q \<Longrightarrow> numbered q \<and> same_target p q"
    "l \<le> 1400 \<Longrightarrow> send_fu_last nal k l p = Inr q \<Longrightarrow> numbered q \<and> same_target p q"
  using fu_numbered [OF _ _ _ assms]
  by (auto simp: send_fu_first_def send_fu_middle_def send_fu_last_def put_rtp_hdr_run bind_res_eq_Inr
      RTP_PAYLOAD_MAX_SIZE_def)

lemma fu_pack_loop_numbered:
  assumes "fu_pack_loop nal m l k p = Inr q" "numbered p" "l \<le> 1400"
  shows "numbered q \<and> same_target p q"
  using assms
proof (induction nal m l k p rule: fu_pack_loop.induct)
  case (1 nal m l k p)
  show ?case
  proof (cases "k < m")
    case True
    then obtain p1 where p1: "(if k = 0 then send_fu_first nal p
           else if k < m - 1 then send_fu_middle nal k p
           else send_fu_last nal k l p) = Inr p1" "fu_pack_loop nal m l (k + 1) p1 = Inr q"
      using 1(2) by (subst (asm) fu_pack_loop.simps) (auto simp: bind_res_eq_Inr)
    have "numbered p1 \<and> same_target p p1"
      using p1(1) send_fu_numbered [OF 1(3)] 1(4) by (auto split: if_splits)
    then show ?thesis using 1(1) [OF True p1] 1(4) p1 same_target_trans by blast
  next
    case False
    then show ?thesis using 1(2,3) by (subst (asm) fu_pack_loop.simps) (simp add: same_target_def)
  qed
qed

lemma send_nalu_numbered:
  assumes "send_nalu nal p = Inr q" "numbered p"
  shows "numbered q \<and> same_target p q"
proof -
  define p1 where "p1 = p\<lparr>m_timestamp := m_timestamp p + ucast (m_clock p div frameRate)\<rparr>"
  have p1: "numbered p1" "same_target p p1"
    using assms(2) by (simp_all add: p1_def numbered_def same_target_def)
  consider "NumBytesinNALUnit nal < 1" | "0 < NumBytesinNALUnit nal" "NumBytesinNALUnit nal \<le> 1400"
    | "1400 < NumBytesinNALUnit nal" by linarith
  then show ?thesis
  proof cases
    case 1
    then show ?thesis using assms by (simp add: send_nalu_def same_target_def)
  next
    case 2
    then have "send_single_nal (RBSP nal) (NumBytesinNALUnit nal) p1 = Inr q"
      using assms(1) by (simp add: send_nalu_def p1_def Let_def RTP_PAYLOAD_MAX_SIZE_def)
    from send_single_numbered [OF this p1(1) 2] show ?thesis using p1(2) same_target_trans by blast
  next
    case 3
    then obtain m l where "fu_pack_loop (RBSP nal) m l 0 p1 = Inr q" "l \<le> 1400"
      using assms(1) by (simp add: send_nalu_def Let_def RTP_PAYLOAD_MAX_SIZE_def flip: p1_def)
    from fu_pack_loop_numbered [OF this(1) p1(1) this(2)] show ?thesis using p1(2) same_target_trans by blast
  qed
qed

lemma start_loop_numbered:
  "start_loop ds p = Inr q \<Longrightarrow> numbered p \<Longrightarrow> numbered q \<and> same_target p q"
proof (induction "length ds" arbitrary: ds p rule: less_induct)
  case less
  show ?case
  proof (cases "next_nalu ds")
    case (Inl e)
    then show ?thesis using less(2) by (subst (asm) start_loop.simps) simp
  next
    case (Inr r)
    obtain n rest where r: "r = (n, rest)" by fastforce
    show ?thesis
    proof (cases n)
      case None
      then show ?thesis using less(2,3) Inr r by (subst (asm) start_loop.simps) (simp add: same_target_def)
    next
      case (Some nal)
      then obtain p1 where p1: "send_nalu nal p = Inr p1" "start_loop rest p1 = Inr q"
        using less(2) Inr r by (subst (asm) start_loop.simps) (auto simp: bind_res_eq_Inr)
      have n1: "numbered p1 \<and> same_target p p1" by (rule send_nalu_numbered [OF p1(1) less(3)])
      have "length rest < length ds"
        using Inr r Some by (auto simp: next_nalu_def dest: next_nalu_loop_shorter)
      then have "numbered q \<and> same_target p1 q" using less(1) [OF _ p1(2)] n1 by blast
      then show ?thesis using n1 same_target_trans by blast
    qed
  qed
qed

section \<open>Properties\<close>

text \<open>
  C21: Whatever the file holds, if the program comes to its end, all its datagrams go to the one
  address, have 13 to 1414 bytes, are RTP packets of payload type 96, and are numbered: the packet
  number \<open>k\<close>, from 0, has the sequence number \<open>k + 1\<close>, modulo \<open>2 ^ 16\<close>.  Numbering and source are
  not random, though: they begin with 1 and 0 in every run.
\<close>

theorem h264send_numbered:
  assumes "h264send_main files (new_H264RtpPacketizer junk) = Inr p" "k < length (m_sent p)"
  shows "numbered_datagram ''172.19.0.222'' 7788 k (m_sent p ! k)"
proof -
  let ?p0 = "set_destination_addr ''172.19.0.222'' 7788 (set_clock_frequency 9000 (new_H264RtpPacketizer junk))"
  obtain d where d: "start_loop d (?p0\<lparr>nalu_hdr_set := False\<rparr>) = Inr p"
    using assms(1) by (auto simp: h264send_main_def start_def split: option.splits)
  have "numbered (?p0\<lparr>nalu_hdr_set := False\<rparr>)"
    by (simp add: numbered_def new_H264RtpPacketizer_def GetRandom16_def GetRandom32_def
        set_destination_addr_def set_clock_frequency_def)
  from start_loop_numbered [OF d this] show ?thesis
    using assms(2) by (auto simp: numbered_def same_target_def set_destination_addr_def)
qed

definition sample_blank :: H264RtpPacketizer where
  "sample_blank = \<lparr>m_seq_num = 9, m_ssrc = 9, m_timestamp = 9, m_clock = 0, m_destport = 0, m_destaddr = [],
     nalu_hdr_set = False, m_sent = []\<rparr>"

theorem h264send_numbered_witness:
  "\<exists>p. h264send_main (\<lambda>_. Some [0, 0, 1, 0x65, 7, 0, 0, 1]) (new_H264RtpPacketizer sample_blank) = Inr p \<and>
    length (m_sent p) = 1 \<and> numbered_datagram ''172.19.0.222'' 7788 0 (m_sent p ! 0)"
proof -
  let ?run = "h264send_main (\<lambda>_. Some [0, 0, 1, 0x65, 7, 0, 0, 1]) (new_H264RtpPacketizer sample_blank)"
  have first: "next_nalu [0, 0, 1, 0x65, 7, 0, 0, 1] = Inr (Some (new_H264NalPacket [0x65, 7]), [])"
    by (simp add: next_nalu_def put_byte_def MAX_NAL_BUF_SIZE_def)
  have last: "next_nalu [] = Inr (None, [])" by (simp add: next_nalu_def)
  have "\<exists>p. ?run = Inr p \<and> length (m_sent p) = 1"
    using send_single_nal_run [of "[0x65, 7]"]
    by (simp add: h264send_main_def start_def start_loop.simps first last send_nalu_def new_H264NalPacket_def
        RTP_PAYLOAD_MAX_SIZE_def Let_def set_destination_addr_def set_clock_frequency_def
        new_H264RtpPacketizer_def sample_blank_def sent_to_def)
  then obtain p where p: "?run = Inr p" "length (m_sent p) = 1" by blast
  then show ?thesis using h264send_numbered [OF p(1), of 0] by auto
qed

text \<open>The media that the description of the stream means.\<close>

definition h264_media :: "u16 \<Rightarrow> sdp_media" where
  "h264_media port =
     \<lparr>md_info = \<lparr>mi_type = ''video'', mi_port = uint port, mi_port_n = 0, mi_proto = ''RTP/AVP'', mi_fmt = [96]\<rparr>,
      md_title = None, md_conn = no_connection, md_bw = [], md_encrypt_key = None,
      md_attributes = [''rtpmap:96 H264/90000'', ''fmtp:96 packetization-mode=1'']\<rparr>"

lemma good_h264_media: "good_media (h264_media port)"
  using uint_lt2p [of port] order_trans [OF _ uint_nonnegative [of port], of "- 2147483648"]
  by (simp add: h264_media_def good_media_def good_info_def token_def clean_def good_opt_def good_conn_def
      no_connection_def in_width_def)

lemma dec_int_96: "dec_int 96 = ''96''" by code_simp

lemma sessionDescription_lines:
  assumes "sessionDescription ok h = Inr descr"
  shows "descr = render crlf (media_lines (h264_media (destinationPort h)))"
proof -
  have "dec_nat (unat (destinationPort h)) = dec_int (uint (destinationPort h))"
    by (simp add: dec_int_def)
  then show ?thesis
    using assms
    by (simp add: sessionDescription_def h264_media_def media_lines_def info_text_def numbers_def dec_int_96
        conn_lines_def no_connection_def opt_lines_def split: if_splits)
qed

lemma sdp_parse_version:
  assumes "take 2 t \<noteq> ''v=''"
  shows "sdp_parse t = Inr None"
proof (cases "load_next_entry (Some t)")
  case (Some e)
  obtain k v q where e: "e = (k, v, q)" by (cases e)
  let ?l = "take (line_end t) t"
  from Some have l: "2 \<le> length ?l" "?l ! 1 = CHR ''=''" "k = ?l ! 0"
    by (auto simp: load_next_entry_def e Let_def split: if_splits)
  have two: "take 2 xs = [xs ! 0, xs ! 1]" if "2 \<le> length xs" for xs :: string
    using that by (cases xs; cases "tl xs") auto
  have "take 2 ?l = take 2 t" using l(1) by (simp only: length_take take_take) simp
  then have "take 2 t = [?l ! 0, ?l ! 1]" using two [OF l(1)] by simp
  then have "k \<noteq> CHR ''v''" using assms l by auto
  then show ?thesis by (simp add: sdp_parse_def Some e)
qed (simp add: sdp_parse_def)

text \<open>
  C36: The session description that \<open>H264Stream\<close> writes for its stream lacks the lines in front of the
  media.  The parser of the repository refuses it, as it does every text that does not begin with
  the protocol version.  Behind the lines of any well-formed description without media, written
  with the same line ends, it is read as what it means: one video at the port of the destination,
  over RTP with payload type 96, and the two attributes that name the encoding and the mode.
\<close>

theorem sessionDescription_refused:
  assumes "sessionDescription ok h = Inr descr" "well_formed sdp" "sp_medias sdp = []"
  shows "sdp_parse descr = Inr None \<and> (\<forall>t. take 2 t \<noteq> ''v='' \<longrightarrow> sdp_parse t = Inr None) \<and>
    sdp_parse (with_crlf (sdp_dump (Some sdp)) @ descr) =
      Inr (Some (sdp\<lparr>sp_medias := [h264_media (destinationPort h)]\<rparr>))"
proof (intro conjI allI impI)
  note descr = sessionDescription_lines [OF assms(1)]
  have "take 2 descr = ''m=''" by (simp add: descr media_lines_def)
  then show "sdp_parse descr = Inr None" by (intro sdp_parse_version) simp
  show "sdp_parse t = Inr None" if "take 2 t \<noteq> ''v=''" for t using that by (rule sdp_parse_version)
  let ?sdp = "sdp\<lparr>sp_medias := [h264_media (destinationPort h)]\<rparr>"
  have ok: "well_formed ?sdp" using assms(2) good_h264_media by (simp add: well_formed_def)
  have "clean_lines (sdp_lines_of sdp)"
    using assms(2) by (auto simp: sdp_lines_of_def well_formed_def session_lines_def rest_lines_def clean_all clean_origin)
  then have "with_crlf (sdp_dump (Some sdp)) = render crlf (sdp_lines_of sdp)"
    using assms(2) by (simp add: sdp_dump_lines well_formed_def with_crlf_render)
  moreover have "sdp_lines_of ?sdp = sdp_lines_of sdp @ media_lines (h264_media (destinationPort h))"
    using assms(3) by (simp add: sdp_lines_of_def session_lines_def rest_lines_def)
  ultimately show "sdp_parse (with_crlf (sdp_dump (Some sdp)) @ descr) = Inr (Some ?sdp)"
    using sdp_parse_lines [OF ok, of crlf] by (simp add: descr line_ending_def)
qed

theorem sessionDescription_refused_witness:
  "\<exists>descr sdp. sessionDescription True (new_H264Stream (\<lambda>_. None) ''f'' sample_blank) = Inr descr \<and>
     sdp_parse descr = Inr None \<and>
     sdp_parse (with_crlf (sdp_dump (Some sdp)) @ descr) = Inr (Some (sdp\<lparr>sp_medias := [h264_media 0]\<rparr>))"
proof -
  obtain descr where t: "sessionDescription True (new_H264Stream (\<lambda>_. None) ''f'' sample_blank) = Inr descr"
    by (simp add: sessionDescription_def)
  have "well_formed (sample_sdp\<lparr>sp_medias := []\<rparr>)" using sample_sdp_ok(1) by (simp add: well_formed_def)
  from sessionDescription_refused [OF t this] t show ?thesis
    by (intro exI [of _ descr] exI [of _ "sample_sdp\<lparr>sp_medias := []\<rparr>"])
      (simp add: destinationPort_def new_H264Stream_def new_H264RtpPacketizer_def sample_blank_def)
qed

end
