(* ===== verification/SendSockets.thy ===== *)
theory SendSockets
  imports Prelude
begin

text \<open>
  The socket classes of \<^verbatim>\<open>h264Send\<close>: \<^verbatim>\<open>TcpAcceptor\<close>, \<^verbatim>\<open>TcpConnector\<close>, \<^verbatim>\<open>TcpStream\<close> and
  \<^verbatim>\<open>UdpDatagram\<close>, objects that hold a descriptor and close it in their destructor.

  The kernel is the table of the open descriptors.  A new descriptor is the lowest number that is
  not in the table; whether a call succeeds, and what it delivers, are arguments.  Addresses and
  ports are kept in host order, \<^verbatim>\<open>inet_addr\<close> and \<^verbatim>\<open>inet_ntoa\<close> are parameters.  Printing is left out.
\<close>

section \<open>Descriptors\<close>

datatype desc = Std_Stream | Stream_Socket | Listening | Connected | Shut_Down | Datagram_Socket

record kernel =
  fds :: "(int \<times> desc) list"

definition os_start :: kernel where
  "os_start = \<lparr>fds = [(0, Std_Stream), (1, Std_Stream), (2, Std_Stream)]\<rparr>"

definition open_fds :: "kernel \<Rightarrow> int list" where "open_fds k = map fst (fds k)"

definition is_open :: "kernel \<Rightarrow> int \<Rightarrow> bool" where "is_open k d \<longleftrightarrow> d \<in> set (open_fds k)"

definition lowest_free :: "int list \<Rightarrow> int" where
  "lowest_free ds = hd (filter (\<lambda>n. n \<notin> set ds) (map int [0..<Suc (length ds)]))"

definition os_new :: "desc \<Rightarrow> kernel \<Rightarrow> int \<times> kernel" where
  "os_new x k = (let d = lowest_free (open_fds k) in (d, k\<lparr>fds := (d, x) # fds k\<rparr>))"

definition os_socket :: "bool \<Rightarrow> desc \<Rightarrow> kernel \<Rightarrow> int \<times> kernel" where
  "os_socket ok x k = (if ok then os_new x k else (-1, k))"

definition os_close :: "int \<Rightarrow> kernel \<Rightarrow> kernel" where
  "os_close d k = k\<lparr>fds := filter (\<lambda>p. fst p \<noteq> d) (fds k)\<rparr>"

definition os_set :: "int \<Rightarrow> desc \<Rightarrow> kernel \<Rightarrow> kernel" where
  "os_set d x k = k\<lparr>fds := map (\<lambda>p. if fst p = d then (d, x) else p) (fds k)\<rparr>"

definition os_kind :: "int \<Rightarrow> kernel \<Rightarrow> desc option" where
  "os_kind d k = map_of (fds k) d"

text \<open>
  \<^verbatim>\<open>select(nfds, &fds, 0, 0, &timeout)\<close> with the descriptors of the set and those that are ready:
  only descriptors below \<open>nfds\<close> are looked at.
\<close>

definition os_select :: "int \<Rightarrow> int list \<Rightarrow> int list \<Rightarrow> bool \<Rightarrow> int" where
  "os_select nfds ds ready interrupted =
     (if interrupted then -1 else int (length (filter (\<lambda>d. d < nfds \<and> d \<in> set ready) ds)))"

text \<open>\<^verbatim>\<open>FD_SET\<close> stores into a bit array of 1024 bits.\<close>

definition fd_set_bit :: "int \<Rightarrow> int list res" where
  "fd_set_bit d = (if 0 \<le> d \<and> d < 1024 then Inr [d] else Inl Write_Overflow)"

section \<open>TCP streams\<close>

record TcpStream =
  m_sd :: int
  m_peerPort :: int
  m_peerIp :: string

definition new_TcpStream :: "(u32 \<Rightarrow> string) \<Rightarrow> int \<Rightarrow> u32 \<times> u16 \<Rightarrow> TcpStream" where
  "new_TcpStream ntoa sd addr =
     \<lparr>m_sd = sd, m_peerPort = uint (snd addr), m_peerIp = ntoa (fst addr)\<rparr>"

text \<open>The copy constructor assigns the fields, the descriptor among them.\<close>

definition copy_TcpStream :: "TcpStream \<Rightarrow> TcpStream" where
  "copy_TcpStream stream = stream"

definition closeSocket :: "TcpStream \<Rightarrow> kernel \<Rightarrow> kernel" where
  "closeSocket s k = (if m_sd s > 0 then os_close (m_sd s) k else k)"

definition delete_TcpStream :: "TcpStream \<Rightarrow> kernel \<Rightarrow> kernel" where
  "delete_TcpStream s k = closeSocket s k"


text \<open>
  \<^verbatim>\<open>recv\<close> and \<^verbatim>\<open>send\<close> return a signed number; the functions return it as a \<^verbatim>\<open>size_t\<close>.  \<open>got\<close> is
  what \<^verbatim>\<open>recv\<close> delivers, \<open>taken\<close> how many bytes \<^verbatim>\<open>send\<close> takes, \<open>None\<close> stands for an error.
\<close>

definition receiveFrom :: "byte list option \<Rightarrow> nat \<Rightarrow> TcpStream \<Rightarrow> kernel \<Rightarrow> byte list \<times> u64" where
  "receiveFrom got len s k =
     (if os_kind (m_sd s) k \<noteq> Some Connected then ([], -1)
      else case got of None \<Rightarrow> ([], -1) | Some d \<Rightarrow> (take len d, of_nat (length (take len d))))"

definition sendTo :: "nat option \<Rightarrow> byte list \<Rightarrow> nat \<Rightarrow> TcpStream \<Rightarrow> kernel \<Rightarrow> byte list \<times> u64" where
  "sendTo taken buffer len s k =
     (if os_kind (m_sd s) k \<noteq> Some Connected then ([], -1)
      else case taken of None \<Rightarrow> ([], -1)
        | Some n \<Rightarrow> (take (min n len) buffer, of_nat (min n len)))"

definition peerIp :: "TcpStream \<Rightarrow> string" where "peerIp s = m_peerIp s"
definition peerPort :: "TcpStream \<Rightarrow> int" where "peerPort s = m_peerPort s"

section \<open>Connecting\<close>

definition connectToHost ::
  "bool \<Rightarrow> (u32 \<times> u16 \<Rightarrow> bool) \<Rightarrow> (string \<Rightarrow> u32) \<Rightarrow> (u32 \<Rightarrow> string) \<Rightarrow> int \<Rightarrow> string \<Rightarrow> kernel \<Rightarrow>
   TcpStream option \<times> kernel" where
  "connectToHost socket_ok connect_ok aton ntoa port host k =
     (let address = (aton host, word_of_int port);
          (sd, k) = os_socket socket_ok Stream_Socket k
      in if \<not> (connect_ok address \<and> is_open k sd) then (None, k)
         else (Some (new_TcpStream ntoa sd address), os_set sd Connected k))"

section \<open>Accepting\<close>

record TcpAcceptor =
  m_lsd :: int
  m_address :: string
  m_port :: int
  m_listening :: bool


definition delete_TcpAcceptor :: "TcpAcceptor \<Rightarrow> kernel \<Rightarrow> kernel" where
  "delete_TcpAcceptor a k = (if m_lsd a > 0 then os_close (m_lsd a) k else k)"



definition recvTimeoutTcp :: "int list \<Rightarrow> bool \<Rightarrow> TcpAcceptor \<Rightarrow> int res" where
  "recvTimeoutTcp ready interrupted a =
     bind_res (fd_set_bit (m_lsd a)) (\<lambda>fds. Inr (os_select 0 fds ready interrupted))"

definition selected :: "int \<Rightarrow> bool" where
  "selected selectTiming = (if selectTiming = 0 then False else if selectTiming = -1 then False else True)"

definition waitForNewConnection :: "int list \<Rightarrow> bool \<Rightarrow> TcpAcceptor \<Rightarrow> bool res" where
  "waitForNewConnection ready interrupted a =
     bind_res (recvTimeoutTcp ready interrupted a) (\<lambda>t. Inr (selected t))"

section \<open>Datagrams\<close>

record UdpDatagram =
  um_sd :: int
  um_binding :: bool
  um_peerIP :: string
  um_peerPort :: int


definition closeSocket_udp :: "UdpDatagram \<Rightarrow> kernel \<Rightarrow> kernel" where
  "closeSocket_udp u k = (if um_sd u > 0 then os_close (um_sd u) k else k)"

definition delete_UdpDatagram :: "UdpDatagram \<Rightarrow> kernel \<Rightarrow> kernel" where
  "delete_UdpDatagram u k = closeSocket_udp u k"


definition recvTimeoutUdp :: "int list \<Rightarrow> bool \<Rightarrow> UdpDatagram \<Rightarrow> int res" where
  "recvTimeoutUdp ready interrupted u =
     bind_res (fd_set_bit (um_sd u)) (\<lambda>fds. Inr (os_select 0 fds ready interrupted))"

definition wait_UdpDatagram :: "int list \<Rightarrow> bool \<Rightarrow> UdpDatagram \<Rightarrow> bool res" where
  "wait_UdpDatagram ready interrupted u =
     bind_res (recvTimeoutUdp ready interrupted u) (\<lambda>t. Inr (selected t))"

definition socketDescriptor :: "UdpDatagram \<Rightarrow> int" where "socketDescriptor u = um_sd u"
definition peerIP_udp :: "UdpDatagram \<Rightarrow> string" where "peerIP_udp u = um_peerIP u"
definition peerPort_udp :: "UdpDatagram \<Rightarrow> int" where "peerPort_udp u = um_peerPort u"

section \<open>The descriptor table\<close>

lemma lowest_free_mem:
  "lowest_free ds \<in> set (filter (\<lambda>n. n \<notin> set ds) (map int [0..<Suc (length ds)]))"
proof -
  define m where "m = Suc (length ds)"
  have "\<exists>n \<in> set (map int [0..<m]). n \<notin> set ds"
  proof (rule ccontr)
    assume "\<not> ?thesis"
    then have "int ` {0..<m} \<subseteq> set ds" by auto
    then have "card (int ` {0..<m}) \<le> card (set ds)" by (intro card_mono) auto
    also have "\<dots> \<le> length ds" by (rule card_length)
    finally show False by (simp add: card_image m_def)
  qed
  then have "filter (\<lambda>n. n \<notin> set ds) (map int [0..<m]) \<noteq> []" by (auto simp: filter_empty_conv)
  then show ?thesis unfolding lowest_free_def m_def by (rule hd_in_set)
qed

lemma lowest_free: "lowest_free ds \<notin> set ds" "0 \<le> lowest_free ds" "lowest_free ds < int (Suc (length ds))"
  using lowest_free_mem [of ds] by (auto simp del: upt_Suc)

lemma lowest_free_least:
  assumes "0 \<le> d" "d \<notin> set ds" "\<And>k. 0 \<le> k \<Longrightarrow> k < d \<Longrightarrow> k \<in> set ds"
  shows "lowest_free ds = d"
proof (rule ccontr)
  assume ne: "lowest_free ds \<noteq> d"
  define m where "m = Suc (length ds)"
  let ?ns = "filter (\<lambda>n. n \<notin> set ds) (map int [0..<m])"
  have gt: "d < lowest_free ds" using ne lowest_free(1,2) [of ds] assms(3) by force
  then have "nat d < m" using lowest_free(3) [of ds] assms(1) by (simp add: m_def)
  then have "d \<in> int ` {0..<m}" using assms(1) by (intro image_eqI [of _ _ "nat d"]) simp_all
  then have d: "d \<in> set ?ns" using assms(2) by simp
  have "sorted (map int [0..<m])" by (simp add: sorted_map sorted_wrt_upt strict_sorted_imp_sorted)
  then have srt: "sorted ?ns" by (rule sorted_wrt_filter)
  obtain y ys where ns: "?ns = y # ys" using d by (cases ?ns) auto
  have "hd ?ns \<le> d" using d srt unfolding ns by auto
  then show False using gt by (simp add: lowest_free_def m_def)
qed

lemma open_os_new: "os_new x k = (d, k') \<Longrightarrow>
   0 \<le> d \<and> d \<notin> set (open_fds k) \<and> set (open_fds k') = insert d (set (open_fds k))"
  using lowest_free [of "open_fds k"] by (auto simp: os_new_def Let_def open_fds_def)

lemma open_os_close [simp]: "set (open_fds (os_close d k)) = set (open_fds k) - {d}"
  by (auto simp: os_close_def open_fds_def)

lemma open_os_set [simp]: "set (open_fds (os_set d x k)) = set (open_fds k)"
proof -
  have "fst (if fst p = d then (d, x) else p) = fst p" for p :: "int \<times> desc" by auto
  then show ?thesis by (simp add: os_set_def open_fds_def image_image)
qed

section \<open>Objects that hold descriptors\<close>

record world =
  w_kernel :: kernel
  w_acceptors :: "nat \<Rightarrow> TcpAcceptor option"
  w_streams :: "nat \<Rightarrow> TcpStream option"
  w_datagrams :: "nat \<Rightarrow> UdpDatagram option"

datatype object = Acceptor nat | Tcp nat | Udp nat

text \<open>The descriptor that the destructor of an object would close.\<close>

definition holds_fd :: "world \<Rightarrow> object \<Rightarrow> int option" where
  "holds_fd w x =
     (case (case x of
         Acceptor i \<Rightarrow> map_option m_lsd (w_acceptors w i)
       | Tcp i \<Rightarrow> map_option m_sd (w_streams w i)
       | Udp i \<Rightarrow> map_option um_sd (w_datagrams w i)) of
        None \<Rightarrow> None | Some d \<Rightarrow> if d > 0 then Some d else None)"

text \<open>
  What a program can do with the objects, apart from calling \<^verbatim>\<open>closeSocket\<close> itself and from copying
  an object that holds a descriptor.  The copy constructor of a stream is private; those of the other
  two classes are the implicit ones, which are public and copy the fields.  Reading, writing and
  waiting change neither the table nor the descriptors.
\<close>

definition copy_TcpAcceptor :: "TcpAcceptor \<Rightarrow> TcpAcceptor" where "copy_TcpAcceptor a = a"
definition copy_UdpDatagram :: "UdpDatagram \<Rightarrow> UdpDatagram" where "copy_UdpDatagram u = u"




section \<open>Ownership\<close>







lemma holds_fd_update [simp]:
  "holds_fd (w\<lparr>w_kernel := k\<rparr>) x = holds_fd w x"
  "holds_fd (w\<lparr>w_acceptors := f\<rparr>) (Tcp i) = holds_fd w (Tcp i)"
  "holds_fd (w\<lparr>w_acceptors := f\<rparr>) (Udp i) = holds_fd w (Udp i)"
  "holds_fd (w\<lparr>w_streams := g\<rparr>) (Acceptor i) = holds_fd w (Acceptor i)"
  "holds_fd (w\<lparr>w_streams := g\<rparr>) (Udp i) = holds_fd w (Udp i)"
  "holds_fd (w\<lparr>w_datagrams := h\<rparr>) (Acceptor i) = holds_fd w (Acceptor i)"
  "holds_fd (w\<lparr>w_datagrams := h\<rparr>) (Tcp i) = holds_fd w (Tcp i)"
  by (simp_all add: holds_fd_def split: object.split)

lemma holds_fd_acceptor [simp]:
  "holds_fd (w\<lparr>w_acceptors := (w_acceptors w)(i := a)\<rparr>) (Acceptor j) =
     (if j = i then (case a of None \<Rightarrow> None | Some a \<Rightarrow> if m_lsd a > 0 then Some (m_lsd a) else None)
      else holds_fd w (Acceptor j))"
  by (simp add: holds_fd_def split: option.split)

lemma holds_fd_stream [simp]:
  "holds_fd (w\<lparr>w_streams := (w_streams w)(i := s)\<rparr>) (Tcp j) =
     (if j = i then (case s of None \<Rightarrow> None | Some s \<Rightarrow> if m_sd s > 0 then Some (m_sd s) else None)
      else holds_fd w (Tcp j))"
  by (simp add: holds_fd_def split: option.split)

lemma holds_fd_datagram [simp]:
  "holds_fd (w\<lparr>w_datagrams := (w_datagrams w)(i := u)\<rparr>) (Udp j) =
     (if j = i then (case u of None \<Rightarrow> None | Some u \<Rightarrow> if um_sd u > 0 then Some (um_sd u) else None)
      else holds_fd w (Udp j))"
  by (simp add: holds_fd_def split: option.split)

lemma open_os_socket:
  assumes "os_socket so x k = (d, k')"
  shows "set (open_fds k) \<subseteq> set (open_fds k') \<and>
    (d > 0 \<longrightarrow> is_open k' d \<and> \<not> is_open k d)"
  using assms open_os_new [of x k] by (auto simp: os_socket_def is_open_def split: if_splits prod.splits)





lemma m_sd_new [simp]: "m_sd (new_TcpStream ntoa sd address) = sd"
  by (simp add: new_TcpStream_def)






section \<open>Properties\<close>

text \<open>
  The implicit copy of a datagram socket, or of an acceptor, that holds a descriptor: the two objects
  hold the same one, and when one of them is gone the other is left with a closed descriptor.
\<close>

lemma copied_datagram_shares:
  assumes "w_datagrams w i = Some u" "i \<noteq> j" "um_sd u > 0"
  defines "w' \<equiv> w\<lparr>w_datagrams := (w_datagrams w)(j := Some (copy_UdpDatagram u))\<rparr>"
  shows "holds_fd w' (Udp i) = Some (um_sd u) \<and> holds_fd w' (Udp j) = Some (um_sd u) \<and>
    \<not> is_open (delete_UdpDatagram (copy_UdpDatagram u) (w_kernel w')) (um_sd u)"
  using assms(1-3)
  by (simp add: w'_def holds_fd_def copy_UdpDatagram_def delete_UdpDatagram_def closeSocket_udp_def is_open_def)

lemma copied_acceptor_shares:
  assumes "w_acceptors w i = Some a" "i \<noteq> j" "m_lsd a > 0"
  defines "w' \<equiv> w\<lparr>w_acceptors := (w_acceptors w)(j := Some (copy_TcpAcceptor a))\<rparr>"
  shows "holds_fd w' (Acceptor i) = Some (m_lsd a) \<and> holds_fd w' (Acceptor j) = Some (m_lsd a) \<and>
    \<not> is_open (delete_TcpAcceptor (copy_TcpAcceptor a) (w_kernel w')) (m_lsd a)"
  using assms(1-3)
  by (simp add: w'_def holds_fd_def copy_TcpAcceptor_def delete_TcpAcceptor_def is_open_def)




text \<open>
  C35: \<^verbatim>\<open>closeSocket\<close> leaves the number of the descriptor in the object.  When a stream has been closed
  that way, the next connection gets the number again, if it is the lowest free one, and the
  destructor of the first stream then closes the second one.
\<close>

theorem closed_twice:
  assumes "0 < m_sd s" "\<And>n. 0 \<le> n \<Longrightarrow> n < m_sd s \<Longrightarrow> is_open k n"
    and "connectToHost True (\<lambda>_. True) aton ntoa port host (closeSocket s k) = (r, k1)"
  shows "\<exists>t. r = Some t \<and> m_sd t = m_sd s \<and> is_open k1 (m_sd t) \<and>
    \<not> is_open (delete_TcpStream s k1) (m_sd t)"
proof -
  have k: "closeSocket s k = os_close (m_sd s) k" using assms(1) by (simp add: closeSocket_def)
  have low: "lowest_free (open_fds (os_close (m_sd s) k)) = m_sd s"
    by (rule lowest_free_least) (use assms(1,2) in \<open>auto simp: is_open_def\<close>)
  obtain k2 where k2: "os_socket True Stream_Socket (os_close (m_sd s) k) = (m_sd s, k2)"
    by (simp add: os_socket_def os_new_def low Let_def)
  have "is_open k2 (m_sd s)" using open_os_socket [OF k2] assms(1) by simp
  then have "r = Some (new_TcpStream ntoa (m_sd s) (aton host, word_of_int port))"
      "is_open k1 (m_sd s)"
    using assms(3) k2 by (auto simp: k connectToHost_def is_open_def)
  then show ?thesis
    using assms(1) by (simp add: new_TcpStream_def delete_TcpStream_def closeSocket_def is_open_def)
qed

theorem closed_twice_witness:
  "\<exists>r k1 t. connectToHost True (\<lambda>_. True) (\<lambda>_. 0) (\<lambda>_. []) 80 ''h''
      (closeSocket \<lparr>m_sd = 3, m_peerPort = 1, m_peerIp = []\<rparr> \<lparr>fds = (3, Connected) # fds os_start\<rparr>) = (r, k1) \<and>
    r = Some t \<and> \<not> is_open (delete_TcpStream \<lparr>m_sd = 3, m_peerPort = 1, m_peerIp = []\<rparr> k1) (m_sd t)"
proof -
  let ?s = "\<lparr>m_sd = 3, m_peerPort = 1, m_peerIp = []\<rparr>" and ?k = "\<lparr>fds = (3, Connected) # fds os_start\<rparr>"
  obtain r k1 where c: "connectToHost True (\<lambda>_. True) (\<lambda>_. 0) (\<lambda>_. []) 80 ''h'' (closeSocket ?s ?k) = (r, k1)"
    by fastforce
  have low: "is_open ?k n" if "0 \<le> n" "n < m_sd ?s" for n
  proof -
    have "n = 0 \<or> n = 1 \<or> n = 2" using that by auto
    then show ?thesis by (auto simp: is_open_def open_fds_def os_start_def)
  qed
  show ?thesis using closed_twice [of ?s ?k, OF _ low c] c by auto
qed

text \<open>
  Waiting for a connection or a datagram never succeeds, whatever is ready: \<^verbatim>\<open>select\<close> is told
  to look at no descriptor at all.
\<close>

theorem waits_in_vain:
  "waitForNewConnection ready interrupted a \<noteq> Inr True \<and> wait_UdpDatagram ready interrupted u \<noteq> Inr True"
proof -
  have "\<not> selected (os_select 0 fs ready interrupted)" if "fd_set_bit d = Inr fs" for d fs
    using that by (auto simp: selected_def os_select_def fd_set_bit_def split: if_splits)
  then show ?thesis
    by (auto simp: waitForNewConnection_def wait_UdpDatagram_def recvTimeoutTcp_def recvTimeoutUdp_def
        bind_res_eq_Inr)
qed

end
