(* ===== verification/SdpMemory.thy ===== *)
theory SdpMemory
  imports Prelude
begin

text \<open>
  The memory of \<^verbatim>\<open>rtsp_client/sdp.c\<close>: how the arrays of a description grow (the macro
  \<^verbatim>\<open>ADD_ENTRY\<close>), and how a description is released (\<^verbatim>\<open>sdp_destroy\<close>), also one that was given up
  because memory was short.  The theory \<open>Sdp\<close>, in which allocations succeed, gives what is stored.

  An array is its element count and its block, an address with the elements, or NULL.  \<^verbatim>\<open>free(NULL)\<close>
  does nothing.
\<close>

type_synonym 'a arr = "nat \<times> (nat \<times> 'a list) option"

definition empty_arr :: "'a arr" where "empty_arr = (0, None)"

text \<open>
  \<^verbatim>\<open>ADD_ENTRY\<close>: \<open>mem\<close> is the address that \<^verbatim>\<open>calloc\<close> or \<^verbatim>\<open>realloc\<close> returns, if it succeeds, \<open>zero\<close> an
  element of zero bytes.  The result tells whether \<^verbatim>\<open>goto fail\<close> is taken.  When \<^verbatim>\<open>realloc\<close> fails, its
  null pointer is stored and \<^verbatim>\<open>memset\<close> writes behind it.
\<close>

definition add_entry :: "nat option \<Rightarrow> 'a \<Rightarrow> 'a arr \<Rightarrow> (bool \<times> 'a arr) res" where
  "add_entry mem zero field =
     (let (count, blk) = field; count = count + 1 in
      case blk of
        None \<Rightarrow>
          (case mem of None \<Rightarrow> Inr (True, (count, None)) | Some a \<Rightarrow> Inr (False, (count, Some (a, [zero]))))
      | Some (_, xs) \<Rightarrow>
          (case mem of
             None \<Rightarrow> Inl Null_Deref
           | Some a \<Rightarrow>
               bind_res (wr (take count xs @ replicate (count - length xs) zero) (count - 1) zero) (\<lambda>xs.
               Inr (False, (count, Some (a, xs))))))"

section \<open>Release\<close>

record repeat_mem =
  rm_offsets :: "unit arr"

record time_mem =
  tmm_repeat :: "repeat_mem arr"

record media_mem =
  mm_fmt :: "unit arr"
  mm_bw :: "unit arr"
  mm_attributes :: "unit arr"

record sdp_mem =
  sm_self :: nat
  sm_payload :: "nat option"
  sm_emails :: "unit arr"
  sm_phones :: "unit arr"
  sm_bw :: "unit arr"
  sm_times :: "time_mem arr"
  sm_zone_adjustments :: "unit arr"
  sm_attributes :: "unit arr"
  sm_medias :: "media_mem arr"

text \<open>The blocks that are freed, in order.\<close>

definition free_opt :: "nat option \<Rightarrow> nat list" where
  "free_opt p = (case p of None \<Rightarrow> [] | Some a \<Rightarrow> [a])"

definition free_arr :: "'a arr \<Rightarrow> nat list" where
  "free_arr f = free_opt (map_option fst (snd f))"

text \<open>The loop over the elements of an array: it follows the pointer if the count is not zero.\<close>

definition elem :: "'a arr \<Rightarrow> nat \<Rightarrow> 'a res" where
  "elem f i = (case snd f of None \<Rightarrow> Inl Null_Deref | Some (_, xs) \<Rightarrow> rd xs i)"

definition each_elem :: "('a \<Rightarrow> nat list res) \<Rightarrow> 'a arr \<Rightarrow> nat list res" where
  "each_elem g f =
     fold_res (\<lambda>freed i. bind_res (elem f i) (\<lambda>x. bind_res (g x) (\<lambda>d. Inr (freed @ d)))) [] [0..<fst f]"

definition destroy_time :: "time_mem \<Rightarrow> nat list res" where
  "destroy_time t =
     bind_res (each_elem (\<lambda>r. Inr (free_arr (rm_offsets r))) (tmm_repeat t)) (\<lambda>d.
     Inr (d @ free_arr (tmm_repeat t)))"

definition destroy_media :: "media_mem \<Rightarrow> nat list res" where
  "destroy_media m = Inr (free_arr (mm_fmt m) @ free_arr (mm_bw m) @ free_arr (mm_attributes m))"

definition sdp_destroy :: "sdp_mem option \<Rightarrow> nat list res" where
  "sdp_destroy sdp =
     (case sdp of
        None \<Rightarrow> Inr []
      | Some s \<Rightarrow>
          bind_res (each_elem destroy_time (sm_times s)) (\<lambda>times.
          bind_res (each_elem destroy_media (sm_medias s)) (\<lambda>medias.
          Inr (free_opt (sm_payload s) @ free_arr (sm_emails s) @ free_arr (sm_phones s) @
            free_arr (sm_bw s) @ times @ free_arr (sm_times s) @ free_arr (sm_zone_adjustments s) @
            free_arr (sm_attributes s) @ medias @ free_arr (sm_medias s) @ [sm_self s]))))"

section \<open>Arrays that are in order\<close>

definition arr_ok :: "'a arr \<Rightarrow> bool" where
  "arr_ok f \<longleftrightarrow> (case snd f of None \<Rightarrow> fst f = 0 | Some (_, xs) \<Rightarrow> fst f = length xs \<and> xs \<noteq> [])"

definition elems :: "'a arr \<Rightarrow> 'a list" where
  "elems f = (case snd f of None \<Rightarrow> [] | Some (_, xs) \<Rightarrow> xs)"

lemma empty_arr_ok [simp]: "arr_ok empty_arr" "elems empty_arr = []"
  by (simp_all add: arr_ok_def empty_arr_def elems_def)

text \<open>With memory, a zero element is appended.\<close>

lemma add_entry_run:
  assumes "arr_ok f"
  shows "\<exists>f'. add_entry (Some a) zero f = Inr (False, f') \<and> arr_ok f' \<and> elems f' = elems f @ [zero] \<and>
    free_arr f' = [a]"
proof -
  obtain n blk where f: "f = (n, blk)" by fastforce
  show ?thesis
  proof (cases blk)
    case None
    then show ?thesis using assms
      by (simp add: f add_entry_def arr_ok_def elems_def free_arr_def free_opt_def)
  next
    case (Some p)
    obtain b xs where p: "p = (b, xs)" by fastforce
    have "n = length xs" using assms by (simp add: f Some p arr_ok_def)
    then show ?thesis
      by (simp add: f Some p add_entry_def arr_ok_def elems_def free_arr_def free_opt_def)
  qed
qed

lemma each_elem_run:
  assumes "arr_ok f" "\<And>x. x \<in> set (elems f) \<Longrightarrow> g x = Inr (h x)"
  shows "each_elem g f = Inr (concat (map h (elems f)))"
proof -
  let ?xs = "elems f"
  have n: "fst f = length ?xs" using assms(1) by (auto simp: arr_ok_def elems_def split: option.splits)
  have el: "elem f i = Inr (?xs ! i)" if "i < length ?xs" for i
    using that by (auto simp: elem_def elems_def split: option.splits)
  have "fold_res (\<lambda>freed i. bind_res (elem f i) (\<lambda>x. bind_res (g x) (\<lambda>d. Inr (freed @ d)))) [] [0..<k] =
      Inr (concat (map h (take k ?xs)))" if "k \<le> length ?xs" for k
    using that
  proof (induction k)
    case (Suc k)
    then have "k < length ?xs" by simp
    then show ?case
      using Suc el [of k] assms(2) [of "?xs ! k"] by (simp add: fold_res_append take_Suc_conv_app_nth)
  qed simp
  then show ?thesis by (simp add: each_elem_def n)
qed

text \<open>All blocks of a description.\<close>

definition time_blocks :: "time_mem \<Rightarrow> nat list" where
  "time_blocks t = concat (map (\<lambda>r. free_arr (rm_offsets r)) (elems (tmm_repeat t))) @ free_arr (tmm_repeat t)"

definition media_blocks :: "media_mem \<Rightarrow> nat list" where
  "media_blocks m = free_arr (mm_fmt m) @ free_arr (mm_bw m) @ free_arr (mm_attributes m)"

definition sdp_blocks :: "sdp_mem \<Rightarrow> nat list" where
  "sdp_blocks s =
     free_opt (sm_payload s) @ free_arr (sm_emails s) @ free_arr (sm_phones s) @ free_arr (sm_bw s) @
     concat (map time_blocks (elems (sm_times s))) @ free_arr (sm_times s) @
     free_arr (sm_zone_adjustments s) @ free_arr (sm_attributes s) @
     concat (map media_blocks (elems (sm_medias s))) @ free_arr (sm_medias s) @ [sm_self s]"

definition sdp_mem_ok :: "sdp_mem \<Rightarrow> bool" where
  "sdp_mem_ok s \<longleftrightarrow> arr_ok (sm_times s) \<and> arr_ok (sm_medias s) \<and>
     (\<forall>t \<in> set (elems (sm_times s)). arr_ok (tmm_repeat t))"

lemma sdp_destroy_run:
  assumes "sdp_mem_ok s"
  shows "sdp_destroy (Some s) = Inr (sdp_blocks s)"
proof -
  have t: "destroy_time t = Inr (time_blocks t)" if "t \<in> set (elems (sm_times s))" for t
    using that assms
    by (simp add: destroy_time_def time_blocks_def sdp_mem_ok_def
        each_elem_run [where h = "\<lambda>r. free_arr (rm_offsets r)"])
  have "each_elem destroy_time (sm_times s) = Inr (concat (map time_blocks (elems (sm_times s))))"
    by (rule each_elem_run) (use assms t in \<open>simp_all add: sdp_mem_ok_def\<close>)
  moreover have "each_elem destroy_media (sm_medias s) = Inr (concat (map media_blocks (elems (sm_medias s))))"
    by (rule each_elem_run) (use assms in \<open>simp_all add: sdp_mem_ok_def destroy_media_def media_blocks_def\<close>)
  ultimately show ?thesis by (simp add: sdp_destroy_def sdp_blocks_def)
qed

section \<open>Short memory\<close>

text \<open>
  When the first time or media entry cannot be allocated, its count is already one: the release of
  the half-built description follows the null pointer.
\<close>

theorem sdp_destroy_no_memory:
  assumes "arr_ok (sm_times s)" "\<forall>t \<in> set (elems (sm_times s)). arr_ok (tmm_repeat t)"
    and "sm_medias s = empty_arr" "add_entry None zero (sm_medias s) = Inr (failed, medias)"
  shows "failed \<and> sdp_destroy (Some (s\<lparr>sm_medias := medias\<rparr>)) = Inl Null_Deref"
proof -
  have m: "failed" "medias = (1, None)"
    using assms(3,4) by (auto simp: add_entry_def empty_arr_def)
  have t: "destroy_time t = Inr (time_blocks t)" if "t \<in> set (elems (sm_times s))" for t
    using that assms
    by (simp add: destroy_time_def time_blocks_def each_elem_run [where h = "\<lambda>r. free_arr (rm_offsets r)"])
  have "each_elem destroy_time (sm_times s) = Inr (concat (map time_blocks (elems (sm_times s))))"
    by (rule each_elem_run) (use assms t in simp_all)
  then show ?thesis using m by (simp add: sdp_destroy_def each_elem_def elem_def)
qed

theorem sdp_destroy_no_memory_witness:
  "sdp_destroy (Some (\<lparr>sm_self = 1, sm_payload = Some 2, sm_emails = empty_arr, sm_phones = empty_arr,
      sm_bw = empty_arr, sm_times = empty_arr, sm_zone_adjustments = empty_arr, sm_attributes = empty_arr,
      sm_medias = (1, None)\<rparr>)) = Inl Null_Deref"
proof -
  let ?s = "\<lparr>sm_self = 1, sm_payload = Some 2, sm_emails = empty_arr, sm_phones = empty_arr,
      sm_bw = empty_arr, sm_times = empty_arr, sm_zone_adjustments = empty_arr, sm_attributes = empty_arr,
      sm_medias = empty_arr\<rparr>"
  have "add_entry None \<lparr>mm_fmt = empty_arr, mm_bw = empty_arr, mm_attributes = empty_arr\<rparr> (sm_medias ?s) =
      Inr (True, (1, None))" by (simp add: add_entry_def empty_arr_def)
  from sdp_destroy_no_memory [OF _ _ _ this] show ?thesis by simp
qed

end
