(* ===== verification/Jrtp.thy ===== *)
theory Jrtp
  imports Prelude
begin

text \<open>
  \<^verbatim>\<open>jrtplib_send_recv_h264\<close>: two programs that pass a file of NAL units through the RTP library
  jrtplib.  The sender cuts the file at its start codes and each piece, start code included, into
  packets of at most 1300 bytes, without the headers of RFC 6184; the receiver puts the packets
  together up to one with the marker.

  The library is a parameter: sending a packet, with the marker set before, is a function on the
  state of the session that also returns the status, and polling delivers lists of packets with
  their payload type and marker.  Printing and waiting are left out.
\<close>

section \<open>Sender\<close>

type_synonym 's send_packet = "'s \<Rightarrow> bool \<Rightarrow> byte list \<Rightarrow> int \<times> 's"

definition RTP_DEFAULTPACKETSIZE :: nat where "RTP_DEFAULTPACKETSIZE = 1400"
definition MAXLEN :: nat where "MAXLEN = RTP_DEFAULTPACKETSIZE - 100"

definition checkerror :: "int \<Rightarrow> unit res" where
  "checkerror rtperr = (if rtperr < 0 then Inl Exited else Inr ())"

text \<open>\<^verbatim>\<open>SetDefaultMark(mark)\<close>, \<^verbatim>\<open>SendPacket(&buf[i], n)\<close>, \<^verbatim>\<open>checkerror\<close>.\<close>

definition send_part :: "'s send_packet \<Rightarrow> bool \<Rightarrow> byte list \<Rightarrow> nat \<Rightarrow> nat \<Rightarrow> 's \<Rightarrow> 's res" where
  "send_part sp mark buf i n sess =
     bind_res (rd_block buf i n) (\<lambda>d.
     let (status, sess) = sp sess mark d in
     bind_res (checkerror status) (\<lambda>_. Inr sess))"

text \<open>
  The loop over the parts.  If neither condition of its body holds, the C loop turns for ever;
  that cannot happen, as long as the outer condition holds, and the state is returned here.
\<close>

function part_loop ::
  "'s send_packet \<Rightarrow> byte list \<Rightarrow> nat \<Rightarrow> nat \<Rightarrow> nat \<Rightarrow> nat \<Rightarrow> 's \<Rightarrow> 's res" where
  "part_loop sp buf buflen all_packet over_data send_packet sess =
     (if send_packet < all_packet \<or> (send_packet = all_packet \<and> over_data > 0) then
        (if send_packet = 0 \<or> (send_packet < all_packet \<and> send_packet \<noteq> 0) then
           bind_res (send_part sp False buf (send_packet * MAXLEN) MAXLEN sess)
             (part_loop sp buf buflen all_packet over_data (send_packet + 1))
         else if (all_packet = send_packet \<and> over_data > 0) \<or>
                 (int send_packet = int all_packet - 1 \<and> over_data = 0) then
           bind_res
             (send_part sp True buf (send_packet * MAXLEN)
               (if over_data > 0 then buflen - send_packet * MAXLEN else MAXLEN) sess)
             (part_loop sp buf buflen all_packet over_data (send_packet + 1))
         else Inr sess)
      else Inr sess)"
  by pat_completeness auto
termination
  by (relation "measure (\<lambda>(_, _, _, a, _, k, _). a + 1 - k)") auto

declare part_loop.simps [simp del]

definition SendH264Nalu :: "'s send_packet \<Rightarrow> byte list \<Rightarrow> nat \<Rightarrow> 's \<Rightarrow> 's res" where
  "SendH264Nalu sp h264buf buflen sess =
     (if buflen \<le> MAXLEN then send_part sp True h264buf 0 buflen sess
      else part_loop sp h264buf buflen (buflen div MAXLEN) (buflen mod MAXLEN) 0 sess)"

text \<open>One byte from the file, \<open>pos\<close> being the place where it is stored.\<close>

definition cut_step ::
  "'s send_packet \<Rightarrow> bool \<Rightarrow> byte list \<times> nat \<times> 's \<Rightarrow> byte \<Rightarrow> (byte list \<times> nat \<times> 's) res" where
  "cut_step sp header_flag st c =
     (let (buff, pos, sess) = st in
      bind_res (wr buff pos c) (\<lambda>buff.
      let pos = pos + 1 in
      if header_flag then
        (if buff ! (pos - 1) = 1 \<and> buff ! (pos - 2) = 0 \<and> buff ! (pos - 3) = 0 \<and> buff ! (pos - 4) = 0 then
           bind_res (SendH264Nalu sp buff (pos - 4) sess) (\<lambda>sess.
           Inr (buff[0 := 0, 1 := 0, 2 := 0, 3 := 1], 4, sess))
         else Inr (buff, pos, sess))
      else
        (if buff ! (pos - 1) = 1 \<and> buff ! (pos - 2) = 0 \<and> buff ! (pos - 3) = 0 then
           bind_res (SendH264Nalu sp buff (pos - 3) sess) (\<lambda>sess.
           Inr (buff[0 := 0, 1 := 0, 3 := 1], 3, sess))
         else Inr (buff, pos, sess))))"

text \<open>
  \<^verbatim>\<open>main\<close>, once the session is set up: the end of the file is noticed only after \<^verbatim>\<open>fgetc\<close> has
  returned \<^verbatim>\<open>EOF\<close>, which is stored as a byte like any other; after a short first read the loop
  does not start.
\<close>

definition sender_main :: "'s send_packet \<Rightarrow> byte list option \<Rightarrow> 's \<Rightarrow> 's res" where
  "sender_main sp fd sess =
     (case fd of
        None \<Rightarrow> Inl Null_Deref
      | Some d \<Rightarrow>
          (let buff = overlay (replicate (1024 * 100) 0) 0 (take 4 d);
               header_flag = (take 4 buff = [0, 0, 0, 1]);
               pos = (if header_flag then 4 else 3);
               bytes = (if length d < 4 then [] else drop 4 d @ [0xFF])
           in bind_res (fold_res (cut_step sp header_flag) (buff, pos, sess) bytes) (\<lambda>(buff, pos, sess).
              if pos \<noteq> 0 then SendH264Nalu sp buff pos sess else Inr sess)))"

section \<open>Receiver\<close>

record receiver =
  rc_buff :: "byte list"
  rc_pos :: nat
  rc_fd :: "byte list option"

text \<open>
  One packet: its payload type, its marker and its payload.  \<^verbatim>\<open>memcpy\<close> does not look at the
  size of the buffer; the file is \<^const>\<open>None\<close> if \<^verbatim>\<open>fopen\<close> returned NULL.
\<close>

definition receive_packet :: "receiver \<Rightarrow> nat \<times> bool \<times> byte list \<Rightarrow> receiver res" where
  "receive_packet s p =
     (let (pt, mark, loaddata) = p in
      if pt = 96 then
        bind_res (wr_block (rc_buff s) (rc_pos s) loaddata) (\<lambda>buff.
        let s = s\<lparr>rc_buff := buff\<rparr> in
        if mark then
          bind_res (rd_block buff 0 (rc_pos s + length loaddata)) (\<lambda>d.
          case rc_fd s of None \<Rightarrow> Inl Null_Deref
          | Some f \<Rightarrow> Inr (s\<lparr>rc_fd := Some (f @ d), rc_pos := 0\<rparr>))
        else Inr (s\<lparr>rc_pos := rc_pos s + length loaddata\<rparr>))
      else Inr s)"

text \<open>
  The loop of \<^verbatim>\<open>main\<close>: each turn polls, which gives a status and the packets of all sources, and
  looks whether the time is over.
\<close>

fun receive_loop :: "(int \<times> (nat \<times> bool \<times> byte list) list \<times> bool) list \<Rightarrow> receiver \<Rightarrow> receiver res" where
  "receive_loop [] s = Inr s"
| "receive_loop ((status, ps, done) # turns) s =
     bind_res (checkerror status) (\<lambda>_.
     bind_res (fold_res receive_packet s ps) (\<lambda>s. if done then Inr s else receive_loop turns s))"

text \<open>The contents of the file that was received, after \<^verbatim>\<open>fclose\<close>.\<close>

definition receiver_main ::
  "bool \<Rightarrow> (int \<times> (nat \<times> bool \<times> byte list) list \<times> bool) list \<Rightarrow> byte list res" where
  "receiver_main fopen_ok turns =
     bind_res (receive_loop turns
       \<lparr>rc_buff = replicate (1024 * 100) 0, rc_pos = 0, rc_fd = (if fopen_ok then Some [] else None)\<rparr>) (\<lambda>s.
     case rc_fd s of None \<Rightarrow> Inl Null_Deref | Some f \<Rightarrow> Inr f)"

end
