(* ===== verification/JrtpRun.thy ===== *)
theory JrtpRun
  imports Jrtp
begin

text \<open>
  What the two programs of \<^verbatim>\<open>jrtplib_send_recv_h264\<close> do with a file: the sender, with its array of
  102400 bytes, its index arithmetic and its overwritten prefixes, sends exactly the packets of
  the units that the file has between its start codes, and the receiver puts them together again.
\<close>

section \<open>What is sent\<close>

text \<open>Handing a list of packets to the library, stopping at an error status.\<close>

definition deliver :: "'s send_packet \<Rightarrow> (bool \<times> byte list) list \<Rightarrow> 's \<Rightarrow> 's res" where
  "deliver sp ps sess =
     fold_res (\<lambda>sess (mark, d). let (status, sess) = sp sess mark d in
       bind_res (checkerror status) (\<lambda>_. Inr sess)) sess ps"

lemma deliver_Nil [simp]: "deliver sp [] sess = Inr sess"
  by (simp add: deliver_def)

lemma deliver_append: "deliver sp (ps @ qs) sess = bind_res (deliver sp ps sess) (deliver sp qs)"
  unfolding deliver_def by (subst fold_res_append) (rule refl)

lemma deliver_single:
  "deliver sp [(mark, d)] sess = (let (status, sess) = sp sess mark d in
     bind_res (checkerror status) (\<lambda>_. Inr sess))"
  by (auto simp: deliver_def Let_def bind_res_assoc split: prod.splits)

lemma deliver_Cons: "deliver sp (p # ps) sess = bind_res (deliver sp [p] sess) (deliver sp ps)"
  using deliver_append [of sp "[p]" ps] by simp

lemma send_part_deliver:
  "i + n \<le> length b \<Longrightarrow> send_part sp mark b i n sess = deliver sp [(mark, take n (drop i b))] sess"
  by (simp add: send_part_def deliver_single)

text \<open>The packets of one unit.\<close>

definition full_parts :: "byte list \<Rightarrow> nat \<Rightarrow> nat \<Rightarrow> (bool \<times> byte list) list" where
  "full_parts b i j = map (\<lambda>k. (False, take MAXLEN (drop (k * MAXLEN) b))) [i..<j]"

definition unit_packets :: "byte list \<Rightarrow> (bool \<times> byte list) list" where
  "unit_packets u =
     (if length u \<le> MAXLEN then [(True, u)]
      else full_parts u 0 (length u div MAXLEN) @
        (if length u mod MAXLEN = 0 then [] else [(True, drop (length u div MAXLEN * MAXLEN) u)]))"

lemma MAXLEN_pos: "0 < MAXLEN"
  by (simp add: MAXLEN_def RTP_DEFAULTPACKETSIZE_def)

lemma part_loop_full:
  assumes "k \<le> a" "a * MAXLEN \<le> length b"
  shows "part_loop sp b n a ov k sess = bind_res (deliver sp (full_parts b k a) sess) (part_loop sp b n a ov a)"
  using assms
proof (induction "a - k" arbitrary: k sess)
  case 0
  then show ?case by (simp add: full_parts_def)
next
  case (Suc m)
  then have k: "k < a" by simp
  have "k * MAXLEN + MAXLEN \<le> a * MAXLEN"
    using mult_le_mono1 [of "Suc k" a MAXLEN] k by simp
  then have fit: "k * MAXLEN + MAXLEN \<le> length b" using Suc.prems by simp
  have parts: "full_parts b k a = (False, take MAXLEN (drop (k * MAXLEN) b)) # full_parts b (k + 1) a"
    using k by (simp add: full_parts_def upt_conv_Cons)
  have ih: "part_loop sp b n a ov (k + 1) =
      (\<lambda>s. bind_res (deliver sp (full_parts b (k + 1) a) s) (part_loop sp b n a ov a))"
    by (rule ext, rule Suc.hyps(1)) (use Suc.hyps(2) k Suc.prems in auto)
  have "part_loop sp b n a ov k sess =
      bind_res (send_part sp False b (k * MAXLEN) MAXLEN sess) (part_loop sp b n a ov (k + 1))"
    using k by (subst part_loop.simps) auto
  also have "\<dots> = bind_res (deliver sp (full_parts b k a) sess) (part_loop sp b n a ov a)"
    unfolding parts deliver_Cons [of sp _ "full_parts b (k + 1) a"]
    by (simp only: send_part_deliver [OF fit] bind_res_assoc ih)
  finally show ?case .
qed

lemma part_loop_last:
  assumes "0 < a" "a * MAXLEN + ov = n" "n \<le> length b"
  shows "part_loop sp b n a ov a sess =
     deliver sp (if ov = 0 then [] else [(True, take ov (drop (a * MAXLEN) b))]) sess"
proof (cases "ov = 0")
  case True
  then show ?thesis by (subst part_loop.simps) simp
next
  case False
  have end_loop: "part_loop sp b n a ov (Suc a) = Inr"
    by (rule ext, subst part_loop.simps) simp
  have "part_loop sp b n a ov a sess = bind_res (send_part sp True b (a * MAXLEN) ov sess) Inr"
    using False assms by (subst part_loop.simps) (auto simp: end_loop)
  then show ?thesis
    using False assms by (simp add: send_part_deliver bind_res_def split: sum.splits)
qed

lemma full_parts_take:
  assumes "j * MAXLEN \<le> n"
  shows "full_parts (take n b) i j = full_parts b i j"
  unfolding full_parts_def
proof (rule map_cong [OF refl])
  fix k assume "k \<in> set [i..<j]"
  then have "Suc k \<le> j" by simp
  then have "Suc k * MAXLEN \<le> n" using assms mult_le_mono1 le_trans by blast
  then have "MAXLEN \<le> n - k * MAXLEN" by simp
  then show "(False, take MAXLEN (drop (k * MAXLEN) (take n b))) = (False, take MAXLEN (drop (k * MAXLEN) b))"
    by (simp add: drop_take min_def)
qed

lemma SendH264Nalu_deliver:
  assumes "n \<le> length b"
  shows "SendH264Nalu sp b n sess = deliver sp (unit_packets (take n b)) sess"
proof (cases "n \<le> MAXLEN")
  case True
  then show ?thesis using assms
    by (simp add: SendH264Nalu_def unit_packets_def send_part_deliver)
next
  case False
  let ?a = "n div MAXLEN" and ?ov = "n mod MAXLEN"
  have len: "length (take n b) = n" using assms by simp
  have a: "0 < ?a" using False by (simp add: div_greater_zero_iff MAXLEN_pos)
  have split: "?a * MAXLEN + ?ov = n" by simp
  have fit: "?a * MAXLEN \<le> length b" using split assms by linarith
  have rest: "take ?ov (drop (?a * MAXLEN) b) = drop (?a * MAXLEN) (take n b)"
    using split by (simp add: drop_take minus_div_mult_eq_mod)
  have parts: "full_parts (take n b) 0 ?a = full_parts b 0 ?a"
    by (rule full_parts_take) (use split in linarith)
  have "SendH264Nalu sp b n sess = part_loop sp b n ?a ?ov 0 sess"
    using False by (simp add: SendH264Nalu_def)
  also have "\<dots> = bind_res (deliver sp (full_parts b 0 ?a) sess)
      (deliver sp (if ?ov = 0 then [] else [(True, take ?ov (drop (?a * MAXLEN) b))]))"
    unfolding part_loop_full [OF le0 fit] part_loop_last [OF a split assms, abs_def] by (rule refl)
  also have "\<dots> = deliver sp (unit_packets (take n b)) sess"
    unfolding unit_packets_def len using False by (simp add: deliver_append parts rest)
  finally show ?thesis .
qed

section \<open>The cut\<close>

text \<open>The units of a file, for a start code of four bytes or of three; \<open>cur\<close> is the unit begun.\<close>

definition ends_with :: "byte list \<Rightarrow> byte list \<Rightarrow> bool" where
  "ends_with code xs \<longleftrightarrow> drop (length xs - length code) xs = code"

fun cut_units :: "byte list \<Rightarrow> byte list \<Rightarrow> byte list \<Rightarrow> byte list list" where
  "cut_units code cur [] = [cur]"
| "cut_units code cur (c # cs) =
     (if ends_with code (cur @ [c])
      then take (length cur + 1 - length code) (cur @ [c]) # cut_units code code cs
      else cut_units code (cur @ [c]) cs)"

lemma concat_cut_units: "concat (cut_units code cur cs) = cur @ cs"
proof (induction code cur cs rule: cut_units.induct)
  case (2 code cur c cs)
  show ?case
  proof (cases "ends_with code (cur @ [c])")
    case True
    have "concat (cut_units code cur (c # cs)) =
        take (length cur + 1 - length code) (cur @ [c]) @ code @ cs"
      using True 2 by simp
    also have "\<dots> = take (length (cur @ [c]) - length code) (cur @ [c]) @
        drop (length (cur @ [c]) - length code) (cur @ [c]) @ cs"
      using True by (simp add: ends_with_def)
    also have "\<dots> = (cur @ [c]) @ cs"
      unfolding append_assoc [symmetric] append_take_drop_id by (rule refl)
    finally show ?thesis by simp
  next
    case False
    then show ?thesis using 2 by simp
  qed
qed simp

lemma cut_units_reach: "\<exists>u\<in>set (cut_units code cur cs). length cur \<le> length u + length code"
  by (induction code cur cs rule: cut_units.induct)
    (auto simp: ends_with_def dest: Suc_leD intro: bexI [rotated])

definition code_of :: "bool \<Rightarrow> byte list" where
  "code_of header_flag = (if header_flag then [0, 0, 0, 1] else [0, 0, 1])"

lemma length_code_of [simp]: "length (code_of True) = 4" "length (code_of False) = 3"
  by (simp_all add: code_of_def)

text \<open>What the array holds while a unit is collected.\<close>

definition collected :: "bool \<Rightarrow> byte list \<Rightarrow> byte list \<Rightarrow> bool" where
  "collected header_flag buff cur \<longleftrightarrow>
     length (code_of header_flag) \<le> length cur \<and> length cur \<le> length buff \<and>
     take (length cur) buff = cur \<and> (header_flag \<or> cur ! 2 = 1)"

lemma collected_wr:
  assumes "collected fl buff cur" "length cur < length buff"
  shows "collected fl (buff[length cur := c]) (cur @ [c])"
proof -
  have "take (Suc (length cur)) (buff[length cur := c]) = cur @ [c]"
    using assms by (simp add: collected_def take_Suc_conv_app_nth)
  moreover have "2 < length cur \<or> fl"
    using assms(1) by (auto simp: collected_def code_of_def)
  ultimately show ?thesis
    using assms by (auto simp: collected_def nth_append)
qed

lemma collected_nth: "collected fl buff cur \<Longrightarrow> i < length cur \<Longrightarrow> buff ! i = cur ! i"
  unfolding collected_def by (metis nth_take)

lemma drop_last4:
  assumes "4 \<le> length xs"
  shows "drop (length xs - 4) xs = [xs ! (length xs - 4), xs ! (length xs - 3), xs ! (length xs - 2), xs ! (length xs - 1)]"
proof -
  have "length xs = length xs - 4 + 4" using assms by simp
  then obtain n where n: "length xs = n + 4" by blast
  show ?thesis
    unfolding n using n by (simp add: numeral_eq_Suc Cons_nth_drop_Suc [symmetric])
qed

lemma drop_last3:
  assumes "3 \<le> length xs"
  shows "drop (length xs - 3) xs = [xs ! (length xs - 3), xs ! (length xs - 2), xs ! (length xs - 1)]"
proof -
  have "length xs = length xs - 3 + 3" using assms by simp
  then obtain n where n: "length xs = n + 3" by blast
  show ?thesis
    unfolding n using n by (simp add: numeral_eq_Suc Cons_nth_drop_Suc [symmetric])
qed

lemma ends_with_code:
  assumes "length (code_of fl) \<le> length xs"
  shows "ends_with (code_of fl) xs \<longleftrightarrow>
     xs ! (length xs - 1) = 1 \<and> xs ! (length xs - 2) = 0 \<and> xs ! (length xs - 3) = 0 \<and>
     (fl \<longrightarrow> xs ! (length xs - 4) = 0)"
proof (cases fl)
  case True
  then have "4 \<le> length xs" using assms by simp
  from drop_last4 [OF this] True show ?thesis
    unfolding ends_with_def by (simp only: length_code_of) (auto simp: code_of_def)
next
  case False
  then have "3 \<le> length xs" using assms by simp
  from drop_last3 [OF this] False show ?thesis
    unfolding ends_with_def by (simp only: length_code_of) (auto simp: code_of_def)
qed

lemma cut_nth:
  assumes "collected fl buff cur" "length cur < length buff" "0 < i"
  shows "buff[length cur := c] ! (length cur + 1 - i) = (cur @ [c]) ! (length (cur @ [c]) - i)"
  using assms collected_nth [OF collected_wr [OF assms(1,2)], of "length cur + 1 - i" c] by simp

definition next_buff :: "bool \<Rightarrow> byte list \<Rightarrow> byte list" where
  "next_buff fl b = (if fl then b[0 := 0, 1 := 0, 2 := 0, 3 := 1] else b[0 := 0, 1 := 0, 3 := 1])"

lemma cut_step_ends:
  assumes "collected fl buff cur" "length cur < length buff"
  shows "cut_step sp fl (buff, length cur, sess) c =
     (let b = buff[length cur := c] in
      if ends_with (code_of fl) (cur @ [c]) then
        bind_res (deliver sp (unit_packets (take (length cur + 1 - length (code_of fl)) (cur @ [c]))) sess)
          (\<lambda>sess. Inr (next_buff fl b, length (code_of fl), sess))
      else Inr (b, length (cur @ [c]), sess))"
proof -
  let ?b = "buff[length cur := c]" and ?x = "cur @ [c]"
  have len: "length (code_of fl) \<le> length ?x" using assms(1) by (simp add: collected_def)
  note nth = cut_nth [OF assms]
  have take_b: "take (length cur + 1 - k) ?b = take (length cur + 1 - k) ?x" for k
  proof -
    have "take (length ?x) ?b = ?x"
      using collected_wr [OF assms, of c] unfolding collected_def by blast
    then have "take (length cur + 1 - k) (take (length ?x) ?b) = take (length cur + 1 - k) ?x" by (rule arg_cong)
    then show ?thesis by (simp only: take_take) simp
  qed
  have nalu: "SendH264Nalu sp ?b (length cur + 1 - k) sess = deliver sp (unit_packets (take (length cur + 1 - k) ?x)) sess"
    if "0 < k" for k
    using that assms(2) by (subst SendH264Nalu_deliver) (auto simp only: take_b length_list_update)
  let ?l = "length (code_of fl)"
  have l: "0 < ?l" by (cases fl) simp_all
  have "cut_step sp fl (buff, length cur, sess) c =
     (if ?b ! (length cur + 1 - 1) = 1 \<and> ?b ! (length cur + 1 - 2) = 0 \<and> ?b ! (length cur + 1 - 3) = 0 \<and>
         (fl \<longrightarrow> ?b ! (length cur + 1 - 4) = 0) then
        bind_res (SendH264Nalu sp ?b (length cur + 1 - ?l) sess) (\<lambda>sess. Inr (next_buff fl ?b, ?l, sess))
      else Inr (?b, length ?x, sess))"
    using assms(2) by (cases fl) (auto simp: cut_step_def Let_def next_buff_def)
  also have "\<dots> = (if ends_with (code_of fl) ?x then
        bind_res (deliver sp (unit_packets (take (length cur + 1 - ?l) ?x)) sess) (\<lambda>sess. Inr (next_buff fl ?b, ?l, sess))
      else Inr (?b, length ?x, sess))"
    unfolding ends_with_code [OF len] nalu [OF l] by (simp only: nth zero_less_one zero_less_numeral)
  finally show ?thesis unfolding Let_def .
qed

lemma length_next_buff [simp]: "length (next_buff fl b) = length b"
  by (simp add: next_buff_def)

lemma take_next_buff:
  assumes "length (code_of fl) \<le> length b" "fl \<or> b ! 2 = 1"
  shows "take (length (code_of fl)) (next_buff fl b) = code_of fl"
proof -
  obtain x y z r where b: "b = x # y # z # r"
    using assms(1) by (cases fl; cases b rule: list.exhaust [case_product list.exhaust]; force simp: numeral_eq_Suc Suc_le_length_iff)
  show ?thesis
    using assms unfolding b
    by (cases fl; cases r) (auto simp: next_buff_def code_of_def numeral_eq_Suc)
qed

lemma collected_next:
  assumes "collected fl buff cur" "length cur < length buff"
  shows "collected fl (next_buff fl (buff[length cur := c])) (code_of fl)"
proof -
  have c: "collected fl (buff[length cur := c]) (cur @ [c])" by (rule collected_wr [OF assms])
  have len: "length (code_of fl) \<le> length buff" using assms by (simp add: collected_def)
  have "fl \<or> buff[length cur := c] ! 2 = 1"
    using c assms collected_nth [OF c, of 2] by (cases fl) (auto simp: collected_def)
  then have "take (length (code_of fl)) (next_buff fl (buff[length cur := c])) = code_of fl"
    using len by (simp add: take_next_buff)
  moreover have "fl \<or> code_of fl ! 2 = 1" by (simp add: code_of_def)
  ultimately show ?thesis using len by (simp add: collected_def)
qed

text \<open>The loop over the file and the unit sent after it.\<close>

definition cut_all :: "'s send_packet \<Rightarrow> bool \<Rightarrow> byte list \<times> nat \<times> 's \<Rightarrow> byte list \<Rightarrow> 's res" where
  "cut_all sp fl st cs =
     bind_res (fold_res (cut_step sp fl) st cs) (\<lambda>(buff, pos, sess).
     if pos \<noteq> 0 then SendH264Nalu sp buff pos sess else Inr sess)"

lemma cut_all_units:
  assumes "collected fl buff cur"
    and "\<forall>u \<in> set (cut_units (code_of fl) cur cs). length u + length (code_of fl) \<le> length buff"
  shows "cut_all sp fl (buff, length cur, sess) cs =
     deliver sp (concat (map unit_packets (cut_units (code_of fl) cur cs))) sess"
  using assms
proof (induction cs arbitrary: buff cur sess)
  case Nil
  have "0 < length cur" using Nil(1) by (cases fl) (auto simp: collected_def)
  then show ?case
    using Nil SendH264Nalu_deliver [of "length cur" buff sp sess]
    by (simp add: cut_all_def collected_def)
next
  case (Cons c cs)
  obtain u where "u \<in> set (cut_units (code_of fl) (cur @ [c]) cs)" "length (cur @ [c]) \<le> length u + length (code_of fl)"
    using cut_units_reach by blast
  then have fit: "length cur < length buff"
    using Cons.prems by (cases "ends_with (code_of fl) (cur @ [c])") force+
  let ?b = "buff[length cur := c]"
  show ?case
  proof (cases "ends_with (code_of fl) (cur @ [c])")
    case True
    let ?u = "take (length cur + 1 - length (code_of fl)) (cur @ [c])"
    have ih: "cut_all sp fl (next_buff fl ?b, length (code_of fl), s) cs =
        deliver sp (concat (map unit_packets (cut_units (code_of fl) (code_of fl) cs))) s" for s
      by (rule Cons.IH [OF collected_next [OF Cons.prems(1) fit]])
        (use Cons.prems(2) True in auto)
    have "cut_all sp fl (buff, length cur, sess) (c # cs) =
        bind_res (deliver sp (unit_packets ?u) sess) (\<lambda>s. cut_all sp fl (next_buff fl ?b, length (code_of fl), s) cs)"
      using True by (simp add: cut_all_def cut_step_ends [OF Cons.prems(1) fit] bind_res_assoc)
    then show ?thesis using True by (simp add: ih deliver_append)
  next
    case False
    have "cut_all sp fl (buff, length cur, sess) (c # cs) = cut_all sp fl (?b, length (cur @ [c]), sess) cs"
      using False by (simp add: cut_all_def cut_step_ends [OF Cons.prems(1) fit])
    also have "\<dots> = deliver sp (concat (map unit_packets (cut_units (code_of fl) (cur @ [c]) cs))) sess"
      by (rule Cons.IH [OF collected_wr [OF Cons.prems(1) fit]]) (use Cons.prems(2) False in simp)
    finally show ?thesis using False by simp
  qed
qed

lemma sender_units:
  assumes "fl = (take 4 d = [0, 0, 0, 1])" "fl \<or> take 3 d = [0, 0, 1]" "4 \<le> length d"
    and "\<forall>u \<in> set (cut_units (code_of fl) (code_of fl) (drop 4 d @ [0xFF])).
           length u + length (code_of fl) \<le> 102400"
  shows "sender_main sp (Some d) sess =
     deliver sp (concat (map unit_packets (cut_units (code_of fl) (code_of fl) (drop 4 d @ [0xFF])))) sess"
proof -
  let ?b = "overlay (replicate (1024 * 100) 0) 0 (take 4 d)"
  have len: "length ?b = 102400" by simp
  have t4: "take 4 ?b = take 4 d" using assms(3) by (simp add: overlay_def)
  have t3: "take 3 ?b = take 3 d" using assms(3) by (simp add: overlay_def min_def)
  have "take (if fl then 4 else 3) ?b = (if fl then take 4 d else take 3 d)"
    using t4 t3 by simp
  moreover have "(if fl then take 4 d else take 3 d) = code_of fl"
    using assms(1,2) by (cases fl) (auto simp: code_of_def)
  moreover have "length (code_of fl) = (if fl then 4 else 3)" by (cases fl) simp_all
  ultimately have "take (length (code_of fl)) ?b = code_of fl" by simp
  then have c: "collected fl ?b (code_of fl)"
    unfolding collected_def using len by (cases fl) (auto simp: code_of_def)
  have "sender_main sp (Some d) sess = cut_all sp fl (?b, length (code_of fl), sess) (drop 4 d @ [0xFF])"
    using assms(1,3) t4 by (simp add: sender_main_def cut_all_def Let_def)
  also have "\<dots> = deliver sp (concat (map unit_packets (cut_units (code_of fl) (code_of fl) (drop 4 d @ [0xFF])))) sess"
    by (rule cut_all_units [OF c]) (simp only: len, rule assms(4))
  finally show ?thesis .
qed

text \<open>
  C34: For a file that begins with a start code, and whose units leave room in the array for the next
  start code, the sender hands over the packets of the units of the file, in order, with a byte 0xFF
  (the \<^verbatim>\<open>EOF\<close> of \<^verbatim>\<open>fgetc\<close>) at the end of the last unit; the fourth byte of a file that begins with a
  start code of three bytes is not sent.
\<close>

theorem sender_cuts:
  assumes "fl = (take 4 d = [0, 0, 0, 1])" "fl \<or> take 3 d = [0, 0, 1]" "4 \<le> length d"
    and "\<forall>u \<in> set (cut_units (code_of fl) (code_of fl) (drop 4 d @ [0xFF])).
           length u + length (code_of fl) \<le> 102400"
  shows "sender_main sp (Some d) sess =
     deliver sp (concat (map unit_packets (cut_units (code_of fl) (code_of fl) (drop 4 d @ [0xFF])))) sess"
  using assms by (rule sender_units)

section \<open>What is received\<close>

text \<open>
  The packets of one unit leave the unit in the file if one of them has the marker, that is unless
  the unit fills more than one packet and its length is a multiple of the packet size.
\<close>

definition marked :: "byte list \<Rightarrow> bool" where
  "marked u \<longleftrightarrow> length u \<le> MAXLEN \<or> length u mod MAXLEN \<noteq> 0"

definition with_type :: "(bool \<times> byte list) list \<Rightarrow> (nat \<times> bool \<times> byte list) list" where
  "with_type ps = map (\<lambda>p. (96, p)) ps"

lemma receive_packet_unmarked:
  assumes "rc_pos s + length d \<le> length (rc_buff s)"
  shows "receive_packet s (96, False, d) =
     Inr (s\<lparr>rc_buff := overlay (rc_buff s) (rc_pos s) d, rc_pos := rc_pos s + length d\<rparr>)"
  using assms by (simp add: receive_packet_def)

lemma receive_packet_marked:
  assumes "rc_pos s + length d \<le> length (rc_buff s)" "rc_fd s = Some f"
  shows "receive_packet s (96, True, d) =
     Inr (s\<lparr>rc_buff := overlay (rc_buff s) (rc_pos s) d, rc_pos := 0,
       rc_fd := Some (f @ take (rc_pos s) (rc_buff s) @ d)\<rparr>)"
  using assms by (simp add: receive_packet_def take_overlay)

text \<open>A run of packets of which only the last one has the marker.\<close>

lemma receive_unit:
  assumes "rc_pos s + length (concat ds) + length d \<le> length (rc_buff s)" "rc_fd s = Some f"
  shows "\<exists>b. length b = length (rc_buff s) \<and>
     fold_res receive_packet s (with_type (map (Pair False) ds @ [(True, d)])) =
       Inr (s\<lparr>rc_buff := b, rc_pos := 0, rc_fd := Some (f @ take (rc_pos s) (rc_buff s) @ concat ds @ d)\<rparr>)"
  using assms
proof (induction ds arbitrary: s)
  case Nil
  then show ?case
    by (intro exI [of _ "overlay (rc_buff s) (rc_pos s) d"]) (simp add: with_type_def receive_packet_marked)
next
  case (Cons e ds)
  let ?s = "s\<lparr>rc_buff := overlay (rc_buff s) (rc_pos s) e, rc_pos := rc_pos s + length e\<rparr>"
  have step: "receive_packet s (96, False, e) = Inr ?s"
    by (rule receive_packet_unmarked) (use Cons.prems in simp)
  have "take (rc_pos ?s) (rc_buff ?s) = take (rc_pos s) (rc_buff s) @ e"
    using Cons.prems(1) by (simp add: take_overlay)
  then show ?case
    using Cons.IH [of ?s] Cons.prems step by (simp add: with_type_def)
qed

lemma packets_marked:
  assumes "marked u"
  shows "\<exists>ds d. unit_packets u = map (Pair False) ds @ [(True, d)] \<and> concat ds @ d = u"
proof (cases "length u \<le> MAXLEN")
  case True
  then show ?thesis by (intro exI [of _ "[]"] exI [of _ u]) (simp add: unit_packets_def)
next
  case False
  let ?a = "length u div MAXLEN"
  let ?ds = "map (\<lambda>k. take MAXLEN (drop (k * MAXLEN) u)) [0..<?a]" and ?d = "drop (?a * MAXLEN) u"
  have "unit_packets u = map (Pair False) ?ds @ [(True, ?d)]"
    using False assms by (simp add: unit_packets_def marked_def full_parts_def comp_def)
  moreover have "concat (map (\<lambda>k. take MAXLEN (drop (k * MAXLEN) u)) [0..<k]) = take (k * MAXLEN) u" for k
    by (induction k) (simp_all add: take_add [symmetric] add.commute)
  then have "concat ?ds @ ?d = u" by simp
  ultimately show ?thesis by blast
qed

lemma receive_units:
  assumes "\<forall>u \<in> set us. marked u \<and> length u \<le> length b"
  shows "\<exists>b'. length b' = length b \<and>
     fold_res receive_packet \<lparr>rc_buff = b, rc_pos = 0, rc_fd = Some f\<rparr> (with_type (concat (map unit_packets us))) =
       Inr \<lparr>rc_buff = b', rc_pos = 0, rc_fd = Some (f @ concat us)\<rparr>"
  using assms
proof (induction us arbitrary: b f)
  case Nil
  then show ?case by (simp add: with_type_def)
next
  case (Cons u us)
  have "marked u" using Cons.prems by simp
  from packets_marked [OF this] obtain ds d
    where p: "unit_packets u = map (Pair False) ds @ [(True, d)]" and u: "concat ds @ d = u" by blast
  have "length (concat ds) + length d \<le> length b"
    using Cons.prems arg_cong [OF u, of length] by simp
  then obtain b1 where b1: "length b1 = length b"
      "fold_res receive_packet \<lparr>rc_buff = b, rc_pos = 0, rc_fd = Some f\<rparr> (with_type (unit_packets u)) =
       Inr \<lparr>rc_buff = b1, rc_pos = 0, rc_fd = Some (f @ u)\<rparr>"
    using receive_unit [of "\<lparr>rc_buff = b, rc_pos = 0, rc_fd = Some f\<rparr>" ds d f] p u by auto
  obtain b2 where "length b2 = length b1"
      "fold_res receive_packet \<lparr>rc_buff = b1, rc_pos = 0, rc_fd = Some (f @ u)\<rparr> (with_type (concat (map unit_packets us))) =
       Inr \<lparr>rc_buff = b2, rc_pos = 0, rc_fd = Some ((f @ u) @ concat us)\<rparr>"
    using Cons.IH [of b1 "f @ u"] Cons.prems b1(1) by auto
  then show ?case
    using b1 by (auto simp: with_type_def fold_res_append)
qed

text \<open>Turns of the loop of which only the last one finds the time over, with good statuses.\<close>

fun good_turns :: "(int \<times> (nat \<times> bool \<times> byte list) list \<times> bool) list \<Rightarrow> bool" where
  "good_turns [] \<longleftrightarrow> False"
| "good_turns ((status, ps, done) # turns) \<longleftrightarrow> 0 \<le> status \<and> (if done then turns = [] else good_turns turns)"

lemma receive_loop_fold:
  assumes "good_turns turns"
  shows "receive_loop turns s = fold_res receive_packet s (concat (map (\<lambda>(_, ps, _). ps) turns))"
  using assms
proof (induction turns arbitrary: s rule: good_turns.induct)
  case (2 status ps over turns)
  then show ?case
    by (cases over) (auto simp: checkerror_def fold_res_append bind_res_def split: sum.splits)
qed simp

section \<open>From the sender to the receiver\<close>

lemma deliver_recorded:
  assumes "\<And>s m d. 0 \<le> fst (sp s m d) \<and> sent (snd (sp s m d)) = sent s @ [(m, d)]"
  shows "\<exists>s'. deliver sp ps s = Inr s' \<and> sent s' = sent s @ ps"
proof (induction ps arbitrary: s)
  case (Cons p ps)
  obtain m d where p: "p = (m, d)" by fastforce
  obtain s1 where "deliver sp [p] s = Inr s1" "sent s1 = sent s @ [p]"
    using assms [of s m d] unfolding p deliver_single
    by (cases "sp s m d") (auto simp: checkerror_def)
  then show ?case
    using Cons.IH [of s1] by (simp add: deliver_Cons [of sp p ps])
qed simp

text \<open>
  C11: With a library that takes every packet (no error status) and hands the receiver, over its
  polls and with payload type 96, what was sent, in order, the receiver's file is the sender's file
  and one more byte 0xFF, for a file that begins with 00 00 00 01 and whose units, each with its
  start code, fit the two arrays and are not a multiple of 1300 bytes long (1300 itself excepted).
\<close>

theorem sender_to_receiver:
  assumes "\<And>s m p. 0 \<le> fst (sp s m p) \<and> sent (snd (sp s m p)) = sent s @ [(m, p)]"
    and "take 4 d = [0, 0, 0, 1]"
    and "\<forall>u \<in> set (cut_units [0, 0, 0, 1] [0, 0, 0, 1] (drop 4 d @ [0xFF])).
           marked u \<and> length u + 4 \<le> 102400"
    and "sent sess = []"
    and "\<And>sess'. sender_main sp (Some d) sess = Inr sess' \<Longrightarrow>
           good_turns turns \<and> concat (map (\<lambda>(_, ps, _). ps) turns) = with_type (sent sess')"
  shows "(\<exists>sess'. sender_main sp (Some d) sess = Inr sess') \<and> receiver_main True turns = Inr (d @ [0xFF])"
proof -
  let ?us = "cut_units [0, 0, 0, 1] [0, 0, 0, 1] (drop 4 d @ [0xFF])"
  have "4 \<le> length d"
    using arg_cong [OF assms(2), of length] by simp
  then have "sender_main sp (Some d) sess = deliver sp (concat (map unit_packets ?us)) sess"
    using sender_units [of True d sp sess] assms(2,3) by (simp add: code_of_def)
  moreover obtain s' where s': "deliver sp (concat (map unit_packets ?us)) sess = Inr s'"
      "sent s' = concat (map unit_packets ?us)"
    using deliver_recorded [of sp sent, OF assms(1)] assms(4) by force
  ultimately have run: "sender_main sp (Some d) sess = Inr s'" by simp
  have "concat ?us = take 4 d @ drop 4 d @ [0xFF]"
    using assms(2) by (simp add: concat_cut_units)
  then have us: "concat ?us = d @ [0xFF]"
    unfolding append_assoc [symmetric] append_take_drop_id .
  have fit: "\<forall>u \<in> set ?us. marked u \<and> length u \<le> length (replicate (1024 * 100) (0::byte))"
    using assms(3) by auto
  show ?thesis
    using assms(5) [OF run] receive_units [OF fit, of "[]"] us run s'(2)
    by (auto simp: receiver_main_def receive_loop_fold)
qed

text \<open>A file of two units, the first of one byte, and a library that keeps a list of packets.\<close>

definition sample_file :: "byte list" where
  "sample_file = [0, 0, 0, 1, 0x65, 0, 0, 0, 1, 0x41, 7]"

definition sample_record :: "(bool \<times> byte list) list send_packet" where
  "sample_record s m d = (0, s @ [(m, d)])"

definition sample_turns :: "(int \<times> (nat \<times> bool \<times> byte list) list \<times> bool) list" where
  "sample_turns = [(0, [], False), (0, [(96, True, [0, 0, 0, 1, 0x65])], False),
     (0, [(96, True, [0, 0, 0, 1, 0x41, 7, 0xFF])], True)]"

lemma sample_cut:
  "cut_units [0, 0, 0, 1] [0, 0, 0, 1] (drop 4 sample_file @ [0xFF]) =
     [[0, 0, 0, 1, 0x65], [0, 0, 0, 1, 0x41, 7, 0xFF]]"
  by code_simp

theorem sender_cuts_witness:
  "sender_main sample_record (Some [0, 0, 1, 0x65, 8]) [] = Inr [(True, [0, 0, 1, 8, 0xFF])]"
proof -
  have cut: "cut_units (code_of False) (code_of False) [8, 0xFF] = [[0, 0, 1, 8, 0xFF]]" by code_simp
  have "sender_main sample_record (Some [0, 0, 1, 0x65, 8]) [] =
      deliver sample_record (concat (map unit_packets (cut_units (code_of False) (code_of False)
        (drop 4 [0, 0, 1, 0x65, 8] @ [0xFF])))) []"
    by (rule sender_cuts) (simp_all add: cut del: cut_units.simps)
  then show ?thesis
    by (simp del: cut_units.simps add: cut unit_packets_def MAXLEN_def RTP_DEFAULTPACKETSIZE_def deliver_def sample_record_def checkerror_def)
qed

lemma sample_sent:
  "sender_main sample_record (Some sample_file) [] =
     Inr [(True, [0, 0, 0, 1, 0x65]), (True, [0, 0, 0, 1, 0x41, 7, 0xFF])]"
proof -
  have len: "4 \<le> length sample_file" "take 4 sample_file = [0, 0, 0, 1]" by code_simp+
  have "sender_main sample_record (Some sample_file) [] =
      deliver sample_record (concat (map unit_packets [[0, 0, 0, 1, 0x65], [0, 0, 0, 1, 0x41, 7, 0xFF]])) []"
    using sender_units [of True sample_file sample_record "[]"] len sample_cut by (simp add: code_of_def)
  also have "\<dots> = Inr [(True, [0, 0, 0, 1, 0x65]), (True, [0, 0, 0, 1, 0x41, 7, 0xFF])]"
    by (simp add: unit_packets_def MAXLEN_def RTP_DEFAULTPACKETSIZE_def deliver_def sample_record_def checkerror_def)
  finally show ?thesis .
qed

theorem sender_to_receiver_witness:
  "receiver_main True sample_turns = Inr (sample_file @ [0xFF])"
proof -
  have "(\<exists>s. sender_main sample_record (Some sample_file) [] = Inr s) \<and>
      receiver_main True sample_turns = Inr (sample_file @ [0xFF])"
  proof (rule sender_to_receiver [where sent = "\<lambda>s. s"])
    show "take 4 sample_file = [0, 0, 0, 1]" by code_simp
  qed (auto simp: sample_record_def sample_cut sample_sent marked_def MAXLEN_def
      RTP_DEFAULTPACKETSIZE_def sample_turns_def with_type_def)
  then show ?thesis ..
qed

end
