(* ===== verification/JrtpHash.thy ===== *)
theory JrtpHash
  imports Prelude
begin

text \<open>
  The hash tables of \<^verbatim>\<open>jrtplib_send_recv_h264/include\<close>: the class templates
  \<^verbatim>\<open>RTPKeyHashTable\<close> and \<^verbatim>\<open>RTPHashTable\<close>, whose members are all in the headers.  A table
  threads each element into two doubly linked lists, the one of its hash bucket and the one of
  all elements in the order in which they were added, and has a current element.

  The elements of a table live in a heap, a map from addresses; a pointer is an address or
  \<open>None\<close>, the null pointer.  Following a pointer to an address that is not in the heap is a
  fault.  The template's argument \<^verbatim>\<open>GetIndex\<close> and the results of allocations are parameters.
  The loops follow pointers and might not end: an operation that does not return is \<open>None\<close>.
\<close>

section \<open>Pointers\<close>

type_synonym ptr = "nat option"

definition deref :: "(nat \<Rightarrow> 'n option) \<Rightarrow> ptr \<Rightarrow> 'n res" where
  "deref h p =
     (case p of None \<Rightarrow> Inl Null_Deref
      | Some a \<Rightarrow> (case h a of None \<Rightarrow> Inl Dangling | Some e \<Rightarrow> Inr e))"

text \<open>\<^verbatim>\<open>p->field = v\<close>, the assignment given as a function on the object.\<close>

definition store :: "(nat \<Rightarrow> 'n option) \<Rightarrow> ptr \<Rightarrow> ('n \<Rightarrow> 'n) \<Rightarrow> (nat \<Rightarrow> 'n option) res" where
  "store h p f = bind_res (deref h p) (\<lambda>e. Inr (h(the p \<mapsto> f e)))"

definition store_opt :: "(nat \<Rightarrow> 'n option) \<Rightarrow> ptr \<Rightarrow> ('n \<Rightarrow> 'n) \<Rightarrow> (nat \<Rightarrow> 'n option) res" where
  "store_opt h p f = (if p \<noteq> None then store h p f else Inr h)"

definition RTPDelete :: "(nat \<Rightarrow> 'n option) \<Rightarrow> ptr \<Rightarrow> (nat \<Rightarrow> 'n option) res" where
  "RTPDelete h p =
     (case p of None \<Rightarrow> Inr h
      | Some a \<Rightarrow> if h a = None then Inl Dangling else Inr (h(a := None)))"

text \<open>What may not return.\<close>

type_synonym 'a run = "'a res option"

definition bind_run :: "'a run \<Rightarrow> ('a \<Rightarrow> 'b run) \<Rightarrow> 'b run" where
  "bind_run m f = (case m of None \<Rightarrow> None | Some (Inl e) \<Rightarrow> Some (Inl e) | Some (Inr x) \<Rightarrow> f x)"

lemma bind_run_simps [simp]:
  "bind_run None f = None" "bind_run (Some (Inl e)) f = Some (Inl e)"
  "bind_run (Some (Inr x)) f = f x"
  by (simp_all add: bind_run_def)

section \<open>The table\<close>

record ('k, 'e) HashElement =
  hashindex :: int
  he_key :: 'k
  he_element :: 'e
  hashprev :: ptr
  hashnext :: ptr
  listprev :: ptr
  listnext :: ptr

definition new_HashElement :: "'k \<Rightarrow> 'e \<Rightarrow> int \<Rightarrow> ('k, 'e) HashElement" where
  "new_HashElement k e index =
     \<lparr>hashindex = index, he_key = k, he_element = e,
      hashprev = None, hashnext = None, listprev = None, listnext = None\<rparr>"

record ('k, 'e) RTPKeyHashTable =
  ht_heap :: "nat \<Rightarrow> ('k, 'e) HashElement option"
  ht_table :: "ptr list"
  firsthashelem :: ptr
  lasthashelem :: ptr
  curhashelem :: ptr

text \<open>The status codes, which are the only difference of the operations of the two classes.\<close>

record ht_errors =
  invalid_index :: int
  already_exists :: int
  not_found :: int
  no_current :: int

definition ERR_RTP_OUTOFMEM :: int where "ERR_RTP_OUTOFMEM = -1"

definition KEYHASHTABLE_ERRORS :: ht_errors where
  "KEYHASHTABLE_ERRORS = \<lparr>invalid_index = -8, already_exists = -9, not_found = -10, no_current = -11\<rparr>"

definition HASHTABLE_ERRORS :: ht_errors where
  "HASHTABLE_ERRORS = \<lparr>invalid_index = -6, already_exists = -4, not_found = -5, no_current = -7\<rparr>"

text \<open>The constructor does not set \<^verbatim>\<open>curhashelem\<close>; \<open>junk\<close> is what it holds.\<close>

definition new_RTPKeyHashTable :: "nat \<Rightarrow> ptr \<Rightarrow> ('k, 'e) RTPKeyHashTable" where
  "new_RTPKeyHashTable hashsize junk =
     \<lparr>ht_heap = (\<lambda>_. None), ht_table = replicate hashsize None,
      firsthashelem = None, lasthashelem = None, curhashelem = junk\<rparr>"

text \<open>\<^verbatim>\<open>table[index]\<close>.\<close>

definition rd_table :: "ptr list \<Rightarrow> int \<Rightarrow> ptr res" where
  "rd_table tb index = (if index < 0 then Inl Read_Overflow else rd tb (nat index))"

definition wr_table :: "ptr list \<Rightarrow> int \<Rightarrow> ptr \<Rightarrow> ptr list res" where
  "wr_table tb index p = (if index < 0 then Inl Write_Overflow else wr tb (nat index) p)"

text \<open>The search loop of a bucket, from the pointer it starts with to the one it stops with.\<close>

partial_function (option) find_elem ::
  "(nat \<Rightarrow> ('k, 'e) HashElement option) \<Rightarrow> 'k \<Rightarrow> ptr \<Rightarrow> ptr run" where
  "find_elem h k p =
     (case p of
        None \<Rightarrow> Some (Inr None)
      | Some a \<Rightarrow>
          (case h a of
             None \<Rightarrow> Some (Inl Dangling)
           | Some e \<Rightarrow> if he_key e = k then Some (Inr p) else find_elem h k (hashnext e)))"

definition GotoFirstElement :: "('k, 'e) RTPKeyHashTable \<Rightarrow> ('k, 'e) RTPKeyHashTable" where
  "GotoFirstElement t = t\<lparr>curhashelem := firsthashelem t\<rparr>"

definition GotoLastElement :: "('k, 'e) RTPKeyHashTable \<Rightarrow> ('k, 'e) RTPKeyHashTable" where
  "GotoLastElement t = t\<lparr>curhashelem := lasthashelem t\<rparr>"

definition HasCurrentElement :: "('k, 'e) RTPKeyHashTable \<Rightarrow> bool" where
  "HasCurrentElement t = (if curhashelem t = None then False else True)"

definition GetCurrentElement :: "('k, 'e) RTPKeyHashTable \<Rightarrow> 'e res" where
  "GetCurrentElement t = bind_res (deref (ht_heap t) (curhashelem t)) (\<lambda>c. Inr (he_element c))"

definition GetCurrentKey :: "('k, 'e) RTPKeyHashTable \<Rightarrow> 'k res" where
  "GetCurrentKey t = bind_res (deref (ht_heap t) (curhashelem t)) (\<lambda>c. Inr (he_key c))"

definition GotoNextElement :: "('k, 'e) RTPKeyHashTable \<Rightarrow> ('k, 'e) RTPKeyHashTable res" where
  "GotoNextElement t =
     (if curhashelem t \<noteq> None
      then bind_res (deref (ht_heap t) (curhashelem t)) (\<lambda>c. Inr (t\<lparr>curhashelem := listnext c\<rparr>))
      else Inr t)"

definition GotoPreviousElement :: "('k, 'e) RTPKeyHashTable \<Rightarrow> ('k, 'e) RTPKeyHashTable res" where
  "GotoPreviousElement t =
     (if curhashelem t \<noteq> None
      then bind_res (deref (ht_heap t) (curhashelem t)) (\<lambda>c. Inr (t\<lparr>curhashelem := listprev c\<rparr>))
      else Inr t)"

text \<open>\<^verbatim>\<open>DeleteCurrentElement\<close>: first the hash bucket, then the list, then the object.\<close>

definition relink_bucket :: "('k, 'e) RTPKeyHashTable \<Rightarrow> ('k, 'e) RTPKeyHashTable res" where
  "relink_bucket t =
     bind_res (deref (ht_heap t) (curhashelem t)) (\<lambda>c.
     let index = hashindex c; tmp1 = hashprev c; tmp2 = hashnext c in
     if tmp1 = None then
       bind_res (wr_table (ht_table t) index tmp2) (\<lambda>tb.
       bind_res (store_opt (ht_heap t) tmp2 (\<lambda>e. e\<lparr>hashprev := None\<rparr>)) (\<lambda>h.
       Inr (t\<lparr>ht_table := tb, ht_heap := h\<rparr>)))
     else
       bind_res (store (ht_heap t) tmp1 (\<lambda>e. e\<lparr>hashnext := tmp2\<rparr>)) (\<lambda>h.
       bind_res (store_opt h tmp2 (\<lambda>e. e\<lparr>hashprev := tmp1\<rparr>)) (\<lambda>h.
       Inr (t\<lparr>ht_heap := h\<rparr>))))"

text \<open>The second result is \<^verbatim>\<open>tmp2\<close>, the next element of the list.\<close>

definition relink_list :: "('k, 'e) RTPKeyHashTable \<Rightarrow> (('k, 'e) RTPKeyHashTable \<times> ptr) res" where
  "relink_list t =
     bind_res (deref (ht_heap t) (curhashelem t)) (\<lambda>c.
     let tmp1 = listprev c; tmp2 = listnext c in
     if tmp1 = None then
       (let t = t\<lparr>firsthashelem := tmp2\<rparr> in
        if tmp2 \<noteq> None then
          bind_res (store (ht_heap t) tmp2 (\<lambda>e. e\<lparr>listprev := None\<rparr>)) (\<lambda>h.
          Inr (t\<lparr>ht_heap := h\<rparr>, tmp2))
        else Inr (t\<lparr>lasthashelem := None\<rparr>, tmp2))
     else
       bind_res (store (ht_heap t) tmp1 (\<lambda>e. e\<lparr>listnext := tmp2\<rparr>)) (\<lambda>h.
       let t = t\<lparr>ht_heap := h\<rparr> in
       if tmp2 \<noteq> None then
         bind_res (store (ht_heap t) tmp2 (\<lambda>e. e\<lparr>listprev := tmp1\<rparr>)) (\<lambda>h.
         Inr (t\<lparr>ht_heap := h\<rparr>, tmp2))
       else Inr (t\<lparr>lasthashelem := tmp1\<rparr>, tmp2)))"

definition delete_current :: "ht_errors \<Rightarrow> ('k, 'e) RTPKeyHashTable \<Rightarrow> (int \<times> ('k, 'e) RTPKeyHashTable) res" where
  "delete_current er t =
     (if curhashelem t \<noteq> None then
        bind_res (relink_bucket t) (\<lambda>t.
        bind_res (relink_list t) (\<lambda>(t, tmp2).
        bind_res (RTPDelete (ht_heap t) (curhashelem t)) (\<lambda>h.
        Inr (0, t\<lparr>ht_heap := h, curhashelem := tmp2\<rparr>))))
      else Inr (no_current er, t))"

definition DeleteCurrentElement ::
  "('k, 'e) RTPKeyHashTable \<Rightarrow> (int \<times> ('k, 'e) RTPKeyHashTable) res" where
  "DeleteCurrentElement t = delete_current KEYHASHTABLE_ERRORS t"

definition goto_element ::
  "ht_errors \<Rightarrow> ('k \<Rightarrow> int) \<Rightarrow> 'k \<Rightarrow> ('k, 'e) RTPKeyHashTable \<Rightarrow> (int \<times> ('k, 'e) RTPKeyHashTable) run" where
  "goto_element er GetIndex k t =
     (let index = GetIndex k in
      if index \<ge> int (length (ht_table t)) then Some (Inr (invalid_index er, t))
      else
        bind_run (Some (rd_table (ht_table t) index)) (\<lambda>p.
        bind_run (find_elem (ht_heap t) k p) (\<lambda>p.
        Some (Inr (if p = None then not_found er else 0, t\<lparr>curhashelem := p\<rparr>)))))"

definition GotoElement ::
  "('k \<Rightarrow> int) \<Rightarrow> 'k \<Rightarrow> ('k, 'e) RTPKeyHashTable \<Rightarrow> (int \<times> ('k, 'e) RTPKeyHashTable) run" where
  "GotoElement = goto_element KEYHASHTABLE_ERRORS"

definition HasElement :: "('k \<Rightarrow> int) \<Rightarrow> 'k \<Rightarrow> ('k, 'e) RTPKeyHashTable \<Rightarrow> bool run" where
  "HasElement GetIndex k t =
     (let index = GetIndex k in
      if index \<ge> int (length (ht_table t)) then Some (Inr False)
      else
        bind_run (Some (rd_table (ht_table t) index)) (\<lambda>p.
        bind_run (find_elem (ht_heap t) k p) (\<lambda>p. Some (Inr (p \<noteq> None)))))"

text \<open>The loop of \<^verbatim>\<open>Clear\<close>; the current element stays as it is.\<close>

partial_function (option) free_elems ::
  "(nat \<Rightarrow> ('k, 'e) HashElement option) \<Rightarrow> ptr \<Rightarrow> (nat \<Rightarrow> ('k, 'e) HashElement option) run" where
  "free_elems h p =
     (case p of
        None \<Rightarrow> Some (Inr h)
      | Some a \<Rightarrow>
          (case h a of
             None \<Rightarrow> Some (Inl Dangling)
           | Some e \<Rightarrow> free_elems (h(a := None)) (listnext e)))"

definition Clear :: "('k, 'e) RTPKeyHashTable \<Rightarrow> ('k, 'e) RTPKeyHashTable run" where
  "Clear t =
     bind_run (free_elems (ht_heap t) (firsthashelem t)) (\<lambda>h.
     Some (Inr (t\<lparr>ht_heap := h, ht_table := replicate (length (ht_table t)) None,
                  firsthashelem := None, lasthashelem := None\<rparr>)))"

text \<open>\<open>mem\<close> is the address that the allocation yields.\<close>

definition link_bucket :: "nat \<Rightarrow> int \<Rightarrow> ('k, 'e) RTPKeyHashTable \<Rightarrow> ('k, 'e) RTPKeyHashTable res" where
  "link_bucket newelem index t =
     bind_res (rd_table (ht_table t) index) (\<lambda>e.
     bind_res (wr_table (ht_table t) index (Some newelem)) (\<lambda>tb.
     bind_res (store (ht_heap t) (Some newelem) (\<lambda>c. c\<lparr>hashnext := e\<rparr>)) (\<lambda>h.
     bind_res (store_opt h e (\<lambda>c. c\<lparr>hashprev := Some newelem\<rparr>)) (\<lambda>h.
     Inr (t\<lparr>ht_table := tb, ht_heap := h\<rparr>)))))"

definition link_list :: "nat \<Rightarrow> ('k, 'e) RTPKeyHashTable \<Rightarrow> ('k, 'e) RTPKeyHashTable res" where
  "link_list newelem t =
     (if firsthashelem t = None then
        Inr (t\<lparr>firsthashelem := Some newelem, lasthashelem := Some newelem\<rparr>)
      else
        bind_res (store (ht_heap t) (lasthashelem t) (\<lambda>c. c\<lparr>listnext := Some newelem\<rparr>)) (\<lambda>h.
        bind_res (store h (Some newelem) (\<lambda>c. c\<lparr>listprev := lasthashelem t\<rparr>)) (\<lambda>h.
        Inr (t\<lparr>ht_heap := h, lasthashelem := Some newelem\<rparr>))))"

definition add_element ::
  "ht_errors \<Rightarrow> ('k \<Rightarrow> int) \<Rightarrow> ptr \<Rightarrow> 'k \<Rightarrow> 'e \<Rightarrow> ('k, 'e) RTPKeyHashTable \<Rightarrow>
   (int \<times> ('k, 'e) RTPKeyHashTable) run" where
  "add_element er GetIndex mem k elem t =
     (let index = GetIndex k in
      if index \<ge> int (length (ht_table t)) then Some (Inr (invalid_index er, t))
      else
        bind_run (Some (rd_table (ht_table t) index)) (\<lambda>p.
        bind_run (find_elem (ht_heap t) k p) (\<lambda>e.
        if e \<noteq> None then Some (Inr (already_exists er, t))
        else
          (case mem of
             None \<Rightarrow> Some (Inr (ERR_RTP_OUTOFMEM, t))
           | Some newelem \<Rightarrow>
               (let t = t\<lparr>ht_heap := (ht_heap t)(newelem \<mapsto> new_HashElement k elem index)\<rparr> in
                Some (bind_res (link_bucket newelem index t) (\<lambda>t.
                      bind_res (link_list newelem t) (\<lambda>t. Inr (0, t)))))))))"

definition AddElement ::
  "('k \<Rightarrow> int) \<Rightarrow> ptr \<Rightarrow> 'k \<Rightarrow> 'e \<Rightarrow> ('k, 'e) RTPKeyHashTable \<Rightarrow> (int \<times> ('k, 'e) RTPKeyHashTable) run" where
  "AddElement = add_element KEYHASHTABLE_ERRORS"

definition delete_element ::
  "ht_errors \<Rightarrow> ('k \<Rightarrow> int) \<Rightarrow> 'k \<Rightarrow> ('k, 'e) RTPKeyHashTable \<Rightarrow> (int \<times> ('k, 'e) RTPKeyHashTable) run"
where
  "delete_element er GetIndex k t =
     bind_run (goto_element er GetIndex k t) (\<lambda>(status, t).
     if status < 0 then Some (Inr (status, t)) else Some (delete_current er t))"

definition DeleteElement ::
  "('k \<Rightarrow> int) \<Rightarrow> 'k \<Rightarrow> ('k, 'e) RTPKeyHashTable \<Rightarrow> (int \<times> ('k, 'e) RTPKeyHashTable) run" where
  "DeleteElement = delete_element KEYHASHTABLE_ERRORS"

text \<open>
  The text of \<^verbatim>\<open>RTPHashTable\<close> is that of \<^verbatim>\<open>RTPKeyHashTable\<close>, with the element in the place of
  the key, no further element, and status codes of its own.
\<close>

type_synonym 'a RTPHashTable = "('a, unit) RTPKeyHashTable"

definition new_RTPHashTable :: "nat \<Rightarrow> ptr \<Rightarrow> 'a RTPHashTable" where
  "new_RTPHashTable hashsize junk = new_RTPKeyHashTable hashsize junk"

definition RTPHashTable_HasElement :: "('a \<Rightarrow> int) \<Rightarrow> 'a \<Rightarrow> 'a RTPHashTable \<Rightarrow> bool run" where
  "RTPHashTable_HasElement GetIndex e t = HasElement GetIndex e t"

definition RTPHashTable_GotoNextElement :: "'a RTPHashTable \<Rightarrow> 'a RTPHashTable res" where
  "RTPHashTable_GotoNextElement t = GotoNextElement t"

definition RTPHashTable_GotoPreviousElement :: "'a RTPHashTable \<Rightarrow> 'a RTPHashTable res" where
  "RTPHashTable_GotoPreviousElement t = GotoPreviousElement t"

definition RTPHashTable_Clear :: "'a RTPHashTable \<Rightarrow> 'a RTPHashTable run" where
  "RTPHashTable_Clear t = Clear t"

definition RTPHashTable_DeleteCurrentElement :: "'a RTPHashTable \<Rightarrow> (int \<times> 'a RTPHashTable) res" where
  "RTPHashTable_DeleteCurrentElement t = delete_current HASHTABLE_ERRORS t"

definition RTPHashTable_GetCurrentElement :: "'a RTPHashTable \<Rightarrow> 'a res" where
  "RTPHashTable_GetCurrentElement t = bind_res (deref (ht_heap t) (curhashelem t)) (\<lambda>c. Inr (he_key c))"

definition RTPHashTable_GotoElement ::
  "('a \<Rightarrow> int) \<Rightarrow> 'a \<Rightarrow> 'a RTPHashTable \<Rightarrow> (int \<times> 'a RTPHashTable) run" where
  "RTPHashTable_GotoElement GetIndex e t = goto_element HASHTABLE_ERRORS GetIndex e t"

definition RTPHashTable_AddElement ::
  "('a \<Rightarrow> int) \<Rightarrow> ptr \<Rightarrow> 'a \<Rightarrow> 'a RTPHashTable \<Rightarrow> (int \<times> 'a RTPHashTable) run" where
  "RTPHashTable_AddElement GetIndex mem e t = add_element HASHTABLE_ERRORS GetIndex mem e () t"

definition RTPHashTable_DeleteElement ::
  "('a \<Rightarrow> int) \<Rightarrow> 'a \<Rightarrow> 'a RTPHashTable \<Rightarrow> (int \<times> 'a RTPHashTable) run" where
  "RTPHashTable_DeleteElement GetIndex e t = delete_element HASHTABLE_ERRORS GetIndex e t"

text \<open>The index that the table of the sources of a session uses.\<close>

definition RTPSOURCES_HASHSIZE :: nat where "RTPSOURCES_HASHSIZE = 8317"

definition RTPSources_GetIndex :: "u32 \<Rightarrow> int" where
  "RTPSources_GetIndex ssrc = uint (ssrc mod 8317)"

end
