(* ===== verification/Links.thy ===== *)
theory Links
  imports JrtpHash
begin

text \<open>
  Doubly linked lists in a heap, for any pair of link fields: a path through the heap that the
  next pointers follow and the previous pointers follow back, and what taking a cell out, putting
  one in front and putting one at the end do to it.  The locale is what a pair of fields has to
  satisfy; \<open>core\<close> is the rest of the object, which the assignments to the links keep.
\<close>

primrec dseg ::
  "('n \<Rightarrow> ptr) \<Rightarrow> ('n \<Rightarrow> ptr) \<Rightarrow> (nat \<Rightarrow> 'n option) \<Rightarrow> ptr \<Rightarrow> nat list \<Rightarrow> ptr \<Rightarrow> ptr \<Rightarrow> bool" where
  "dseg nx pv h prev [] p q \<longleftrightarrow> p = q"
| "dseg nx pv h prev (a # as) p q \<longleftrightarrow>
     p = Some a \<and> (\<exists>e. h a = Some e \<and> pv e = prev \<and> dseg nx pv h (Some a) as (nx e) q)"

primrec last_ptr :: "ptr \<Rightarrow> nat list \<Rightarrow> ptr" where
  "last_ptr d [] = d"
| "last_ptr d (a # as) = last_ptr (Some a) as"

definition head_ptr :: "nat list \<Rightarrow> ptr" where
  "head_ptr xs = (case xs of [] \<Rightarrow> None | a # _ \<Rightarrow> Some a)"

lemma head_ptr_simps [simp]: "head_ptr [] = None" "head_ptr (a # as) = Some a"
  by (simp_all add: head_ptr_def)

lemma head_ptr_append: "head_ptr (as @ bs) = (if as = [] then head_ptr bs else head_ptr as)"
  by (cases as) auto

lemma last_ptr_append [simp]: "last_ptr d (as @ bs) = last_ptr (last_ptr d as) bs"
  by (induction as arbitrary: d) auto

lemma last_ptr_nonempty: "as \<noteq> [] \<Longrightarrow> last_ptr d as = Some (last as)"
  by (induction as arbitrary: d) auto

lemma last_ptr_None [simp]: "last_ptr None as = None \<longleftrightarrow> as = []"
  by (cases "as = []") (auto simp: last_ptr_nonempty)

lemma dseg_append:
  "dseg nx pv h prev (as @ bs) p q \<longleftrightarrow>
     (\<exists>r. dseg nx pv h prev as p r \<and> dseg nx pv h (last_ptr prev as) bs r q)"
  by (induction as arbitrary: prev p) auto

lemma dseg_heads: "dseg nx pv h prev xs p None \<Longrightarrow> p = head_ptr xs"
  by (cases xs) auto

lemma dseg_present: "dseg nx pv h prev xs p q \<Longrightarrow> a \<in> set xs \<Longrightarrow> \<exists>e. h a = Some e"
  by (induction xs arbitrary: prev p) auto

lemma dseg_cong:
  assumes "\<And>a. a \<in> set xs \<Longrightarrow>
    map_option (\<lambda>e. (nx e, pv e)) (h a) = map_option (\<lambda>e. (nx e, pv e)) (h' a)"
  shows "dseg nx pv h prev xs p q \<longleftrightarrow> dseg nx pv h' prev xs p q"
  using assms
proof (induction xs arbitrary: prev p)
  case (Cons a xs)
  have "map_option (\<lambda>e. (nx e, pv e)) (h a) = map_option (\<lambda>e. (nx e, pv e)) (h' a)"
    using Cons.prems by simp
  then show ?case
    using Cons.IH Cons.prems by (cases "h a"; cases "h' a") auto
qed simp

lemma dseg_keep:
  "(\<And>a. a \<in> set xs \<Longrightarrow> h' a = h a) \<Longrightarrow> dseg nx pv h' prev xs p q \<longleftrightarrow> dseg nx pv h prev xs p q"
  by (rule dseg_cong) simp

lemma dseg_outside: "x \<notin> set xs \<Longrightarrow> dseg nx pv (h(x := v)) prev xs p q \<longleftrightarrow> dseg nx pv h prev xs p q"
  by (rule dseg_keep) auto

text \<open>The links of one cell of a list.\<close>

lemma dseg_cell:
  assumes "dseg nx pv h prev (as @ a # bs) p None" "h a = Some e"
  shows "pv e = last_ptr prev as" "nx e = head_ptr bs"
  using assms by (auto simp: dseg_append dest: dseg_heads)

lemma store_Some [simp]: "h a = Some e \<Longrightarrow> store h (Some a) f = Inr (h(a \<mapsto> f e))"
  by (simp add: store_def deref_def)

lemma store_opt_simps [simp]:
  "store_opt h None f = Inr h" "store_opt h (Some a) f = store h (Some a) f"
  by (simp_all add: store_opt_def)

locale dlinks =
  fixes nx :: "'n \<Rightarrow> ptr" and pv :: "'n \<Rightarrow> ptr"
    and set_nx :: "ptr \<Rightarrow> 'n \<Rightarrow> 'n" and set_pv :: "ptr \<Rightarrow> 'n \<Rightarrow> 'n" and core :: "'n \<Rightarrow> 'c"
  assumes nx_set_nx [simp]: "nx (set_nx v e) = v"
    and pv_set_nx [simp]: "pv (set_nx v e) = pv e"
    and nx_set_pv [simp]: "nx (set_pv v e) = nx e"
    and pv_set_pv [simp]: "pv (set_pv v e) = v"
    and core_set_nx [simp]: "core (set_nx v e) = core e"
    and core_set_pv [simp]: "core (set_pv v e) = core e"
begin

lemma dseg_set_last:
  assumes "dseg nx pv h prev (as @ [a]) p q" "distinct (as @ [a])" "h a = Some e"
  shows "dseg nx pv (h(a \<mapsto> set_nx r e)) prev (as @ [a]) p r"
  using assms by (auto simp: dseg_append dseg_outside)

lemma dseg_set_first:
  assumes "dseg nx pv h prev (b # bs) p q" "distinct (b # bs)" "h b = Some e"
  shows "dseg nx pv (h(b \<mapsto> set_pv r e)) r (b # bs) p q"
  using assms by (auto simp: dseg_outside)

text \<open>The cells before a cut, the last of which gets another next pointer.\<close>

lemma store_before:
  assumes "dseg nx pv h None as p q" "distinct as" "as \<noteq> []"
  shows "\<exists>h1. store h (last_ptr None as) (set_nx r) = Inr h1 \<and>
    dseg nx pv h1 None as p r \<and> (\<forall>x. x \<notin> set as \<longrightarrow> h1 x = h x) \<and>
    (\<forall>x. map_option core (h1 x) = map_option core (h x))"
proof -
  obtain bs a where as: "as = bs @ [a]" using assms(3) by (metis rev_exhaust)
  obtain e where e: "h a = Some e" using assms(1) as dseg_present by fastforce
  show ?thesis
    using assms(1,2) as e dseg_set_last [of h None bs a p q e r] by auto
qed

lemma store_after:
  assumes "dseg nx pv h prev bs p None" "distinct bs"
  shows "\<exists>h1. store_opt h (head_ptr bs) (set_pv r) = Inr h1 \<and>
    dseg nx pv h1 r bs p None \<and> (\<forall>x. x \<notin> set bs \<longrightarrow> h1 x = h x) \<and>
    (\<forall>x. map_option core (h1 x) = map_option core (h x))"
proof (cases bs)
  case (Cons b cs)
  obtain e where e: "h b = Some e" using assms(1) Cons by auto
  show ?thesis
    using assms Cons e dseg_set_first [of h prev b cs p None e r] by auto
qed (use assms in simp)

text \<open>Taking out a cell.\<close>

lemma unlink:
  assumes d: "dseg nx pv h None (as @ a # bs) p None" and dist: "distinct (as @ a # bs)"
  shows "\<exists>h1 h2. (if as = [] then h1 = h
                  else store h (last_ptr None as) (set_nx (head_ptr bs)) = Inr h1) \<and>
    store_opt h1 (head_ptr bs) (set_pv (last_ptr None as)) = Inr h2 \<and>
    dseg nx pv h2 None (as @ bs) (if as = [] then head_ptr bs else p) None \<and>
    (\<forall>x. x \<notin> set (as @ bs) \<longrightarrow> h2 x = h x) \<and>
    (\<forall>x. map_option core (h2 x) = map_option core (h x))"
proof -
  from d obtain r e where A: "dseg nx pv h None as p r" and e: "h a = Some e"
    and B: "dseg nx pv h (Some a) bs (nx e) None"
    by (auto simp: dseg_append)
  have hd: "nx e = head_ptr bs" using dseg_heads [OF B] .
  obtain h1 where h1: "if as = [] then h1 = h
        else store h (last_ptr None as) (set_nx (head_ptr bs)) = Inr h1"
    and A1: "dseg nx pv h1 None as (if as = [] then head_ptr bs else p) (head_ptr bs)"
    and out1: "\<forall>x. x \<notin> set as \<longrightarrow> h1 x = h x"
    and core1: "\<forall>x. map_option core (h1 x) = map_option core (h x)"
    using store_before [OF A, of "head_ptr bs"] dist by (cases "as = []") auto
  have B1: "dseg nx pv h1 (Some a) bs (head_ptr bs) None"
  proof -
    have "h1 x = h x" if "x \<in> set bs" for x using that dist out1 by auto
    then show ?thesis using B hd dseg_keep [of bs h1 h] by simp
  qed
  obtain h2 where h2: "store_opt h1 (head_ptr bs) (set_pv (last_ptr None as)) = Inr h2"
    and B2: "dseg nx pv h2 (last_ptr None as) bs (head_ptr bs) None"
    and out2: "\<forall>x. x \<notin> set bs \<longrightarrow> h2 x = h1 x"
    and core2: "\<forall>x. map_option core (h2 x) = map_option core (h1 x)"
    using store_after [OF B1, of "last_ptr None as"] dist by auto
  have A2: "dseg nx pv h2 None as (if as = [] then head_ptr bs else p) (head_ptr bs)"
  proof -
    have "h2 x = h1 x" if "x \<in> set as" for x using that dist out2 by auto
    then show ?thesis using A1 dseg_keep [of as h2 h1] by simp
  qed
  show ?thesis
    using h1 h2 A2 B2 out1 out2 core1 core2 by (intro exI [of _ h1] exI [of _ h2]) (auto simp: dseg_append)
qed

text \<open>A new cell in front, and one at the end.\<close>

lemma push_front:
  assumes d: "dseg nx pv h None xs p None" and a: "a \<notin> set xs" "distinct xs"
    and c: "h a = Some c" "pv c = None"
  shows "\<exists>h1. store_opt (h(a \<mapsto> set_nx p c)) p (set_pv (Some a)) = Inr h1 \<and>
    dseg nx pv h1 None (a # xs) (Some a) None \<and> (\<forall>x. x \<notin> set (a # xs) \<longrightarrow> h1 x = h x) \<and>
    (\<forall>x. map_option core (h1 x) = map_option core (h x))"
proof -
  let ?h = "h(a \<mapsto> set_nx p c)"
  have p: "p = head_ptr xs" using dseg_heads [OF d] .
  have "dseg nx pv ?h None xs p None" using d a by (simp add: dseg_outside)
  from store_after [OF this a(2), of "Some a"] obtain h1 where
    h1: "store_opt ?h p (set_pv (Some a)) = Inr h1" "dseg nx pv h1 (Some a) xs p None"
      "\<forall>x. x \<notin> set xs \<longrightarrow> h1 x = ?h x" "\<forall>x. map_option core (h1 x) = map_option core (?h x)"
    using p by auto
  have "h1 a = Some (set_nx p c)" using h1(3) a by simp
  then show ?thesis using h1 a c by (intro exI [of _ h1]) auto
qed

lemma push_back:
  assumes d: "dseg nx pv h None xs p None" and xs: "xs \<noteq> []" and a: "a \<notin> set xs" "distinct xs"
    and c: "h a = Some c" "nx c = None"
  shows "\<exists>h1. store h (last_ptr None xs) (set_nx (Some a)) = Inr h1 \<and> h1 a = Some c \<and>
    dseg nx pv (h1(a \<mapsto> set_pv (last_ptr None xs) c)) None (xs @ [a]) p None \<and>
    (\<forall>x. x \<notin> set xs \<longrightarrow> h1 x = h x) \<and> (\<forall>x. map_option core (h1 x) = map_option core (h x))"
proof -
  from store_before [OF d a(2) xs, of "Some a"] obtain h1 where
    h1: "store h (last_ptr None xs) (set_nx (Some a)) = Inr h1" "dseg nx pv h1 None xs p (Some a)"
      "\<forall>x. x \<notin> set xs \<longrightarrow> h1 x = h x" "\<forall>x. map_option core (h1 x) = map_option core (h x)"
    by auto
  show ?thesis using h1 a c by (intro exI [of _ h1]) (auto simp: dseg_append dseg_outside)
qed

end

interpretation bucket_links: dlinks hashnext hashprev "\<lambda>v e. e\<lparr>hashnext := v\<rparr>" "\<lambda>v e. e\<lparr>hashprev := v\<rparr>"
  "\<lambda>e. (hashindex e, he_key e, he_element e, listprev e, listnext e)"
  by unfold_locales auto

interpretation list_links: dlinks listnext listprev "\<lambda>v e. e\<lparr>listnext := v\<rparr>" "\<lambda>v e. e\<lparr>listprev := v\<rparr>"
  "\<lambda>e. (hashindex e, he_key e, he_element e, hashprev e, hashnext e)"
  by unfold_locales auto

end
