(* ===== verification/JrtpHashRun.thy ===== *)
theory JrtpHashRun
  imports Links
begin

text \<open>
  The hash tables of jrtplib implement maps that remember the order in which their keys were added
  and have a current key.  The invariant relates a table to the list of the addresses of its
  elements, in that order; each bucket is the part of the list with its index, backwards.
\<close>

section \<open>Invariant\<close>

definition dat :: "(nat \<Rightarrow> ('k, 'e) HashElement option) \<Rightarrow> nat \<Rightarrow> (int \<times> 'k \<times> 'e) option" where
  "dat h a = map_option (\<lambda>e. (hashindex e, he_key e, he_element e)) (h a)"

definition in_bucket :: "(nat \<Rightarrow> ('k, 'e) HashElement option) \<Rightarrow> int \<Rightarrow> nat \<Rightarrow> bool" where
  "in_bucket h i a \<longleftrightarrow> (case dat h a of None \<Rightarrow> False | Some (j, _) \<Rightarrow> j = i)"

definition bucket :: "(nat \<Rightarrow> ('k, 'e) HashElement option) \<Rightarrow> int \<Rightarrow> nat list \<Rightarrow> nat list" where
  "bucket h i xs = rev (filter (in_bucket h i) xs)"

text \<open>Keys and elements, in the order of the list.\<close>

definition content :: "(nat \<Rightarrow> ('k, 'e) HashElement option) \<Rightarrow> nat list \<Rightarrow> ('k \<times> 'e) list" where
  "content h xs = map (\<lambda>a. snd (the (dat h a))) xs"

definition cells_ok ::
  "('k \<Rightarrow> int) \<Rightarrow> nat \<Rightarrow> (nat \<Rightarrow> ('k, 'e) HashElement option) \<Rightarrow> nat list \<Rightarrow> bool" where
  "cells_ok GetIndex hashsize h xs \<longleftrightarrow>
     distinct xs \<and> dom h = set xs \<and> distinct (map fst (content h xs)) \<and>
     (\<forall>a i k e. dat h a = Some (i, k, e) \<longrightarrow> i = GetIndex k \<and> 0 \<le> i \<and> i < int hashsize)"

definition buckets_ok :: "(nat \<Rightarrow> ('k, 'e) HashElement option) \<Rightarrow> ptr list \<Rightarrow> nat list \<Rightarrow> bool" where
  "buckets_ok h tb xs \<longleftrightarrow>
     (\<forall>i<length tb. dseg hashnext hashprev h None (bucket h (int i) xs) (tb ! i) None)"

definition ht_inv :: "('k \<Rightarrow> int) \<Rightarrow> ('k, 'e) RTPKeyHashTable \<Rightarrow> nat list \<Rightarrow> bool" where
  "ht_inv GetIndex t xs \<longleftrightarrow>
     cells_ok GetIndex (length (ht_table t)) (ht_heap t) xs \<and>
     dseg listnext listprev (ht_heap t) None xs (firsthashelem t) None \<and>
     lasthashelem t = last_ptr None xs \<and> buckets_ok (ht_heap t) (ht_table t) xs"

lemma core_proj:
  assumes "\<forall>x. map_option core (h' x) = map_option core (h x)" "\<And>e. f e = g (core e)"
  shows "map_option f (h' x) = map_option f (h x)"
  using assms(1) [rule_format, of x] assms(2) by (cases "h x"; cases "h' x") auto

lemma bucket_core:
  assumes "\<forall>x. map_option (\<lambda>e. (hashindex e, he_key e, he_element e, listprev e, listnext e)) (h' x) =
               map_option (\<lambda>e. (hashindex e, he_key e, he_element e, listprev e, listnext e)) (h x)"
  shows "dat h' = dat h"
    and "dseg listnext listprev h' prev xs p q \<longleftrightarrow> dseg listnext listprev h prev xs p q"
proof -
  show "dat h' = dat h"
    unfolding dat_def
    by (rule ext, rule core_proj [OF assms, where g = "\<lambda>(i, k, e, _). (i, k, e)"]) simp
  show "dseg listnext listprev h' prev xs p q \<longleftrightarrow> dseg listnext listprev h prev xs p q"
    by (rule dseg_cong,
        rule core_proj [OF assms, where g = "\<lambda>(i, k, e, p, n). (n, p)"]) simp
qed

lemma list_core:
  assumes "\<forall>x. map_option (\<lambda>e. (hashindex e, he_key e, he_element e, hashprev e, hashnext e)) (h' x) =
               map_option (\<lambda>e. (hashindex e, he_key e, he_element e, hashprev e, hashnext e)) (h x)"
  shows "dat h' = dat h"
    and "dseg hashnext hashprev h' prev xs p q \<longleftrightarrow> dseg hashnext hashprev h prev xs p q"
proof -
  show "dat h' = dat h"
    unfolding dat_def
    by (rule ext, rule core_proj [OF assms, where g = "\<lambda>(i, k, e, _). (i, k, e)"]) simp
  show "dseg hashnext hashprev h' prev xs p q \<longleftrightarrow> dseg hashnext hashprev h prev xs p q"
    by (rule dseg_cong,
        rule core_proj [OF assms, where g = "\<lambda>(i, k, e, p, n). (n, p)"]) simp
qed

lemma dat_dom: "dat h' = dat h \<Longrightarrow> dom h' = dom h"
proof -
  assume "dat h' = dat h"
  then have "h' a = None \<longleftrightarrow> h a = None" for a
    by (metis dat_def option.map_disc_iff)
  then show ?thesis by (auto simp: dom_def)
qed

lemma bucket_dat: "dat h' = dat h \<Longrightarrow> bucket h' i xs = bucket h i xs"
  by (simp add: bucket_def in_bucket_def [abs_def])

lemma content_dat: "dat h' = dat h \<Longrightarrow> content h' xs = content h xs"
  by (simp add: content_def)

lemma cells_ok_dat: "dat h' = dat h \<Longrightarrow> cells_ok g n h' xs \<longleftrightarrow> cells_ok g n h xs"
  by (simp add: cells_ok_def content_dat [of h' h] dat_dom [of h' h])

lemma in_bucket_iff: "h a = Some e \<Longrightarrow> in_bucket h i a \<longleftrightarrow> hashindex e = i"
  by (simp add: in_bucket_def dat_def)

lemma bucket_set: "a \<in> set (bucket h i xs) \<longleftrightarrow> a \<in> set xs \<and> in_bucket h i a"
  by (simp add: bucket_def)

lemma bucket_mid:
  "in_bucket h i a \<Longrightarrow> bucket h i (as @ a # bs) = bucket h i bs @ a # bucket h i as"
  "bucket h i (as @ bs) = bucket h i bs @ bucket h i as"
  by (simp_all add: bucket_def)

lemma bucket_other: "\<not> in_bucket h i a \<Longrightarrow> bucket h i (as @ a # bs) = bucket h i (as @ bs)"
  by (simp add: bucket_def)

lemma bucket_distinct: "distinct xs \<Longrightarrow> distinct (bucket h i xs)"
  by (simp add: bucket_def)

lemma in_bucket_unique: "in_bucket h i a \<Longrightarrow> in_bucket h j a \<Longrightarrow> i = j"
  by (auto simp: in_bucket_def split: option.splits)

section \<open>Searching\<close>

lemma find_elem_run:
  assumes "dseg hashnext hashprev h prev ys p None"
  shows "find_elem h k p = Some (Inr (List.find (\<lambda>a. he_key (the (h a)) = k) ys))"
  using assms
proof (induction ys arbitrary: prev p)
  case (Cons a ys)
  then show ?case by (subst find_elem.simps) auto
qed (subst find_elem.simps, simp)

lemma content_Some:
  "h a = Some e \<Longrightarrow> snd (the (dat h a)) = (he_key e, he_element e)"
  by (simp add: dat_def)

text \<open>The element with a key is found in its bucket.\<close>

definition key_addr :: "(nat \<Rightarrow> ('k, 'e) HashElement option) \<Rightarrow> 'k \<Rightarrow> nat list \<Rightarrow> ptr" where
  "key_addr h k xs = List.find (\<lambda>a. fst (snd (the (dat h a))) = k) xs"

lemma key_addr_Some:
  assumes "cells_ok g n h xs"
  shows "key_addr h k xs = Some a \<longleftrightarrow> a \<in> set xs \<and> fst (snd (the (dat h a))) = k"
proof
  assume "key_addr h k xs = Some a"
  then show "a \<in> set xs \<and> fst (snd (the (dat h a))) = k"
    by (auto simp: key_addr_def find_Some_iff)
next
  assume R: "a \<in> set xs \<and> fst (snd (the (dat h a))) = k"
  then obtain b where b: "key_addr h k xs = Some b"
    by (cases "key_addr h k xs") (auto simp: key_addr_def find_None_iff)
  then have "b \<in> set xs" "fst (snd (the (dat h b))) = k"
    by (auto simp: key_addr_def find_Some_iff)
  moreover have "inj_on (\<lambda>a. fst (snd (the (dat h a)))) (set xs)"
    using assms by (simp add: cells_ok_def content_def distinct_map comp_def)
  ultimately show "key_addr h k xs = Some a"
    using R b by (auto dest: inj_onD)
qed

lemma key_addr_None:
  "key_addr h k xs = None \<longleftrightarrow> k \<notin> fst ` set (content h xs)"
  by (auto simp: key_addr_def find_None_iff content_def image_iff)

lemma find_in_bucket:
  assumes ok: "cells_ok g n h xs"
  shows "List.find (\<lambda>a. he_key (the (h a)) = k) (bucket h (g k) xs) = key_addr h k xs"
proof -
  have cell: "\<exists>e. h a = Some e" if "a \<in> set xs" for a
    using that ok by (auto simp: cells_ok_def)
  have key: "he_key (the (h a)) = fst (snd (the (dat h a)))" if "a \<in> set xs" for a
    using cell [OF that] by (auto simp: dat_def)
  have own: "in_bucket h (g (he_key (the (h a)))) a" if a: "a \<in> set xs" for a
  proof -
    obtain e where e: "h a = Some e" using cell [OF a] by blast
    then have "dat h a = Some (hashindex e, he_key e, he_element e)" by (simp add: dat_def)
    then have "hashindex e = g (he_key e)" using ok unfolding cells_ok_def by blast
    then show ?thesis using e by (simp add: in_bucket_iff)
  qed
  show ?thesis
  proof (cases "List.find (\<lambda>a. he_key (the (h a)) = k) (bucket h (g k) xs)")
    case None
    then have "\<forall>a\<in>set xs. he_key (the (h a)) \<noteq> k"
      using own by (fastforce simp: find_None_iff bucket_set)
    then have "key_addr h k xs = None"
      using key by (simp add: key_addr_def find_None_iff)
    then show ?thesis
      using None by simp
  next
    case (Some a)
    then have "a \<in> set xs" "he_key (the (h a)) = k"
      by (auto simp: find_Some_iff bucket_set dest: nth_mem)
    then have "key_addr h k xs = Some a"
      using key key_addr_Some [OF ok, of k a] by simp
    then show ?thesis
      using Some by simp
  qed
qed

lemma ht_inv_bucket:
  assumes "ht_inv g t xs" "0 \<le> i" "i < int (length (ht_table t))"
  shows "dseg hashnext hashprev (ht_heap t) None (bucket (ht_heap t) i xs) (ht_table t ! nat i) None"
proof -
  have "nat i < length (ht_table t)" "int (nat i) = i" using assms by auto
  then show ?thesis using assms(1) unfolding ht_inv_def buckets_ok_def by metis
qed

lemma search_run:
  assumes inv: "ht_inv g t xs" and k: "0 \<le> g k" "g k < int (length (ht_table t))"
  shows "rd_table (ht_table t) (g k) = Inr (ht_table t ! nat (g k))"
    and "find_elem (ht_heap t) k (ht_table t ! nat (g k)) = Some (Inr (key_addr (ht_heap t) k xs))"
proof -
  have i: "nat (g k) < length (ht_table t)" "int (nat (g k)) = g k" using k by auto
  show "rd_table (ht_table t) (g k) = Inr (ht_table t ! nat (g k))"
    using i k by (simp add: rd_table_def)
  have "dseg hashnext hashprev (ht_heap t) None (bucket (ht_heap t) (g k) xs)
      (ht_table t ! nat (g k)) None"
    by (rule ht_inv_bucket [OF inv k])
  then show "find_elem (ht_heap t) k (ht_table t ! nat (g k)) = Some (Inr (key_addr (ht_heap t) k xs))"
    using inv find_in_bucket [of g "length (ht_table t)" "ht_heap t" xs k]
    by (simp add: find_elem_run ht_inv_def)
qed

lemma goto_run:
  assumes "ht_inv g t xs" "0 \<le> g k" "g k < int (length (ht_table t))"
  shows "goto_element er g k t =
    Some (Inr (if key_addr (ht_heap t) k xs = None then not_found er else 0, t\<lparr>curhashelem := key_addr (ht_heap t) k xs\<rparr>))"
  using assms search_run [OF assms] by (simp add: goto_element_def)

lemma has_run:
  assumes "ht_inv g t xs" "0 \<le> g k" "g k < int (length (ht_table t))"
  shows "HasElement g k t = Some (Inr (k \<in> fst ` set (content (ht_heap t) xs)))"
  using assms search_run [OF assms] key_addr_None [of "ht_heap t" k xs] by (auto simp: HasElement_def)

section \<open>Taking out the current element\<close>

text \<open>Taking \<open>a\<close> out of bucket \<open>i\<close> leaves the other buckets as they are.\<close>

lemma buckets_ok_unlink:
  assumes inv: "ht_inv g t (as @ a # bs)" and mine: "in_bucket (ht_heap t) i a"
    and i: "0 \<le> i" "i < int (length (ht_table t))"
    and dat: "dat h = dat (ht_heap t)"
    and cells: "\<forall>x. x \<notin> set (bucket (ht_heap t) i bs @ bucket (ht_heap t) i as) \<longrightarrow> h x = ht_heap t x"
    and own: "dseg hashnext hashprev h None (bucket (ht_heap t) i bs @ bucket (ht_heap t) i as) (tb ! nat i) None"
    and tb: "length tb = length (ht_table t)" "\<forall>j. j \<noteq> nat i \<longrightarrow> tb ! j = ht_table t ! j"
  shows "buckets_ok h tb (as @ bs)"
  unfolding buckets_ok_def
proof (intro allI impI)
  fix j assume j: "j < length tb"
  show "dseg hashnext hashprev h None (bucket h (int j) (as @ bs)) (tb ! j) None"
  proof (cases "int j = i")
    case True
    then have "nat i = j" by simp
    then show ?thesis using own by (simp only: True bucket_dat [OF dat] bucket_mid(2))
  next
    case False
    then have nb: "\<not> in_bucket (ht_heap t) (int j) a" using mine in_bucket_unique by metis
    have "h x = ht_heap t x" if "x \<in> set (bucket (ht_heap t) (int j) (as @ bs))" for x
      using that False cells in_bucket_unique [of "ht_heap t" "int j" x i] by (auto simp: bucket_set)
    moreover have "dseg hashnext hashprev (ht_heap t) None (bucket (ht_heap t) (int j) (as @ bs)) (ht_table t ! j) None"
      using ht_inv_bucket [OF inv, of "int j"] j tb(1) by (simp add: bucket_other [OF nb])
    ultimately have "dseg hashnext hashprev h None (bucket (ht_heap t) (int j) (as @ bs)) (ht_table t ! j) None"
      using dseg_keep [of "bucket (ht_heap t) (int j) (as @ bs)" h "ht_heap t"] by blast
    moreover have "tb ! j = ht_table t ! j" using False i tb(2) by auto
    ultimately show ?thesis by (simp add: bucket_dat [OF dat])
  qed
qed

lemma relink_bucket_run:
  assumes inv: "ht_inv g t (as @ a # bs)" and cur: "curhashelem t = Some a"
  shows "\<exists>tb h. relink_bucket t = Inr (t\<lparr>ht_table := tb, ht_heap := h\<rparr>) \<and>
    length tb = length (ht_table t) \<and> buckets_ok h tb (as @ bs) \<and> dat h = dat (ht_heap t) \<and>
    dseg listnext listprev h None (as @ a # bs) (firsthashelem t) None"
proof -
  let ?h = "ht_heap t"
  have list: "dseg listnext listprev ?h None (as @ a # bs) (firsthashelem t) None"
    using inv by (simp add: ht_inv_def)
  then obtain e where e: "?h a = Some e"
    using dseg_present [of listnext listprev ?h None "as @ a # bs" _ None a] by auto
  define i where "i = hashindex e"
  have dat_a: "dat ?h a = Some (i, he_key e, he_element e)" by (simp add: dat_def e i_def)
  then have i: "0 \<le> i" "i < int (length (ht_table t))"
    using inv unfolding ht_inv_def cells_ok_def by blast+
  have mine: "in_bucket ?h i a" using e by (simp add: in_bucket_iff i_def)
  let ?as = "bucket ?h i bs" and ?bs = "bucket ?h i as"
  have dist: "distinct (as @ a # bs)" using inv by (simp add: ht_inv_def cells_ok_def)
  have dseg: "dseg hashnext hashprev ?h None (?as @ a # ?bs) (ht_table t ! nat i) None"
    using ht_inv_bucket [OF inv i] by (simp only: bucket_mid(1) [OF mine])
  have dist': "distinct (?as @ a # ?bs)"
    using bucket_distinct [OF dist, of ?h i] by (simp only: bucket_mid(1) [OF mine])
  have links: "hashprev e = last_ptr None ?as" "hashnext e = head_ptr ?bs"
    using dseg_cell [OF dseg e] by auto
  obtain h1 h2 where h1: "if ?as = [] then h1 = ?h
        else store ?h (last_ptr None ?as) (\<lambda>e. e\<lparr>hashnext := head_ptr ?bs\<rparr>) = Inr h1"
    and h2: "store_opt h1 (head_ptr ?bs) (\<lambda>e. e\<lparr>hashprev := last_ptr None ?as\<rparr>) = Inr h2"
    and d2: "dseg hashnext hashprev h2 None (?as @ ?bs)
        (if ?as = [] then head_ptr ?bs else ht_table t ! nat i) None"
    and out: "\<forall>x. x \<notin> set (?as @ ?bs) \<longrightarrow> h2 x = ?h x"
    and core: "\<forall>x. map_option (\<lambda>e. (hashindex e, he_key e, he_element e, listprev e, listnext e)) (h2 x) =
               map_option (\<lambda>e. (hashindex e, he_key e, he_element e, listprev e, listnext e)) (?h x)"
    using bucket_links.unlink [OF dseg dist'] by blast
  define tb where "tb = (if ?as = [] then (ht_table t)[nat i := head_ptr ?bs] else ht_table t)"
  have run: "relink_bucket t = Inr (t\<lparr>ht_table := tb, ht_heap := h2\<rparr>)"
    using h1 h2 i by (auto simp: relink_bucket_def cur deref_def e links tb_def wr_table_def wr_def
        i_def [symmetric] Let_def split: if_splits)
  have dat: "dat h2 = dat ?h" by (rule bucket_core(1) [OF core])
  have tb: "length tb = length (ht_table t)" "\<forall>j. j \<noteq> nat i \<longrightarrow> tb ! j = ht_table t ! j"
    "tb ! nat i = (if ?as = [] then head_ptr ?bs else ht_table t ! nat i)"
    using i by (auto simp: tb_def)
  have "buckets_ok h2 tb (as @ bs)"
    by (rule buckets_ok_unlink [OF inv mine i dat out _ tb(1,2)]) (use d2 in \<open>simp only: tb(3)\<close>)
  moreover have "dseg listnext listprev h2 None (as @ a # bs) (firsthashelem t) None"
    using list by (simp add: bucket_core(2) [OF core])
  ultimately show ?thesis using run dat tb(1) by blast
qed

lemma relink_list_run:
  assumes dseg: "dseg listnext listprev (ht_heap t) None (as @ a # bs) (firsthashelem t) None"
    and dist: "distinct (as @ a # bs)" and last: "lasthashelem t = last_ptr None (as @ a # bs)"
    and cur: "curhashelem t = Some a"
  shows "\<exists>h first. relink_list t =
      Inr (t\<lparr>ht_heap := h, firsthashelem := first, lasthashelem := last_ptr None (as @ bs)\<rparr>, head_ptr bs) \<and>
    dseg listnext listprev h None (as @ bs) first None \<and> dat h = dat (ht_heap t) \<and>
    (\<forall>prev ys p q. dseg hashnext hashprev h prev ys p q \<longleftrightarrow> dseg hashnext hashprev (ht_heap t) prev ys p q)"
proof -
  let ?h = "ht_heap t"
  obtain e where e: "?h a = Some e" using dseg_present [OF dseg, of a] by auto
  have links: "listprev e = last_ptr None as" "listnext e = head_ptr bs"
    using dseg_cell [OF dseg e] by auto
  obtain h1 h2 where h1: "if as = [] then h1 = ?h
        else store ?h (last_ptr None as) (\<lambda>e. e\<lparr>listnext := head_ptr bs\<rparr>) = Inr h1"
    and h2: "store_opt h1 (head_ptr bs) (\<lambda>e. e\<lparr>listprev := last_ptr None as\<rparr>) = Inr h2"
    and d2: "dseg listnext listprev h2 None (as @ bs) (if as = [] then head_ptr bs else firsthashelem t) None"
    and core: "\<forall>x. map_option (\<lambda>e. (hashindex e, he_key e, he_element e, hashprev e, hashnext e)) (h2 x) =
               map_option (\<lambda>e. (hashindex e, he_key e, he_element e, hashprev e, hashnext e)) (?h x)"
    using list_links.unlink [OF dseg dist] by blast
  let ?first = "if as = [] then head_ptr bs else firsthashelem t"
  have "relink_list t =
      Inr (t\<lparr>ht_heap := h2, firsthashelem := ?first, lasthashelem := last_ptr None (as @ bs)\<rparr>, head_ptr bs)"
    using h1 h2 last by (cases bs) (auto simp: relink_list_def cur deref_def e links Let_def)
  then show ?thesis
    using d2 list_core [OF core] by blast
qed

end
