(* ===== verification/JrtpHashSpec.thy ===== *)
theory JrtpHashSpec
  imports JrtpHashRun
begin

text \<open>
  What the hash tables of jrtplib promise, as a list of keys with their elements and a cursor, and
  the proof that any sequence of operations on a table gives what it gives on the list.
\<close>

section \<open>One operation at a time\<close>

lemma content_append: "content h (xs @ ys) = content h xs @ content h ys"
  by (simp add: content_def)

lemma dat_delete: "dat (h(a := None)) = (dat h)(a := None)"
  by (rule ext) (simp add: dat_def)

lemma bucket_delete: "a \<notin> set xs \<Longrightarrow> bucket (h(a := None)) i xs = bucket h i xs"
  by (auto simp: bucket_def in_bucket_def dat_delete intro!: filter_cong split: if_splits)

lemma content_delete: "a \<notin> set xs \<Longrightarrow> content (h(a := None)) xs = content h xs"
  by (auto simp: content_def dat_delete)

lemma cells_ok_remove:
  assumes "cells_ok g n h (as @ a # bs)"
  shows "cells_ok g n (h(a := None)) (as @ bs)"
proof -
  have a: "a \<notin> set (as @ bs)" using assms by (auto simp: cells_ok_def)
  have "distinct (map fst (content h (as @ bs)))"
    using assms by (auto simp: cells_ok_def content_def)
  moreover have "dom (h(a := None)) = set (as @ bs)"
    using assms a by (auto simp: cells_ok_def)
  ultimately show ?thesis
    using assms by (auto simp: cells_ok_def content_delete [OF a] dat_delete)
qed

lemma delete_run:
  assumes inv: "ht_inv g t (as @ a # bs)" and cur: "curhashelem t = Some a"
  shows "\<exists>t'. delete_current er t = Inr (0, t') \<and> ht_inv g t' (as @ bs) \<and>
    content (ht_heap t') (as @ bs) = content (ht_heap t) (as @ bs) \<and>
    curhashelem t' = head_ptr bs \<and> length (ht_table t') = length (ht_table t) \<and>
    (\<forall>x\<in>set (as @ bs). dat (ht_heap t') x = dat (ht_heap t) x)"
proof -
  have cells: "cells_ok g (length (ht_table t)) (ht_heap t) (as @ a # bs)"
    and last: "lasthashelem t = last_ptr None (as @ a # bs)"
    using inv by (auto simp: ht_inv_def)
  then have dist: "distinct (as @ a # bs)" and a: "a \<notin> set (as @ bs)"
    by (auto simp: cells_ok_def)
  obtain tb h where run1: "relink_bucket t = Inr (t\<lparr>ht_table := tb, ht_heap := h\<rparr>)"
    and tb: "length tb = length (ht_table t)" "buckets_ok h tb (as @ bs)"
    and dat1: "dat h = dat (ht_heap t)"
    and d1: "dseg listnext listprev h None (as @ a # bs) (firsthashelem t) None"
    using relink_bucket_run [OF inv cur] by blast
  let ?t1 = "t\<lparr>ht_table := tb, ht_heap := h\<rparr>"
  have "dseg listnext listprev (ht_heap ?t1) None (as @ a # bs) (firsthashelem ?t1) None"
    "lasthashelem ?t1 = last_ptr None (as @ a # bs)" "curhashelem ?t1 = Some a"
    using d1 last cur by auto
  from relink_list_run [OF this(1) dist this(2,3)] obtain h' first where
    run2: "relink_list ?t1 =
      Inr (?t1\<lparr>ht_heap := h', firsthashelem := first, lasthashelem := last_ptr None (as @ bs)\<rparr>, head_ptr bs)"
    and d2: "dseg listnext listprev h' None (as @ bs) first None" and dat2: "dat h' = dat h"
    and keep: "\<forall>prev ys p q. dseg hashnext hashprev h' prev ys p q \<longleftrightarrow> dseg hashnext hashprev h prev ys p q"
    by auto
  have dat: "dat h' = dat (ht_heap t)" using dat1 dat2 by simp
  have cells': "cells_ok g (length tb) h' (as @ a # bs)"
    using cells tb by (simp add: cells_ok_dat [OF dat])
  then have "h' a \<noteq> None" by (auto simp: cells_ok_def)
  let ?t' = "t\<lparr>ht_table := tb, ht_heap := h'(a := None), firsthashelem := first,
    lasthashelem := last_ptr None (as @ bs), curhashelem := head_ptr bs\<rparr>"
  have "delete_current er t = Inr (0, ?t')"
    using run1 run2 \<open>h' a \<noteq> None\<close> cur by (simp add: delete_current_def RTPDelete_def)
  moreover have "buckets_ok (h'(a := None)) tb (as @ bs)"
    unfolding buckets_ok_def
  proof (intro allI impI)
    fix i assume i: "i < length tb"
    have "dseg hashnext hashprev h' None (bucket h (int i) (as @ bs)) (tb ! i) None"
      using tb(2) i keep by (simp add: buckets_ok_def)
    moreover have "a \<notin> set (bucket h (int i) (as @ bs))" using a by (simp add: bucket_set)
    ultimately show "dseg hashnext hashprev (h'(a := None)) None
        (bucket (h'(a := None)) (int i) (as @ bs)) (tb ! i) None"
      by (simp only: dseg_outside bucket_delete [OF a] bucket_dat [OF dat2] not_False_eq_True)
  qed
  then have "ht_inv g ?t' (as @ bs)"
    using cells_ok_remove [OF cells'] d2 a by (simp add: ht_inv_def dseg_outside)
  moreover have "content (h'(a := None)) (as @ bs) = content (ht_heap t) (as @ bs)"
    by (simp only: content_delete [OF a] content_dat [OF dat])
  moreover have "\<forall>x\<in>set (as @ bs). dat (h'(a := None)) x = dat (ht_heap t) x"
    using a by (auto simp: dat_delete dat)
  ultimately show ?thesis
    using tb(1) by (intro exI [of _ ?t']) simp
qed

lemma dat_add:
  "dat (h(a \<mapsto> new_HashElement k e i)) = (dat h)(a \<mapsto> (i, k, e))"
  by (rule ext) (simp add: dat_def new_HashElement_def)

text \<open>The part of the list that a bucket takes, when an element has been added.\<close>

lemma bucket_add:
  assumes "a \<notin> set xs" "dat h' = (dat h)(a \<mapsto> (i, k, e))"
  shows "bucket h' j (xs @ [a]) = (if j = i then a # bucket h j xs else bucket h j xs)"
proof -
  have "filter (in_bucket h' j) xs = filter (in_bucket h j) xs"
    using assms by (intro filter_cong) (auto simp: in_bucket_def)
  then show ?thesis using assms(2) by (auto simp: bucket_def in_bucket_def)
qed

lemma content_add:
  assumes "a \<notin> set xs" "dat h' = (dat h)(a \<mapsto> (i, k, e))"
  shows "content h' (xs @ [a]) = content h xs @ [(k, e)]"
  using assms by (auto simp: content_def)

lemma cells_ok_add:
  assumes "cells_ok g n h xs" "a \<notin> set xs" "dat h' = (dat h)(a \<mapsto> (g k, k, e))"
    and "0 \<le> g k" "g k < int n" "k \<notin> fst ` set (content h xs)"
  shows "cells_ok g n h' (xs @ [a])"
proof -
  have "dom h' = {x. dat h' x \<noteq> None}" "dom h = {x. dat h x \<noteq> None}" by (auto simp: dat_def dom_def)
  then have "dom h' = insert a (dom h)" using assms(3) by auto
  then show ?thesis
    using assms(1,2,4-6) unfolding cells_ok_def
    by (auto simp: content_add [OF assms(2,3)] assms(3))
qed

text \<open>The new cell is in its own bucket only.\<close>

lemma buckets_ok_link:
  assumes inv: "ht_inv g t xs" and i: "0 \<le> i" and a: "a \<notin> set xs"
    and d: "dseg hashnext hashprev h None (a # bucket (ht_heap t) i xs) (Some a) None"
    and out: "\<forall>x. x \<notin> set (a # bucket (ht_heap t) i xs) \<longrightarrow> h x = ht_heap t x"
    and dat: "dat h = (dat (ht_heap t))(a \<mapsto> (i, k, e))"
  shows "buckets_ok h ((ht_table t)[nat i := Some a]) (xs @ [a])"
  unfolding buckets_ok_def
proof (intro allI impI)
  fix j assume j: "j < length ((ht_table t)[nat i := Some a])"
  show "dseg hashnext hashprev h None (bucket h (int j) (xs @ [a])) ((ht_table t)[nat i := Some a] ! j) None"
  proof (cases "j = nat i")
    case True
    then show ?thesis using d j i by (simp add: bucket_add [OF a dat])
  next
    case False
    then have ne: "int j \<noteq> i" by auto
    have "h x = ht_heap t x" if x: "x \<in> set (bucket (ht_heap t) (int j) xs)" for x
    proof -
      have "x \<in> set xs" "in_bucket (ht_heap t) (int j) x" using x by (auto simp: bucket_set)
      then have "x \<noteq> a" "x \<notin> set (a # bucket (ht_heap t) i xs)"
        using a ne in_bucket_unique [of "ht_heap t" "int j" x i] by (auto simp: bucket_set)
      then show ?thesis using out by simp
    qed
    then have "dseg hashnext hashprev h None (bucket (ht_heap t) (int j) xs) (ht_table t ! j) None"
      using ht_inv_bucket [OF inv, of "int j"] j
        dseg_keep [of "bucket (ht_heap t) (int j) xs" h "ht_heap t"] by simp
    then show ?thesis using False ne by (simp add: bucket_add [OF a dat])
  qed
qed

lemma link_bucket_run:
  assumes inv: "ht_inv g t xs" and k: "0 \<le> g k" "g k < int (length (ht_table t))"
    and a: "a \<notin> set xs"
    and t0: "t0 = t\<lparr>ht_heap := (ht_heap t)(a \<mapsto> new_HashElement k e (g k))\<rparr>"
  shows "\<exists>tb h. link_bucket a (g k) t0 = Inr (t0\<lparr>ht_table := tb, ht_heap := h\<rparr>) \<and>
    length tb = length (ht_table t) \<and> buckets_ok h tb (xs @ [a]) \<and>
    dat h = (dat (ht_heap t))(a \<mapsto> (g k, k, e)) \<and>
    dseg listnext listprev h None xs (firsthashelem t) None \<and>
    (\<exists>c. h a = Some c \<and> listnext c = None \<and> listprev c = None)"
proof -
  let ?i = "nat (g k)" and ?h0 = "ht_heap t0" and ?c = "new_HashElement k e (g k)"
  let ?ys = "bucket (ht_heap t) (g k) xs"
  have i: "?i < length (ht_table t)" using k by auto
  have ys: "a \<notin> set ?ys" "distinct ?ys"
    using a inv by (auto simp: bucket_set ht_inv_def cells_ok_def intro: bucket_distinct)
  have c: "?h0 a = Some ?c" "hashprev ?c = None" by (simp_all add: t0 new_HashElement_def)
  have "dseg hashnext hashprev ?h0 None ?ys (ht_table t ! ?i) None"
    using ht_inv_bucket [OF inv k] ys by (simp add: t0 dseg_outside)
  from bucket_links.push_front [OF this ys c] obtain h where
    h: "store_opt (?h0(a \<mapsto> ?c\<lparr>hashnext := ht_table t ! ?i\<rparr>)) (ht_table t ! ?i)
          (\<lambda>c. c\<lparr>hashprev := Some a\<rparr>) = Inr h"
    and d: "dseg hashnext hashprev h None (a # ?ys) (Some a) None"
    and out: "\<forall>x. x \<notin> set (a # ?ys) \<longrightarrow> h x = ?h0 x"
    and core: "\<forall>x. map_option (\<lambda>e. (hashindex e, he_key e, he_element e, listprev e, listnext e)) (h x) =
               map_option (\<lambda>e. (hashindex e, he_key e, he_element e, listprev e, listnext e)) (?h0 x)"
    by blast
  let ?tb = "(ht_table t)[?i := Some a]"
  have run: "link_bucket a (g k) t0 = Inr (t0\<lparr>ht_table := ?tb, ht_heap := h\<rparr>)"
    using h c k i by (simp add: link_bucket_def rd_table_def wr_table_def wr_def t0)
  have dat: "dat h = (dat (ht_heap t))(a \<mapsto> (g k, k, e))"
    using bucket_core(1) [OF core] dat_add [of "ht_heap t" a k e "g k"]
    by (simp add: t0 del: fun_upd_apply)
  have "buckets_ok h ?tb (xs @ [a])"
    by (rule buckets_ok_link [OF inv k(1) a d _ dat]) (use out in \<open>simp add: t0\<close>)
  moreover have "dseg listnext listprev h None xs (firsthashelem t) None"
    unfolding bucket_core(2) [OF core] using inv a by (simp add: t0 dseg_outside ht_inv_def)
  moreover have "\<exists>c. h a = Some c \<and> listnext c = None \<and> listprev c = None"
    using core [rule_format, of a] by (auto simp: t0 new_HashElement_def)
  ultimately show ?thesis
    using run dat by (intro exI [of _ ?tb] exI [of _ h]) auto
qed

lemma link_list_run:
  assumes d: "dseg listnext listprev (ht_heap t) None xs (firsthashelem t) None"
    and last: "lasthashelem t = last_ptr None xs" and a: "a \<notin> set xs" "distinct xs"
    and c: "ht_heap t a = Some c" "listnext c = None" "listprev c = None"
  shows "\<exists>h first. link_list a t =
      Inr (t\<lparr>ht_heap := h, firsthashelem := first, lasthashelem := Some a\<rparr>) \<and>
    dseg listnext listprev h None (xs @ [a]) first None \<and> dat h = dat (ht_heap t) \<and>
    (\<forall>prev ys p q. dseg hashnext hashprev h prev ys p q \<longleftrightarrow> dseg hashnext hashprev (ht_heap t) prev ys p q)"
proof (cases "xs = []")
  case True
  then have "firsthashelem t = None" using d by simp
  then show ?thesis
    using True c by (intro exI [of _ "ht_heap t"] exI [of _ "Some a"]) (simp add: link_list_def)
next
  case False
  then have first: "firsthashelem t \<noteq> None" using d by (cases xs) auto
  from list_links.push_back [OF d False a c(1,2)] obtain h1 where
    h1: "store (ht_heap t) (last_ptr None xs) (\<lambda>e. e\<lparr>listnext := Some a\<rparr>) = Inr h1" "h1 a = Some c"
    and d1: "dseg listnext listprev (h1(a \<mapsto> c\<lparr>listprev := last_ptr None xs\<rparr>)) None (xs @ [a]) (firsthashelem t) None"
    and core: "\<forall>x. map_option (\<lambda>e. (hashindex e, he_key e, he_element e, hashprev e, hashnext e)) (h1 x) =
               map_option (\<lambda>e. (hashindex e, he_key e, he_element e, hashprev e, hashnext e)) (ht_heap t x)"
    by blast
  let ?h = "h1(a \<mapsto> c\<lparr>listprev := last_ptr None xs\<rparr>)"
  have core': "\<forall>x. map_option (\<lambda>e. (hashindex e, he_key e, he_element e, hashprev e, hashnext e)) (?h x) =
               map_option (\<lambda>e. (hashindex e, he_key e, he_element e, hashprev e, hashnext e)) (ht_heap t x)"
    using core c by simp
  have "link_list a t =
      Inr (t\<lparr>ht_heap := ?h, firsthashelem := firsthashelem t, lasthashelem := Some a\<rparr>)"
    using first h1 last by (auto simp: link_list_def)
  then show ?thesis
    using d1 list_core [OF core'] by blast
qed

lemma add_run:
  assumes inv: "ht_inv g t xs" and k: "0 \<le> g k" "g k < int (length (ht_table t))"
    and new: "k \<notin> fst ` set (content (ht_heap t) xs)" and a: "ht_heap t a = None"
  shows "\<exists>t'. add_element er g (Some a) k e t = Some (Inr (0, t')) \<and> ht_inv g t' (xs @ [a]) \<and>
    content (ht_heap t') (xs @ [a]) = content (ht_heap t) xs @ [(k, e)] \<and>
    curhashelem t' = curhashelem t \<and> length (ht_table t') = length (ht_table t) \<and>
    (\<forall>y\<in>set xs. dat (ht_heap t') y = dat (ht_heap t) y)"
proof -
  have cells: "cells_ok g (length (ht_table t)) (ht_heap t) xs"
    and last: "lasthashelem t = last_ptr None xs"
    using inv by (auto simp: ht_inv_def)
  then have dist: "distinct xs" and axs: "a \<notin> set xs" using a by (auto simp: cells_ok_def)
  define t0 where "t0 = t\<lparr>ht_heap := (ht_heap t)(a \<mapsto> new_HashElement k e (g k))\<rparr>"
  obtain tb h where run1: "link_bucket a (g k) t0 = Inr (t0\<lparr>ht_table := tb, ht_heap := h\<rparr>)"
    and tb: "length tb = length (ht_table t)" "buckets_ok h tb (xs @ [a])"
    and dat: "dat h = (dat (ht_heap t))(a \<mapsto> (g k, k, e))"
    and d: "dseg listnext listprev h None xs (firsthashelem t) None"
    and c: "\<exists>c. h a = Some c \<and> listnext c = None \<and> listprev c = None"
    using link_bucket_run [OF inv k axs t0_def] by blast
  let ?t1 = "t0\<lparr>ht_table := tb, ht_heap := h\<rparr>"
  have "dseg listnext listprev (ht_heap ?t1) None xs (firsthashelem ?t1) None"
    "lasthashelem ?t1 = last_ptr None xs"
    using d last by (simp_all add: t0_def)
  from link_list_run [OF this axs dist] c obtain h' first where
    run2: "link_list a ?t1 = Inr (?t1\<lparr>ht_heap := h', firsthashelem := first, lasthashelem := Some a\<rparr>)"
    and d2: "dseg listnext listprev h' None (xs @ [a]) first None" and dat2: "dat h' = dat h"
    and keep: "\<forall>prev ys p q. dseg hashnext hashprev h' prev ys p q \<longleftrightarrow> dseg hashnext hashprev h prev ys p q"
    by auto
  have dat': "dat h' = (dat (ht_heap t))(a \<mapsto> (g k, k, e))" using dat dat2 by simp
  let ?t' = "?t1\<lparr>ht_heap := h', firsthashelem := first, lasthashelem := Some a\<rparr>"
  have "add_element er g (Some a) k e t = Some (Inr (0, ?t'))"
    using search_run [OF inv k] new k run1 run2 key_addr_None [of "ht_heap t" k xs]
    by (simp add: add_element_def t0_def)
  moreover have "ht_inv g ?t' (xs @ [a])"
    using cells_ok_add [OF cells axs dat' k new] d2 tb keep
    by (simp add: ht_inv_def buckets_ok_def bucket_dat [OF dat2])
  moreover have "content h' (xs @ [a]) = content (ht_heap t) xs @ [(k, e)]"
    by (rule content_add [OF axs dat'])
  moreover have "\<forall>y\<in>set xs. dat h' y = dat (ht_heap t) y"
    using axs by (auto simp: dat')
  ultimately show ?thesis
    using tb(1) by (intro exI [of _ ?t']) (simp add: t0_def)
qed

text \<open>Clearing.\<close>

lemma free_elems_run:
  assumes "dseg listnext listprev h prev xs p None" "distinct xs"
  shows "free_elems h p = Some (Inr (\<lambda>x. if x \<in> set xs then None else h x))"
  using assms
proof (induction xs arbitrary: h prev p)
  case (Cons a xs)
  then obtain e where e: "p = Some a" "h a = Some e" "dseg listnext listprev h (Some a) xs (listnext e) None"
    by auto
  have "dseg listnext listprev (h(a := None)) (Some a) xs (listnext e) None"
    using e(3) Cons.prems(2) by (simp add: dseg_outside)
  from Cons.IH [OF this] have "free_elems h p = Some (Inr (\<lambda>x. if x \<in> set xs then None else (h(a := None)) x))"
    using e Cons.prems(2) by (subst free_elems.simps) (simp del: fun_upd_apply)
  moreover have "(\<lambda>x. if x \<in> set xs then None else (h(a := None)) x) = (\<lambda>x. if x \<in> set (a # xs) then None else h x)"
    by auto
  ultimately show ?case by simp
qed (subst free_elems.simps, simp)

lemma ht_inv_empty:
  "ht_inv g \<lparr>ht_heap = (\<lambda>_. None), ht_table = replicate n None, firsthashelem = None,
             lasthashelem = None, curhashelem = p\<rparr> []"
  by (simp add: ht_inv_def cells_ok_def content_def dat_def buckets_ok_def bucket_def)

lemma clear_run:
  assumes "ht_inv g t xs"
  shows "Clear t = Some (Inr (t\<lparr>ht_heap := \<lambda>_. None, ht_table := replicate (length (ht_table t)) None,
                               firsthashelem := None, lasthashelem := None\<rparr>))"
proof -
  have d: "dseg listnext listprev (ht_heap t) None xs (firsthashelem t) None" "distinct xs"
    and dom: "dom (ht_heap t) = set xs"
    using assms by (auto simp: ht_inv_def cells_ok_def)
  have "(\<lambda>x. if x \<in> set xs then None else ht_heap t x) = (\<lambda>_. None)"
    using dom by (auto simp: fun_eq_iff)
  then show ?thesis using free_elems_run [OF d] by (simp add: Clear_def)
qed

section \<open>The specification\<close>

text \<open>
  The keys and elements in order, and the cursor.  \<open>Wild\<close> is a current element that must not be
  used: that of a new table, and what was current when the table was cleared.
\<close>

datatype 'k cursor = Wild | Nowhere | At 'k

type_synonym ('k, 'e) ht_spec = "('k \<times> 'e) list \<times> 'k cursor"

datatype ('k, 'e) ht_op =
    Goto_First | Goto_Last | Has_Current | Get_Current | Delete_Current | Goto_Next | Goto_Previous
  | Goto_Elem 'k | Has_Elem 'k | Clear_All | Delete_Elem 'k
  | Add_Elem 'k 'e bool  \<comment> \<open>whether there is memory\<close>

datatype ('k, 'e) ht_out = Void | Status int | Answer bool | Current 'k 'e

definition first_key :: "('k \<times> 'e) list \<Rightarrow> 'k cursor" where
  "first_key l = (case l of [] \<Rightarrow> Nowhere | (k, _) # _ \<Rightarrow> At k)"

primrec after_key :: "'k \<Rightarrow> ('k \<times> 'e) list \<Rightarrow> 'k cursor" where
  "after_key k [] = Nowhere"
| "after_key k (x # l) = (if fst x = k then first_key l else after_key k l)"

definition without :: "'k \<Rightarrow> ('k \<times> 'e) list \<Rightarrow> ('k \<times> 'e) list" where
  "without k l = filter (\<lambda>x. fst x \<noteq> k) l"

text \<open>An operation that the client must not call gives \<open>None\<close>.\<close>

fun spec_step ::
  "ht_errors \<Rightarrow> ('k, 'e) ht_op \<Rightarrow> ('k, 'e) ht_spec \<Rightarrow> (('k, 'e) ht_out \<times> ('k, 'e) ht_spec) option" where
  "spec_step er Goto_First (l, c) = Some (Void, l, first_key l)"
| "spec_step er Goto_Last (l, c) = Some (Void, l, first_key (rev l))"
| "spec_step er Has_Current (l, c) =
     (case c of Wild \<Rightarrow> None | Nowhere \<Rightarrow> Some (Answer False, l, c) | At k \<Rightarrow> Some (Answer True, l, c))"
| "spec_step er Get_Current (l, c) =
     (case c of At k \<Rightarrow> Some (Current k (the (map_of l k)), l, c) | _ \<Rightarrow> None)"
| "spec_step er Delete_Current (l, c) =
     (case c of Wild \<Rightarrow> None | Nowhere \<Rightarrow> Some (Status (no_current er), l, c)
      | At k \<Rightarrow> Some (Status 0, without k l, after_key k l))"
| "spec_step er Goto_Next (l, c) =
     (case c of Wild \<Rightarrow> None | Nowhere \<Rightarrow> Some (Void, l, c) | At k \<Rightarrow> Some (Void, l, after_key k l))"
| "spec_step er Goto_Previous (l, c) =
     (case c of Wild \<Rightarrow> None | Nowhere \<Rightarrow> Some (Void, l, c) | At k \<Rightarrow> Some (Void, l, after_key k (rev l)))"
| "spec_step er (Goto_Elem k) (l, c) =
     (if k \<in> fst ` set l then Some (Status 0, l, At k) else Some (Status (not_found er), l, Nowhere))"
| "spec_step er (Has_Elem k) (l, c) = Some (Answer (k \<in> fst ` set l), l, c)"
| "spec_step er Clear_All (l, c) = Some (Void, [], if c = Nowhere then Nowhere else Wild)"
| "spec_step er (Delete_Elem k) (l, c) =
     (if k \<in> fst ` set l then Some (Status 0, without k l, after_key k l)
      else Some (Status (not_found er), l, Nowhere))"
| "spec_step er (Add_Elem k e ok) (l, c) =
     (if k \<in> fst ` set l then Some (Status (already_exists er), l, c)
      else if \<not> ok then Some (Status ERR_RTP_OUTOFMEM, l, c)
      else Some (Status 0, l @ [(k, e)], c))"

text \<open>
  The operations of the code.  \<open>new\<close> is the allocator: an address, given those in use.
\<close>

fun ht_step ::
  "ht_errors \<Rightarrow> (nat set \<Rightarrow> nat) \<Rightarrow> ('k \<Rightarrow> int) \<Rightarrow> ('k, 'e) ht_op \<Rightarrow> ('k, 'e) RTPKeyHashTable \<Rightarrow>
   (('k, 'e) ht_out \<times> ('k, 'e) RTPKeyHashTable) run" where
  "ht_step er new g Goto_First t = Some (Inr (Void, GotoFirstElement t))"
| "ht_step er new g Goto_Last t = Some (Inr (Void, GotoLastElement t))"
| "ht_step er new g Has_Current t = Some (Inr (Answer (HasCurrentElement t), t))"
| "ht_step er new g Get_Current t =
     Some (bind_res (GetCurrentKey t) (\<lambda>k. bind_res (GetCurrentElement t) (\<lambda>e. Inr (Current k e, t))))"
| "ht_step er new g Delete_Current t =
     Some (bind_res (delete_current er t) (\<lambda>(st, t). Inr (Status st, t)))"
| "ht_step er new g Goto_Next t = Some (bind_res (GotoNextElement t) (\<lambda>t. Inr (Void, t)))"
| "ht_step er new g Goto_Previous t = Some (bind_res (GotoPreviousElement t) (\<lambda>t. Inr (Void, t)))"
| "ht_step er new g (Goto_Elem k) t =
     bind_run (goto_element er g k t) (\<lambda>(st, t). Some (Inr (Status st, t)))"
| "ht_step er new g (Has_Elem k) t = bind_run (HasElement g k t) (\<lambda>b. Some (Inr (Answer b, t)))"
| "ht_step er new g Clear_All t = bind_run (Clear t) (\<lambda>t. Some (Inr (Void, t)))"
| "ht_step er new g (Delete_Elem k) t =
     bind_run (delete_element er g k t) (\<lambda>(st, t). Some (Inr (Status st, t)))"
| "ht_step er new g (Add_Elem k e ok) t =
     bind_run (add_element er g (if ok then Some (new (dom (ht_heap t))) else None) k e t)
       (\<lambda>(st, t). Some (Inr (Status st, t)))"

primrec spec_run ::
  "ht_errors \<Rightarrow> ('k, 'e) ht_op list \<Rightarrow> ('k, 'e) ht_spec \<Rightarrow> (('k, 'e) ht_out list \<times> ('k, 'e) ht_spec) option"
where
  "spec_run er [] s = Some ([], s)"
| "spec_run er (x # xs) s =
     (case spec_step er x s of None \<Rightarrow> None
      | Some (r, s) \<Rightarrow> map_option (\<lambda>(rs, s). (r # rs, s)) (spec_run er xs s))"

primrec ht_run ::
  "ht_errors \<Rightarrow> (nat set \<Rightarrow> nat) \<Rightarrow> ('k \<Rightarrow> int) \<Rightarrow> ('k, 'e) ht_op list \<Rightarrow> ('k, 'e) RTPKeyHashTable \<Rightarrow>
   (('k, 'e) ht_out list \<times> ('k, 'e) RTPKeyHashTable) run" where
  "ht_run er new g [] t = Some (Inr ([], t))"
| "ht_run er new g (x # xs) t =
     bind_run (ht_step er new g x t) (\<lambda>(r, t).
     bind_run (ht_run er new g xs t) (\<lambda>(rs, t). Some (Inr (r # rs, t))))"

section \<open>Refinement\<close>

definition cursor_ok ::
  "(nat \<Rightarrow> ('k, 'e) HashElement option) \<Rightarrow> nat list \<Rightarrow> ptr \<Rightarrow> 'k cursor \<Rightarrow> bool" where
  "cursor_ok h xs p c \<longleftrightarrow>
     (case c of Wild \<Rightarrow> True | Nowhere \<Rightarrow> p = None | At k \<Rightarrow> p \<noteq> None \<and> p = key_addr h k xs)"

definition ht_rep :: "('k \<Rightarrow> int) \<Rightarrow> nat \<Rightarrow> ('k, 'e) RTPKeyHashTable \<Rightarrow> ('k, 'e) ht_spec \<Rightarrow> bool" where
  "ht_rep g n t s \<longleftrightarrow>
     length (ht_table t) = n \<and>
     (\<exists>xs. ht_inv g t xs \<and> content (ht_heap t) xs = fst s \<and> cursor_ok (ht_heap t) xs (curhashelem t) (snd s))"

lemma cursor_At:
  assumes "cursor_ok h xs p (At k)"
  obtains a where "p = Some a" "key_addr h k xs = Some a"
proof -
  have "p \<noteq> None" "p = key_addr h k xs"
    using assms unfolding cursor_ok_def cursor.case by blast+
  then show ?thesis using that by (cases p) metis+
qed

text \<open>The key at an address.\<close>

definition addr_key :: "(nat \<Rightarrow> ('k, 'e) HashElement option) \<Rightarrow> nat \<Rightarrow> 'k" where
  "addr_key h a = fst (snd (the (dat h a)))"

lemma cursor_at:
  assumes "cells_ok g n h xs" "a \<in> set xs"
  shows "cursor_ok h xs (Some a) (At (addr_key h a))"
proof -
  have "key_addr h (addr_key h a) xs = Some a"
    using assms key_addr_Some [OF assms(1)] by (simp add: addr_key_def)
  then show ?thesis by (simp add: cursor_ok_def)
qed

lemma cursor_first:
  assumes "cells_ok g n h xs" "set bs \<subseteq> set xs"
  shows "cursor_ok h xs (head_ptr bs) (first_key (content h bs))"
proof (cases bs)
  case (Cons b cs)
  then show ?thesis
    using cursor_at [OF assms(1), of b] assms(2)
    by (cases "snd (the (dat h b))") (simp add: first_key_def content_def addr_key_def)
qed (simp add: cursor_ok_def first_key_def content_def)

lemma rev_content: "rev (content h xs) = content h (rev xs)"
  by (simp add: content_def rev_map)

lemma last_head: "last_ptr None xs = head_ptr (rev xs)"
  by (cases xs rule: rev_cases) auto

lemma cursor_last:
  assumes "cells_ok g n h xs" "set as \<subseteq> set xs"
  shows "cursor_ok h xs (last_ptr None as) (first_key (rev (content h as)))"
  using cursor_first [OF assms(1), of "rev as"] assms(2) by (simp add: last_head rev_content)

lemma after_key_append:
  "k \<notin> fst ` set l \<Longrightarrow> after_key k (l @ (k, e) # m) = first_key m"
  by (induction l) auto

lemma without_append:
  "k \<notin> fst ` set l \<Longrightarrow> k \<notin> fst ` set m \<Longrightarrow> without k (l @ (k, e) # m) = l @ m"
proof -
  assume "k \<notin> fst ` set l" "k \<notin> fst ` set m"
  then have "filter (\<lambda>x. fst x \<noteq> k) l = l" "filter (\<lambda>x. fst x \<noteq> k) m = m"
    by (auto intro!: filter_True)
  then show ?thesis by (simp add: without_def)
qed

text \<open>A current element splits the list.\<close>

lemma cursor_split:
  assumes inv: "ht_inv g t xs" and cur: "cursor_ok (ht_heap t) xs (curhashelem t) (At k)"
  obtains as a bs c where
    "xs = as @ a # bs" "curhashelem t = Some a" "ht_heap t a = Some c" "he_key c = k"
    "k \<notin> fst ` set (content (ht_heap t) as)" "k \<notin> fst ` set (content (ht_heap t) bs)"
    "content (ht_heap t) xs = content (ht_heap t) as @ (k, he_element c) # content (ht_heap t) bs"
    "listprev c = last_ptr None as" "listnext c = head_ptr bs"
proof -
  let ?h = "ht_heap t"
  have ok: "cells_ok g (length (ht_table t)) ?h xs"
    and d: "dseg listnext listprev ?h None xs (firsthashelem t) None"
    using inv by (auto simp: ht_inv_def)
  obtain a where a: "curhashelem t = Some a" "key_addr ?h k xs = Some a"
    by (rule cursor_At [OF cur])
  then have axs: "a \<in> set xs" "fst (snd (the (dat ?h a))) = k"
    using key_addr_Some [OF ok] by auto
  then obtain as bs where xs: "xs = as @ a # bs" by (meson split_list)
  obtain c where c: "?h a = Some c" using dseg_present [OF d axs(1)] by blast
  have key: "he_key c = k" using axs(2) c by (simp add: dat_def)
  have cont: "content ?h xs = content ?h as @ (k, he_element c) # content ?h bs"
    using c key by (simp add: xs content_def dat_def)
  have "distinct (map fst (content ?h xs))" using ok by (simp add: cells_ok_def)
  then have "k \<notin> fst ` set (content ?h as)" "k \<notin> fst ` set (content ?h bs)"
    by (auto simp: cont)
  moreover have "listprev c = last_ptr None as" "listnext c = head_ptr bs"
    using dseg_cell [of listnext listprev ?h None as a bs "firsthashelem t" c] d c xs by auto
  ultimately show ?thesis using that xs a(1) c key cont by blast
qed

lemma step_delete_current:
  assumes inv: "ht_inv g t xs" and cur: "cursor_ok (ht_heap t) xs (curhashelem t) (At k)"
  shows "\<exists>t'. delete_current er t = Inr (0, t') \<and>
    ht_rep g (length (ht_table t)) t'
      (without k (content (ht_heap t) xs), after_key k (content (ht_heap t) xs))"
proof -
  let ?h = "ht_heap t"
  obtain as a bs c where split: "xs = as @ a # bs" "curhashelem t = Some a"
      "?h a = Some c" "he_key c = k"
    and k: "k \<notin> fst ` set (content ?h as)" "k \<notin> fst ` set (content ?h bs)"
    and cont: "content ?h xs = content ?h as @ (k, he_element c) # content ?h bs"
    and "listprev c = last_ptr None as" "listnext c = head_ptr bs"
    by (rule cursor_split [OF inv cur])
  obtain t' where t': "delete_current er t = Inr (0, t')" "ht_inv g t' (as @ bs)"
    "content (ht_heap t') (as @ bs) = content ?h (as @ bs)" "curhashelem t' = head_ptr bs"
    "length (ht_table t') = length (ht_table t)"
    "\<forall>x\<in>set (as @ bs). dat (ht_heap t') x = dat ?h x"
    using delete_run [OF inv [unfolded split(1)] split(2)] by blast
  have "content (ht_heap t') bs = content ?h bs" using t'(6) by (simp add: content_def)
  moreover have "cells_ok g (length (ht_table t')) (ht_heap t') (as @ bs)"
    using t'(2) by (simp add: ht_inv_def)
  ultimately have "cursor_ok (ht_heap t') (as @ bs) (curhashelem t') (after_key k (content ?h xs))"
    using cursor_first [of g _ "ht_heap t'" "as @ bs" bs] t'(4)
    by (simp add: cont after_key_append [OF k(1)])
  moreover have "content (ht_heap t') (as @ bs) = without k (content ?h xs)"
    using t'(3) by (simp add: cont without_append [OF k] content_append)
  ultimately show ?thesis
    using t'(1,2,5) unfolding ht_rep_def by auto
qed

text \<open>Every operation does what it is to do.\<close>

lemma rep_cursor:
  assumes "ht_inv g t xs" "cursor_ok (ht_heap t) xs p c"
  shows "ht_rep g (length (ht_table t)) (t\<lparr>curhashelem := p\<rparr>) (content (ht_heap t) xs, c)"
  using assms by (auto simp: ht_rep_def ht_inv_def)

lemma step_move:
  assumes inv: "ht_inv g t xs" and cur: "cursor_ok (ht_heap t) xs (curhashelem t) (At k)"
  shows "\<exists>t'. GotoNextElement t = Inr t' \<and>
      ht_rep g (length (ht_table t)) t' (content (ht_heap t) xs, after_key k (content (ht_heap t) xs))"
    and "\<exists>t'. GotoPreviousElement t = Inr t' \<and>
      ht_rep g (length (ht_table t)) t' (content (ht_heap t) xs, after_key k (rev (content (ht_heap t) xs)))"
    and "GetCurrentKey t = Inr k"
    and "GetCurrentElement t = Inr (the (map_of (content (ht_heap t) xs) k))"
proof -
  let ?h = "ht_heap t"
  have ok: "cells_ok g (length (ht_table t)) ?h xs" using inv by (simp add: ht_inv_def)
  obtain as a bs c where split: "xs = as @ a # bs" "curhashelem t = Some a"
      "?h a = Some c" "he_key c = k"
    and k: "k \<notin> fst ` set (content ?h as)" "k \<notin> fst ` set (content ?h bs)"
    and cont: "content ?h xs = content ?h as @ (k, he_element c) # content ?h bs"
    and links: "listprev c = last_ptr None as" "listnext c = head_ptr bs"
    by (rule cursor_split [OF inv cur])
  have sub: "set bs \<subseteq> set xs" "set as \<subseteq> set xs" using split(1) by auto
  have "after_key k (content ?h xs) = first_key (content ?h bs)"
    by (simp only: cont after_key_append [OF k(1)])
  moreover have "GotoNextElement t = Inr (t\<lparr>curhashelem := head_ptr bs\<rparr>)"
    using split by (simp add: GotoNextElement_def deref_def links)
  ultimately show "\<exists>t'. GotoNextElement t = Inr t' \<and>
      ht_rep g (length (ht_table t)) t' (content (ht_heap t) xs, after_key k (content (ht_heap t) xs))"
    using rep_cursor [OF inv cursor_first [OF ok sub(1)]] by simp
  have "after_key k (rev (content ?h xs)) = first_key (rev (content ?h as))"
    using k after_key_append [of k "rev (content ?h bs)" "he_element c" "rev (content ?h as)"]
    by (simp add: cont)
  moreover have "GotoPreviousElement t = Inr (t\<lparr>curhashelem := last_ptr None as\<rparr>)"
    using split by (simp add: GotoPreviousElement_def deref_def links)
  ultimately show "\<exists>t'. GotoPreviousElement t = Inr t' \<and>
      ht_rep g (length (ht_table t)) t' (content (ht_heap t) xs, after_key k (rev (content (ht_heap t) xs)))"
    using rep_cursor [OF inv cursor_last [OF ok sub(2)]] by simp
  show "GetCurrentKey t = Inr k" using split by (simp add: GetCurrentKey_def deref_def)
  have "map_of (content ?h as) k = None" using k(1) by (simp add: map_of_eq_None_iff)
  then have "map_of (content ?h xs) k = Some (he_element c)"
    by (simp add: cont map_add_def)
  then show "GetCurrentElement t = Inr (the (map_of (content ?h xs) k))"
    using split by (simp add: GetCurrentElement_def deref_def)
qed

lemma step_goto:
  assumes inv: "ht_inv g t xs" and k: "0 \<le> g k" "g k < int (length (ht_table t))"
    and l: "content (ht_heap t) xs = l"
  shows "k \<in> fst ` set l \<Longrightarrow> \<exists>t'. goto_element er g k t = Some (Inr (0, t')) \<and> ht_inv g t' xs \<and>
      ht_heap t' = ht_heap t \<and> length (ht_table t') = length (ht_table t) \<and>
      cursor_ok (ht_heap t') xs (curhashelem t') (At k)"
    and "k \<notin> fst ` set l \<Longrightarrow> \<exists>t'. goto_element er g k t = Some (Inr (not_found er, t')) \<and>
      ht_rep g (length (ht_table t)) t' (l, Nowhere)"
proof -
  have inv': "ht_inv g (t\<lparr>curhashelem := p\<rparr>) xs" for p using inv by (simp add: ht_inv_def)
  note none = key_addr_None [of "ht_heap t" k xs, unfolded l]
  {
    assume "k \<in> fst ` set l"
    then show "\<exists>t'. goto_element er g k t = Some (Inr (0, t')) \<and> ht_inv g t' xs \<and>
      ht_heap t' = ht_heap t \<and> length (ht_table t') = length (ht_table t) \<and>
      cursor_ok (ht_heap t') xs (curhashelem t') (At k)"
      using goto_run [OF inv k, of er] none inv' [of "key_addr (ht_heap t) k xs"]
      by (auto simp: cursor_ok_def)
  next
    assume "k \<notin> fst ` set l"
    moreover have "cursor_ok (ht_heap t) xs None Nowhere" by (simp add: cursor_ok_def)
    ultimately show "\<exists>t'. goto_element er g k t = Some (Inr (not_found er, t')) \<and>
      ht_rep g (length (ht_table t)) t' (l, Nowhere)"
      using goto_run [OF inv k, of er] none rep_cursor [OF inv, of None Nowhere] by (simp add: l)
  }
qed

lemma step_clear:
  assumes inv: "ht_inv g t xs" and cur: "cursor_ok (ht_heap t) xs (curhashelem t) c"
  shows "\<exists>t'. Clear t = Some (Inr t') \<and>
    ht_rep g (length (ht_table t)) t' ([], if c = Nowhere then Nowhere else Wild)"
proof -
  let ?t = "t\<lparr>ht_heap := \<lambda>_. None, ht_table := replicate (length (ht_table t)) None,
    firsthashelem := None, lasthashelem := None\<rparr>"
  have "ht_inv g ?t []"
    by (simp add: ht_inv_def cells_ok_def content_def dat_def buckets_ok_def bucket_def)
  moreover have "cursor_ok (ht_heap ?t) [] (curhashelem ?t) (if c = Nowhere then Nowhere else Wild)"
    using cur by (cases c) (simp_all add: cursor_ok_def)
  ultimately show ?thesis
    using clear_run [OF inv] by (auto simp: ht_rep_def content_def)
qed

lemma step_add:
  assumes inv: "ht_inv g t xs" and k: "0 \<le> g k" "g k < int (length (ht_table t))"
    and l: "content (ht_heap t) xs = l" and cur: "cursor_ok (ht_heap t) xs (curhashelem t) c"
    and new: "k \<notin> fst ` set l" and a: "ht_heap t a = None"
  shows "\<exists>t'. add_element er g (Some a) k e t = Some (Inr (0, t')) \<and>
    ht_rep g (length (ht_table t)) t' (l @ [(k, e)], c)"
proof -
  have ok: "cells_ok g (length (ht_table t)) (ht_heap t) xs" using inv by (simp add: ht_inv_def)
  obtain t' where t': "add_element er g (Some a) k e t = Some (Inr (0, t'))" "ht_inv g t' (xs @ [a])"
    "content (ht_heap t') (xs @ [a]) = content (ht_heap t) xs @ [(k, e)]"
    "curhashelem t' = curhashelem t" "length (ht_table t') = length (ht_table t)"
    "\<forall>y\<in>set xs. dat (ht_heap t') y = dat (ht_heap t) y"
    using add_run [OF inv k _ a] new l by blast
  have "cursor_ok (ht_heap t') (xs @ [a]) (curhashelem t') c"
  proof (cases c)
    case (At k')
    obtain b where b: "curhashelem t = Some b" "key_addr (ht_heap t) k' xs = Some b"
      by (rule cursor_At [OF cur [unfolded At]])
    then have "b \<in> set xs" "fst (snd (the (dat (ht_heap t) b))) = k'"
      using key_addr_Some [OF ok] by auto
    then have "key_addr (ht_heap t') k' (xs @ [a]) = Some b"
      using key_addr_Some [of g "length (ht_table t')" "ht_heap t'" "xs @ [a]" k' b] t'(2,6)
      by (auto simp: ht_inv_def)
    then show ?thesis using At b t'(4) by (simp add: cursor_ok_def)
  qed (use cur t'(4) in \<open>auto simp: cursor_ok_def\<close>)
  then show ?thesis using t' l by (auto simp: ht_rep_def)
qed

text \<open>The operations that use the cursor.\<close>

lemma step_cursor:
  assumes inv: "ht_inv g t xs" and l: "content (ht_heap t) xs = l"
    and cur: "cursor_ok (ht_heap t) xs (curhashelem t) c"
    and x: "x \<in> {Goto_First, Goto_Last, Has_Current, Get_Current, Delete_Current, Goto_Next, Goto_Previous}"
    and step: "spec_step er x (l, c) = Some (r, s')"
  shows "\<exists>t'. ht_step er new g x t = Some (Inr (r, t')) \<and> ht_rep g (length (ht_table t)) t' s'"
proof -
  have ok: "cells_ok g (length (ht_table t)) (ht_heap t) xs" and last: "lasthashelem t = last_ptr None xs"
    and first: "firsthashelem t = head_ptr xs"
    using inv dseg_heads by (auto simp: ht_inv_def)
  have same: "ht_rep g (length (ht_table t)) t (l, c)" using inv l cur by (auto simp: ht_rep_def)
  note ends = rep_cursor [OF inv cursor_first [OF ok order_refl]] rep_cursor [OF inv cursor_last [OF ok order_refl]]
  show ?thesis
  proof (cases c)
    case (At k)
    note cur' = cur [unfolded At]
    show ?thesis
      using x step ends same step_move [OF inv cur'] step_delete_current [OF inv cur', of er] cur'
      by (auto simp: At l GotoFirstElement_def GotoLastElement_def first last HasCurrentElement_def cursor_ok_def)
  next
    case Nowhere
    then show ?thesis
      using x step ends same cur
      by (auto simp: l GotoFirstElement_def GotoLastElement_def first last HasCurrentElement_def
          cursor_ok_def GotoNextElement_def GotoPreviousElement_def delete_current_def)
  next
    case Wild
    then show ?thesis
      using x step ends by (auto simp: l GotoFirstElement_def GotoLastElement_def first last)
  qed
qed

lemma step_delete_elem:
  assumes "ht_inv g t xs" "content (ht_heap t) xs = l" "0 \<le> g k" "g k < int (length (ht_table t))"
    "spec_step er (Delete_Elem k) (l, c) = Some (r, s')" "not_found er < 0"
  shows "\<exists>t'. ht_step er new g (Delete_Elem k) t = Some (Inr (r, t')) \<and> ht_rep g (length (ht_table t)) t' s'"
proof (cases "k \<in> fst ` set l")
  case True
  from step_goto(1) [OF assms(1,3,4,2) True, of er] obtain t' where
    t': "goto_element er g k t = Some (Inr (0, t'))" "ht_inv g t' xs" "ht_heap t' = ht_heap t"
      "length (ht_table t') = length (ht_table t)" "cursor_ok (ht_heap t') xs (curhashelem t') (At k)"
    by blast
  show ?thesis
    using assms(2,5) step_delete_current [OF t'(2,5), of er] t' True by (auto simp: delete_element_def)
next
  case False
  show ?thesis
    using assms(5,6) step_goto(2) [OF assms(1,3,4,2) False, of er] False by (auto simp: delete_element_def)
qed

lemma step_add_elem:
  assumes "ht_inv g t xs" "content (ht_heap t) xs = l" "0 \<le> g k" "g k < int (length (ht_table t))"
    "cursor_ok (ht_heap t) xs (curhashelem t) c"
    "spec_step er (Add_Elem k e mem) (l, c) = Some (r, s')" "\<And>A. finite A \<Longrightarrow> new A \<notin> A"
  shows "\<exists>t'. ht_step er new g (Add_Elem k e mem) t = Some (Inr (r, t')) \<and> ht_rep g (length (ht_table t)) t' s'"
proof (cases "k \<in> fst ` set l \<or> \<not> mem")
  case True
  have "ht_rep g (length (ht_table t)) t (l, c)" using assms(1,2,5) by (auto simp: ht_rep_def)
  then show ?thesis
    using True assms(3,4,6) search_run [OF assms(1,3,4)] key_addr_None [of "ht_heap t" k xs, unfolded assms(2)]
    by (cases "k \<in> fst ` set l") (simp_all add: add_element_def)
next
  case False
  have "finite (dom (ht_heap t))" using assms(1) by (simp add: ht_inv_def cells_ok_def)
  then have "ht_heap t (new (dom (ht_heap t))) = None" using assms(7) by blast
  then show ?thesis
    using assms(6) step_add [OF assms(1,3,4,2,5), of "new (dom (ht_heap t))" er e] False by auto
qed

lemma ht_step_spec:
  assumes rep: "ht_rep g n t s" and step: "spec_step er x s = Some (r, s')"
    and g: "\<And>k. 0 \<le> g k \<and> g k < int n" and new: "\<And>A. finite A \<Longrightarrow> new A \<notin> A"
    and er: "not_found er < 0"
  shows "\<exists>t'. ht_step er new g x t = Some (Inr (r, t')) \<and> ht_rep g n t' s'"
proof -
  obtain l c where s: "s = (l, c)" by (cases s)
  obtain xs where n: "length (ht_table t) = n" and inv: "ht_inv g t xs"
    and l: "content (ht_heap t) xs = l" and cur: "cursor_ok (ht_heap t) xs (curhashelem t) c"
    using rep by (auto simp: ht_rep_def s)
  have k: "0 \<le> g k" "g k < int (length (ht_table t))" for k using g n by auto
  show ?thesis
  proof (cases x)
    case (Goto_Elem k)
    then show ?thesis
      using step step_goto [OF inv k l, of k er] inv l n
      by (cases "k \<in> fst ` set l") (auto simp: s ht_rep_def)
  next
    case (Has_Elem k)
    then show ?thesis using step has_run [OF inv k] rep by (auto simp: s l)
  next
    case Clear_All
    then show ?thesis using step step_clear [OF inv cur] n by (auto simp: s)
  next
    case (Delete_Elem k)
    then show ?thesis using step_delete_elem [OF inv l k _ er] step n by (simp add: s)
  next
    case (Add_Elem k e mem)
    then show ?thesis using step_add_elem [OF inv l k cur _ new] step n by (simp add: s)
  qed (use step_cursor [OF inv l cur _ step [unfolded s], of new] n in auto)
qed

lemma ht_run_spec:
  assumes "ht_rep g n t s" "spec_run er ops s = Some (outs, s')"
    and "\<And>k. 0 \<le> g k \<and> g k < int n" "\<And>A. finite A \<Longrightarrow> new A \<notin> A" "not_found er < 0"
  shows "\<exists>t'. ht_run er new g ops t = Some (Inr (outs, t')) \<and> ht_rep g n t' s'"
  using assms(1,2)
proof (induction ops arbitrary: t s outs)
  case (Cons x xs)
  then obtain r s1 rs where step: "spec_step er x s = Some (r, s1)"
    and rest: "spec_run er xs s1 = Some (rs, s')" and outs: "outs = r # rs"
    by (auto split: option.splits)
  obtain t1 where t1: "ht_step er new g x t = Some (Inr (r, t1))" "ht_rep g n t1 s1"
    using ht_step_spec [OF Cons.prems(1) step assms(3-5)] by blast
  from Cons.IH [OF t1(2) rest] show ?case by (auto simp: t1(1) outs)
qed simp

lemma ht_run_append:
  "ht_run er new g (xs @ ys) t =
     bind_run (ht_run er new g xs t) (\<lambda>(rs, t).
     bind_run (ht_run er new g ys t) (\<lambda>(rs', t). Some (Inr (rs @ rs', t))))"
proof (induction xs arbitrary: t)
  case Nil
  show ?case by (auto simp: bind_run_def split: option.splits sum.splits)
next
  case (Cons x xs)
  show ?case
    by (cases "ht_step er new g x t") (auto simp: Cons.IH bind_run_def split: option.splits sum.splits)
qed

lemma ht_rep_new: "ht_rep g n (new_RTPKeyHashTable n junk) ([], Wild)"
  using ht_inv_empty [of g n junk]
  by (auto simp: ht_rep_def new_RTPKeyHashTable_def cursor_ok_def content_def)

section \<open>Properties\<close>

text \<open>
  C9: Both hash tables of jrtplib, with their two lists through each element, implement a list of
  keys and elements with a cursor.  Any sequence of operations on a new table, whatever the
  uninitialised current element, returns, follows no bad pointer and gives the results of the
  specification: elements are found by key, keys stay unique, deleting moves the cursor to the next
  element in order of addition, and status codes tell of missing keys, of known ones and of
  memory that is used up.  The index function has to stay below the size, the allocator must not
  hand out an address in use, and the sequence must not use the current element of a new table
  or of one that was cleared, or ask for a current element that there is not.
\<close>

theorem hash_table_refines:
  assumes "er = KEYHASHTABLE_ERRORS \<or> er = HASHTABLE_ERRORS"
    and "\<And>k. 0 \<le> g k \<and> g k < int n" and "\<And>A. finite A \<Longrightarrow> new A \<notin> A"
    and "spec_run er ops ([], Wild) = Some (outs, l, c)"
  shows "\<exists>t xs. ht_run er new g ops (new_RTPKeyHashTable n junk) = Some (Inr (outs, t)) \<and>
    ht_inv g t xs \<and> content (ht_heap t) xs = l"
proof -
  have "not_found er < 0" using assms(1) by (auto simp: KEYHASHTABLE_ERRORS_def HASHTABLE_ERRORS_def)
  from ht_run_spec [where g = g, OF ht_rep_new [of g n junk] assms(4,2,3) this] show ?thesis
    by (auto simp: ht_rep_def)
qed

text \<open>The table of the sources of a session, with two sources of the same bucket.\<close>

definition sample_ops :: "(u32, nat) ht_op list" where
  "sample_ops =
     [Add_Elem 5 50 True, Add_Elem 8322 51 True, Add_Elem 5 52 True, Add_Elem 7 53 False,
      Add_Elem 6 54 True, Goto_Elem 5, Delete_Current, Get_Current, Goto_Next, Get_Current,
      Goto_Next, Has_Current, Has_Elem 5, Delete_Elem 9, Delete_Elem 8322, Goto_Previous, Goto_Last,
      Get_Current]"

definition fresh_addr :: "nat set \<Rightarrow> nat" where
  "fresh_addr A = Suc (Max (insert 0 A))"

lemma fresh_addr_fresh: "finite A \<Longrightarrow> fresh_addr A \<notin> A"
proof
  assume "finite A" "fresh_addr A \<in> A"
  then have "fresh_addr A \<le> Max (insert 0 A)" by (intro Max_ge) auto
  then show False by (simp add: fresh_addr_def)
qed

lemma RTPSources_GetIndex_range: "0 \<le> RTPSources_GetIndex k \<and> RTPSources_GetIndex k < int RTPSOURCES_HASHSIZE"
  by (simp add: RTPSources_GetIndex_def RTPSOURCES_HASHSIZE_def uint_mod)

lemma sample_spec:
  "spec_run KEYHASHTABLE_ERRORS sample_ops ([], Wild) = Some
     ([Status 0, Status 0, Status (-9), Status (-1), Status 0, Status 0, Status 0, Current 8322 51,
       Void, Current 6 54, Void, Answer False, Answer False, Status (-10), Status 0, Void, Void,
       Current 6 54], [(6, 54)], At 6)"
  by (simp add: sample_ops_def KEYHASHTABLE_ERRORS_def ERR_RTP_OUTOFMEM_def without_def first_key_def)

theorem hash_table_refines_witness:
  "\<exists>t xs. ht_run KEYHASHTABLE_ERRORS fresh_addr RTPSources_GetIndex sample_ops
      (new_RTPKeyHashTable RTPSOURCES_HASHSIZE (Some 3)) = Some (Inr
     ([Status 0, Status 0, Status (-9), Status (-1), Status 0, Status 0, Status 0, Current 8322 51,
       Void, Current 6 54, Void, Answer False, Answer False, Status (-10), Status 0, Void, Void,
       Current 6 54], t)) \<and>
    ht_inv RTPSources_GetIndex t xs \<and> content (ht_heap t) xs = [(6, 54)]"
  by (rule hash_table_refines [where g = RTPSources_GetIndex, OF _ RTPSources_GetIndex_range fresh_addr_fresh sample_spec]) simp_all

text \<open>
  C37: \<^verbatim>\<open>Clear\<close> frees every element and leaves the current one as it is.  If there was one, the
  table still says so, and whatever uses it follows a pointer to freed memory: it cannot even be
  asked for, moved or deleted; only a search or going to one of the ends helps.
\<close>

theorem cleared_current:
  assumes "er = KEYHASHTABLE_ERRORS \<or> er = HASHTABLE_ERRORS"
    and "\<And>k. 0 \<le> g k \<and> g k < int n" and "\<And>A. finite A \<Longrightarrow> new A \<notin> A"
    and "spec_run er ops ([], Wild) = Some (outs, l, At k)"
  shows "(\<exists>t. ht_run er new g (ops @ [Clear_All, Has_Current]) (new_RTPKeyHashTable n junk) =
      Some (Inr (outs @ [Void, Answer True], t))) \<and>
    ht_run er new g (ops @ [Clear_All, Get_Current]) (new_RTPKeyHashTable n junk) = Some (Inl Dangling) \<and>
    ht_run er new g (ops @ [Clear_All, Delete_Current]) (new_RTPKeyHashTable n junk) = Some (Inl Dangling) \<and>
    ht_run er new g (ops @ [Clear_All, Goto_Next]) (new_RTPKeyHashTable n junk) = Some (Inl Dangling) \<and>
    ht_run er new g (ops @ [Clear_All, Goto_Previous]) (new_RTPKeyHashTable n junk) = Some (Inl Dangling)"
proof -
  have "not_found er < 0" using assms(1) by (auto simp: KEYHASHTABLE_ERRORS_def HASHTABLE_ERRORS_def)
  from ht_run_spec [where g = g, OF ht_rep_new [of g n junk] assms(4,2,3) this] obtain t xs where
    run: "ht_run er new g ops (new_RTPKeyHashTable n junk) = Some (Inr (outs, t))"
    and inv: "ht_inv g t xs" and cur: "cursor_ok (ht_heap t) xs (curhashelem t) (At k)"
    by (auto simp: ht_rep_def)
  obtain a where "curhashelem t = Some a"
    by (rule cursor_At [OF cur])
  then show ?thesis
    by (simp add: ht_run_append run clear_run [OF inv] HasCurrentElement_def GetCurrentKey_def deref_def
        delete_current_def relink_bucket_def GotoNextElement_def GotoPreviousElement_def)
qed

theorem cleared_current_witness:
  "ht_run KEYHASHTABLE_ERRORS fresh_addr RTPSources_GetIndex (sample_ops @ [Clear_All, Delete_Current])
     (new_RTPKeyHashTable RTPSOURCES_HASHSIZE (Some 3)) = Some (Inl Dangling)"
  using cleared_current [where g = RTPSources_GetIndex and junk = "Some 3",
    OF _ RTPSources_GetIndex_range fresh_addr_fresh sample_spec] by simp

end
