(* ===== verification/JrtpSdes.thy ===== *)
theory JrtpSdes
  imports Prelude
begin

text \<open>
  The RTCP packets of \<^verbatim>\<open>jrtplib_send_recv_h264/include\<close> as far as the headers hold the code:
  the source description packet (\<^verbatim>\<open>rtcpsdespacket.h\<close>), a cursor over chunks and their items, and
  the sizes that the builder of compound packets computes for source descriptions and reports
  (\<^verbatim>\<open>rtcpcompoundpacketbuilder.h\<close>).

  A packet is its array of bytes; pointers into it are offsets, and reading behind its end is a
  fault.  The constructors are not in the repository: what they set (the known format, the current
  chunk) is the state that the operations start with.
\<close>

section \<open>Source description packets\<close>

record RTCPSDESPacket =
  sd_data :: "byte list"
  knownformat :: bool
  currentchunk :: "nat option"
  curchunknum :: nat
  itemoffset :: nat

datatype ItemType = NoItem | CNAME | NAME | EMAIL | PHONE | LOC | TOOL | NOTE | PRIV | Unknown

text \<open>The count field of the common header: the low five bits of the first byte.\<close>

definition GetChunkCount :: "RTCPSDESPacket \<Rightarrow> nat res" where
  "GetChunkCount p =
     (if \<not> knownformat p then Inr 0
      else bind_res (rd (sd_data p) 0) (\<lambda>b. Inr (unat (b AND 0x1F))))"

definition GotoFirstChunk :: "RTCPSDESPacket \<Rightarrow> (bool \<times> RTCPSDESPacket) res" where
  "GotoFirstChunk p =
     bind_res (GetChunkCount p) (\<lambda>n.
     if n = 0 then Inr (False, p\<lparr>currentchunk := None\<rparr>)
     else Inr (True, p\<lparr>currentchunk := Some 4, curchunknum := 1, itemoffset := 4\<rparr>))"

text \<open>The loop over the items, from an offset in the chunk to that of the item with type 0.\<close>

function skip_items :: "byte list \<Rightarrow> nat \<Rightarrow> nat \<Rightarrow> nat res" where
  "skip_items d chunk offset =
     bind_res (rd d (chunk + offset)) (\<lambda>sdesid.
     if sdesid \<noteq> 0 then
       bind_res (rd d (chunk + offset + 1)) (\<lambda>len. skip_items d chunk (offset + 2 + unat len))
     else Inr offset)"
  by pat_completeness auto
termination
  by (relation "measure (\<lambda>(d, chunk, offset). length d - (chunk + offset))") (auto simp: rd_eq_Inr)

declare skip_items.simps [simp del]

definition GotoNextChunk :: "RTCPSDESPacket \<Rightarrow> (bool \<times> RTCPSDESPacket) res" where
  "GotoNextChunk p =
     (if \<not> knownformat p then Inr (False, p)
      else
        (case currentchunk p of
           None \<Rightarrow> Inr (False, p)
         | Some chunk \<Rightarrow>
             bind_res (GetChunkCount p) (\<lambda>n.
             if curchunknum p = n then Inr (False, p)
             else
               bind_res (skip_items (sd_data p) chunk 4) (\<lambda>offset.
               let offset = offset + 1;
                   offset = (if offset mod 4 \<noteq> 0 then offset + (4 - offset mod 4) else offset)
               in Inr (True, p\<lparr>currentchunk := Some (chunk + offset),
                               curchunknum := curchunknum p + 1, itemoffset := 4\<rparr>)))))"

definition GetChunkSSRC :: "RTCPSDESPacket \<Rightarrow> u32 res" where
  "GetChunkSSRC p =
     (if \<not> knownformat p then Inr 0
      else
        (case currentchunk p of
           None \<Rightarrow> Inr 0
         | Some chunk \<Rightarrow>
             bind_res (rd_block (sd_data p) chunk 4) (\<lambda>b.
             Inr (of_be32 (b ! 0) (b ! 1) (b ! 2) (b ! 3)))))"

definition GotoFirstItem :: "RTCPSDESPacket \<Rightarrow> (bool \<times> RTCPSDESPacket) res" where
  "GotoFirstItem p =
     (if \<not> knownformat p then Inr (False, p)
      else
        (case currentchunk p of
           None \<Rightarrow> Inr (False, p)
         | Some chunk \<Rightarrow>
             (let p = p\<lparr>itemoffset := 4\<rparr> in
              bind_res (rd (sd_data p) (chunk + itemoffset p)) (\<lambda>sdesid.
              if sdesid = 0 then Inr (False, p) else Inr (True, p)))))"

definition GotoNextItem :: "RTCPSDESPacket \<Rightarrow> (bool \<times> RTCPSDESPacket) res" where
  "GotoNextItem p =
     (if \<not> knownformat p then Inr (False, p)
      else
        (case currentchunk p of
           None \<Rightarrow> Inr (False, p)
         | Some chunk \<Rightarrow>
             bind_res (rd (sd_data p) (chunk + itemoffset p)) (\<lambda>sdesid.
             if sdesid = 0 then Inr (False, p)
             else
               bind_res (rd (sd_data p) (chunk + itemoffset p + 1)) (\<lambda>len.
               let offset = itemoffset p + 2 + unat len in
               bind_res (rd (sd_data p) (chunk + offset)) (\<lambda>sdesid.
               if sdesid = 0 then Inr (False, p) else Inr (True, p\<lparr>itemoffset := offset\<rparr>))))))"

definition item_type :: "byte \<Rightarrow> ItemType" where
  "item_type sdesid =
     (if sdesid = 0 then NoItem
      else if sdesid = 1 then CNAME
      else if sdesid = 2 then NAME
      else if sdesid = 3 then EMAIL
      else if sdesid = 4 then PHONE
      else if sdesid = 5 then LOC
      else if sdesid = 6 then TOOL
      else if sdesid = 7 then NOTE
      else if sdesid = 8 then PRIV
      else Unknown)"

definition GetItemType :: "RTCPSDESPacket \<Rightarrow> ItemType res" where
  "GetItemType p =
     (if \<not> knownformat p then Inr NoItem
      else
        (case currentchunk p of
           None \<Rightarrow> Inr NoItem
         | Some chunk \<Rightarrow>
             bind_res (rd (sd_data p) (chunk + itemoffset p)) (\<lambda>sdesid. Inr (item_type sdesid))))"

definition GetItemLength :: "RTCPSDESPacket \<Rightarrow> nat res" where
  "GetItemLength p =
     (if \<not> knownformat p then Inr 0
      else
        (case currentchunk p of
           None \<Rightarrow> Inr 0
         | Some chunk \<Rightarrow>
             bind_res (rd (sd_data p) (chunk + itemoffset p)) (\<lambda>sdesid.
             if sdesid = 0 then Inr 0
             else bind_res (rd (sd_data p) (chunk + itemoffset p + 1)) (\<lambda>len. Inr (unat len)))))"

text \<open>A pointer to the data, \<open>None\<close> being the null pointer.\<close>

definition GetItemData :: "RTCPSDESPacket \<Rightarrow> nat option res" where
  "GetItemData p =
     (if \<not> knownformat p then Inr None
      else
        (case currentchunk p of
           None \<Rightarrow> Inr None
         | Some chunk \<Rightarrow>
             bind_res (rd (sd_data p) (chunk + itemoffset p)) (\<lambda>sdesid.
             if sdesid = 0 then Inr None else Inr (Some (chunk + itemoffset p + 2)))))"

text \<open>
  The four functions for private items begin alike: with the length of the item and that of its
  prefix, unless they return 0 early.
\<close>

definition priv_lengths :: "RTCPSDESPacket \<Rightarrow> (nat \<times> nat \<times> nat) option res" where
  "priv_lengths p =
     (if \<not> knownformat p then Inr None
      else
        (case currentchunk p of
           None \<Rightarrow> Inr None
         | Some chunk \<Rightarrow>
             bind_res (rd (sd_data p) (chunk + itemoffset p)) (\<lambda>sdesid.
             if sdesid \<noteq> 8 then Inr None
             else
               bind_res (rd (sd_data p) (chunk + itemoffset p + 1)) (\<lambda>len.
               if len = 0 then Inr None
               else
                 bind_res (rd (sd_data p) (chunk + itemoffset p + 2)) (\<lambda>preflen.
                 let prefixlength = unat preflen in
                 if prefixlength > unat len - 1 then Inr None
                 else Inr (Some (chunk + itemoffset p, unat len, prefixlength)))))))"

definition GetPRIVPrefixLength :: "RTCPSDESPacket \<Rightarrow> nat res" where
  "GetPRIVPrefixLength p =
     bind_res (priv_lengths p) (\<lambda>r. case r of None \<Rightarrow> Inr 0 | Some (_, _, prefixlength) \<Rightarrow> Inr prefixlength)"

definition GetPRIVPrefixData :: "RTCPSDESPacket \<Rightarrow> nat option res" where
  "GetPRIVPrefixData p =
     bind_res (priv_lengths p) (\<lambda>r.
     case r of
       None \<Rightarrow> Inr None
     | Some (item, _, prefixlength) \<Rightarrow>
         if prefixlength = 0 then Inr None else Inr (Some (item + 2 + 1)))"

definition GetPRIVValueLength :: "RTCPSDESPacket \<Rightarrow> nat res" where
  "GetPRIVValueLength p =
     bind_res (priv_lengths p) (\<lambda>r.
     case r of None \<Rightarrow> Inr 0 | Some (_, len, prefixlength) \<Rightarrow> Inr (len - prefixlength - 1))"

definition GetPRIVValueData :: "RTCPSDESPacket \<Rightarrow> nat option res" where
  "GetPRIVValueData p =
     bind_res (priv_lengths p) (\<lambda>r.
     case r of
       None \<Rightarrow> Inr None
     | Some (item, len, prefixlength) \<Rightarrow>
         let valuelen = len - prefixlength - 1 in
         if valuelen = 0 then Inr None else Inr (Some (item + 2 + 1 + prefixlength)))"

section \<open>Sizes of compound packets\<close>

text \<open>The sources of the builder: an identifier, the items and their size.\<close>

record SDESSource =
  ss_ssrc :: u32
  ss_items :: "byte list list"
  totalitemsize :: nat

definition new_SDESSource :: "u32 \<Rightarrow> SDESSource" where
  "new_SDESSource s = \<lparr>ss_ssrc = s, ss_items = [], totalitemsize = 0\<rparr>"

definition pad_source :: "nat \<Rightarrow> nat" where
  "pad_source x = (let r = x mod 4; x = (if r \<noteq> 0 then x + (4 - r) else x) in x + 4)"

definition SDESSource_NeededBytes :: "SDESSource \<Rightarrow> nat" where
  "SDESSource_NeededBytes s = pad_source (totalitemsize s + 1)"

definition SDESSource_NeededBytesWithExtraItem :: "byte \<Rightarrow> SDESSource \<Rightarrow> nat" where
  "SDESSource_NeededBytesWithExtraItem itemdatalength s =
     pad_source (totalitemsize s + 2 + unat itemdatalength + 1)"

definition SDESSource_AddItem :: "byte list \<Rightarrow> SDESSource \<Rightarrow> SDESSource" where
  "SDESSource_AddItem b s =
     s\<lparr>totalitemsize := totalitemsize s + length b, ss_items := ss_items s @ [b]\<rparr>"

text \<open>
  The list of sources; the iterator of the class always points to the last one once there is one.
\<close>

definition SDES_AddSSRC :: "bool \<Rightarrow> u32 \<Rightarrow> SDESSource list \<Rightarrow> int \<times> SDESSource list" where
  "SDES_AddSSRC mem ssrc ss = (if \<not> mem then (-1, ss) else (0, ss @ [new_SDESSource ssrc]))"

definition ERR_NOCURRENTSOURCE :: int where "ERR_NOCURRENTSOURCE = -40"

definition SDES_AddItem :: "byte list \<Rightarrow> SDESSource list \<Rightarrow> int \<times> SDESSource list" where
  "SDES_AddItem b ss =
     (if ss = [] then (ERR_NOCURRENTSOURCE, ss)
      else (0, butlast ss @ [SDESSource_AddItem b (last ss)]))"

text \<open>Headers of four bytes, for at most 31 entries each.\<close>

definition header_bytes :: "nat \<Rightarrow> nat \<Rightarrow> nat" where
  "header_bytes n h = (let d = n div 31; r = n mod 31; d = (if r \<noteq> 0 then d + 1 else d) in d * h)"

definition SDES_NeededBytes :: "SDESSource list \<Rightarrow> nat" where
  "SDES_NeededBytes ss =
     (if ss = [] then 0
      else sum_list (map SDESSource_NeededBytes ss) + header_bytes (length ss) 4)"

definition SDES_NeededBytesWithExtraItem :: "byte \<Rightarrow> SDESSource list \<Rightarrow> nat" where
  "SDES_NeededBytesWithExtraItem itemdatalength ss =
     (if ss = [] then 0
      else sum_list (map SDESSource_NeededBytes (butlast ss)) +
        SDESSource_NeededBytesWithExtraItem itemdatalength (last ss) + header_bytes (length ss) 4)"

definition SDES_NeededBytesWithExtraSource :: "SDESSource list \<Rightarrow> nat" where
  "SDES_NeededBytesWithExtraSource ss =
     (if ss = [] then 0
      else sum_list (map SDESSource_NeededBytes ss) + 4 * 2 + header_bytes (length ss + 1) 4)"

text \<open>Reports: blocks of 24 bytes, the first packet with the 20 bytes of a sender report.\<close>

record Report =
  isSR :: bool
  headerlength :: nat
  reportblocks :: "byte list list"

definition Report_NeededBytes :: "Report \<Rightarrow> nat" where
  "Report_NeededBytes r =
     (let n = length (reportblocks r) in
      if n = 0 then (if headerlength r = 0 then 0 else 4 + headerlength r)
      else n * 24 + header_bytes n (4 + 4) + (if isSR r then 20 else 0))"

definition Report_NeededBytesWithExtraReportBlock :: "Report \<Rightarrow> nat" where
  "Report_NeededBytesWithExtraReportBlock r =
     (let n = length (reportblocks r) + 1 in
      n * 24 + header_bytes n (4 + 4) + (if isSR r then 20 else 0))"

end
