(* ===== verification/JrtpSdesRun.thy ===== *)
theory JrtpSdesRun
  imports JrtpSdes
begin

text \<open>
  Source descriptions as RFC 3550 writes them, what the cursor of the packet class finds in them,
  and that the sizes of the builder are those of the packets.
\<close>

section \<open>The format\<close>

type_synonym sdes_item = "byte \<times> byte list"
type_synonym sdes_chunk = "u32 \<times> sdes_item list"

definition item_bytes :: "sdes_item \<Rightarrow> byte list" where
  "item_bytes i = fst i # of_nat (length (snd i)) # snd i"

definition items_bytes :: "sdes_item list \<Rightarrow> byte list" where
  "items_bytes is = concat (map item_bytes is)"

text \<open>The zero that ends the items, and more up to a multiple of four.\<close>

definition pad_zeros :: "nat \<Rightarrow> byte list" where
  "pad_zeros n = replicate (4 - n mod 4) 0"

definition chunk_bytes :: "sdes_chunk \<Rightarrow> byte list" where
  "chunk_bytes c = be32 (fst c) @ items_bytes (snd c) @ pad_zeros (length (items_bytes (snd c)))"

definition item_ok :: "sdes_item \<Rightarrow> bool" where
  "item_ok i \<longleftrightarrow> fst i \<noteq> 0 \<and> length (snd i) < 256"

definition sdes_bytes :: "sdes_chunk list \<Rightarrow> byte list" where
  "sdes_bytes cs =
     (let body = concat (map chunk_bytes cs) in
      [0x80 OR of_nat (length cs), 202] @ be16 (of_nat (length body div 4)) @ body)"

lemma length_item_bytes: "length (item_bytes i) = 2 + length (snd i)"
  by (simp add: item_bytes_def)

lemma items_bytes_simps [simp]:
  "items_bytes [] = []" "items_bytes (i # is) = item_bytes i @ items_bytes is"
  by (simp_all add: items_bytes_def)

lemma pad_zeros_Cons: "\<exists>z. pad_zeros n = 0 # z"
proof -
  have "4 - n mod 4 = Suc (3 - n mod 4)" by (simp add: Suc_diff_le less_Suc_eq_le [symmetric])
  then show ?thesis by (simp add: pad_zeros_def)
qed

lemma length_chunk_bytes:
  "length (chunk_bytes c) = 4 + length (items_bytes (snd c)) + (4 - length (items_bytes (snd c)) mod 4)"
  by (simp add: chunk_bytes_def pad_zeros_def)

section \<open>The items of a chunk\<close>

text \<open>An item in the middle of the data, and a zero.\<close>

lemma rd_item:
  assumes "length d = n"
  shows "rd (d @ item_bytes i @ r) n = Inr (fst i)"
    and "rd (d @ item_bytes i @ r) (n + 1) = Inr (of_nat (length (snd i)))"
  using assms by (simp_all add: rd_def item_bytes_def nth_append)

lemma item_len: "item_ok i \<Longrightarrow> unat (of_nat (length (snd i)) :: byte) = length (snd i)"
  by (simp add: item_ok_def unat_of_nat)

lemma rd_zero: "length d = n \<Longrightarrow> rd (d @ 0 # r) n = Inr 0"
  by (auto simp: rd_def nth_append)

lemma skip_items_run:
  assumes "\<forall>i\<in>set is. item_ok i" "length d = chunk + offset"
  shows "skip_items (d @ items_bytes is @ 0 # r) chunk offset = Inr (offset + length (items_bytes is))"
  using assms
proof (induction "is" arbitrary: d offset)
  case Nil
  then show ?case using rd_zero [of d "chunk + offset" r] by (subst skip_items.simps) simp
next
  case (Cons i "is")
  note item = rd_item [of d "chunk + offset" i "items_bytes is @ 0 # r"] item_len [of i]
  have "skip_items ((d @ item_bytes i) @ items_bytes is @ 0 # r) chunk (offset + 2 + length (snd i)) =
      Inr (offset + 2 + length (snd i) + length (items_bytes is))"
    using Cons.prems by (intro Cons.IH) (auto simp: length_item_bytes)
  then show ?case
    using Cons.prems item by (subst skip_items.simps) (simp add: item_ok_def length_item_bytes)
qed

section \<open>The cursor\<close>

text \<open>Where a chunk begins, and an item in it.\<close>

definition chunk_pos :: "sdes_chunk list \<Rightarrow> nat \<Rightarrow> nat" where
  "chunk_pos cs j = 4 + length (concat (map chunk_bytes (take j cs)))"

definition at_item :: "sdes_chunk list \<Rightarrow> nat \<Rightarrow> nat \<Rightarrow> RTCPSDESPacket \<Rightarrow> bool" where
  "at_item cs j i p \<longleftrightarrow> sd_data p = sdes_bytes cs \<and> knownformat p \<and>
     currentchunk p = Some (chunk_pos cs j) \<and> curchunknum p = j + 1 \<and>
     itemoffset p = 4 + length (items_bytes (take i (snd (cs ! j))))"

definition sdes_ok :: "sdes_chunk list \<Rightarrow> bool" where
  "sdes_ok cs \<longleftrightarrow> length cs \<le> 31 \<and> (\<forall>c\<in>set cs. \<forall>i\<in>set (snd c). item_ok i)"

lemma sdes_ok_item:
  assumes "sdes_ok cs" "j < length cs" "i \<in> set (snd (cs ! j))"
  shows "item_ok i" "fst i \<noteq> 0"
  using assms nth_mem [of j cs] by (auto simp: sdes_ok_def item_ok_def)

text \<open>The data, cut at a chunk.\<close>

lemma sdes_cut:
  assumes "j < length cs"
  obtains pre post where "sdes_bytes cs = pre @ chunk_bytes (cs ! j) @ post" "length pre = chunk_pos cs j"
proof -
  have "concat (map chunk_bytes cs) = concat (map chunk_bytes (take j cs)) @ chunk_bytes (cs ! j) @
      concat (map chunk_bytes (drop (Suc j) cs))"
    by (subst id_take_nth_drop [OF assms]) simp
  then show ?thesis
    by (intro that [of "[0x80 OR of_nat (length cs), 202] @
          be16 (of_nat (length (concat (map chunk_bytes cs)) div 4)) @ concat (map chunk_bytes (take j cs))"
          "concat (map chunk_bytes (drop (Suc j) cs))"])
       (simp_all add: sdes_bytes_def Let_def chunk_pos_def)
qed

lemma items_cut:
  assumes "i < length is"
  shows "items_bytes is = items_bytes (take i is) @ item_bytes (is ! i) @ items_bytes (drop (Suc i) is)"
  by (subst id_take_nth_drop [OF assms]) (simp add: items_bytes_def)

text \<open>The data, cut at an item and behind the items.\<close>

lemma item_cut:
  assumes "j < length cs" "i < length (snd (cs ! j))"
  obtains pre post where
    "sdes_bytes cs = pre @ item_bytes (snd (cs ! j) ! i) @ items_bytes (drop (Suc i) (snd (cs ! j))) @ 0 # post"
    "length pre = chunk_pos cs j + (4 + length (items_bytes (take i (snd (cs ! j)))))"
proof -
  obtain pre post where cut: "sdes_bytes cs = pre @ chunk_bytes (cs ! j) @ post" "length pre = chunk_pos cs j"
    by (rule sdes_cut [OF assms(1)])
  obtain z where z: "pad_zeros (length (items_bytes (snd (cs ! j)))) = 0 # z"
    using pad_zeros_Cons by blast
  show ?thesis
    using cut z items_cut [OF assms(2)]
    by (intro that [of "pre @ be32 (fst (cs ! j)) @ items_bytes (take i (snd (cs ! j)))" "z @ post"])
       (simp_all add: chunk_bytes_def)
qed

lemma items_end:
  assumes "j < length cs"
  obtains pre post where "sdes_bytes cs = pre @ items_bytes (snd (cs ! j)) @ 0 # post"
    "length pre = chunk_pos cs j + 4"
proof -
  obtain pre post where cut: "sdes_bytes cs = pre @ chunk_bytes (cs ! j) @ post" "length pre = chunk_pos cs j"
    by (rule sdes_cut [OF assms(1)])
  obtain z where z: "pad_zeros (length (items_bytes (snd (cs ! j)))) = 0 # z"
    using pad_zeros_Cons by blast
  show ?thesis
    using cut z by (intro that [of "pre @ be32 (fst (cs ! j))" "z @ post"]) (simp_all add: chunk_bytes_def)
qed

lemma chunk_pos_Suc:
  "j < length cs \<Longrightarrow> chunk_pos cs (Suc j) = chunk_pos cs j + length (chunk_bytes (cs ! j))"
  by (simp add: chunk_pos_def take_Suc_conv_app_nth)

lemma count_bits: "n \<le> 31 \<Longrightarrow> unat ((0x80 OR of_nat n) AND 0x1F :: byte) = n"
proof -
  assume "n \<le> 31"
  moreover have "\<forall>n\<in>set [0..<32]. unat ((0x80 OR of_nat n) AND 0x1F :: byte) = n"
    by code_simp
  ultimately show ?thesis by simp
qed

lemma count_run:
  assumes "sdes_ok cs" "sd_data p = sdes_bytes cs" "knownformat p"
  shows "GetChunkCount p = Inr (length cs)"
  using assms count_bits [of "length cs"]
  by (simp add: GetChunkCount_def sdes_bytes_def Let_def rd_def sdes_ok_def)

lemma first_chunk_run:
  assumes "sdes_ok cs" "sd_data p = sdes_bytes cs" "knownformat p"
  shows "\<exists>p'. GotoFirstChunk p = Inr (cs \<noteq> [], p') \<and> (cs \<noteq> [] \<longrightarrow> at_item cs 0 0 p')"
  using assms by (auto simp: GotoFirstChunk_def count_run at_item_def chunk_pos_def)

lemma pad_up:
  fixes n :: nat
  shows "(let x = n + 1 in if x mod 4 \<noteq> 0 then x + (4 - x mod 4) else x) = n + (4 - n mod 4)"
proof -
  define q r where "q = n div 4" and "r = n mod 4"
  then have n: "n = 4 * q + r" and "r < 4" by auto
  then have "r = 0 \<or> r = 1 \<or> r = 2 \<or> r = 3" by auto
  moreover have "(n + 1) mod 4 = (r + 1) mod 4" using n by (simp add: mod_simps)
  moreover have "n mod 4 = r" using r_def by simp
  ultimately show ?thesis by (auto simp: Let_def simp flip: numeral_2_eq_2)
qed

lemma pad_offset:
  fixes n :: nat
  shows "(let x = 4 + n + 1 in if x mod 4 \<noteq> 0 then x + (4 - x mod 4) else x) = 4 + n + (4 - n mod 4)"
  using pad_up [of "4 + n"] by simp

lemma next_chunk_run:
  assumes ok: "sdes_ok cs" and at: "at_item cs j i p" and j: "j < length cs"
  shows "\<exists>p'. GotoNextChunk p = Inr (Suc j < length cs, p') \<and>
    (Suc j < length cs \<longrightarrow> at_item cs (Suc j) 0 p')"
proof -
  have st: "sd_data p = sdes_bytes cs" "knownformat p" "currentchunk p = Some (chunk_pos cs j)"
    "curchunknum p = j + 1"
    using at by (auto simp: at_item_def)
  obtain pre post where cut: "sdes_bytes cs = pre @ items_bytes (snd (cs ! j)) @ 0 # post"
    "length pre = chunk_pos cs j + 4"
    by (rule items_end [OF j])
  have items: "\<forall>i\<in>set (snd (cs ! j)). item_ok i" using ok j by (auto simp: sdes_ok_def)
  let ?n = "length (items_bytes (snd (cs ! j)))"
  have skip: "skip_items (sd_data p) (chunk_pos cs j) 4 = Inr (4 + ?n)"
    unfolding st(1) cut(1) using cut(2) by (intro skip_items_run [OF items])
  have pad: "(let offset = 4 + ?n + 1 in if offset mod 4 \<noteq> 0 then offset + (4 - offset mod 4) else offset) =
      length (chunk_bytes (cs ! j))"
    by (simp only: length_chunk_bytes pad_offset)
  show ?thesis
    using count_run [OF ok st(1,2)] st skip pad j chunk_pos_Suc [OF j]
    by (auto simp: GotoNextChunk_def at_item_def Let_def)
qed

lemma ssrc_run:
  assumes at: "at_item cs j i p" and j: "j < length cs"
  shows "GetChunkSSRC p = Inr (fst (cs ! j))"
proof -
  obtain pre post where cut: "sdes_bytes cs = pre @ chunk_bytes (cs ! j) @ post" "length pre = chunk_pos cs j"
    by (rule sdes_cut [OF j])
  have "rd_block (sdes_bytes cs) (chunk_pos cs j) 4 = Inr (be32 (fst (cs ! j)))"
    by (simp add: cut(1) cut(2) [symmetric] chunk_bytes_def rd_block_def)
  then show ?thesis
    using at by (simp add: at_item_def GetChunkSSRC_def be32_def be16_def)
qed

lemma first_item_run:
  assumes ok: "sdes_ok cs" and at: "at_item cs j k p" and j: "j < length cs"
  shows "\<exists>p'. GotoFirstItem p = Inr (snd (cs ! j) \<noteq> [], p') \<and> at_item cs j 0 p'"
proof -
  obtain pre post where cut: "sdes_bytes cs = pre @ items_bytes (snd (cs ! j)) @ 0 # post"
    "length pre = chunk_pos cs j + 4"
    by (rule items_end [OF j])
  have "rd (sdes_bytes cs) (chunk_pos cs j + 4) = Inr (case snd (cs ! j) of [] \<Rightarrow> 0 | i # _ \<Rightarrow> fst i)"
    using cut rd_zero [of pre _ post] rd_item(1) [of pre "chunk_pos cs j + 4"]
    by (cases "snd (cs ! j)") simp_all
  moreover have "fst i \<noteq> 0" if "snd (cs ! j) = i # is" for i "is"
    using sdes_ok_item(2) [OF ok j, of i] that by simp
  ultimately show ?thesis
    using at by (cases "snd (cs ! j)") (auto simp: GotoFirstItem_def at_item_def)
qed

text \<open>What stands at an item, and at the next one.\<close>

lemma item_reads:
  assumes ok: "sdes_ok cs" and j: "j < length cs" and i: "i < length (snd (cs ! j))"
  defines "pos \<equiv> chunk_pos cs j + (4 + length (items_bytes (take i (snd (cs ! j)))))"
    and "it \<equiv> snd (cs ! j) ! i"
  shows "item_ok it" "rd (sdes_bytes cs) pos = Inr (fst it)"
    "rd (sdes_bytes cs) (pos + 1) = Inr (of_nat (length (snd it)))"
    "rd_block (sdes_bytes cs) (pos + 2) (length (snd it)) = Inr (snd it)"
    "rd (sdes_bytes cs) (pos + 2 + length (snd it)) =
       Inr (if Suc i < length (snd (cs ! j)) then fst (snd (cs ! j) ! Suc i) else 0)"
proof -
  obtain pre post where cut:
    "sdes_bytes cs = pre @ item_bytes it @ items_bytes (drop (Suc i) (snd (cs ! j))) @ 0 # post"
    and len: "length pre = pos"
    unfolding pos_def it_def by (rule item_cut [OF j i])
  show it: "item_ok it" using sdes_ok_item(1) [OF ok j] i by (simp add: it_def)
  show "rd (sdes_bytes cs) pos = Inr (fst it)"
    "rd (sdes_bytes cs) (pos + 1) = Inr (of_nat (length (snd it)))"
    unfolding cut by (rule rd_item [OF len])+
  show "rd_block (sdes_bytes cs) (pos + 2) (length (snd it)) = Inr (snd it)"
    unfolding cut by (simp add: rd_block_def item_bytes_def len [symmetric])
  have pre': "sdes_bytes cs = (pre @ item_bytes it) @ items_bytes (drop (Suc i) (snd (cs ! j))) @ 0 # post"
    and len': "length (pre @ item_bytes it) = pos + 2 + length (snd it)"
    using cut len by (simp_all add: length_item_bytes)
  show "rd (sdes_bytes cs) (pos + 2 + length (snd it)) =
       Inr (if Suc i < length (snd (cs ! j)) then fst (snd (cs ! j) ! Suc i) else 0)"
  proof (cases "Suc i < length (snd (cs ! j))")
    case True
    then have "items_bytes (drop (Suc i) (snd (cs ! j))) =
        item_bytes (snd (cs ! j) ! Suc i) @ items_bytes (drop (Suc (Suc i)) (snd (cs ! j)))"
      by (simp add: Cons_nth_drop_Suc [symmetric])
    then show ?thesis using True rd_item(1) [OF len'] unfolding pre' by simp
  next
    case False
    then show ?thesis using rd_zero [OF len'] unfolding pre' by simp
  qed
qed

lemma next_item_run:
  assumes ok: "sdes_ok cs" and at: "at_item cs j i p" and j: "j < length cs" and i: "i < length (snd (cs ! j))"
  shows "\<exists>p'. GotoNextItem p = Inr (Suc i < length (snd (cs ! j)), p') \<and>
    (Suc i < length (snd (cs ! j)) \<longrightarrow> at_item cs j (Suc i) p')"
proof -
  note reads = item_reads [OF ok j i]
  have st: "sd_data p = sdes_bytes cs" "knownformat p" "currentchunk p = Some (chunk_pos cs j)"
    "itemoffset p = 4 + length (items_bytes (take i (snd (cs ! j))))"
    using at by (auto simp: at_item_def)
  have nz: "fst (snd (cs ! j) ! i) \<noteq> 0" using reads(1) by (simp add: item_ok_def)
  have nz': "fst (snd (cs ! j) ! Suc i) \<noteq> 0" if "Suc i < length (snd (cs ! j))"
    using item_reads(1) [OF ok j that] by (simp add: item_ok_def)
  have "items_bytes (take (Suc i) (snd (cs ! j))) =
      items_bytes (take i (snd (cs ! j))) @ item_bytes (snd (cs ! j) ! i)"
    by (simp add: take_Suc_conv_app_nth [OF i] items_bytes_def)
  then have off: "4 + length (items_bytes (take (Suc i) (snd (cs ! j)))) =
      itemoffset p + 2 + length (snd (snd (cs ! j) ! i))"
    by (simp add: st(4) length_item_bytes)
  note r = reads(2,3,5) [unfolded st(4) [symmetric]]
  have "rd (sdes_bytes cs) (chunk_pos cs j + (itemoffset p + 2 + length (snd (snd (cs ! j) ! i)))) =
       Inr (if Suc i < length (snd (cs ! j)) then fst (snd (cs ! j) ! Suc i) else 0)"
    using r(3) by (simp add: add.assoc)
  then have "GotoNextItem p = Inr (if Suc i < length (snd (cs ! j))
      then (True, p\<lparr>itemoffset := itemoffset p + 2 + length (snd (snd (cs ! j) ! i))\<rparr>) else (False, p))"
    using r(1,2) st(1-3) nz nz' item_len [OF reads(1)] by (simp add: GotoNextItem_def Let_def)
  then show ?thesis
    using at off by (simp add: at_item_def)
qed

lemma item_run:
  assumes ok: "sdes_ok cs" and at: "at_item cs j i p" and j: "j < length cs" and i: "i < length (snd (cs ! j))"
  shows "GetItemType p = Inr (item_type (fst (snd (cs ! j) ! i)))"
    and "GetItemLength p = Inr (length (snd (snd (cs ! j) ! i)))"
    and "\<exists>q. GetItemData p = Inr (Some q) \<and>
      rd_block (sd_data p) q (length (snd (snd (cs ! j) ! i))) = Inr (snd (snd (cs ! j) ! i))"
proof -
  note reads = item_reads [OF ok j i]
  have st: "sd_data p = sdes_bytes cs" "knownformat p" "currentchunk p = Some (chunk_pos cs j)"
    "itemoffset p = 4 + length (items_bytes (take i (snd (cs ! j))))"
    using at by (auto simp: at_item_def)
  have nz: "fst (snd (cs ! j) ! i) \<noteq> 0" using reads(1) by (simp add: item_ok_def)
  show "GetItemType p = Inr (item_type (fst (snd (cs ! j) ! i)))"
    using reads(2) st by (simp add: GetItemType_def)
  show "GetItemLength p = Inr (length (snd (snd (cs ! j) ! i)))"
    using reads(2,3) st nz item_len [OF reads(1)] by (simp add: GetItemLength_def)
  show "\<exists>q. GetItemData p = Inr (Some q) \<and>
      rd_block (sd_data p) q (length (snd (snd (cs ! j) ! i))) = Inr (snd (snd (cs ! j) ! i))"
    using reads(2,4) st nz by (simp add: GetItemData_def)
qed

section \<open>Properties\<close>

text \<open>The walks that the documentation of the class describes, to a chunk and to an item.\<close>

primrec goto_chunk :: "nat \<Rightarrow> RTCPSDESPacket \<Rightarrow> (bool \<times> RTCPSDESPacket) res" where
  "goto_chunk 0 p = GotoFirstChunk p"
| "goto_chunk (Suc j) p = bind_res (goto_chunk j p) (\<lambda>(_, p). GotoNextChunk p)"

primrec goto_item :: "nat \<Rightarrow> RTCPSDESPacket \<Rightarrow> (bool \<times> RTCPSDESPacket) res" where
  "goto_item 0 p = GotoFirstItem p"
| "goto_item (Suc i) p = bind_res (goto_item i p) (\<lambda>(_, p). GotoNextItem p)"

lemma goto_chunk_run:
  assumes "sdes_ok cs" "sd_data p = sdes_bytes cs" "knownformat p" "j \<le> length cs"
  shows "\<exists>p'. goto_chunk j p = Inr (j < length cs, p') \<and> (j < length cs \<longrightarrow> at_item cs j 0 p')"
  using assms(4)
proof (induction j)
  case 0
  show ?case using first_chunk_run [OF assms(1-3)] by auto
next
  case (Suc j)
  then obtain p' where "goto_chunk j p = Inr (True, p')" "at_item cs j 0 p'" by auto
  then show ?case using next_chunk_run [OF assms(1), of j 0 p'] Suc.prems by auto
qed

lemma goto_item_run:
  assumes "sdes_ok cs" "at_item cs j 0 p" "j < length cs" "i \<le> length (snd (cs ! j))"
  shows "\<exists>p'. goto_item i p = Inr (i < length (snd (cs ! j)), p') \<and>
    (i < length (snd (cs ! j)) \<longrightarrow> at_item cs j i p')"
  using assms(4)
proof (induction i)
  case 0
  show ?case using first_item_run [OF assms(1-3)] by auto
next
  case (Suc i)
  then obtain p' where "goto_item i p = Inr (True, p')" "at_item cs j i p'" by auto
  then show ?case using next_item_run [OF assms(1) _ assms(3), of i p'] Suc.prems by auto
qed

lemma read_item:
  assumes "sdes_ok cs" "at_item cs j 0 p1" "j < length cs" "i < length (snd (cs ! j))"
  shows "\<exists>p2 q. goto_item i p1 = Inr (True, p2) \<and>
    GetItemType p2 = Inr (item_type (fst (snd (cs ! j) ! i))) \<and>
    GetItemLength p2 = Inr (length (snd (snd (cs ! j) ! i))) \<and> GetItemData p2 = Inr (Some q) \<and>
    rd_block (sd_data p2) q (length (snd (snd (cs ! j) ! i))) = Inr (snd (snd (cs ! j) ! i))"
proof -
  obtain p2 where p2: "goto_item i p1 = Inr (True, p2)" "at_item cs j i p2"
    using goto_item_run [OF assms(1-3), of i] assms(4) by auto
  from item_run [OF assms(1) p2(2) assms(3,4)] p2(1) show ?thesis by blast
qed

lemma read_chunk:
  assumes "sdes_ok cs" "sd_data p = sdes_bytes cs" "knownformat p" "j < length cs"
  shows "\<exists>p1. goto_chunk j p = Inr (True, p1) \<and> GetChunkSSRC p1 = Inr (fst (cs ! j)) \<and>
    (\<exists>p2. goto_item (length (snd (cs ! j))) p1 = Inr (False, p2)) \<and>
    (\<forall>i<length (snd (cs ! j)). \<exists>p2 q. goto_item i p1 = Inr (True, p2) \<and>
       GetItemType p2 = Inr (item_type (fst (snd (cs ! j) ! i))) \<and>
       GetItemLength p2 = Inr (length (snd (snd (cs ! j) ! i))) \<and> GetItemData p2 = Inr (Some q) \<and>
       rd_block (sd_data p2) q (length (snd (snd (cs ! j) ! i))) = Inr (snd (snd (cs ! j) ! i)))"
proof -
  obtain p1 where p1: "goto_chunk j p = Inr (True, p1)" "at_item cs j 0 p1"
    using goto_chunk_run [OF assms(1-3), of j] assms(4) by auto
  then show ?thesis
    using ssrc_run [OF p1(2) assms(4)] read_item [OF assms(1) p1(2) assms(4)]
      goto_item_run [OF assms(1) p1(2) assms(4) order_refl] by auto
qed

text \<open>
  C14: The cursor reads back a source description packet of up to 31 chunks with any items of up to
  255 bytes: it visits the chunks in order and then says that there is no further one; in each it
  gives the identifier and visits the items in order, with their type, length and data.  It skips
  the zeros that fill a chunk up to a multiple of four bytes, and reads nothing outside the packet.
\<close>

theorem sdes_packet_read:
  assumes "sdes_ok cs" "sd_data p = sdes_bytes cs" "knownformat p"
  shows "(\<exists>p1. goto_chunk (length cs) p = Inr (False, p1)) \<and>
    (\<forall>j<length cs. \<exists>p1. goto_chunk j p = Inr (True, p1) \<and> GetChunkSSRC p1 = Inr (fst (cs ! j)) \<and>
      (\<exists>p2. goto_item (length (snd (cs ! j))) p1 = Inr (False, p2)) \<and>
      (\<forall>i<length (snd (cs ! j)). \<exists>p2 q. goto_item i p1 = Inr (True, p2) \<and>
         GetItemType p2 = Inr (item_type (fst (snd (cs ! j) ! i))) \<and>
         GetItemLength p2 = Inr (length (snd (snd (cs ! j) ! i))) \<and> GetItemData p2 = Inr (Some q) \<and>
         rd_block (sd_data p2) q (length (snd (snd (cs ! j) ! i))) = Inr (snd (snd (cs ! j) ! i))))"
  using goto_chunk_run [OF assms, of "length cs"] read_chunk [OF assms] by simp

definition sample_sdes :: "sdes_chunk list" where
  "sample_sdes = [(7, [(1, [97, 64, 98]), (6, [])]), (8, []), (9, [(8, [1, 120, 121])])]"

theorem sdes_packet_read_witness:
  "\<exists>p1. goto_chunk 3 \<lparr>sd_data = sdes_bytes sample_sdes, knownformat = True, currentchunk = None,
      curchunknum = 0, itemoffset = 0\<rparr> = Inr (False, p1)"
proof -
  have "sdes_ok sample_sdes" "length sample_sdes = 3"
    by (simp_all add: sample_sdes_def sdes_ok_def item_ok_def)
  then show ?thesis
    using sdes_packet_read [of sample_sdes "\<lparr>sd_data = sdes_bytes sample_sdes, knownformat = True,
        currentchunk = None, curchunknum = 0, itemoffset = 0\<rparr>"] by simp
qed

section \<open>The sizes of the builder\<close>

definition source_of :: "sdes_chunk \<Rightarrow> SDESSource" where
  "source_of c = \<lparr>ss_ssrc = fst c, ss_items = map item_bytes (snd c),
     totalitemsize = length (items_bytes (snd c))\<rparr>"

text \<open>A source is added, and then its items.\<close>

definition add_source :: "sdes_chunk \<Rightarrow> SDESSource list \<Rightarrow> SDESSource list" where
  "add_source c ss =
     fold (\<lambda>i ss. snd (SDES_AddItem (item_bytes i) ss)) (snd c) (snd (SDES_AddSSRC True (fst c) ss))"

lemma add_item_run:
  "SDES_AddItem (item_bytes i) (ss @ [source_of (x, is)]) = (0, ss @ [source_of (x, is @ [i])])"
  by (simp add: SDES_AddItem_def SDESSource_AddItem_def source_of_def items_bytes_def)

lemma add_items_run:
  "fold (\<lambda>i ss. snd (SDES_AddItem (item_bytes i) ss)) is (ss @ [source_of (x, js)]) =
     ss @ [source_of (x, js @ is)]"
  by (induction "is" arbitrary: js) (simp_all add: add_item_run)

lemma add_source_run: "add_source c ss = ss @ [source_of c]"
proof -
  have "snd (SDES_AddSSRC True (fst c) ss) = ss @ [source_of (fst c, [])]"
    by (simp add: SDES_AddSSRC_def new_SDESSource_def source_of_def)
  then show ?thesis by (simp add: add_source_def add_items_run)
qed

lemma add_sources_run: "fold add_source cs ss = ss @ map source_of cs"
  by (induction cs arbitrary: ss) (simp_all add: add_source_run)

lemma source_bytes: "SDESSource_NeededBytes (source_of c) = length (chunk_bytes c)"
  using pad_up [of "length (items_bytes (snd c))"]
  by (simp add: SDESSource_NeededBytes_def pad_source_def source_of_def length_chunk_bytes Let_def)

lemma sources_bytes:
  "sum_list (map SDESSource_NeededBytes (map source_of cs)) = length (concat (map chunk_bytes cs))"
  by (induction cs) (simp_all add: source_bytes)

lemma length_sdes_bytes: "length (sdes_bytes cs) = 4 + length (concat (map chunk_bytes cs))"
  by (simp add: sdes_bytes_def Let_def)

lemma length_chunks:
  "0 < k \<Longrightarrow> xs \<noteq> [] \<Longrightarrow>
   length (chunks k xs) = (if length xs mod k \<noteq> 0 then length xs div k + 1 else length xs div k)"
proof (induction k xs rule: chunks.induct)
  case (1 k xs)
  show ?case
  proof (cases "length xs \<le> k")
    case True
    then show ?thesis
      using 1(2,3) by (cases "length xs = k") (auto simp: chunks_short)
  next
    case False
    have k: "0 < k" by fact
    have A: "drop k xs \<noteq> []" using False by simp
    have B: "length xs div k = Suc ((length xs - k) div k)"
      using k False by (simp add: le_div_geq)
    have C: "length xs mod k = (length xs - k) mod k"
      using False by (simp add: le_mod_geq)
    have "length (chunks k (drop k xs)) =
       (if length (drop k xs) mod k \<noteq> 0 then length (drop k xs) div k + 1 else length (drop k xs) div k)"
      using 1(1) False k A by simp
    then show ?thesis using False k B C by (simp add: chunks_long)
  qed
qed

lemma length_sdes_packets:
  "sum_list (map (\<lambda>g. length (sdes_bytes g)) gs) =
     4 * length gs + length (concat (map chunk_bytes (concat gs)))"
  by (induction gs) (simp_all add: length_sdes_bytes)

lemma needed_bytes:
  "SDES_NeededBytes (map source_of cs) =
     (if cs = [] then 0 else sum_list (map (\<lambda>g. length (sdes_bytes g)) (chunks 31 cs)))"
  unfolding length_sdes_packets concat_chunks
  by (simp add: SDES_NeededBytes_def sources_bytes [simplified] length_chunks header_bytes_def Let_def)

text \<open>
  C15: The sizes that the builder computes for source descriptions: for any sources with their
  items, \<^verbatim>\<open>NeededBytes\<close> is the length of the packets that hold them, 31 sources to a packet, each
  chunk filled up to a multiple of four bytes, and 0 when there is no source; the size with one
  more item (of up to 255 bytes) is the size after the item has been added, also when that fails
  because there is no source; and the size with one more source is the size after the source has
  been added, except for the first source: then it says 0 bytes, where 12 are needed.
\<close>

theorem sdes_sizes:
  fixes cs :: "sdes_chunk list" and d :: "byte list" and l :: byte
  assumes "length d = unat l"
  defines "ss \<equiv> fold add_source cs []"
  shows "SDES_NeededBytes ss =
      (if cs = [] then 0 else sum_list (map (\<lambda>g. length (sdes_bytes g)) (chunks 31 cs))) \<and>
    SDES_NeededBytesWithExtraItem l ss = SDES_NeededBytes (snd (SDES_AddItem (item_bytes (t, d)) ss)) \<and>
    SDES_NeededBytes (snd (SDES_AddSSRC True x ss)) =
      (if cs = [] then 12 else SDES_NeededBytesWithExtraSource ss) \<and>
    (cs = [] \<longrightarrow> SDES_NeededBytesWithExtraSource ss = 0)"
proof (intro conjI)
  have ss: "ss = map source_of cs" by (simp add: ss_def add_sources_run)
  show "SDES_NeededBytes ss = (if cs = [] then 0 else sum_list (map (\<lambda>g. length (sdes_bytes g)) (chunks 31 cs)))"
    using needed_bytes [of cs] by (simp add: ss)
  show "SDES_NeededBytesWithExtraItem l ss = SDES_NeededBytes (snd (SDES_AddItem (item_bytes (t, d)) ss))"
    using assms(1) by (simp add: SDES_NeededBytesWithExtraItem_def SDES_NeededBytes_def SDES_AddItem_def
        SDESSource_NeededBytesWithExtraItem_def SDESSource_NeededBytes_def SDESSource_AddItem_def
        length_item_bytes ac_simps)
  have "pad_source 1 = 8" by (simp add: pad_source_def)
  then show "SDES_NeededBytes (snd (SDES_AddSSRC True x ss)) =
      (if cs = [] then 12 else SDES_NeededBytesWithExtraSource ss)"
    by (simp add: SDES_NeededBytesWithExtraSource_def SDES_NeededBytes_def SDES_AddSSRC_def
        SDESSource_NeededBytes_def new_SDESSource_def ss header_bytes_def)
  show "cs = [] \<longrightarrow> SDES_NeededBytesWithExtraSource ss = 0"
    by (simp add: SDES_NeededBytesWithExtraSource_def ss)
qed

theorem sdes_sizes_witness:
  "SDES_NeededBytes (fold add_source sample_sdes []) = 4 + (12 + 8 + 12)"
proof -
  have "sample_sdes \<noteq> []" "sum_list (map (\<lambda>g. length (sdes_bytes g)) (chunks 31 sample_sdes)) = 36"
    by (simp_all add: sample_sdes_def chunks_short length_sdes_bytes length_chunk_bytes length_item_bytes)
  then show ?thesis using sdes_sizes [of "[]" 0 sample_sdes 1 0] by simp
qed

end
