(* ===== verification/JrtpReport.thy ===== *)
theory JrtpReport
  imports Prelude
begin

text \<open>
  The sender reports, receiver reports, BYE and APP packets of
  \<^verbatim>\<open>jrtplib_send_recv_h264/include\<close>: the members that the headers define, which read fields at
  fixed places.  The constructors, which find out whether the format is known, where the reason of
  a BYE packet is and how much data an APP packet has, are not in the repository: their results are
  the state of the packet.  An index is a natural number; the classes do not check it.
\<close>

record RTCPPacket =
  pk_data :: "byte list"
  pk_known :: bool

text \<open>\<^verbatim>\<open>ntohl\<close> of the four bytes at an offset.\<close>

definition ntohl_at :: "byte list \<Rightarrow> nat \<Rightarrow> u32 res" where
  "ntohl_at d i = bind_res (rd_block d i 4) (\<lambda>b. Inr (of_be32 (b ! 0) (b ! 1) (b ! 2) (b ! 3)))"

text \<open>A member that gives 0 if the format is not known.\<close>

definition if_known :: "'a RTCPPacket_scheme \<Rightarrow> 'b \<Rightarrow> (byte list \<Rightarrow> 'b res) \<Rightarrow> 'b res" where
  "if_known p z f = (if \<not> pk_known p then Inr z else f (pk_data p))"

definition hdr_count :: "byte list \<Rightarrow> nat res" where
  "hdr_count d = bind_res (rd d 0) (\<lambda>b. Inr (unat (b AND 0x1F)))"

section \<open>Sender reports\<close>

definition SR_GetSenderSSRC :: "RTCPPacket \<Rightarrow> u32 res" where
  "SR_GetSenderSSRC p = if_known p 0 (\<lambda>d. ntohl_at d 4)"

definition SR_GetNTPTimestamp :: "RTCPPacket \<Rightarrow> (u32 \<times> u32) res" where
  "SR_GetNTPTimestamp p =
     if_known p (0, 0) (\<lambda>d. bind_res (ntohl_at d 8) (\<lambda>m. bind_res (ntohl_at d 12) (\<lambda>l. Inr (m, l))))"

definition SR_GetRTPTimestamp :: "RTCPPacket \<Rightarrow> u32 res" where
  "SR_GetRTPTimestamp p = if_known p 0 (\<lambda>d. ntohl_at d 16)"

definition SR_GetSenderPacketCount :: "RTCPPacket \<Rightarrow> u32 res" where
  "SR_GetSenderPacketCount p = if_known p 0 (\<lambda>d. ntohl_at d 20)"

definition SR_GetSenderOctetCount :: "RTCPPacket \<Rightarrow> u32 res" where
  "SR_GetSenderOctetCount p = if_known p 0 (\<lambda>d. ntohl_at d 24)"

definition SR_GetReceptionReportCount :: "RTCPPacket \<Rightarrow> nat res" where
  "SR_GetReceptionReportCount p = if_known p 0 hdr_count"

definition SR_GotoReport :: "nat \<Rightarrow> nat" where
  "SR_GotoReport index = 4 + 4 + 20 + index * 24"

text \<open>The 24 bits of the lost packets, as a signed number of 32 bits.\<close>

definition lost_count :: "byte \<Rightarrow> byte \<Rightarrow> byte \<Rightarrow> 32 word" where
  "lost_count b0 b1 b2 =
     (let count = ucast b2 OR push_bit 8 (ucast b1) OR push_bit 16 (ucast b0) :: u32
      in if count AND 0x00800000 \<noteq> 0 then count OR 0xFF000000 else count)"

definition lost_at :: "byte list \<Rightarrow> nat \<Rightarrow> int res" where
  "lost_at d r = bind_res (rd_block d (r + 5) 3) (\<lambda>b. Inr (sint (lost_count (b ! 0) (b ! 1) (b ! 2))))"

definition SR_GetSSRC :: "nat \<Rightarrow> RTCPPacket \<Rightarrow> u32 res" where
  "SR_GetSSRC index p = if_known p 0 (\<lambda>d. ntohl_at d (SR_GotoReport index))"

definition SR_GetFractionLost :: "nat \<Rightarrow> RTCPPacket \<Rightarrow> byte res" where
  "SR_GetFractionLost index p = if_known p 0 (\<lambda>d. rd d (SR_GotoReport index + 4))"

definition SR_GetLostPacketCount :: "nat \<Rightarrow> RTCPPacket \<Rightarrow> int res" where
  "SR_GetLostPacketCount index p = if_known p 0 (\<lambda>d. lost_at d (SR_GotoReport index))"

definition SR_GetExtendedHighestSequenceNumber :: "nat \<Rightarrow> RTCPPacket \<Rightarrow> u32 res" where
  "SR_GetExtendedHighestSequenceNumber index p = if_known p 0 (\<lambda>d. ntohl_at d (SR_GotoReport index + 8))"

definition SR_GetJitter :: "nat \<Rightarrow> RTCPPacket \<Rightarrow> u32 res" where
  "SR_GetJitter index p = if_known p 0 (\<lambda>d. ntohl_at d (SR_GotoReport index + 12))"

definition SR_GetLSR :: "nat \<Rightarrow> RTCPPacket \<Rightarrow> u32 res" where
  "SR_GetLSR index p = if_known p 0 (\<lambda>d. ntohl_at d (SR_GotoReport index + 16))"

definition SR_GetDLSR :: "nat \<Rightarrow> RTCPPacket \<Rightarrow> u32 res" where
  "SR_GetDLSR index p = if_known p 0 (\<lambda>d. ntohl_at d (SR_GotoReport index + 20))"

section \<open>Receiver reports\<close>

definition RR_GetSenderSSRC :: "RTCPPacket \<Rightarrow> u32 res" where
  "RR_GetSenderSSRC p = if_known p 0 (\<lambda>d. ntohl_at d 4)"

definition RR_GetReceptionReportCount :: "RTCPPacket \<Rightarrow> nat res" where
  "RR_GetReceptionReportCount p = if_known p 0 hdr_count"

definition RR_GotoReport :: "nat \<Rightarrow> nat" where
  "RR_GotoReport index = 4 + 4 + index * 24"

definition RR_GetSSRC :: "nat \<Rightarrow> RTCPPacket \<Rightarrow> u32 res" where
  "RR_GetSSRC index p = if_known p 0 (\<lambda>d. ntohl_at d (RR_GotoReport index))"

definition RR_GetFractionLost :: "nat \<Rightarrow> RTCPPacket \<Rightarrow> byte res" where
  "RR_GetFractionLost index p = if_known p 0 (\<lambda>d. rd d (RR_GotoReport index + 4))"

definition RR_GetLostPacketCount :: "nat \<Rightarrow> RTCPPacket \<Rightarrow> int res" where
  "RR_GetLostPacketCount index p = if_known p 0 (\<lambda>d. lost_at d (RR_GotoReport index))"

definition RR_GetExtendedHighestSequenceNumber :: "nat \<Rightarrow> RTCPPacket \<Rightarrow> u32 res" where
  "RR_GetExtendedHighestSequenceNumber index p = if_known p 0 (\<lambda>d. ntohl_at d (RR_GotoReport index + 8))"

definition RR_GetJitter :: "nat \<Rightarrow> RTCPPacket \<Rightarrow> u32 res" where
  "RR_GetJitter index p = if_known p 0 (\<lambda>d. ntohl_at d (RR_GotoReport index + 12))"

definition RR_GetLSR :: "nat \<Rightarrow> RTCPPacket \<Rightarrow> u32 res" where
  "RR_GetLSR index p = if_known p 0 (\<lambda>d. ntohl_at d (RR_GotoReport index + 16))"

definition RR_GetDLSR :: "nat \<Rightarrow> RTCPPacket \<Rightarrow> u32 res" where
  "RR_GetDLSR index p = if_known p 0 (\<lambda>d. ntohl_at d (RR_GotoReport index + 20))"

section \<open>BYE and APP\<close>

record RTCPBYEPacket = RTCPPacket +
  reasonoffset :: nat

definition BYE_GetSSRCCount :: "RTCPBYEPacket \<Rightarrow> nat res" where
  "BYE_GetSSRCCount p = if_known p 0 hdr_count"

definition BYE_GetSSRC :: "nat \<Rightarrow> RTCPBYEPacket \<Rightarrow> u32 res" where
  "BYE_GetSSRC index p = if_known p 0 (\<lambda>d. ntohl_at d (4 + 4 * index))"

definition HasReasonForLeaving :: "RTCPBYEPacket \<Rightarrow> bool" where
  "HasReasonForLeaving p = (if \<not> pk_known p then False else if reasonoffset p = 0 then False else True)"

definition GetReasonLength :: "RTCPBYEPacket \<Rightarrow> nat res" where
  "GetReasonLength p =
     if_known p 0 (\<lambda>d.
       if reasonoffset p = 0 then Inr 0 else bind_res (rd d (reasonoffset p)) (\<lambda>l. Inr (unat l)))"

definition GetReasonData :: "RTCPBYEPacket \<Rightarrow> nat option res" where
  "GetReasonData p =
     if_known p None (\<lambda>d.
       if reasonoffset p = 0 then Inr None
       else bind_res (rd d (reasonoffset p)) (\<lambda>l.
         if l = 0 then Inr None else Inr (Some (reasonoffset p + 1))))"

record RTCPAPPPacket = RTCPPacket +
  appdatalen :: nat

definition APP_GetSubType :: "RTCPAPPPacket \<Rightarrow> nat res" where
  "APP_GetSubType p = if_known p 0 hdr_count"

definition APP_GetSSRC :: "RTCPAPPPacket \<Rightarrow> u32 res" where
  "APP_GetSSRC p = if_known p 0 (\<lambda>d. ntohl_at d 4)"

definition APP_GetName :: "RTCPAPPPacket \<Rightarrow> nat option" where
  "APP_GetName p = (if \<not> pk_known p then None else Some (4 + 4))"

definition GetAPPData :: "RTCPAPPPacket \<Rightarrow> nat option" where
  "GetAPPData p =
     (if \<not> pk_known p then None else if appdatalen p = 0 then None else Some (4 + 4 * 2))"

definition GetAPPDataLength :: "RTCPAPPPacket \<Rightarrow> nat" where
  "GetAPPDataLength p = (if \<not> pk_known p then 0 else appdatalen p)"

section \<open>The format\<close>

text \<open>A report block as RFC 3550 writes it; the lost packets are a signed number of 24 bits.\<close>

record report_block =
  rb_ssrc :: u32
  rb_fraction :: byte
  rb_lost :: int
  rb_seq :: u32
  rb_jitter :: u32
  rb_lsr :: u32
  rb_dlsr :: u32

definition lost_bytes :: "int \<Rightarrow> byte list" where
  "lost_bytes n = [of_int (n div 2 ^ 16), of_int (n div 2 ^ 8), of_int n]"

definition block_bytes :: "report_block \<Rightarrow> byte list" where
  "block_bytes b = be32 (rb_ssrc b) @ [rb_fraction b] @ lost_bytes (rb_lost b) @ be32 (rb_seq b) @
     be32 (rb_jitter b) @ be32 (rb_lsr b) @ be32 (rb_dlsr b)"

lemma length_block_bytes [simp]: "length (block_bytes b) = 24"
  by (simp add: block_bytes_def lost_bytes_def)

lemma high_bits:
  fixes n :: int
  assumes "- (2 ^ 23) \<le> n" "n < 2 ^ 23" "23 \<le> k"
  shows "bit n k \<longleftrightarrow> n < 0"
proof -
  have "(2 :: int) ^ 23 \<le> 2 ^ k" using assms(3) by (intro power_increasing) auto
  then have "n div 2 ^ k = (if n < 0 then -1 else 0)"
    using assms(1,2) by (auto simp: div_pos_pos_trivial intro: int_div_pos_eq [of _ _ _ "n + 2 ^ k"])
  then show ?thesis by (simp add: bit_iff_odd)
qed

text \<open>The high byte of a word that is negative in 24 bits, bit by bit.\<close>

lemma sign_mask: "k < 32 \<Longrightarrow> bit (0xFF000000 :: u32) k \<longleftrightarrow> 24 \<le> k"
proof -
  assume "k < 32"
  moreover have "\<forall>k\<in>set [0..<32]. bit (0xFF000000 :: u32) k \<longleftrightarrow> 24 \<le> k" by code_simp
  ultimately show ?thesis by simp
qed

lemma sign_bit: "bit (0x00800000 :: u32) k \<longleftrightarrow> k = 23"
proof (cases "k < 32")
  case True
  moreover have "\<forall>k\<in>set [0..<32]. bit (0x00800000 :: u32) k \<longleftrightarrow> k = 23" by code_simp
  ultimately show ?thesis by simp
qed (auto dest: bit_imp_le_length)

lemma bit_div_bytes: "bit (n div 256) j \<longleftrightarrow> bit n (8 + j)" "bit (n div 65536) j \<longleftrightarrow> bit n (16 + j)"
  for n :: int
  using bit_drop_bit_eq [of 8 n] bit_drop_bit_eq [of 16 n]
  by (simp_all add: drop_bit_eq_div fun_eq_iff)

lemma lost_count_correct:
  assumes "- (2 ^ 23) \<le> n" "n < 2 ^ 23"
  shows "sint (lost_count (of_int (n div 2 ^ 16)) (of_int (n div 2 ^ 8)) (of_int n)) = n"
proof -
  let ?c = "ucast (of_int n :: byte) OR push_bit 8 (ucast (of_int (n div 2 ^ 8) :: byte)) OR
      push_bit 16 (ucast (of_int (n div 2 ^ 16) :: byte)) :: u32"
  have bits: "bit ?c k \<longleftrightarrow> k < 24 \<and> bit n k" for k
  proof -
    consider "k < 8" | "8 \<le> k" "k < 16" | "16 \<le> k" "k < 24" | "24 \<le> k" by linarith
    then show ?thesis
      by cases (auto simp: bit_or_iff bit_push_bit_iff bit_ucast_iff bit_word_of_int_iff bit_div_bytes
          dest: bit_imp_le_length)
  qed
  have "?c AND 0x00800000 \<noteq> 0 \<longleftrightarrow> bit n 23"
  proof -
    have "x \<noteq> 0 \<longleftrightarrow> (\<exists>k. bit x k)" for x :: u32
      using bit_word_eqI [of x 0] by auto
    from this [of "?c AND 0x00800000"] show ?thesis
      by (simp only: bit_and_iff sign_bit bits) auto
  qed
  then have "lost_count (of_int (n div 2 ^ 16)) (of_int (n div 2 ^ 8)) (of_int n) =
      (if n < 0 then ?c OR 0xFF000000 else ?c)"
    using high_bits [OF assms, of 23] by (simp add: lost_count_def Let_def)
  also have "\<dots> = word_of_int n"
  proof (rule bit_word_eqI)
    fix k assume "k < LENGTH(32)"
    then have "k < 32" by simp
    then show "bit (if n < 0 then ?c OR 0xFF000000 else ?c) k \<longleftrightarrow> bit (word_of_int n :: u32) k"
      using high_bits [OF assms, of k] bits [of k] sign_mask [of k]
      by (auto simp: bit_or_iff bit_word_of_int_iff not_le)
  qed
  finally show ?thesis
    using assms by (simp add: sint_sbintrunc' signed_take_bit_int_eq_self)
qed

section \<open>Reading reports\<close>

definition sr_bytes :: "u32 \<Rightarrow> u32 list \<Rightarrow> report_block list \<Rightarrow> byte list" where
  "sr_bytes ssrc info bs =
     [0x80 OR of_nat (length bs), 200] @ be16 (of_nat (6 + 6 * length bs)) @ be32 ssrc @
     concat (map be32 info) @ concat (map block_bytes bs)"

definition rr_bytes :: "u32 \<Rightarrow> report_block list \<Rightarrow> byte list" where
  "rr_bytes ssrc bs =
     [0x80 OR of_nat (length bs), 201] @ be16 (of_nat (1 + 6 * length bs)) @ be32 ssrc @
     concat (map block_bytes bs)"

lemma ntohl_be32: "length d = n \<Longrightarrow> ntohl_at (d @ be32 x @ r) n = Inr x"
  by (auto simp: ntohl_at_def rd_block_def be32_def be16_def)

lemma hdr_count_run:
  assumes "n \<le> 31"
  shows "hdr_count ((0x80 OR of_nat n) # r) = Inr n"
proof -
  have "\<forall>n\<in>set [0..<32]. unat ((0x80 OR of_nat n) AND 0x1F :: byte) = n" by code_simp
  then show ?thesis using assms by (simp add: hdr_count_def rd_def)
qed

text \<open>The fields of a block that stands anywhere in the data.\<close>

lemma block_reads:
  assumes "length d = r"
  shows "ntohl_at (d @ block_bytes b @ e) r = Inr (rb_ssrc b)"
    and "rd (d @ block_bytes b @ e) (r + 4) = Inr (rb_fraction b)"
    and "ntohl_at (d @ block_bytes b @ e) (r + 8) = Inr (rb_seq b)"
    and "ntohl_at (d @ block_bytes b @ e) (r + 12) = Inr (rb_jitter b)"
    and "ntohl_at (d @ block_bytes b @ e) (r + 16) = Inr (rb_lsr b)"
    and "ntohl_at (d @ block_bytes b @ e) (r + 20) = Inr (rb_dlsr b)"
    and "- (2 ^ 23) \<le> rb_lost b \<Longrightarrow> rb_lost b < 2 ^ 23 \<Longrightarrow> lost_at (d @ block_bytes b @ e) r = Inr (rb_lost b)"
proof -
  let ?l = "lost_bytes (rb_lost b)"
  let ?f = "be32 (rb_ssrc b) @ [rb_fraction b] @ ?l"
  have f: "length ?f = 8" by (simp add: lost_bytes_def)
  show "ntohl_at (d @ block_bytes b @ e) r = Inr (rb_ssrc b)"
    using ntohl_be32 [OF assms] by (simp add: block_bytes_def)
  show "rd (d @ block_bytes b @ e) (r + 4) = Inr (rb_fraction b)"
    using assms by (simp add: block_bytes_def rd_def nth_append)
  show "ntohl_at (d @ block_bytes b @ e) (r + 8) = Inr (rb_seq b)"
    using ntohl_be32 [of "d @ ?f" "r + 8" "rb_seq b"] assms f by (simp add: block_bytes_def)
  show "ntohl_at (d @ block_bytes b @ e) (r + 12) = Inr (rb_jitter b)"
    using ntohl_be32 [of "d @ ?f @ be32 (rb_seq b)" "r + 12" "rb_jitter b"] assms f
    by (simp add: block_bytes_def)
  show "ntohl_at (d @ block_bytes b @ e) (r + 16) = Inr (rb_lsr b)"
    using ntohl_be32 [of "d @ ?f @ be32 (rb_seq b) @ be32 (rb_jitter b)" "r + 16" "rb_lsr b"] assms f
    by (simp add: block_bytes_def)
  show "ntohl_at (d @ block_bytes b @ e) (r + 20) = Inr (rb_dlsr b)"
    using ntohl_be32 [of "d @ ?f @ be32 (rb_seq b) @ be32 (rb_jitter b) @ be32 (rb_lsr b)" "r + 20"
        "rb_dlsr b"] assms f by (simp add: block_bytes_def)
  assume "- (2 ^ 23) \<le> rb_lost b" "rb_lost b < 2 ^ 23"
  moreover have "rd_block (d @ block_bytes b @ e) (r + 5) 3 = Inr ?l"
    using assms by (simp add: block_bytes_def lost_bytes_def rd_block_def)
  ultimately show "lost_at (d @ block_bytes b @ e) r = Inr (rb_lost b)"
    using lost_count_correct [of "rb_lost b"] by (simp add: lost_at_def lost_bytes_def)
qed

lemma blocks_cut:
  assumes "i < length bs"
  obtains pre post where "concat (map block_bytes bs) = pre @ block_bytes (bs ! i) @ post" "length pre = i * 24"
proof -
  have "length (concat (map block_bytes xs)) = length xs * 24" for xs
    by (induction xs) auto
  moreover have "concat (map block_bytes bs) = concat (map block_bytes (take i bs)) @ block_bytes (bs ! i) @
      concat (map block_bytes (drop (Suc i) bs))"
    by (subst id_take_nth_drop [OF assms]) simp
  ultimately show ?thesis
    using assms by (intro that [of "concat (map block_bytes (take i bs))"]) simp_all
qed

lemma sr_cut:
  assumes "i < length bs" "length info = 5"
  obtains pre post where "sr_bytes ssrc info bs = pre @ block_bytes (bs ! i) @ post"
    "length pre = SR_GotoReport i"
proof -
  obtain pre post where cut: "concat (map block_bytes bs) = pre @ block_bytes (bs ! i) @ post" "length pre = i * 24"
    by (rule blocks_cut [OF assms(1)])
  have "length (concat (map be32 info)) = 20"
    using assms(2) by (simp add: length_concat comp_def sum_list_triv)
  then show ?thesis
    using cut by (intro that [of "[0x80 OR of_nat (length bs), 200] @ be16 (of_nat (6 + 6 * length bs)) @
        be32 ssrc @ concat (map be32 info) @ pre" post])
      (simp_all add: sr_bytes_def SR_GotoReport_def)
qed

lemma rr_cut:
  assumes "i < length bs"
  obtains pre post where "rr_bytes ssrc bs = pre @ block_bytes (bs ! i) @ post" "length pre = RR_GotoReport i"
proof -
  obtain pre post where cut: "concat (map block_bytes bs) = pre @ block_bytes (bs ! i) @ post" "length pre = i * 24"
    by (rule blocks_cut [OF assms(1)])
  then show ?thesis
    by (intro that [of "[0x80 OR of_nat (length bs), 201] @ be16 (of_nat (1 + 6 * length bs)) @
        be32 ssrc @ pre" post]) (simp_all add: rr_bytes_def RR_GotoReport_def)
qed

lemma sender_info_read:
  assumes p: "pk_known p" "pk_data p = sr_bytes ssrc [msw, lsw, ts, packets, octets] bs" and n: "length bs \<le> 31"
  shows "SR_GetSenderSSRC p = Inr ssrc \<and> SR_GetNTPTimestamp p = Inr (msw, lsw) \<and>
    SR_GetRTPTimestamp p = Inr ts \<and> SR_GetSenderPacketCount p = Inr packets \<and>
    SR_GetSenderOctetCount p = Inr octets \<and> SR_GetReceptionReportCount p = Inr (length bs)"
proof -
  let ?h = "[0x80 OR of_nat (length bs), 200] @ be16 (of_nat (6 + 6 * length bs))"
  let ?d = "sr_bytes ssrc [msw, lsw, ts, packets, octets] bs" and ?e = "concat (map block_bytes bs)"
  have d: "?d = ?h @ be32 ssrc @ be32 msw @ be32 lsw @ be32 ts @ be32 packets @ be32 octets @ ?e"
    by (simp add: sr_bytes_def)
  note r = ntohl_be32 [of "?h" 4 ssrc] ntohl_be32 [of "?h @ be32 ssrc" 8 msw]
    ntohl_be32 [of "?h @ be32 ssrc @ be32 msw" 12 lsw]
    ntohl_be32 [of "?h @ be32 ssrc @ be32 msw @ be32 lsw" 16 ts]
    ntohl_be32 [of "?h @ be32 ssrc @ be32 msw @ be32 lsw @ be32 ts" 20 packets]
    ntohl_be32 [of "?h @ be32 ssrc @ be32 msw @ be32 lsw @ be32 ts @ be32 packets" 24 octets]
  show ?thesis
    using p r hdr_count_run [OF n]
    by (simp add: d if_known_def SR_GetSenderSSRC_def SR_GetNTPTimestamp_def SR_GetRTPTimestamp_def
        SR_GetSenderPacketCount_def SR_GetSenderOctetCount_def SR_GetReceptionReportCount_def)
qed

lemma sender_block_read:
  assumes p: "pk_known p" "pk_data p = sr_bytes ssrc info bs" and i: "i < length bs" and info: "length info = 5"
    and lost: "- (2 ^ 23) \<le> rb_lost (bs ! i)" "rb_lost (bs ! i) < 2 ^ 23"
  shows "SR_GetSSRC i p = Inr (rb_ssrc (bs ! i)) \<and> SR_GetFractionLost i p = Inr (rb_fraction (bs ! i)) \<and>
    SR_GetLostPacketCount i p = Inr (rb_lost (bs ! i)) \<and>
    SR_GetExtendedHighestSequenceNumber i p = Inr (rb_seq (bs ! i)) \<and>
    SR_GetJitter i p = Inr (rb_jitter (bs ! i)) \<and> SR_GetLSR i p = Inr (rb_lsr (bs ! i)) \<and>
    SR_GetDLSR i p = Inr (rb_dlsr (bs ! i))"
proof -
  obtain pre post where "sr_bytes ssrc info bs = pre @ block_bytes (bs ! i) @ post" "length pre = SR_GotoReport i"
    by (rule sr_cut [OF i info])
  then show ?thesis
    using p lost block_reads [of pre "SR_GotoReport i" "bs ! i" post]
    by (simp add: if_known_def SR_GetSSRC_def SR_GetFractionLost_def SR_GetLostPacketCount_def
        SR_GetExtendedHighestSequenceNumber_def SR_GetJitter_def SR_GetLSR_def SR_GetDLSR_def)
qed

lemma receiver_block_read:
  assumes p: "pk_known p" "pk_data p = rr_bytes ssrc bs" and i: "i < length bs"
    and lost: "- (2 ^ 23) \<le> rb_lost (bs ! i)" "rb_lost (bs ! i) < 2 ^ 23"
  shows "RR_GetSSRC i p = Inr (rb_ssrc (bs ! i)) \<and> RR_GetFractionLost i p = Inr (rb_fraction (bs ! i)) \<and>
    RR_GetLostPacketCount i p = Inr (rb_lost (bs ! i)) \<and>
    RR_GetExtendedHighestSequenceNumber i p = Inr (rb_seq (bs ! i)) \<and>
    RR_GetJitter i p = Inr (rb_jitter (bs ! i)) \<and> RR_GetLSR i p = Inr (rb_lsr (bs ! i)) \<and>
    RR_GetDLSR i p = Inr (rb_dlsr (bs ! i))"
proof -
  obtain pre post where "rr_bytes ssrc bs = pre @ block_bytes (bs ! i) @ post" "length pre = RR_GotoReport i"
    by (rule rr_cut [OF i])
  then show ?thesis
    using p lost block_reads [of pre "RR_GotoReport i" "bs ! i" post]
    by (simp add: if_known_def RR_GetSSRC_def RR_GetFractionLost_def RR_GetLostPacketCount_def
        RR_GetExtendedHighestSequenceNumber_def RR_GetJitter_def RR_GetLSR_def RR_GetDLSR_def)
qed

text \<open>
  C38: Reading a sender report of jrtplib gives back what RFC 3550 puts into it: the sender's
  information, the number of blocks and, for each of up to 31 blocks, its source, the fraction
  lost, the lost packets, a signed number of 24 bits, and the rest.
\<close>

theorem sender_report_read:
  assumes "pk_known p" "pk_data p = sr_bytes ssrc [msw, lsw, ts, packets, octets] bs" "length bs \<le> 31"
    and "i < length bs" "- (2 ^ 23) \<le> rb_lost (bs ! i)" "rb_lost (bs ! i) < 2 ^ 23"
  shows "SR_GetSenderSSRC p = Inr ssrc \<and> SR_GetNTPTimestamp p = Inr (msw, lsw) \<and>
    SR_GetRTPTimestamp p = Inr ts \<and> SR_GetSenderPacketCount p = Inr packets \<and>
    SR_GetSenderOctetCount p = Inr octets \<and> SR_GetReceptionReportCount p = Inr (length bs) \<and>
    SR_GetSSRC i p = Inr (rb_ssrc (bs ! i)) \<and> SR_GetFractionLost i p = Inr (rb_fraction (bs ! i)) \<and>
    SR_GetLostPacketCount i p = Inr (rb_lost (bs ! i)) \<and>
    SR_GetExtendedHighestSequenceNumber i p = Inr (rb_seq (bs ! i)) \<and>
    SR_GetJitter i p = Inr (rb_jitter (bs ! i)) \<and> SR_GetLSR i p = Inr (rb_lsr (bs ! i)) \<and>
    SR_GetDLSR i p = Inr (rb_dlsr (bs ! i))"
  using sender_info_read [OF assms(1-3)] sender_block_read [OF assms(1,2,4) _ assms(5,6)] by simp

theorem sender_report_read_witness:
  "SR_GetLostPacketCount 1 \<lparr>pk_data = sr_bytes 7 [1, 2, 3, 4, 5]
     [\<lparr>rb_ssrc = 8, rb_fraction = 9, rb_lost = 10, rb_seq = 11, rb_jitter = 12, rb_lsr = 13, rb_dlsr = 14\<rparr>,
      \<lparr>rb_ssrc = 15, rb_fraction = 16, rb_lost = -17, rb_seq = 18, rb_jitter = 19, rb_lsr = 20, rb_dlsr = 21\<rparr>],
     pk_known = True\<rparr> = Inr (-17)"
  using sender_report_read [of "\<lparr>pk_data = sr_bytes 7 [1, 2, 3, 4, 5]
     [\<lparr>rb_ssrc = 8, rb_fraction = 9, rb_lost = 10, rb_seq = 11, rb_jitter = 12, rb_lsr = 13, rb_dlsr = 14\<rparr>,
      \<lparr>rb_ssrc = 15, rb_fraction = 16, rb_lost = -17, rb_seq = 18, rb_jitter = 19, rb_lsr = 20, rb_dlsr = 21\<rparr>],
     pk_known = True\<rparr>" 7 1 2 3 4 5 "[\<lparr>rb_ssrc = 8, rb_fraction = 9, rb_lost = 10, rb_seq = 11, rb_jitter = 12, rb_lsr = 13, rb_dlsr = 14\<rparr>,
      \<lparr>rb_ssrc = 15, rb_fraction = 16, rb_lost = -17, rb_seq = 18, rb_jitter = 19, rb_lsr = 20, rb_dlsr = 21\<rparr>]" 1]
  by simp

end
