(* ===== verification/JrtpTime.thy ===== *)
theory JrtpTime
  imports Double
begin

text \<open>
  \<^verbatim>\<open>rtptimeutilities.h\<close> and \<^verbatim>\<open>rtpselect.h\<close> of jrtplib, as the configuration \<^verbatim>\<open>rtpconfig.h\<close> selects
  them (\<^verbatim>\<open>RTP_HAVE_CLOCK_GETTIME\<close>, \<^verbatim>\<open>RTP_HAVE_POLL\<close>).  A time is a double number of seconds; the
  clocks, \<^verbatim>\<open>nanosleep\<close> and \<^verbatim>\<open>poll\<close> belong to the operating system: the clocks' values and the
  answer of \<^verbatim>\<open>poll\<close> are arguments, the request to \<^verbatim>\<open>nanosleep\<close> is a result.
\<close>

section \<open>Times\<close>

record RTPNTPTime =
  ntp_msw :: u32
  ntp_lsw :: u32

definition GetMSW :: "RTPNTPTime \<Rightarrow> u32" where "GetMSW n = ntp_msw n"
definition GetLSW :: "RTPNTPTime \<Rightarrow> u32" where "GetLSW n = ntp_lsw n"

definition RTP_NTPTIMEOFFSET :: u32 where "RTP_NTPTIMEOFFSET = 2208988800"

type_synonym RTPTime = double

text \<open>\<^verbatim>\<open>seconds\<close> is an \<^verbatim>\<open>int64_t\<close>, whose least value has no negative.\<close>

definition RTPTime_of :: "int \<Rightarrow> u32 \<Rightarrow> RTPTime res" where
  "RTPTime_of seconds microseconds =
    (if 0 \<le> seconds
     then Inr (fl (fl (of_int seconds) + fl (lit_1e_6 * fl (of_int (uint microseconds)))))
     else if - seconds < 2 ^ 63
     then Inr (- fl (fl (of_int (- seconds)) + fl (lit_1e_6 * fl (of_int (uint microseconds)))))
     else Inl Int_Overflow)"

definition RTPTime_of_ntp :: "RTPNTPTime \<Rightarrow> RTPTime res" where
  "RTPTime_of_ntp ntptime =
    (if GetMSW ntptime < RTP_NTPTIMEOFFSET then Inr 0
     else
       let sec = GetMSW ntptime - RTP_NTPTIMEOFFSET;
           x = fl (of_int (uint (GetLSW ntptime)));
           x = fl (x / fl (65536 * 65536));
           x = fl (x * 1000000)
       in bind_res (to_u32 x) (\<lambda>microsec.
          Inr (fl (fl (of_int (uint sec)) + fl (lit_1e_6 * fl (of_int (uint microsec)))))))"

definition GetSeconds :: "RTPTime \<Rightarrow> int res" where
  "GetSeconds t = to_i64 t"

definition GetMicroSeconds :: "RTPTime \<Rightarrow> u32 res" where
  "GetMicroSeconds t =
    bind_res
      (if 0 \<le> t
       then bind_res (to_i64 t) (\<lambda>sec. to_u32 (fl (fl (1000000 * fl (t - fl (of_int sec))) + 1 / 2)))
       else bind_res (to_i64 (- t)) (\<lambda>sec. to_u32 (fl (fl (1000000 * fl (- t - fl (of_int sec))) + 1 / 2))))
      (\<lambda>microsec. if 1000000 \<le> microsec then Inr 999999 else Inr microsec)"

definition GetNTPTime :: "RTPTime \<Rightarrow> RTPNTPTime res" where
  "GetNTPTime t =
    bind_res (to_u32 t) (\<lambda>sec.
    bind_res (to_u32 (fl (fl (t - fl (of_int (uint sec))) * 1000000))) (\<lambda>microsec.
      let msw = sec + RTP_NTPTIMEOFFSET;
          x = fl (fl (of_int (uint microsec)) / 1000000);
          x = fl (x * fl (65536 * 65536))
      in bind_res (to_u32 x) (\<lambda>lsw. Inr \<lparr>ntp_msw = msw, ntp_lsw = lsw\<rparr>)))"

definition time_sub :: "RTPTime \<Rightarrow> RTPTime \<Rightarrow> RTPTime" where "time_sub a b = fl (a - b)"
definition time_add :: "RTPTime \<Rightarrow> RTPTime \<Rightarrow> RTPTime" where "time_add a b = fl (a + b)"
definition time_less :: "RTPTime \<Rightarrow> RTPTime \<Rightarrow> bool" where "time_less a b \<longleftrightarrow> a < b"
definition time_greater :: "RTPTime \<Rightarrow> RTPTime \<Rightarrow> bool" where "time_greater a b \<longleftrightarrow> a > b"
definition time_leq :: "RTPTime \<Rightarrow> RTPTime \<Rightarrow> bool" where "time_leq a b \<longleftrightarrow> a \<le> b"
definition time_geq :: "RTPTime \<Rightarrow> RTPTime \<Rightarrow> bool" where "time_geq a b \<longleftrightarrow> a \<ge> b"
definition IsZero :: "RTPTime \<Rightarrow> bool" where "IsZero t \<longleftrightarrow> t = 0"

text \<open>The clock: the static variables of \<^verbatim>\<open>CurrentTime\<close> and the two clocks of the system.\<close>

record timespec =
  ts_sec :: int
  ts_nsec :: int

record clock_state =
  s_initialized :: bool
  s_startOffet :: double

definition clock_init :: clock_state where
  "clock_init = \<lparr>s_initialized = False, s_startOffet = 0\<rparr>"

definition timespecToDouble :: "timespec \<Rightarrow> double" where
  "timespecToDouble ts = fl (fl (of_int (ts_sec ts)) + fl (lit_1e_9 * fl (of_int (ts_nsec ts))))"

definition CurrentTime :: "timespec \<Rightarrow> timespec \<Rightarrow> clock_state \<Rightarrow> RTPTime \<times> clock_state" where
  "CurrentTime sys mon c =
    (if \<not> s_initialized c
     then let tSys = timespecToDouble sys; tMono = timespecToDouble mon
          in (tSys, c\<lparr>s_initialized := True, s_startOffet := fl (tSys - tMono)\<rparr>)
     else (fl (timespecToDouble mon + s_startOffet c), c))"

text \<open>The request that \<^verbatim>\<open>Wait\<close> makes to \<^verbatim>\<open>nanosleep\<close>, if any.\<close>

definition Wait :: "RTPTime \<Rightarrow> (u64 \<times> u32) option res" where
  "Wait delay =
    (if delay \<le> 0 then Inr None
     else bind_res (to_u64 delay) (\<lambda>sec.
          bind_res (to_u32 (fl (1000000000 * fl (delay - fl (of_int (uint sec)))))) (\<lambda>nanosec.
            Inr (Some (sec, nanosec)))))"

section \<open>Waiting for sockets\<close>

definition ERR_RTP_SELECT_ERRORINPOLL :: int where "ERR_RTP_SELECT_ERRORINPOLL = - 180"

definition POLLIN :: u16 where "POLLIN = 1"

record pollfd =
  pfd_fd :: int
  pfd_events :: u16
  pfd_revents :: u16

definition poll_timeout :: "RTPTime \<Rightarrow> int res" where
  "poll_timeout timeout =
    (if 0 \<le> timeout
     then let dtimeoutmsec = fl (timeout * 1000)
          in to_i32 (if dtimeoutmsec > of_int (2 ^ 31 - 1) then of_int (2 ^ 31 - 1) else dtimeoutmsec)
     else Inr (- 1))"

text \<open>
  \<open>poll fds ms\<close> is the status and the array with the answered events.  The flags are the ones of
  \<^verbatim>\<open>readflags\<close>, which has an entry for each socket.
\<close>

definition RTPSelect ::
    "(pollfd list \<Rightarrow> int \<Rightarrow> int \<times> pollfd list) \<Rightarrow> int list \<Rightarrow> RTPTime \<Rightarrow> (int \<times> int list) res" where
  "RTPSelect poll sockets timeout =
    (let fds = map (\<lambda>s. \<lparr>pfd_fd = s, pfd_events = POLLIN, pfd_revents = 0\<rparr>) sockets;
         readflags = map (\<lambda>s. 0) sockets
     in bind_res (poll_timeout timeout) (\<lambda>timeoutmsec.
        case poll fds timeoutmsec of (status, fds) \<Rightarrow>
          if status < 0 then Inr (ERR_RTP_SELECT_ERRORINPOLL, readflags)
          else if status > 0
          then Inr (status, map (\<lambda>i. if pfd_revents (fds ! i) \<noteq> 0 then 1 else 0) [0..<length sockets])
          else Inr (status, readflags)))"

text \<open>
  The variant for systems without \<^verbatim>\<open>poll\<close>: the set of descriptors has room for \<^verbatim>\<open>FD_SETSIZE\<close> of
  them, \<open>select fds tv\<close> is the status and the set that is left.  A flag is cleared as its socket is
  put into the set, so a descriptor that is too large leaves the flags behind it alone.
\<close>

definition FD_SETSIZE :: int where "FD_SETSIZE = 1024"
definition ERR_RTP_SELECT_ERRORINSELECT :: int where "ERR_RTP_SELECT_ERRORINSELECT = - 178"
definition ERR_RTP_SELECT_SOCKETDESCRIPTORTOOLARGE :: int where
  "ERR_RTP_SELECT_SOCKETDESCRIPTORTOOLARGE = - 179"

fun set_fds :: "int list \<Rightarrow> nat \<Rightarrow> int list \<Rightarrow> int set \<Rightarrow> (bool \<times> int list \<times> int set) res" where
  "set_fds [] i flags fdset = Inr (True, flags, fdset)"
| "set_fds (s # ss) i flags fdset =
    (if FD_SETSIZE \<le> s then Inr (False, flags, fdset)
     else if s < 0 \<or> length flags \<le> i then Inl Write_Overflow
     else set_fds ss (i + 1) (flags[i := 0]) (insert s fdset))"

definition select_timeout :: "RTPTime \<Rightarrow> (int \<times> u32) option res" where
  "select_timeout timeout =
    (if 0 \<le> timeout
     then bind_res (GetSeconds timeout) (\<lambda>s. bind_res (GetMicroSeconds timeout) (\<lambda>u. Inr (Some (s, u))))
     else Inr None)"

definition RTPSelect_select ::
    "(int set \<Rightarrow> (int \<times> u32) option \<Rightarrow> int \<times> int set) \<Rightarrow> int list \<Rightarrow> int list \<Rightarrow> RTPTime \<Rightarrow> (int \<times> int list) res"
where
  "RTPSelect_select select sockets readflags timeout =
    bind_res (select_timeout timeout) (\<lambda>pTv.
    bind_res (set_fds sockets 0 readflags {}) (\<lambda>(ok, flags, fdset).
      if \<not> ok then Inr (ERR_RTP_SELECT_SOCKETDESCRIPTORTOOLARGE, flags)
      else case select fdset pTv of (status, fdset) \<Rightarrow>
        if status < 0 then Inr (ERR_RTP_SELECT_ERRORINSELECT, flags)
        else if status > 0
        then Inr (status, map (\<lambda>i. if i < length sockets \<and> sockets ! i \<in> fdset then 1 else flags ! i)
               [0..<length flags])
        else Inr (status, flags)))"

section \<open>A time is kept to the microsecond\<close>

text \<open>\<open>stamp s u\<close> is the double that the constructors compute for \<open>s\<close> seconds and \<open>u\<close> microseconds.\<close>

definition stamp :: "int \<Rightarrow> int \<Rightarrow> double" where
  "stamp s u = fl (of_int s + fl (lit_1e_6 * of_int u))"

lemma scaled_us:
  assumes "0 \<le> u" "u < 1000000"
  shows "0 \<le> fl (lit_1e_6 * of_int u)" "\<bar>fl (lit_1e_6 * of_int u) - of_int u / 1000000\<bar> \<le> 1 / 10 ^ 15"
  using scaled_1e_6 [of u] assms by (auto intro!: fl_nonneg simp: lit_1e_6_eq)

lemma stamp_near:
  assumes "0 \<le> s" "s < 2 ^ 33" "0 \<le> u" "u < 1000000"
  shows "of_int s \<le> stamp s u" "stamp s u < of_int s + 1"
    "\<bar>stamp s u - (of_int s + of_int u / 1000000)\<bar> \<le> 4769 / 10 ^ 10"
proof -
  let ?a = "fl (lit_1e_6 * of_int u)"
  note a = scaled_us [OF assms(3,4)]
  have s: "0 \<le> rat_of_int s" "rat_of_int s \<le> 2 ^ 33 - 1"
    using assms of_int_le_iff [of s "2 ^ 33 - 1", where 'a = rat] by simp_all
  have u: "rat_of_int u \<le> 999999" using assms by simp
  have "?a \<le> 9999991 / 10 ^ 7" by (rule near_le [OF a(2)]) (use u in simp)
  then have "\<bar>of_int s + ?a\<bar> < 2 powi 33" using s a by (simp add: power_int_def)
  from fl_error_below [OF this] have "\<bar>stamp s u - (of_int s + ?a)\<bar> \<le> 1 / 2 ^ 21"
    by (simp add: stamp_def power_int_def field_simps)
  moreover have "\<bar>(of_int s + ?a) - (of_int s + of_int u / 1000000)\<bar> \<le> 1 / 10 ^ 15" using a(2) by simp
  ultimately show n: "\<bar>stamp s u - (of_int s + of_int u / 1000000)\<bar> \<le> 4769 / 10 ^ 10"
    by (rule near_trans) simp
  show "of_int s \<le> stamp s u" unfolding stamp_def using a(1) assms by (intro fl_int_bounds) auto
  show "stamp s u < of_int s + 1" by (rule near_less [OF n]) (use u in simp)
qed

lemma stamp_fraction:
  assumes "0 \<le> s" "s < 2 ^ 33" "0 \<le> u" "u < 1000000"
  defines "d \<equiv> fl (stamp s u - of_int s)"
  shows "0 \<le> d" "\<bar>fl (1000000 * d) - of_int u\<bar> \<le> 4771 / 10 ^ 4" "0 \<le> fl (1000000 * d)"
proof -
  note n = stamp_near [OF assms(1-4)]
  have u: "0 \<le> rat_of_int u" "rat_of_int u \<le> 999999" using assms by simp_all
  show d0: "0 \<le> d" unfolding d_def using n(1) by (intro fl_nonneg) simp
  then show "0 \<le> fl (1000000 * d)" by (intro fl_nonneg) simp
  have "\<bar>stamp s u - of_int s\<bar> < 2 powi 0" using n by simp
  from fl_error_below [OF this] have "\<bar>d - (stamp s u - of_int s)\<bar> \<le> 1 / 2 ^ 54"
    by (simp add: d_def power_int_def field_simps)
  moreover have "\<bar>(stamp s u - of_int s) - of_int u / 1000000\<bar> \<le> 4769 / 10 ^ 10"
    using n(3) by (simp add: algebra_simps)
  ultimately have d: "\<bar>d - of_int u / 1000000\<bar> \<le> 47695 / 10 ^ 11" by (rule near_trans) simp
  have "1000000 * d < 2 ^ 20" using near_le [OF d order_refl] u by simp
  then have "\<bar>1000000 * d\<bar> < 2 powi 20" using d0 by (simp add: power_int_def)
  from fl_error_below [OF this] have "\<bar>fl (1000000 * d) - 1000000 * d\<bar> \<le> 1 / 2 ^ 34"
    by (simp add: power_int_def field_simps)
  moreover have "1000000 * d - of_int u = 1000000 * (d - of_int u / 1000000)" by simp
  then have "\<bar>1000000 * d - of_int u\<bar> \<le> 47695 / 10 ^ 5" using d by (simp only: abs_mult) simp
  ultimately show "\<bar>fl (1000000 * d) - of_int u\<bar> \<le> 4771 / 10 ^ 4" by (rule near_trans) simp
qed

lemma stamp_microseconds:
  assumes "0 \<le> s" "s < 2 ^ 33" "0 \<le> u" "u < 1000000"
  shows "to_u32 (fl (fl (1000000 * fl (stamp s u - of_int s)) + 1 / 2)) = Inr (word_of_int u)"
proof -
  let ?m = "fl (1000000 * fl (stamp s u - of_int s))"
  note m = stamp_fraction [OF assms]
  have u: "0 \<le> rat_of_int u" "rat_of_int u \<le> 999999" using assms by simp_all
  have "?m < 1000000" by (rule near_less [OF m(2)]) (use u in simp)
  then have "\<bar>?m + 1 / 2\<bar> < 2 powi 20" using m(3) by (simp add: power_int_def)
  from fl_error_below [OF this] have "\<bar>fl (?m + 1 / 2) - (?m + 1 / 2)\<bar> \<le> 1 / 2 ^ 34"
    by (simp add: power_int_def field_simps)
  moreover have "\<bar>(?m + 1 / 2) - (of_int u + 1 / 2)\<bar> \<le> 4771 / 10 ^ 4" using m(2) by simp
  ultimately have r: "\<bar>fl (?m + 1 / 2) - (of_int u + 1 / 2)\<bar> \<le> 48 / 100" by (rule near_trans) simp
  have "cut (fl (?m + 1 / 2)) = u"
    using near_ge [OF r order_refl] near_le [OF r order_refl] assms(3) by (intro cut_eqI) simp_all
  then show ?thesis using assms by (simp add: to_u32_def)
qed

lemma stamp_cut:
  assumes "0 \<le> s" "s < 2 ^ 33" "0 \<le> u" "u < 1000000"
  shows "cut (stamp s u) = s"
  using stamp_near [OF assms] assms(1) by (intro cut_eqI) simp_all

lemma uint_below: "u < 1000000 \<Longrightarrow> uint u < 1000000" for u :: u32
  by (simp add: word_less_def)

lemma fl_uint32 [simp]: "fl (unsigned u) = unsigned u" for u :: u32
  using fl_of_int [of "uint u"] uint_lt2p [of u] by simp

lemma RTPTime_of_stamp:
  assumes "\<bar>s\<bar> < 2 ^ 33"
  shows "RTPTime_of s u = Inr (if 0 \<le> s then stamp s (uint u) else - stamp (- s) (uint u))"
  using assms fl_of_int [of s] fl_of_int [of "- s"] by (auto simp: RTPTime_of_def stamp_def abs_less_iff)

lemma stamp_read:
  assumes "0 \<le> s" "s < 2 ^ 33" "u < 1000000"
  shows "GetSeconds (stamp s (uint u)) = Inr s" "GetMicroSeconds (stamp s (uint u)) = Inr u"
    "GetSeconds (- stamp s (uint u)) = Inr (- s)" "0 < s \<Longrightarrow> GetMicroSeconds (- stamp s (uint u)) = Inr u"
proof -
  have u: "0 \<le> uint u" "uint u < 1000000" using uint_below [OF assms(3)] by simp_all
  note c = stamp_cut [OF assms(1,2) u] and n = stamp_near [OF assms(1,2) u] and
    m = stamp_microseconds [OF assms(1,2) u]
  have i: "to_i64 (stamp s (uint u)) = Inr s" using c assms by (simp add: to_i64_def)
  have l: "\<not> 1000000 \<le> u" using assms(3) by simp
  have p: "0 \<le> stamp s (uint u)" using n(1) assms(1) by (metis of_int_0_le_iff order_trans)
  have f: "fl (rat_of_int s) = of_int s" using assms by simp
  show "GetSeconds (stamp s (uint u)) = Inr s" using i by (simp add: GetSeconds_def)
  show "GetSeconds (- stamp s (uint u)) = Inr (- s)"
    using c assms by (simp add: GetSeconds_def to_i64_def cut_minus)
  show "GetMicroSeconds (stamp s (uint u)) = Inr u"
    using i l p f m by (simp add: GetMicroSeconds_def)
  show "GetMicroSeconds (- stamp s (uint u)) = Inr u" if "0 < s"
  proof -
    have "0 < rat_of_int s" using that by simp
    then have "\<not> 0 \<le> - stamp s (uint u)" using n(1) by linarith
    then show ?thesis using i l f m by (simp add: GetMicroSeconds_def)
  qed
qed

text \<open>C16: A time built from seconds and microseconds gives both back, for \<open>\<plusminus>2 ^ 33\<close> seconds around
  1970 (until the year 2242), although it is a double and every step of the arithmetic rounds.\<close>

theorem time_roundtrip:
  assumes "\<bar>s\<bar> < 2 ^ 33" "u < 1000000"
  shows "\<exists>t. RTPTime_of s u = Inr t \<and> GetSeconds t = Inr s \<and> GetMicroSeconds t = Inr u"
proof (cases "0 \<le> s")
  case True
  then show ?thesis using RTPTime_of_stamp [OF assms(1), of u] stamp_read [of s u] assms by simp
next
  case False
  then show ?thesis using RTPTime_of_stamp [OF assms(1), of u] stamp_read [of "- s" u] assms by simp
qed

theorem time_roundtrip_witness:
  "\<exists>t. RTPTime_of 1700000000 999999 = Inr t \<and> GetSeconds t = Inr 1700000000 \<and> GetMicroSeconds t = Inr 999999"
  by (rule time_roundtrip) simp_all

text \<open>The bound cannot be doubled: for \<open>2 ^ 34\<close> seconds neighbouring doubles are almost four microseconds apart.\<close>

lemma time_bound_tight: "bind_res (RTPTime_of (2 ^ 34) 1) GetMicroSeconds = Inr 0"
  by code_simp

section \<open>NTP timestamps\<close>

lemma ntp_microseconds:
  "\<exists>u. to_u32 (fl (fl (fl (of_int (uint l)) / fl (65536 * 65536)) * 1000000)) = Inr u \<and> u < 1000000 \<and>
    uint u = uint l * 1000000 div 2 ^ 32" for l :: u32
proof -
  have l: "uint l < 2 ^ 32" using uint_lt2p [of l] by simp
  have f: "fl (65536 * 65536) = 4294967296" using fl_of_int [of "65536 * 65536"] by simp
  have i: "fl (rat_of_int (uint l)) = of_int (uint l)" by simp
  have d: "fl (of_int (uint l) / 4294967296) = of_int (uint l) / 4294967296"
    using l by (intro fl_exact [of _ "uint l" "- 32"]) (simp_all add: power_int_def field_simps)
  have m: "fl (of_int (uint l) / 4294967296 * 1000000) = of_int (uint l) / 4294967296 * 1000000"
    using l by (intro fl_exact [of _ "uint l * 1000000" "- 32"]) (simp_all add: power_int_def field_simps)
  have c: "cut (of_int (uint l) / 4294967296 * 1000000) = uint l * 1000000 div 2 ^ 32"
  proof -
    have "of_int (uint l) / 4294967296 * 1000000 = rat_of_int (uint l * 1000000) / rat_of_int (2 ^ 32)" by simp
    moreover have "0 \<le> rat_of_int (uint l * 1000000) / rat_of_int (2 ^ 32)"
      by (intro divide_nonneg_nonneg) (simp_all only: of_int_0_le_iff zero_le_power zero_le_numeral uint_ge_0 mult_nonneg_nonneg)
    ultimately show ?thesis unfolding cut_def by (simp only: if_True floor_divide_of_int_eq)
  qed
  let ?u = "uint l * 1000000 div 2 ^ 32"
  have u: "0 \<le> ?u" "?u < 1000000" using l by (simp_all add: pos_imp_zdiv_nonneg_iff)
  then have "to_u32 (of_int (uint l) / 4294967296 * 1000000) = Inr (word_of_int ?u)"
    unfolding to_u32_def c by simp
  moreover have "uint (word_of_int ?u :: u32) = ?u" using u by (intro uint_of_int32) simp_all
  ultimately show ?thesis using u unfolding i f d m
    by (intro exI [of _ "word_of_int ?u"] conjI) (simp_all add: word_less_def)
qed

lemma RTPTime_of_ntp_stamp:
  assumes "RTP_NTPTIMEOFFSET \<le> ntp_msw n"
  shows "RTPTime_of_ntp n =
    Inr (stamp (uint (ntp_msw n - RTP_NTPTIMEOFFSET)) (uint (ntp_lsw n) * 1000000 div 2 ^ 32))"
proof -
  obtain u :: u32 where u: "to_u32 (fl (fl (fl (of_int (uint (ntp_lsw n))) / fl (65536 * 65536)) * 1000000)) = Inr u"
    "uint u = uint (ntp_lsw n) * 1000000 div 2 ^ 32" using ntp_microseconds by blast
  have "\<not> GetMSW n < RTP_NTPTIMEOFFSET" using assms by (simp add: GetMSW_def)
  then show ?thesis
    unfolding RTPTime_of_ntp_def Let_def GetLSW_def stamp_def u(2) [symmetric]
    by (simp add: u(1) [simplified] GetMSW_def)
qed

lemma stamp_ntp_microseconds:
  assumes "0 \<le> s" "s < 2 ^ 33" "0 \<le> u" "u < 1000000"
  obtains v where "to_u32 (fl (fl (stamp s u - of_int s) * 1000000)) = Inr (word_of_int v)"
    "0 \<le> v" "u - 1 \<le> v" "v \<le> u"
proof -
  let ?m = "fl (fl (stamp s u - of_int s) * 1000000)"
  note m = stamp_fraction [OF assms, unfolded mult.commute [of 1000000]]
  have f: "0 \<le> \<lfloor>?m\<rfloor>" "u - 1 \<le> \<lfloor>?m\<rfloor>" "\<lfloor>?m\<rfloor> \<le> u"
    using m near_ge [OF m(2) order_refl] near_le [OF m(2) order_refl]
    by (simp_all add: le_floor_iff floor_le_iff)
  have "\<lfloor>?m\<rfloor> < 2 ^ 32" by (rule order_le_less_trans [OF f(3)]) (use assms(4) in simp)
  then have "to_u32 ?m = Inr (word_of_int \<lfloor>?m\<rfloor>)" using m(3) by (intro to_u32_floor)
  then show ?thesis using that f by blast
qed

lemma ntp_fraction:
  assumes "0 \<le> v" "v < 1000000"
  obtains l where "to_u32 (fl (fl (of_int v / 1000000) * 4294967296)) = Inr (word_of_int l)"
    "0 \<le> l" "l < 2 ^ 32" "\<bar>rat_of_int l + 1 / 2 - of_int v / 1000000 * 2 ^ 32\<bar> \<le> 1 / 2 + 1 / 10 ^ 5"
proof -
  let ?x = "rat_of_int v / 1000000" and ?y = "fl (fl (of_int v / 1000000) * 4294967296)"
  have v: "0 \<le> ?x" "?x \<le> 999999 / 1000000" using assms by simp_all
  have "\<bar>?x\<bar> < 2 powi 0" using v by simp
  from fl_error_below [OF this] have x: "\<bar>fl ?x - ?x\<bar> \<le> 1 / 2 ^ 54" by (simp add: power_int_def field_simps)
  have "0 \<le> fl ?x" using v by (intro fl_nonneg)
  moreover have "fl ?x < 1" by (rule near_less [OF x]) (use v in simp)
  ultimately have "\<bar>fl ?x * 4294967296\<bar> < 2 powi 32" by (simp add: power_int_def)
  from fl_error_below [OF this] have "\<bar>?y - fl ?x * 4294967296\<bar> \<le> 1 / 2 ^ 22"
    by (simp add: power_int_def field_simps)
  moreover have "fl ?x * 4294967296 - ?x * 2 ^ 32 = (fl ?x - ?x) * 4294967296" by (simp add: left_diff_distrib)
  then have "\<bar>fl ?x * 4294967296 - ?x * 2 ^ 32\<bar> \<le> 1 / 2 ^ 22" using x by (simp only: abs_mult) simp
  ultimately have y: "\<bar>?y - ?x * 2 ^ 32\<bar> \<le> 1 / 10 ^ 5" by (rule near_trans) simp
  have y0: "0 \<le> ?y" using \<open>0 \<le> fl ?x\<close> by (intro fl_nonneg) simp
  have "?y < 2 ^ 32" by (rule near_less [OF y]) (use v in simp)
  then have l: "0 \<le> \<lfloor>?y\<rfloor>" "\<lfloor>?y\<rfloor> < 2 ^ 32" using y0 by (simp_all add: floor_less_iff)
  have e: "\<bar>of_int \<lfloor>?y\<rfloor> + 1 / 2 - ?x * 2 ^ 32\<bar> \<le> 1 / 2 + 1 / 10 ^ 5"
    by (rule near_trans [OF floor_near y]) simp
  have "to_u32 ?y = Inr (word_of_int \<lfloor>?y\<rfloor>)" using l y0 by (intro to_u32_floor)
  then show ?thesis by (rule that [OF _ l e])
qed

lemma GetNTPTime_stamp:
  assumes "0 \<le> s" "s < 2 ^ 32" "0 \<le> u" "u < 1000000"
  obtains l where "GetNTPTime (stamp s u) = Inr \<lparr>ntp_msw = word_of_int s + RTP_NTPTIMEOFFSET, ntp_lsw = word_of_int l\<rparr>"
    "0 \<le> l" "l < 2 ^ 32"
    "of_int (u - 1) / 1000000 * 2 ^ 32 - 1 - 1 / 10 ^ 5 \<le> rat_of_int l"
    "rat_of_int l \<le> of_int u / 1000000 * 2 ^ 32 + 1 / 10 ^ 5"
proof -
  have s: "s < 2 ^ 33" using assms(2) by simp
  obtain v where v: "to_u32 (fl (fl (stamp s u - of_int s) * 1000000)) = Inr (word_of_int v)"
    "0 \<le> v" "u - 1 \<le> v" "v \<le> u" by (rule stamp_ntp_microseconds [OF assms(1) s assms(3,4)])
  obtain l where l: "to_u32 (fl (fl (of_int v / 1000000) * 4294967296)) = Inr (word_of_int l)" "0 \<le> l" "l < 2 ^ 32"
    "\<bar>rat_of_int l + 1 / 2 - of_int v / 1000000 * 2 ^ 32\<bar> \<le> 1 / 2 + 1 / 10 ^ 5"
    by (rule ntp_fraction [OF v(2)]) (use v(4) assms(4) in auto)
  have ui: "unsigned (word_of_int s :: u32) = rat_of_int s" "unsigned (word_of_int v :: u32) = rat_of_int v"
    using assms v by (simp_all add: unsigned_of_int take_bit_int_eq_self)
  have "fl (65536 * 65536) = 4294967296" using fl_of_int [of "65536 * 65536"] by simp
  moreover have "fl (rat_of_int s) = of_int s" "fl (rat_of_int v) = of_int v" using assms v by simp_all
  moreover have "to_u32 (stamp s u) = Inr (word_of_int s)"
    using stamp_cut [OF assms(1) s assms(3,4)] assms by (simp add: to_u32_def)
  ultimately have "GetNTPTime (stamp s u) = Inr \<lparr>ntp_msw = word_of_int s + RTP_NTPTIMEOFFSET, ntp_lsw = word_of_int l\<rparr>"
    using v(1) l(1) by (simp add: GetNTPTime_def Let_def ui)
  moreover have "rat_of_int (u - 1) \<le> of_int v" "rat_of_int v \<le> of_int u" using v by (simp_all only: of_int_le_iff)
  then have "of_int (u - 1) / 1000000 * 2 ^ 32 - 1 - 1 / 10 ^ 5 \<le> rat_of_int l"
    "rat_of_int l \<le> of_int u / 1000000 * 2 ^ 32 + 1 / 10 ^ 5"
    using near_ge [OF l(4) order_refl] near_le [OF l(4) order_refl]
    by (simp_all only: of_int_diff of_int_1) (simp_all add: field_simps)
  ultimately show ?thesis using that l(2,3) by blast
qed

lemma ntp_gap:
  fixes l L :: rat
  assumes "of_int (u - 1) / 1000000 * 2 ^ 32 - 1 - 1 / 10 ^ 5 \<le> l" "l \<le> of_int u / 1000000 * 2 ^ 32 + 1 / 10 ^ 5"
    "of_int (u * 2 ^ 32) \<le> L * 1000000" "L * 1000000 < of_int ((u + 1) * 2 ^ 32)"
  shows "l < L + 1" "L - l < 8591"
  using assms by (simp_all add: field_simps)

lemma ntp_roundtrip_late:
  assumes "RTP_NTPTIMEOFFSET \<le> ntp_msw n"
  shows "\<exists>l. bind_res (RTPTime_of_ntp n) GetNTPTime = Inr \<lparr>ntp_msw = ntp_msw n, ntp_lsw = l\<rparr> \<and>
    uint l \<le> uint (ntp_lsw n) \<and> uint (ntp_lsw n) - uint l \<le> 8590"
proof -
  let ?s = "uint (ntp_msw n - RTP_NTPTIMEOFFSET)" and ?L = "uint (ntp_lsw n)"
  let ?u = "?L * 1000000 div 2 ^ 32"
  have L: "0 \<le> ?L" "?L < 2 ^ 32" using uint_lt2p [of "ntp_lsw n"] by simp_all
  have u: "0 \<le> ?u" "?u < 1000000" using L by (simp_all add: pos_imp_zdiv_nonneg_iff)
  have s: "0 \<le> ?s" "?s < 2 ^ 32" using uint_lt2p [of "ntp_msw n - RTP_NTPTIMEOFFSET"] by simp_all
  obtain l where l: "GetNTPTime (stamp ?s ?u) = Inr \<lparr>ntp_msw = word_of_int ?s + RTP_NTPTIMEOFFSET, ntp_lsw = word_of_int l\<rparr>"
    "0 \<le> l" "l < 2 ^ 32" "of_int (?u - 1) / 1000000 * 2 ^ 32 - 1 - 1 / 10 ^ 5 \<le> rat_of_int l"
    "rat_of_int l \<le> of_int ?u / 1000000 * 2 ^ 32 + 1 / 10 ^ 5"
    by (rule GetNTPTime_stamp [OF s u])
  have "?u * 2 ^ 32 \<le> ?L * 1000000" "?L * 1000000 < (?u + 1) * 2 ^ 32" by simp_all
  then have b: "rat_of_int (?u * 2 ^ 32) \<le> of_int (?L * 1000000)" "rat_of_int (?L * 1000000) < of_int ((?u + 1) * 2 ^ 32)"
    by (simp_all only: of_int_le_iff of_int_less_iff)
  have "rat_of_int l < of_int (?L + 1)" "rat_of_int (?L - l) < of_int 8591"
    using ntp_gap [OF l(4,5), of "of_int ?L"] b by simp_all
  then have "l \<le> ?L" "?L - l \<le> 8590" by (simp_all only: of_int_less_iff)
  moreover have "uint (word_of_int l :: u32) = l" using l(2,3) by (simp add: take_bit_int_eq_self unsigned_of_int)
  ultimately show ?thesis using l(1) by (simp add: RTPTime_of_ntp_stamp [OF assms])
qed

text \<open>C39: An NTP timestamp from 1970 on (at least 2208988800 seconds, and before the rollover of 2036)
  that is turned into a time and back keeps its seconds; its fraction never grows and loses at
  most 8590 of its \<open>2 ^ 32\<close> units, which is about two microseconds.  An earlier one, also one from
  after the rollover, becomes the beginning of 1970.\<close>

theorem ntp_roundtrip:
  "\<exists>l. bind_res (RTPTime_of_ntp n) GetNTPTime =
      Inr (if RTP_NTPTIMEOFFSET \<le> ntp_msw n then \<lparr>ntp_msw = ntp_msw n, ntp_lsw = l\<rparr>
        else \<lparr>ntp_msw = RTP_NTPTIMEOFFSET, ntp_lsw = 0\<rparr>) \<and>
    uint l \<le> uint (ntp_lsw n) \<and> uint (ntp_lsw n) - uint l \<le> 8590"
proof (cases "RTP_NTPTIMEOFFSET \<le> ntp_msw n")
  case True
  then show ?thesis using ntp_roundtrip_late [OF True] by simp
next
  case False
  have "to_u32 0 = Inr 0" by code_simp
  then have "bind_res (RTPTime_of_ntp n) GetNTPTime = Inr \<lparr>ntp_msw = RTP_NTPTIMEOFFSET, ntp_lsw = 0\<rparr>"
    using False by (simp add: RTPTime_of_ntp_def GetNTPTime_def GetMSW_def not_le)
  then show ?thesis using False by (intro exI [of _ "ntp_lsw n"]) simp
qed

theorem ntp_roundtrip_witness:
  "\<exists>l. bind_res (RTPTime_of_ntp \<lparr>ntp_msw = 3900000000, ntp_lsw = 123456789\<rparr>) GetNTPTime =
     Inr \<lparr>ntp_msw = 3900000000, ntp_lsw = l\<rparr> \<and> uint l \<le> 123456789 \<and> 123456789 - uint l \<le> 8590"
  using ntp_roundtrip [of "\<lparr>ntp_msw = 3900000000, ntp_lsw = 123456789\<rparr>"] by (simp add: RTP_NTPTIMEOFFSET_def)

text \<open>It can lose a microsecond that it holds exactly.\<close>

lemma ntp_loses_microsecond:
  "bind_res (RTPTime_of 1 1) GetNTPTime = Inr \<lparr>ntp_msw = 2208988801, ntp_lsw = 0\<rparr>"
proof -
  have t: "RTPTime_of 1 1 = Inr (4503604130970123 / 4503599627370496)" by code_simp
  have "to_u32 (4503604130970123 / 4503599627370496) = Inr 1" by code_simp
  moreover have "to_u32 (fl (fl (4503599627 / 4503599627370496) * 1000000)) = Inr 0" "to_u32 0 = Inr 0"
    by code_simp+
  ultimately show ?thesis by (simp add: t GetNTPTime_def Let_def RTP_NTPTIMEOFFSET_def)
qed

section \<open>The clock and the timeout\<close>

definition ts_ok :: "timespec \<Rightarrow> bool" where
  "ts_ok t \<longleftrightarrow> \<bar>ts_sec t\<bar> < 2 ^ 53 - 1 \<and> 0 \<le> ts_nsec t \<and> ts_nsec t < 1000000000"

definition ts_le :: "timespec \<Rightarrow> timespec \<Rightarrow> bool" where
  "ts_le a b \<longleftrightarrow> ts_sec a < ts_sec b \<or> ts_sec a = ts_sec b \<and> ts_nsec a \<le> ts_nsec b"

lemma timespec_fraction:
  assumes "ts_ok t"
  shows "0 \<le> fl (lit_1e_9 * fl (of_int (ts_nsec t)))" "fl (lit_1e_9 * fl (of_int (ts_nsec t))) \<le> 1"
proof -
  have n: "fl (of_int (ts_nsec t)) = of_int (ts_nsec t)" using assms by (simp add: ts_ok_def)
  have r: "0 \<le> rat_of_int (ts_nsec t)" "rat_of_int (ts_nsec t) \<le> 999999999"
    using assms by (simp_all add: ts_ok_def)
  show "0 \<le> fl (lit_1e_9 * fl (of_int (ts_nsec t)))"
    using r unfolding n by (intro fl_nonneg) (simp add: lit_1e_9_eq)
  show "fl (lit_1e_9 * fl (of_int (ts_nsec t))) \<le> 1"
    using fl_int_bounds(2) [of 1 "lit_1e_9 * of_int (ts_nsec t)"] r unfolding n by (simp add: lit_1e_9_eq)
qed

lemma timespecToDouble_mono:
  assumes "ts_ok a" "ts_ok b" "ts_le a b"
  shows "timespecToDouble a \<le> timespecToDouble b"
proof -
  let ?f = "\<lambda>t. fl (lit_1e_9 * fl (of_int (ts_nsec t)))"
  have s: "fl (of_int (ts_sec a)) = of_int (ts_sec a)" "fl (of_int (ts_sec b)) = of_int (ts_sec b)"
    using assms by (simp_all add: ts_ok_def)
  have "of_int (ts_sec a) + ?f a \<le> of_int (ts_sec b) + ?f b"
  proof (cases "ts_sec a < ts_sec b")
    case True
    then have "rat_of_int (ts_sec a + 1) \<le> of_int (ts_sec b)" by (simp only: of_int_le_iff)
    then show ?thesis using timespec_fraction(2) [OF assms(1)] timespec_fraction(1) [OF assms(2)] by simp
  next
    case False
    then have "ts_sec a = ts_sec b" "ts_nsec a \<le> ts_nsec b" using assms(3) by (auto simp: ts_le_def)
    then show ?thesis by (simp add: fl_mono lit_1e_9_eq mult_left_mono)
  qed
  then show ?thesis unfolding timespecToDouble_def s by (rule fl_mono)
qed

text \<open>The times of successive calls, each with what the two clocks say.\<close>

fun clock_run :: "(timespec \<times> timespec) list \<Rightarrow> clock_state \<Rightarrow> RTPTime list" where
  "clock_run [] c = []"
| "clock_run ((sys, mon) # rs) c = (case CurrentTime sys mon c of (t, c) \<Rightarrow> t # clock_run rs c)"

lemma clock_run_initialized:
  "s_initialized c \<Longrightarrow> clock_run rs c = map (\<lambda>r. fl (timespecToDouble (snd r) + s_startOffet c)) rs"
  by (induction rs) (auto simp: CurrentTime_def)

text \<open>Once it is initialised, the clock does not go back when the monotonic clock does not.\<close>

lemma clock_run_sorted:
  assumes "s_initialized c" "sorted_wrt ts_le (map snd rs)" "\<forall>r\<in>set rs. ts_ok (snd r)"
  shows "sorted (clock_run rs c)"
  using assms(2,3) unfolding clock_run_initialized [OF assms(1)]
  by (auto simp: sorted_wrt_map intro!: fl_mono timespecToDouble_mono elim!: sorted_wrt_mono_rel [rotated])
    (metis snd_conv)+

lemma poll_timeout_ok: "\<exists>ms. poll_timeout t = Inr ms \<and> - 1 \<le> ms \<and> ms < 2 ^ 31 \<and> (ms = - 1 \<longleftrightarrow> t < 0)"
proof (cases "0 \<le> t")
  case True
  then have "0 \<le> fl (t * 1000)" by (intro fl_nonneg) simp
  then have "0 \<le> \<lfloor>fl (t * 1000)\<rfloor>" by simp
  then have "\<lfloor>fl (t * 1000)\<rfloor> \<noteq> - 1" "0 \<le> fl (t * 1000)" by (linarith, simp)
  moreover have "fl (t * 1000) \<le> 2147483647 \<Longrightarrow> \<lfloor>fl (t * 1000)\<rfloor> < 2147483648"
    by (simp add: floor_less_iff)
  ultimately show ?thesis using True
    by (auto simp: poll_timeout_def Let_def to_i32_def cut_def not_less not_le intro: order_trans [of _ 0])
qed (simp add: poll_timeout_def)

lemma RTPSelect_flags:
  "RTPSelect poll socks t = Inr (r, fs) \<Longrightarrow> length fs = length socks \<and> set fs \<subseteq> {0, 1} \<and> (r \<le> 0 \<longrightarrow> set fs \<subseteq> {0})"
  using poll_timeout_ok [of t]
  by (auto simp: RTPSelect_def Let_def ERR_RTP_SELECT_ERRORINPOLL_def split: prod.splits if_splits)

lemma RTPSelect_returns: "\<exists>x. RTPSelect poll socks t = Inr x"
  using poll_timeout_ok [of t] by (auto simp: RTPSelect_def Let_def split: prod.splits)

lemma set_fds_all:
  assumes "\<forall>s\<in>set ss. 0 \<le> s \<and> s < FD_SETSIZE" "i + length ss = length flags"
  shows "set_fds ss i flags S = Inr (True, take i flags @ replicate (length ss) 0, set ss \<union> S)"
  using assms
proof (induction ss arbitrary: i flags S)
  case (Cons s ss)
  then show ?case
    using Cons.IH [of "i + 1" "flags[i := 0]"]
    by (auto simp: take_Suc_conv_app_nth insert_commute replicate_append_same Un_commute)
qed simp

text \<open>Both variants set the flags of the sockets that the system reports, and only them.\<close>

lemma RTPSelect_select_flags:
  assumes "\<forall>s\<in>set socks. 0 \<le> s \<and> s < FD_SETSIZE" "length flags = length socks"
    "select_timeout t = Inr tv" "select (set socks) tv = (n, ready)" "0 < n"
  shows "RTPSelect_select select socks flags t = Inr (n, map (\<lambda>s. if s \<in> ready then 1 else 0) socks)"
  using set_fds_all [of socks 0 flags "{}"] assms
  by (auto simp: RTPSelect_select_def intro!: nth_equalityI)

end
