(* ===== verification/JrtpSource.thy ===== *)
theory JrtpSource
  imports JrtpHash JrtpTime
begin

text \<open>
  The entries of jrtplib's source table: \<^verbatim>\<open>rtcpsdesinfo.h\<close>, \<^verbatim>\<open>rtpsourcedata.h\<close> and
  \<^verbatim>\<open>rtpinternalsourcedata.h\<close>, as far as the headers define their members.  An entry owns objects: the
  strings of the source description, the packets in its queue and copies of the two addresses that
  the participant sends from.  They live in a heap of tagged objects; \<open>alloc h\<close> is the address that
  \<^verbatim>\<open>RTPNew\<close> or \<^verbatim>\<open>CreateCopy\<close> obtain in the heap \<open>h\<close>, if memory is left.
\<close>

datatype 'a obj =
    Bytes "byte list"
  | Address 'a
  | Packet "byte list"

type_synonym 'a objs = "nat \<Rightarrow> 'a obj option"

section \<open>Source description items\<close>

definition RTCP_SDES_ID_CNAME :: nat where "RTCP_SDES_ID_CNAME = 1"
definition RTCP_SDES_ID_NAME :: nat where "RTCP_SDES_ID_NAME = 2"
definition RTCP_SDES_ID_EMAIL :: nat where "RTCP_SDES_ID_EMAIL = 3"
definition RTCP_SDES_ID_PHONE :: nat where "RTCP_SDES_ID_PHONE = 4"
definition RTCP_SDES_ID_LOCATION :: nat where "RTCP_SDES_ID_LOCATION = 5"
definition RTCP_SDES_ID_TOOL :: nat where "RTCP_SDES_ID_TOOL = 6"
definition RTCP_SDES_ID_NOTE :: nat where "RTCP_SDES_ID_NOTE = 7"
definition RTCP_SDES_NUMITEMS_NONPRIVATE :: nat where "RTCP_SDES_NUMITEMS_NONPRIVATE = 7"
definition RTCP_SDES_MAXITEMLENGTH :: nat where "RTCP_SDES_MAXITEMLENGTH = 255"
definition ERR_RTP_SDES_LENGTHTOOBIG :: int where "ERR_RTP_SDES_LENGTHTOOBIG = - 55"

record SDESItem =
  it_str :: ptr
  it_length :: nat

definition new_SDESItem :: SDESItem where
  "new_SDESItem = \<lparr>it_str = None, it_length = 0\<rparr>"

definition GetInfo :: "SDESItem \<Rightarrow> ptr \<times> nat" where
  "GetInfo it = (it_str it, it_length it)"

definition delete_opt :: "'a objs \<Rightarrow> ptr \<Rightarrow> 'a objs res" where
  "delete_opt h p = (if p \<noteq> None then RTPDelete h p else Inr h)"

text \<open>\<open>s\<close> are the bytes that can be read at the pointer \<^verbatim>\<open>s\<close>.\<close>

definition SetString ::
    "('a objs \<Rightarrow> ptr) \<Rightarrow> byte list \<Rightarrow> nat \<Rightarrow> 'a objs \<Rightarrow> SDESItem \<Rightarrow> (int \<times> 'a objs \<times> SDESItem) res" where
  "SetString alloc s len h it =
    (if len = 0
     then bind_res (delete_opt h (it_str it)) (\<lambda>h. Inr (0, h, \<lparr>it_str = None, it_length = 0\<rparr>))
     else
       let len = (if len > RTCP_SDES_MAXITEMLENGTH then RTCP_SDES_MAXITEMLENGTH else len) in
       case alloc h of
         None \<Rightarrow> Inr (ERR_RTP_OUTOFMEM, h, it)
       | Some str2 \<Rightarrow>
           if length s < len then Inl Read_Overflow
           else
             bind_res (delete_opt (h(str2 \<mapsto> Bytes (take len s))) (it_str it)) (\<lambda>h.
             Inr (0, h, \<lparr>it_str = Some str2, it_length = len\<rparr>)))"

definition SetInfo ::
    "('a objs \<Rightarrow> ptr) \<Rightarrow> byte list \<Rightarrow> nat \<Rightarrow> 'a objs \<Rightarrow> SDESItem \<Rightarrow> (int \<times> 'a objs \<times> SDESItem) res" where
  "SetInfo alloc s len h it = SetString alloc s len h it"

record RTCPSDESInfo =
  nonprivateitems :: "SDESItem list"

definition new_RTCPSDESInfo :: RTCPSDESInfo where
  "new_RTCPSDESInfo = \<lparr>nonprivateitems = replicate RTCP_SDES_NUMITEMS_NONPRIVATE new_SDESItem\<rparr>"

definition SetNonPrivateItem ::
    "('a objs \<Rightarrow> ptr) \<Rightarrow> nat \<Rightarrow> byte list \<Rightarrow> nat \<Rightarrow> 'a objs \<Rightarrow> RTCPSDESInfo \<Rightarrow> (int \<times> 'a objs \<times> RTCPSDESInfo) res"
where
  "SetNonPrivateItem alloc itemno s l h info =
    (if l > RTCP_SDES_MAXITEMLENGTH then Inr (ERR_RTP_SDES_LENGTHTOOBIG, h, info)
     else
       bind_res (rd (nonprivateitems info) itemno) (\<lambda>it.
       bind_res (SetInfo alloc s l h it) (\<lambda>(r, h, it).
       Inr (r, h, info\<lparr>nonprivateitems := (nonprivateitems info)[itemno := it]\<rparr>))))"

definition GetNonPrivateItem :: "nat \<Rightarrow> RTCPSDESInfo \<Rightarrow> (ptr \<times> nat) res" where
  "GetNonPrivateItem itemno info = bind_res (rd (nonprivateitems info) itemno) (\<lambda>it. Inr (GetInfo it))"

definition SetCNAME where "SetCNAME alloc s l = SetNonPrivateItem alloc (RTCP_SDES_ID_CNAME - 1) s l"
definition SetName where "SetName alloc s l = SetNonPrivateItem alloc (RTCP_SDES_ID_NAME - 1) s l"
definition SetEMail where "SetEMail alloc s l = SetNonPrivateItem alloc (RTCP_SDES_ID_EMAIL - 1) s l"
definition SetPhone where "SetPhone alloc s l = SetNonPrivateItem alloc (RTCP_SDES_ID_PHONE - 1) s l"
definition SetLocation where "SetLocation alloc s l = SetNonPrivateItem alloc (RTCP_SDES_ID_LOCATION - 1) s l"
definition SetTool where "SetTool alloc s l = SetNonPrivateItem alloc (RTCP_SDES_ID_TOOL - 1) s l"
definition SetNote where "SetNote alloc s l = SetNonPrivateItem alloc (RTCP_SDES_ID_NOTE - 1) s l"

definition GetCNAME where "GetCNAME = GetNonPrivateItem (RTCP_SDES_ID_CNAME - 1)"
definition GetName where "GetName = GetNonPrivateItem (RTCP_SDES_ID_NAME - 1)"
definition GetEMail where "GetEMail = GetNonPrivateItem (RTCP_SDES_ID_EMAIL - 1)"
definition GetPhone where "GetPhone = GetNonPrivateItem (RTCP_SDES_ID_PHONE - 1)"
definition GetLocation where "GetLocation = GetNonPrivateItem (RTCP_SDES_ID_LOCATION - 1)"
definition GetTool where "GetTool = GetNonPrivateItem (RTCP_SDES_ID_TOOL - 1)"
definition GetNote where "GetNote = GetNonPrivateItem (RTCP_SDES_ID_NOTE - 1)"

section \<open>What is known of a participant\<close>

record RTCPSenderReportInfo =
  sr_hasinfo :: bool
  sr_ntptimestamp :: RTPNTPTime
  sr_rtptimestamp :: u32
  sr_packetcount :: u32
  sr_bytecount :: u32
  sr_receivetime :: RTPTime

definition new_SenderReportInfo :: RTCPSenderReportInfo where
  "new_SenderReportInfo = \<lparr>sr_hasinfo = False, sr_ntptimestamp = \<lparr>ntp_msw = 0, ntp_lsw = 0\<rparr>, sr_rtptimestamp = 0,
     sr_packetcount = 0, sr_bytecount = 0, sr_receivetime = 0\<rparr>"

definition SR_Set :: "RTPNTPTime \<Rightarrow> u32 \<Rightarrow> u32 \<Rightarrow> u32 \<Rightarrow> RTPTime \<Rightarrow> RTCPSenderReportInfo \<Rightarrow> RTCPSenderReportInfo" where
  "SR_Set ntptime rtptime pcount bcount rcvtime i =
    i\<lparr>sr_ntptimestamp := ntptime, sr_rtptimestamp := rtptime, sr_packetcount := pcount, sr_bytecount := bcount,
      sr_receivetime := rcvtime, sr_hasinfo := True\<rparr>"

record RTCPReceiverReportInfo =
  rr_hasinfo :: bool
  rr_fractionlost :: double
  rr_packetslost :: int
  rr_exthighseqnr :: u32
  rr_jitter :: u32
  rr_lsr :: u32
  rr_dlsr :: u32
  rr_receivetime :: RTPTime

definition new_ReceiverReportInfo :: RTCPReceiverReportInfo where
  "new_ReceiverReportInfo = \<lparr>rr_hasinfo = False, rr_fractionlost = 0, rr_packetslost = 0, rr_exthighseqnr = 0,
     rr_jitter = 0, rr_lsr = 0, rr_dlsr = 0, rr_receivetime = 0\<rparr>"

definition RR_Set ::
    "byte \<Rightarrow> int \<Rightarrow> u32 \<Rightarrow> u32 \<Rightarrow> u32 \<Rightarrow> u32 \<Rightarrow> RTPTime \<Rightarrow> RTCPReceiverReportInfo \<Rightarrow> RTCPReceiverReportInfo" where
  "RR_Set fraclost plost exthigh jit l dl rcvtime i =
    i\<lparr>rr_fractionlost := fl (fl (of_int (uint fraclost)) / 256), rr_packetslost := plost, rr_exthighseqnr := exthigh,
      rr_jitter := jit, rr_lsr := l, rr_dlsr := dl, rr_receivetime := rcvtime, rr_hasinfo := True\<rparr>"

record RTPSourceStats =
  st_sentdata :: bool
  st_packetsreceived :: u32
  st_numcycles :: u32
  st_baseseqnr :: u32
  st_exthighseqnr :: u32
  st_prevexthighseqnr :: u32
  st_jitter :: u32
  st_prevtimestamp :: u32
  st_djitter :: double
  st_prevpacktime :: RTPTime
  st_lastmsgtime :: RTPTime
  st_lastrtptime :: RTPTime
  st_lastnotetime :: RTPTime
  st_numnewpackets :: u32
  st_savedextseqnr :: u32
  st_prevseqnr :: u16
  st_probation :: int

definition new_RTPSourceStats :: RTPSourceStats where
  "new_RTPSourceStats = \<lparr>st_sentdata = False, st_packetsreceived = 0, st_numcycles = 0, st_baseseqnr = 0,
     st_exthighseqnr = 0, st_prevexthighseqnr = 0, st_jitter = 0, st_prevtimestamp = 0, st_djitter = 0,
     st_prevpacktime = 0, st_lastmsgtime = 0, st_lastrtptime = 0, st_lastnotetime = 0, st_numnewpackets = 0,
     st_savedextseqnr = 0, st_prevseqnr = 0, st_probation = 0\<rparr>"

definition StartNewInterval :: "RTPSourceStats \<Rightarrow> RTPSourceStats" where
  "StartNewInterval s = s\<lparr>st_numnewpackets := 0, st_savedextseqnr := st_exthighseqnr s\<rparr>"

definition SetLastMessageTime where "SetLastMessageTime t s = s\<lparr>st_lastmsgtime := t\<rparr>"
definition SetLastRTPPacketTime where "SetLastRTPPacketTime t s = s\<lparr>st_lastrtptime := t\<rparr>"
definition SetLastNoteTime where "SetLastNoteTime t s = s\<lparr>st_lastnotetime := t\<rparr>"

text \<open>
  The reason of a BYE packet, which only members outside the headers store and release, is left out.
\<close>

record RTPSourceData =
  packetlist :: "nat list"
  sd_ssrc :: u32
  ownssrc :: bool
  iscsrc :: bool
  timestampunit :: double
  receivedbye :: bool
  validated :: bool
  processedinrtcp :: bool
  issender :: bool
  SRinf :: RTCPSenderReportInfo
  SRprevinf :: RTCPSenderReportInfo
  RRinf :: RTCPReceiverReportInfo
  RRprevinf :: RTCPReceiverReportInfo
  sd_stats :: RTPSourceStats
  SDESinf :: RTCPSDESInfo
  isrtpaddrset :: bool
  isrtcpaddrset :: bool
  rtpaddr :: ptr
  rtcpaddr :: ptr
  byetime :: RTPTime

definition HasData :: "RTPSourceData \<Rightarrow> bool" where
  "HasData d = (if \<not> validated d then False else if packetlist d = [] then False else True)"

definition IsActive :: "RTPSourceData \<Rightarrow> bool" where
  "IsActive d = (if \<not> validated d then False else if receivedbye d then False else True)"

definition GetNextPacket :: "RTPSourceData \<Rightarrow> ptr \<times> RTPSourceData" where
  "GetNextPacket d =
    (if \<not> validated d then (None, d)
     else case packetlist d of [] \<Rightarrow> (None, d) | p # ps \<Rightarrow> (Some p, d\<lparr>packetlist := ps\<rparr>))"

definition FlushPackets :: "'a objs \<Rightarrow> RTPSourceData \<Rightarrow> ('a objs \<times> RTPSourceData) res" where
  "FlushPackets h d =
    bind_res (fold_res (\<lambda>h p. RTPDelete h (Some p)) h (packetlist d)) (\<lambda>h. Inr (h, d\<lparr>packetlist := []\<rparr>))"

text \<open>The operations of \<^verbatim>\<open>RTPInternalSourceData\<close>.\<close>

definition ProcessSenderInfo ::
    "RTPNTPTime \<Rightarrow> u32 \<Rightarrow> u32 \<Rightarrow> u32 \<Rightarrow> RTPTime \<Rightarrow> RTPSourceData \<Rightarrow> RTPSourceData" where
  "ProcessSenderInfo ntptime rtptime packetcount octetcount receivetime d =
    d\<lparr>SRprevinf := SRinf d, SRinf := SR_Set ntptime rtptime packetcount octetcount receivetime (SRinf d),
      sd_stats := SetLastMessageTime receivetime (sd_stats d)\<rparr>"

definition ProcessReportBlock ::
    "byte \<Rightarrow> int \<Rightarrow> u32 \<Rightarrow> u32 \<Rightarrow> u32 \<Rightarrow> u32 \<Rightarrow> RTPTime \<Rightarrow> RTPSourceData \<Rightarrow> RTPSourceData" where
  "ProcessReportBlock fractionlost lostpackets exthighseqnr jitter lsr dlsr receivetime d =
    d\<lparr>RRprevinf := RRinf d, RRinf := RR_Set fractionlost lostpackets exthighseqnr jitter lsr dlsr receivetime (RRinf d),
      sd_stats := SetLastMessageTime receivetime (sd_stats d)\<rparr>"

definition UpdateMessageTime :: "RTPTime \<Rightarrow> RTPSourceData \<Rightarrow> RTPSourceData" where
  "UpdateMessageTime receivetime d = d\<lparr>sd_stats := SetLastMessageTime receivetime (sd_stats d)\<rparr>"

definition ClearSenderFlag :: "RTPSourceData \<Rightarrow> RTPSourceData" where
  "ClearSenderFlag d = d\<lparr>issender := False\<rparr>"

text \<open>\<open>t\<close> is what \<^verbatim>\<open>RTPTime::CurrentTime\<close> returns.\<close>

definition SentRTPPacket :: "RTPTime \<Rightarrow> RTPSourceData \<Rightarrow> RTPSourceData" where
  "SentRTPPacket t d =
    (if \<not> ownssrc d then d
     else d\<lparr>issender := True, sd_stats := SetLastMessageTime t (SetLastRTPPacketTime t (sd_stats d))\<rparr>)"

definition SetOwnSSRC :: "RTPSourceData \<Rightarrow> RTPSourceData" where
  "SetOwnSSRC d = d\<lparr>ownssrc := True, validated := True\<rparr>"

definition SetCSRC :: "RTPSourceData \<Rightarrow> RTPSourceData" where
  "SetCSRC d = d\<lparr>validated := True, iscsrc := True\<rparr>"

definition ClearNote :: "('a objs \<Rightarrow> ptr) \<Rightarrow> 'a objs \<Rightarrow> RTPSourceData \<Rightarrow> ('a objs \<times> RTPSourceData) res" where
  "ClearNote alloc h d =
    bind_res (SetNote alloc [] 0 h (SDESinf d)) (\<lambda>(r, h, info). Inr (h, d\<lparr>SDESinf := info\<rparr>))"

text \<open>
  The two setters of addresses differ only in the members they work on; \<open>set_address\<close> is what they
  do with the old pointer: the status, the heap and the new pointer.
\<close>

definition set_address :: "('a objs \<Rightarrow> ptr) \<Rightarrow> ptr \<Rightarrow> 'a objs \<Rightarrow> ptr \<Rightarrow> (int \<times> 'a objs \<times> ptr) res" where
  "set_address alloc a h addr =
    (if a = None
     then if addr \<noteq> None then bind_res (RTPDelete h addr) (\<lambda>h. Inr (0, h, None)) else Inr (0, h, addr)
     else
       bind_res (deref h a) (\<lambda>obj.
       case alloc h of
         None \<Rightarrow> Inr (ERR_RTP_OUTOFMEM, h, addr)
       | Some newaddr \<Rightarrow>
           let h = h(newaddr \<mapsto> obj) in
           bind_res (if addr \<noteq> None \<and> a \<noteq> addr then RTPDelete h addr else Inr h) (\<lambda>h.
           Inr (0, h, Some newaddr))))"

definition SetRTPDataAddress ::
    "('a objs \<Rightarrow> ptr) \<Rightarrow> ptr \<Rightarrow> 'a objs \<Rightarrow> RTPSourceData \<Rightarrow> (int \<times> 'a objs \<times> RTPSourceData) res" where
  "SetRTPDataAddress alloc a h d =
    bind_res (set_address alloc a h (rtpaddr d)) (\<lambda>(r, h, p).
    if r \<noteq> 0 then Inr (r, h, d) else Inr (0, h, d\<lparr>rtpaddr := p, isrtpaddrset := True\<rparr>))"

definition SetRTCPDataAddress ::
    "('a objs \<Rightarrow> ptr) \<Rightarrow> ptr \<Rightarrow> 'a objs \<Rightarrow> RTPSourceData \<Rightarrow> (int \<times> 'a objs \<times> RTPSourceData) res" where
  "SetRTCPDataAddress alloc a h d =
    bind_res (set_address alloc a h (rtcpaddr d)) (\<lambda>(r, h, p).
    if r \<noteq> 0 then Inr (r, h, d) else Inr (0, h, d\<lparr>rtcpaddr := p, isrtcpaddrset := True\<rparr>))"

end
