(* ===== verification/JrtpSourceRun.thy ===== *)
theory JrtpSourceRun
  imports JrtpSource "HOL-Library.Multiset"
begin

text \<open>
  What an entry of the source table owns.  The invariant counts: each object of the heap is pointed
  to exactly once, by the entry or by the rest of the program, and each of their pointers is to an
  object.  So a state that satisfies it has no leak, no dangling pointer and no shared object, and
  an operation that keeps it frees what it lets go of, once.
\<close>

section \<open>Counting pointers\<close>

definition ptr_mset :: "ptr \<Rightarrow> nat multiset" where
  "ptr_mset p = (case p of None \<Rightarrow> {#} | Some a \<Rightarrow> {#a#})"

lemma ptr_mset_simps [simp]: "ptr_mset None = {#}" "ptr_mset (Some a) = {#a#}"
  by (simp_all add: ptr_mset_def)

lemma in_ptr_mset [simp]: "a \<in># ptr_mset p \<longleftrightarrow> p = Some a"
  by (cases p) auto

definition balance :: "(nat \<Rightarrow> 'n option) \<Rightarrow> nat multiset \<Rightarrow> bool" where
  "balance h M \<longleftrightarrow> (\<forall>a. count M a = of_bool (h a \<noteq> None))"

lemma balance_live: "balance h M \<Longrightarrow> a \<in># M \<Longrightarrow> h a \<noteq> None"
  unfolding balance_def by (metis count_eq_zero_iff of_bool_eq(1))

lemma balance_le: "balance h M \<Longrightarrow> count M a \<le> 1"
  by (simp add: balance_def of_bool_def)

lemma balance_once: "balance h (add_mset a M) \<Longrightarrow> a \<notin># M"
  using balance_le [of h "add_mset a M" a] by (simp add: count_eq_zero_iff)

lemma balance_delete:
  assumes "balance h (add_mset a M)"
  shows "RTPDelete h (Some a) = Inr (h(a := None))" "balance (h(a := None)) M"
proof -
  have "h a \<noteq> None" using balance_live [OF assms] by simp
  then show "RTPDelete h (Some a) = Inr (h(a := None))" by (simp add: RTPDelete_def)
  have "count M b = of_bool ((h(a := None)) b \<noteq> None)" for b
  proof (cases "b = a")
    case True
    then show ?thesis using balance_once [OF assms] by (simp add: count_eq_zero_iff)
  next
    case False
    have "count (add_mset a M) b = of_bool (h b \<noteq> None)" using assms by (simp only: balance_def)
    then show ?thesis using False by simp
  qed
  then show "balance (h(a := None)) M" by (simp add: balance_def)
qed

lemma balance_new: "balance h M \<Longrightarrow> h a = None \<Longrightarrow> balance (h(a \<mapsto> x)) (add_mset a M)"
  by (auto simp: balance_def)

definition alloc_fresh :: "((nat \<Rightarrow> 'n option) \<Rightarrow> ptr) \<Rightarrow> bool" where
  "alloc_fresh alloc \<longleftrightarrow> (\<forall>h a. alloc h = Some a \<longrightarrow> h a = None)"

lemma alloc_freshD: "alloc_fresh alloc \<Longrightarrow> alloc h = Some a \<Longrightarrow> h a = None"
  by (simp add: alloc_fresh_def)

text \<open>A pointer that is replaced by a new object: the old object goes, everything else stays.\<close>

lemma replace_run:
  assumes "balance h (ptr_mset p + M)" "h a = None"
  shows "\<exists>h'. delete_opt (h(a \<mapsto> x)) p = Inr h' \<and> balance h' (add_mset a M) \<and> (\<forall>b\<in>#M. h' b = h b) \<and> h' a = Some x"
proof (cases p)
  case None
  then have "balance h M" using assms by simp
  then show ?thesis using None balance_new [where M = M and x = x] assms(2)
    by (auto simp: delete_opt_def dest: balance_live)
next
  case (Some o1)
  then have m: "balance h (add_mset o1 M)" using assms(1) by simp
  then have n: "balance (h(a \<mapsto> x)) (add_mset o1 (add_mset a M))"
    using balance_new [OF m assms(2), of x] by (simp add: add_mset_commute)
  have "a \<noteq> o1" "a \<notin># M" using balance_live [OF m, of a] assms(2) by auto
  then show ?thesis using Some balance_delete [OF n] balance_once [OF m] by (auto simp: delete_opt_def)
qed

lemma release_run:
  assumes "balance h (ptr_mset p + M)"
  shows "\<exists>h'. delete_opt h p = Inr h' \<and> balance h' M \<and> (\<forall>b\<in>#M. h' b = h b)"
  using assms balance_delete [of h "the p" M] balance_once [of h "the p" M]
  by (cases p) (auto simp: delete_opt_def)

section \<open>One item, one address\<close>

definition item_ok :: "'a objs \<Rightarrow> SDESItem \<Rightarrow> bool" where
  "item_ok h it \<longleftrightarrow>
    (case it_str it of None \<Rightarrow> it_length it = 0
     | Some a \<Rightarrow> \<exists>b. h a = Some (Bytes b) \<and> length b = it_length it \<and> 0 < it_length it \<and> it_length it \<le> 255)"

definition item_value :: "'a objs \<Rightarrow> SDESItem \<Rightarrow> byte list" where
  "item_value h it =
    (case it_str it of None \<Rightarrow> [] | Some a \<Rightarrow> (case h a of Some (Bytes b) \<Rightarrow> b | _ \<Rightarrow> []))"

definition addr_ok :: "'a objs \<Rightarrow> ptr \<Rightarrow> bool" where
  "addr_ok h p \<longleftrightarrow> (case p of None \<Rightarrow> True | Some a \<Rightarrow> \<exists>x. h a = Some (Address x))"

definition addr_value :: "'a objs \<Rightarrow> ptr \<Rightarrow> 'a option" where
  "addr_value h p = (case p of None \<Rightarrow> None | Some a \<Rightarrow> (case h a of Some (Address x) \<Rightarrow> Some x | _ \<Rightarrow> None))"

lemma item_cong:
  assumes "\<And>a. it_str it = Some a \<Longrightarrow> h' a = h a"
  shows "item_ok h' it = item_ok h it" "item_value h' it = item_value h it"
  using assms by (simp_all add: item_ok_def item_value_def split: option.splits)

lemma addr_cong:
  assumes "\<And>a. p = Some a \<Longrightarrow> h' a = h a"
  shows "addr_ok h' p = addr_ok h p" "addr_value h' p = addr_value h p"
  using assms by (simp_all add: addr_ok_def addr_value_def split: option.splits)

lemma SetString_run:
  assumes "balance h (ptr_mset (it_str it) + M)" "alloc_fresh alloc" "length s \<le> 255"
  shows "\<exists>r h' it'. SetString alloc s (length s) h it = Inr (r, h', it') \<and>
    balance h' (ptr_mset (it_str it') + M) \<and> (\<forall>a\<in>#M. h' a = h a) \<and>
    (r = 0 \<and> item_value h' it' = s \<and> item_ok h' it' \<or> r = ERR_RTP_OUTOFMEM \<and> h' = h \<and> it' = it)"
proof (cases "s = []")
  case True
  then show ?thesis using release_run [OF assms(1)] by (auto simp: SetString_def item_ok_def item_value_def)
next
  case False
  show ?thesis
  proof (cases "alloc h")
    case None
    then show ?thesis using False assms(1,3)
      by (auto simp: SetString_def Let_def RTCP_SDES_MAXITEMLENGTH_def)
  next
    case (Some a)
    from replace_run [OF assms(1) alloc_freshD [OF assms(2) Some], of "Bytes s"] show ?thesis
      using False Some assms(3)
      by (auto simp: SetString_def Let_def RTCP_SDES_MAXITEMLENGTH_def item_ok_def item_value_def)
  qed
qed

lemma set_address_run:
  assumes "balance h (ptr_mset p + M)" "alloc_fresh alloc"
    "\<And>a. q = Some a \<Longrightarrow> a \<in># M \<and> h a = Some (Address (E a))"
  shows "\<exists>r h' p'. set_address alloc q h p = Inr (r, h', p') \<and> balance h' (ptr_mset p' + M) \<and> (\<forall>a\<in>#M. h' a = h a) \<and>
    (r = 0 \<and> addr_value h' p' = map_option E q \<and> addr_ok h' p' \<or> r = ERR_RTP_OUTOFMEM \<and> h' = h \<and> p' = p)"
proof (cases q)
  case None
  then show ?thesis using release_run [OF assms(1)] assms(1)
    by (cases p) (auto simp: set_address_def delete_opt_def addr_value_def addr_ok_def)
next
  case (Some a)
  note q = assms(3) [OF Some]
  show ?thesis
  proof (cases "alloc h")
    case None
    then show ?thesis using Some q assms(1) by (auto simp: set_address_def deref_def)
  next
    case (Some n)
    have "p \<noteq> Some a" using assms(1) q balance_once [of h a M] by auto
    with replace_run [OF assms(1) alloc_freshD [OF assms(2) Some], of "Address (E a)"] show ?thesis
      using \<open>q = Some a\<close> Some q
      by (cases p) (auto simp: set_address_def deref_def delete_opt_def addr_value_def addr_ok_def)
  qed
qed

section \<open>The whole entry\<close>

definition own_items :: "SDESItem list \<Rightarrow> nat multiset" where
  "own_items its = sum_list (map (\<lambda>it. ptr_mset (it_str it)) its)"

definition own :: "RTPSourceData \<Rightarrow> nat multiset" where
  "own d = mset (packetlist d) + own_items (nonprivateitems (SDESinf d)) + ptr_mset (rtpaddr d) + ptr_mset (rtcpaddr d)"

definition typed :: "'a objs \<Rightarrow> RTPSourceData \<Rightarrow> bool" where
  "typed h d \<longleftrightarrow>
    (\<forall>it\<in>set (nonprivateitems (SDESinf d)). item_ok h it) \<and> addr_ok h (rtpaddr d) \<and> addr_ok h (rtcpaddr d) \<and>
    (\<forall>p\<in>set (packetlist d). \<exists>b. h p = Some (Packet b))"

definition source_inv :: "'a objs \<Rightarrow> RTPSourceData \<Rightarrow> nat multiset \<Rightarrow> bool" where
  "source_inv h d env \<longleftrightarrow>
    balance h (own d + env) \<and> typed h d \<and> length (nonprivateitems (SDESinf d)) = RTCP_SDES_NUMITEMS_NONPRIVATE"

text \<open>What the entry says: the texts, the two addresses and the waiting packets.\<close>

record 'a source_view =
  v_items :: "byte list list"
  v_rtp :: "'a option"
  v_rtcp :: "'a option"
  v_packets :: "byte list list"

definition packet_value :: "'a objs \<Rightarrow> nat \<Rightarrow> byte list" where
  "packet_value h p = (case h p of Some (Packet b) \<Rightarrow> b | _ \<Rightarrow> [])"

definition view :: "'a objs \<Rightarrow> RTPSourceData \<Rightarrow> 'a source_view" where
  "view h d = \<lparr>v_items = map (item_value h) (nonprivateitems (SDESinf d)), v_rtp = addr_value h (rtpaddr d),
     v_rtcp = addr_value h (rtcpaddr d), v_packets = map (packet_value h) (packetlist d)\<rparr>"

lemma own_items_update:
  "i < length its \<Longrightarrow> own_items (its[i := x]) = ptr_mset (it_str x) + own_items (take i its @ drop (Suc i) its)"
  by (simp add: own_items_def upd_conv_take_nth_drop ac_simps)

lemma own_items_member: "it \<in> set its \<Longrightarrow> it_str it = Some a \<Longrightarrow> a \<in># own_items its"
  by (induction its) (auto simp: own_items_def)

lemma view_cong:
  assumes "\<And>a. a \<in># own d \<Longrightarrow> h' a = h a"
  shows "typed h' d = typed h d" "view h' d = view h d"
proof -
  have i: "item_ok h' it = item_ok h it" "item_value h' it = item_value h it"
    if "it \<in> set (nonprivateitems (SDESinf d))" for it
    using that by (auto intro!: item_cong assms simp: own_def dest: own_items_member)
  have a: "addr_ok h' p = addr_ok h p" "addr_value h' p = addr_value h p" if "p = rtpaddr d \<or> p = rtcpaddr d" for p
    using that by (auto intro!: addr_cong assms simp: own_def)
  have p: "h' x = h x" if "x \<in> set (packetlist d)" for x using that by (intro assms) (simp add: own_def)
  show "typed h' d = typed h d" using i a p by (simp add: typed_def)
  show "view h' d = view h d" using i a p by (simp add: view_def packet_value_def)
qed

lemma items_update:
  assumes "i < length its" "\<forall>it\<in>set its. item_ok h it" "item_ok h' x"
    "\<forall>a\<in>#own_items (take i its @ drop (Suc i) its). h' a = h a"
  shows "\<forall>it\<in>set (its[i := x]). item_ok h' it"
    "map (item_value h') (its[i := x]) = (map (item_value h) its)[i := item_value h' x]"
proof -
  let ?r = "take i its @ drop (Suc i) its"
  have "item_ok h' it = item_ok h it" "item_value h' it = item_value h it" if "it \<in> set ?r" for it
    using own_items_member [OF that] assms(4) by (auto intro!: item_cong)
  moreover have "set ?r \<subseteq> set its" by (auto dest: in_set_takeD in_set_dropD)
  ultimately show "\<forall>it\<in>set (its[i := x]). item_ok h' it"
    "map (item_value h') (its[i := x]) = (map (item_value h) its)[i := item_value h' x]"
    using assms(1-3) by (auto simp: upd_conv_take_nth_drop take_map drop_map)
qed

section \<open>Operations\<close>

datatype source_op =
    Set_Item nat "byte list"
  | Set_RTP ptr
  | Set_RTCP ptr
  | Flush
  | Take

text \<open>
  The result of an operation is its status and, for \<open>Take\<close>, what the caller reads in the packet that
  he gets and now owns.  \<open>env\<close> are the pointers that the rest of the program owns.
\<close>

fun source_step :: "('a objs \<Rightarrow> ptr) \<Rightarrow> source_op \<Rightarrow> 'a objs \<times> RTPSourceData \<times> nat multiset \<Rightarrow>
    ((int \<times> byte list option) \<times> 'a objs \<times> RTPSourceData \<times> nat multiset) res" where
  "source_step alloc (Set_Item i s) (h, d, env) =
    bind_res (SetNonPrivateItem alloc i s (length s) h (SDESinf d)) (\<lambda>(r, h, info).
    Inr ((r, None), h, d\<lparr>SDESinf := info\<rparr>, env))"
| "source_step alloc (Set_RTP q) (h, d, env) =
    bind_res (SetRTPDataAddress alloc q h d) (\<lambda>(r, h, d). Inr ((r, None), h, d, env))"
| "source_step alloc (Set_RTCP q) (h, d, env) =
    bind_res (SetRTCPDataAddress alloc q h d) (\<lambda>(r, h, d). Inr ((r, None), h, d, env))"
| "source_step alloc Flush (h, d, env) =
    bind_res (FlushPackets h d) (\<lambda>(h, d). Inr ((0, None), h, d, env))"
| "source_step alloc Take (h, d, env) =
    (case GetNextPacket d of
       (None, d) \<Rightarrow> Inr ((0, None), h, d, env)
     | (Some p, d) \<Rightarrow> bind_res (deref h (Some p)) (\<lambda>x. Inr ((0, Some (packet_value h p)), h, d, add_mset p env)))"

fun spec_step :: "(nat \<Rightarrow> 'a) \<Rightarrow> bool \<Rightarrow> source_op \<Rightarrow> 'a source_view \<Rightarrow> byte list option \<times> 'a source_view" where
  "spec_step E valid (Set_Item i s) v = (None, v\<lparr>v_items := (v_items v)[i := s]\<rparr>)"
| "spec_step E valid (Set_RTP q) v = (None, v\<lparr>v_rtp := map_option E q\<rparr>)"
| "spec_step E valid (Set_RTCP q) v = (None, v\<lparr>v_rtcp := map_option E q\<rparr>)"
| "spec_step E valid Flush v = (None, v\<lparr>v_packets := []\<rparr>)"
| "spec_step E valid Take v =
    (if valid \<and> v_packets v \<noteq> [] then (Some (hd (v_packets v)), v\<lparr>v_packets := tl (v_packets v)\<rparr>) else (None, v))"

text \<open>An operation gets an item that exists, and pointers to addresses that the caller owns.\<close>

fun op_ok :: "(nat \<Rightarrow> 'a) \<Rightarrow> 'a objs \<Rightarrow> nat multiset \<Rightarrow> source_op \<Rightarrow> bool" where
  "op_ok E h env (Set_Item i s) = (i < RTCP_SDES_NUMITEMS_NONPRIVATE)"
| "op_ok E h env (Set_RTP (Some a)) = (a \<in># env \<and> h a = Some (Address (E a)))"
| "op_ok E h env (Set_RTCP (Some a)) = (a \<in># env \<and> h a = Some (Address (E a)))"
| "op_ok E h env op = True"

text \<open>A status other than 0 says why nothing was done.\<close>

fun refused :: "source_op \<Rightarrow> int \<Rightarrow> bool" where
  "refused (Set_Item i s) r = (r = (if 255 < length s then ERR_RTP_SDES_LENGTHTOOBIG else ERR_RTP_OUTOFMEM))"
| "refused (Set_RTP q) r = (q \<noteq> None \<and> r = ERR_RTP_OUTOFMEM)"
| "refused (Set_RTCP q) r = (q \<noteq> None \<and> r = ERR_RTP_OUTOFMEM)"
| "refused op r = False"

definition step_ok where
  "step_ok E op h d env r out h' d' env' \<longleftrightarrow>
    source_inv h' d' env' \<and> env \<subseteq># env' \<and> (\<forall>a\<in>#env. h' a = h a) \<and> validated d' = validated d \<and>
    (r = 0 \<and> (out, view h' d') = spec_step E (validated d) op (view h d) \<or>
     refused op r \<and> out = None \<and> view h' d' = view h d)"

lemma step_same: "source_inv h d env \<Longrightarrow> refused op r \<Longrightarrow> step_ok E op h d env r None h d env"
  by (simp add: step_ok_def)

lemma outside_cong:
  assumes "\<forall>a\<in>#mset (packetlist d) + ptr_mset (rtpaddr d) + ptr_mset (rtcpaddr d). h' a = h a"
  shows "addr_ok h' (rtpaddr d) = addr_ok h (rtpaddr d)" "addr_ok h' (rtcpaddr d) = addr_ok h (rtcpaddr d)"
    "addr_value h' (rtpaddr d) = addr_value h (rtpaddr d)" "addr_value h' (rtcpaddr d) = addr_value h (rtcpaddr d)"
    "(\<forall>p\<in>set (packetlist d). \<exists>b. h' p = Some (Packet b)) = (\<forall>p\<in>set (packetlist d). \<exists>b. h p = Some (Packet b))"
    "map (packet_value h') (packetlist d) = map (packet_value h) (packetlist d)"
  using assms by (auto intro!: addr_cong simp: packet_value_def)

abbreviation with_item :: "RTPSourceData \<Rightarrow> nat \<Rightarrow> SDESItem \<Rightarrow> RTPSourceData" where
  "with_item d i it \<equiv> d\<lparr>SDESinf := SDESinf d\<lparr>nonprivateitems := (nonprivateitems (SDESinf d))[i := it]\<rparr>\<rparr>"

abbreviation other_ptrs :: "RTPSourceData \<Rightarrow> nat \<Rightarrow> nat multiset" where
  "other_ptrs d i \<equiv> own_items (take i (nonprivateitems (SDESinf d)) @ drop (Suc i) (nonprivateitems (SDESinf d))) +
    (mset (packetlist d) + ptr_mset (rtpaddr d) + ptr_mset (rtcpaddr d))"

lemma with_item_own:
  "i < length (nonprivateitems (SDESinf d)) \<Longrightarrow> own (with_item d i it) = ptr_mset (it_str it) + other_ptrs d i"
  by (simp add: own_def own_items_update ac_simps)

lemma with_item_view:
  assumes "i < length (nonprivateitems (SDESinf d))" "typed h d" "item_ok h' it" "\<forall>a\<in>#other_ptrs d i. h' a = h a"
  shows "typed h' (with_item d i it)"
    "view h' (with_item d i it) = (view h d)\<lparr>v_items := (v_items (view h d))[i := item_value h' it]\<rparr>"
proof -
  have "\<forall>it\<in>set (nonprivateitems (SDESinf d)). item_ok h it" using assms(2) by (simp add: typed_def)
  note u = items_update [OF assms(1) this assms(3)]
  have o: "\<forall>a\<in>#mset (packetlist d) + ptr_mset (rtpaddr d) + ptr_mset (rtcpaddr d). h' a = h a"
    using assms(4) by (simp add: ball_Un)
  show "typed h' (with_item d i it)" "view h' (with_item d i it) = (view h d)\<lparr>v_items := (v_items (view h d))[i := item_value h' it]\<rparr>"
    using u assms(2,4) outside_cong [OF o] by (simp_all add: typed_def view_def ball_Un)
qed

lemma Set_Item_step:
  assumes "source_inv h d env" "alloc_fresh alloc" "i < RTCP_SDES_NUMITEMS_NONPRIVATE"
  shows "\<exists>r out h' d' env'. source_step alloc (Set_Item i s) (h, d, env) = Inr ((r, out), h', d', env') \<and>
    step_ok E (Set_Item i s) h d env r out h' d' env'"
proof (cases "255 < length s")
  case True
  then show ?thesis using step_same [OF assms(1), of "Set_Item i s" ERR_RTP_SDES_LENGTHTOOBIG E]
    by (simp add: SetNonPrivateItem_def RTCP_SDES_MAXITEMLENGTH_def)
next
  case False
  let ?its = "nonprivateitems (SDESinf d)"
  have i: "i < length ?its" and ty: "typed h d" and b: "balance h (own d + env)"
    using assms(1,3) by (simp_all add: source_inv_def)
  have e: "own d + env = ptr_mset (it_str (?its ! i)) + (other_ptrs d i + env)"
    using with_item_own [OF i, of "?its ! i"] by (simp add: ac_simps)
  from SetString_run [OF b [unfolded e] assms(2), of s] False obtain r h' it' where
    s: "SetString alloc s (length s) h (?its ! i) = Inr (r, h', it')"
      "balance h' (ptr_mset (it_str it') + (other_ptrs d i + env))" "\<forall>a\<in>#other_ptrs d i + env. h' a = h a"
      "r = 0 \<and> item_value h' it' = s \<and> item_ok h' it' \<or> r = ERR_RTP_OUTOFMEM \<and> h' = h \<and> it' = ?its ! i"
    by auto
  have step: "source_step alloc (Set_Item i s) (h, d, env) = Inr ((r, None), h', with_item d i it', env)"
    using False i s(1) by (simp add: SetNonPrivateItem_def RTCP_SDES_MAXITEMLENGTH_def SetInfo_def rd_def)
  show ?thesis
  proof (cases "r = 0")
    case True
    then have t: "item_value h' it' = s" "item_ok h' it'" using s(4) by (auto simp: ERR_RTP_OUTOFMEM_def)
    have f: "\<forall>a\<in>#other_ptrs d i. h' a = h a" "\<forall>a\<in>#env. h' a = h a" using s(3) by (simp_all add: ball_Un)
    have "source_inv h' (with_item d i it') env"
      using s(2) with_item_view(1) [OF i ty t(2) f(1)] assms(1) with_item_own [OF i, of it']
      by (simp add: source_inv_def add.assoc)
    then show ?thesis
      using step True f(2) with_item_view(2) [OF i ty t(2) f(1)] t(1) by (auto simp: step_ok_def)
  next
    case False
    then have "h' = h" "it' = ?its ! i" "refused (Set_Item i s) r" using s(4) \<open>\<not> 255 < length s\<close> by auto
    then show ?thesis using step step_same [OF assms(1)] by (simp del: source_step.simps)
  qed
qed

lemma with_rtp:
  assumes "typed h d" "addr_ok h' p" "\<forall>a\<in>#own (d\<lparr>rtpaddr := None\<rparr>). h' a = h a"
  shows "typed h' (d\<lparr>rtpaddr := p, isrtpaddrset := True\<rparr>)"
    "view h' (d\<lparr>rtpaddr := p, isrtpaddrset := True\<rparr>) = (view h d)\<lparr>v_rtp := addr_value h' p\<rparr>"
  using view_cong [of "d\<lparr>rtpaddr := None\<rparr>" h' h] assms by (auto simp: typed_def view_def addr_ok_def)

lemma with_rtcp:
  assumes "typed h d" "addr_ok h' p" "\<forall>a\<in>#own (d\<lparr>rtcpaddr := None\<rparr>). h' a = h a"
  shows "typed h' (d\<lparr>rtcpaddr := p, isrtcpaddrset := True\<rparr>)"
    "view h' (d\<lparr>rtcpaddr := p, isrtcpaddrset := True\<rparr>) = (view h d)\<lparr>v_rtcp := addr_value h' p\<rparr>"
  using view_cong [of "d\<lparr>rtcpaddr := None\<rparr>" h' h] assms by (auto simp: typed_def view_def addr_ok_def)

lemma set_address_refused: "set_address alloc None h p = Inr (r, h', p') \<Longrightarrow> r = 0"
  by (auto simp: set_address_def bind_res_eq_Inr split: if_splits)

lemma own_rtp: "own (d\<lparr>rtpaddr := p, isrtpaddrset := b\<rparr>) = ptr_mset p + own (d\<lparr>rtpaddr := None\<rparr>)"
  "own d = ptr_mset (rtpaddr d) + own (d\<lparr>rtpaddr := None\<rparr>)"
  by (simp_all add: own_def ac_simps)

lemma own_rtcp: "own (d\<lparr>rtcpaddr := p, isrtcpaddrset := b\<rparr>) = ptr_mset p + own (d\<lparr>rtcpaddr := None\<rparr>)"
  "own d = ptr_mset (rtcpaddr d) + own (d\<lparr>rtcpaddr := None\<rparr>)"
  by (simp_all add: own_def ac_simps)

lemma Set_RTP_step:
  assumes "source_inv h d env" "alloc_fresh alloc" "op_ok E h env (Set_RTP q)"
  shows "\<exists>r out h' d' env'. source_step alloc (Set_RTP q) (h, d, env) = Inr ((r, out), h', d', env') \<and>
    step_ok E (Set_RTP q) h d env r out h' d' env'"
proof -
  have b: "balance h (ptr_mset (rtpaddr d) + (own (d\<lparr>rtpaddr := None\<rparr>) + env))" and ty: "typed h d"
    using assms(1) own_rtp(2) [of d] by (simp_all add: source_inv_def add.assoc)
  have "a \<in># own (d\<lparr>rtpaddr := None\<rparr>) + env \<and> h a = Some (Address (E a))" if "q = Some a" for a
    using that assms(3) by simp
  from set_address_run [where q = q and E = E, OF b assms(2) this] obtain r h' p' where
    s: "set_address alloc q h (rtpaddr d) = Inr (r, h', p')"
      "balance h' (ptr_mset p' + (own (d\<lparr>rtpaddr := None\<rparr>) + env))"
      "\<forall>a\<in>#own (d\<lparr>rtpaddr := None\<rparr>) + env. h' a = h a"
      "r = 0 \<and> addr_value h' p' = map_option E q \<and> addr_ok h' p' \<or> r = ERR_RTP_OUTOFMEM \<and> h' = h \<and> p' = rtpaddr d"
    by auto
  have f: "\<forall>a\<in>#own (d\<lparr>rtpaddr := None\<rparr>). h' a = h a" "\<forall>a\<in>#env. h' a = h a" using s(3) by (simp_all add: ball_Un)
  show ?thesis
  proof (cases "r = 0")
    case True
    then have t: "addr_ok h' p'" "addr_value h' p' = map_option E q" using s(4) by (auto simp: ERR_RTP_OUTOFMEM_def)
    show ?thesis using True s(1,2) f(2) t(2) assms(1) with_rtp [OF ty t(1) f(1)] own_rtp(1) [where d = d and p = p' and b = True]
      by (simp add: SetRTPDataAddress_def step_ok_def source_inv_def add.assoc)
  next
    case False
    then have "q \<noteq> None" "r = ERR_RTP_OUTOFMEM" "h' = h" using s(1,4) set_address_refused by fastforce+
    then show ?thesis using s(1) False step_same [OF assms(1), of "Set_RTP q" r E] by (simp add: SetRTPDataAddress_def)
  qed
qed

lemma Set_RTCP_step:
  assumes "source_inv h d env" "alloc_fresh alloc" "op_ok E h env (Set_RTCP q)"
  shows "\<exists>r out h' d' env'. source_step alloc (Set_RTCP q) (h, d, env) = Inr ((r, out), h', d', env') \<and>
    step_ok E (Set_RTCP q) h d env r out h' d' env'"
proof -
  have b: "balance h (ptr_mset (rtcpaddr d) + (own (d\<lparr>rtcpaddr := None\<rparr>) + env))" and ty: "typed h d"
    using assms(1) own_rtcp(2) [of d] by (simp_all add: source_inv_def add.assoc)
  have "a \<in># own (d\<lparr>rtcpaddr := None\<rparr>) + env \<and> h a = Some (Address (E a))" if "q = Some a" for a
    using that assms(3) by simp
  from set_address_run [where q = q and E = E, OF b assms(2) this] obtain r h' p' where
    s: "set_address alloc q h (rtcpaddr d) = Inr (r, h', p')"
      "balance h' (ptr_mset p' + (own (d\<lparr>rtcpaddr := None\<rparr>) + env))"
      "\<forall>a\<in>#own (d\<lparr>rtcpaddr := None\<rparr>) + env. h' a = h a"
      "r = 0 \<and> addr_value h' p' = map_option E q \<and> addr_ok h' p' \<or> r = ERR_RTP_OUTOFMEM \<and> h' = h \<and> p' = rtcpaddr d"
    by auto
  have f: "\<forall>a\<in>#own (d\<lparr>rtcpaddr := None\<rparr>). h' a = h a" "\<forall>a\<in>#env. h' a = h a" using s(3) by (simp_all add: ball_Un)
  show ?thesis
  proof (cases "r = 0")
    case True
    then have t: "addr_ok h' p'" "addr_value h' p' = map_option E q" using s(4) by (auto simp: ERR_RTP_OUTOFMEM_def)
    show ?thesis using True s(1,2) f(2) t(2) assms(1) with_rtcp [OF ty t(1) f(1)] own_rtcp(1) [where d = d and p = p' and b = True]
      by (simp add: SetRTCPDataAddress_def step_ok_def source_inv_def add.assoc)
  next
    case False
    then have "q \<noteq> None" "r = ERR_RTP_OUTOFMEM" "h' = h" using s(1,4) set_address_refused by fastforce+
    then show ?thesis using s(1) False step_same [OF assms(1), of "Set_RTCP q" r E] by (simp add: SetRTCPDataAddress_def)
  qed
qed

lemma delete_all_run:
  assumes "balance h (mset ps + M)"
  shows "\<exists>h'. fold_res (\<lambda>h p. RTPDelete h (Some p)) h ps = Inr h' \<and> balance h' M \<and> (\<forall>a\<in>#M. h' a = h a)"
  using assms
proof (induction ps arbitrary: h)
  case (Cons p ps)
  then have b: "balance h (add_mset p (mset ps + M))" by simp
  from Cons.IH [OF balance_delete(2) [OF b]] obtain h' where
    "fold_res (\<lambda>h p. RTPDelete h (Some p)) (h(p := None)) ps = Inr h'" "balance h' M"
    "\<forall>a\<in>#M. h' a = (h(p := None)) a" by blast
  then show ?case using balance_delete(1) [OF b] balance_once [OF b] by auto
qed simp

lemma own_packets: "own d = mset (packetlist d) + own (d\<lparr>packetlist := []\<rparr>)"
  by (simp add: own_def ac_simps)

lemma Flush_step:
  assumes "source_inv h d env"
  shows "\<exists>r out h' d' env'. source_step alloc Flush (h, d, env) = Inr ((r, out), h', d', env') \<and>
    step_ok E Flush h d env r out h' d' env'"
proof -
  have "balance h (mset (packetlist d) + (own (d\<lparr>packetlist := []\<rparr>) + env))"
    using assms own_packets [of d] by (simp add: source_inv_def add.assoc)
  from delete_all_run [OF this] obtain h' where
    h: "fold_res (\<lambda>h p. RTPDelete h (Some p)) h (packetlist d) = Inr h'"
      "balance h' (own (d\<lparr>packetlist := []\<rparr>) + env)" "\<forall>a\<in>#own (d\<lparr>packetlist := []\<rparr>) + env. h' a = h a" by blast
  have "typed h' (d\<lparr>packetlist := []\<rparr>)" "view h' (d\<lparr>packetlist := []\<rparr>) = (view h d)\<lparr>v_packets := []\<rparr>"
    using view_cong [of "d\<lparr>packetlist := []\<rparr>" h' h] h(3) assms
    by (auto simp: source_inv_def typed_def view_def)
  then show ?thesis using h assms by (simp add: FlushPackets_def step_ok_def source_inv_def)
qed

lemma Take_step:
  assumes "source_inv h d env"
  shows "\<exists>r out h' d' env'. source_step alloc Take (h, d, env) = Inr ((r, out), h', d', env') \<and>
    step_ok E Take h d env r out h' d' env'"
proof (cases "validated d \<and> packetlist d \<noteq> []")
  case True
  then obtain p ps where p: "packetlist d = p # ps" by (cases "packetlist d") auto
  have b: "balance h (own (d\<lparr>packetlist := ps\<rparr>) + add_mset p env)"
    using assms p by (simp add: source_inv_def own_def)
  obtain x where "h p = Some x" using balance_live [OF b, of p] by auto
  then show ?thesis using True p assms b
    by (auto simp: GetNextPacket_def deref_def step_ok_def source_inv_def typed_def view_def)
next
  case False
  then have "source_step alloc Take (h, d, env) = Inr ((0, None), h, d, env)"
    by (auto simp: GetNextPacket_def split: list.splits)
  then show ?thesis using False assms by (auto simp: step_ok_def view_def)
qed

lemma source_step_ok:
  assumes "source_inv h d env" "alloc_fresh alloc" "op_ok E h env op"
  shows "\<exists>r out h' d' env'. source_step alloc op (h, d, env) = Inr ((r, out), h', d', env') \<and>
    step_ok E op h d env r out h' d' env'"
  using Set_Item_step [OF assms(1,2)] Set_RTP_step [OF assms(1,2)] Set_RTCP_step [OF assms(1,2)]
    Flush_step [OF assms(1)] Take_step [OF assms(1)] assms(3) by (cases op) (simp_all del: source_step.simps)

section \<open>Sequences of operations\<close>

fun source_run :: "('a objs \<Rightarrow> ptr) \<Rightarrow> source_op list \<Rightarrow> 'a objs \<times> RTPSourceData \<times> nat multiset \<Rightarrow>
    ((int \<times> byte list option) list \<times> 'a objs \<times> RTPSourceData \<times> nat multiset) res" where
  "source_run alloc [] z = Inr ([], z)"
| "source_run alloc (op # ops) z =
    bind_res (source_step alloc op z) (\<lambda>(x, z). bind_res (source_run alloc ops z) (\<lambda>(xs, z). Inr (x # xs, z)))"

text \<open>The results are those of the specification, but for the operations that were refused.\<close>

fun agrees :: "(nat \<Rightarrow> 'a) \<Rightarrow> bool \<Rightarrow> source_op list \<Rightarrow> (int \<times> byte list option) list \<Rightarrow>
    'a source_view \<Rightarrow> 'a source_view \<Rightarrow> bool" where
  "agrees E valid [] [] v w = (v = w)"
| "agrees E valid (op # ops) ((r, out) # outs) v w =
    (if r = 0 then out = fst (spec_step E valid op v) \<and> agrees E valid ops outs (snd (spec_step E valid op v)) w
     else refused op r \<and> out = None \<and> agrees E valid ops outs v w)"
| "agrees E valid _ _ v w = False"

lemma refused_nonzero: "refused op r \<Longrightarrow> r \<noteq> 0"
  by (cases op) (auto simp: ERR_RTP_SDES_LENGTHTOOBIG_def ERR_RTP_OUTOFMEM_def split: if_splits)

lemma op_ok_mono: "op_ok E h env op \<Longrightarrow> env \<subseteq># env' \<Longrightarrow> \<forall>a\<in>#env. h' a = h a \<Longrightarrow> op_ok E h' env' op"
  by (cases "(E, h, env, op)" rule: op_ok.cases) (auto dest: mset_subset_eqD)

text \<open>
  C10: What an entry of the source table says and what it owns.  For any sequence of settings of SDES
  items and addresses, deliveries and discarding of packets, nothing undefined happens; the texts,
  addresses and packets are afterwards the ones that were set or are left, an operation that returns
  an error having changed nothing; and each object is still owned exactly once, so that nothing
  leaks and nothing is freed twice.  The caller passes addresses that are his own.
\<close>

theorem source_refines:
  assumes "source_inv h d env" "alloc_fresh alloc" "\<forall>op\<in>set ops. op_ok E h env op"
  shows "\<exists>outs h' d' env'. source_run alloc ops (h, d, env) = Inr (outs, h', d', env') \<and> source_inv h' d' env' \<and>
    agrees E (validated d) ops outs (view h d) (view h' d')"
  using assms(1,3)
proof (induction ops arbitrary: h d env)
  case (Cons op ops)
  from source_step_ok [OF Cons.prems(1) assms(2), of E op] Cons.prems(2) obtain r out h1 d1 env1 where
    s: "source_step alloc op (h, d, env) = Inr ((r, out), h1, d1, env1)" "step_ok E op h d env r out h1 d1 env1" by auto
  then have k: "source_inv h1 d1 env1" "env \<subseteq># env1" "\<forall>a\<in>#env. h1 a = h a" "validated d1 = validated d"
    by (simp_all add: step_ok_def)
  have "\<forall>op\<in>set ops. op_ok E h1 env1 op" using Cons.prems(2) op_ok_mono [OF _ k(2,3)] by simp
  from Cons.IH [OF k(1) this] obtain outs h' d' env' where
    "source_run alloc ops (h1, d1, env1) = Inr (outs, h', d', env')" "source_inv h' d' env'"
    "agrees E (validated d) ops outs (view h1 d1) (view h' d')" using k(4) by auto
  moreover have "r = 0 \<and> (out, view h1 d1) = spec_step E (validated d) op (view h d) \<or>
      r \<noteq> 0 \<and> refused op r \<and> out = None \<and> view h1 d1 = view h d"
    using s(2) refused_nonzero by (auto simp: step_ok_def)
  then have "r = 0 \<Longrightarrow> fst (spec_step E (validated d) op (view h d)) = out \<and>
      snd (spec_step E (validated d) op (view h d)) = view h1 d1"
    "r \<noteq> 0 \<Longrightarrow> refused op r \<and> out = None \<and> view h1 d1 = view h d" by (metis fst_conv snd_conv)+
  ultimately show ?case using s(1) by (cases "r = 0") (auto simp del: source_step.simps)
qed simp

definition sample_source :: RTPSourceData where
  "sample_source = \<lparr>packetlist = [1], sd_ssrc = 5, ownssrc = False, iscsrc = False, timestampunit = 0,
     receivedbye = False, validated = True, processedinrtcp = False, issender = True,
     SRinf = new_SenderReportInfo, SRprevinf = new_SenderReportInfo, RRinf = new_ReceiverReportInfo,
     RRprevinf = new_ReceiverReportInfo, sd_stats = new_RTPSourceStats, SDESinf = new_RTCPSDESInfo,
     isrtpaddrset = False, isrtcpaddrset = False, rtpaddr = None, rtcpaddr = None, byetime = 0\<rparr>"

definition sample_objs :: "nat objs" where
  "sample_objs = (\<lambda>_. None)(1 \<mapsto> Packet [7], 2 \<mapsto> Address 44)"

definition sample_alloc :: "nat objs \<Rightarrow> ptr" where
  "sample_alloc h = find (\<lambda>a. h a = None) [0..<10]"

lemma sample_inv: "source_inv sample_objs sample_source {#2#}"
proof -
  have "balance sample_objs {#1, 2#}" by (auto simp: balance_def sample_objs_def)
  moreover have "own sample_source = {#1#}"
    by (simp add: own_def sample_source_def own_items_def new_RTCPSDESInfo_def RTCP_SDES_NUMITEMS_NONPRIVATE_def
        new_SDESItem_def numeral_eq_Suc)
  moreover have "typed sample_objs sample_source"
    by (auto simp: typed_def sample_source_def new_RTCPSDESInfo_def new_SDESItem_def item_ok_def addr_ok_def sample_objs_def)
  ultimately show ?thesis
    by (simp add: source_inv_def sample_source_def new_RTCPSDESInfo_def add_mset_commute)
qed

lemma sample_alloc_fresh: "alloc_fresh sample_alloc"
  by (auto simp: alloc_fresh_def sample_alloc_def find_Some_iff)

theorem source_refines_witness:
  "\<exists>outs h' d' env'. source_run sample_alloc [Set_Item 0 [65, 66], Set_RTP (Some 2), Take, Set_RTP None, Flush]
      (sample_objs, sample_source, {#2#}) = Inr (outs, h', d', env') \<and> source_inv h' d' env' \<and>
    agrees (\<lambda>_. 44) True [Set_Item 0 [65, 66], Set_RTP (Some 2), Take, Set_RTP None, Flush] outs
      (view sample_objs sample_source) (view h' d')"
  using source_refines [OF sample_inv sample_alloc_fresh,
      of "[Set_Item 0 [65, 66], Set_RTP (Some 2), Take, Set_RTP None, Flush]" "\<lambda>_. 44"]
  by (simp add: RTCP_SDES_NUMITEMS_NONPRIVATE_def sample_objs_def sample_source_def del: source_run.simps agrees.simps)

text \<open>
  Setting the address to the one that the entry holds already loses an object: the entry takes a
  copy and keeps the old address alive, to which nothing points any more.
\<close>

theorem own_address_leaks:
  assumes "source_inv h d env" "alloc_fresh alloc" "rtpaddr d = Some a" "alloc h = Some n"
  shows "\<exists>h' d'. SetRTPDataAddress alloc (rtpaddr d) h d = Inr (0, h', d') \<and> h' a \<noteq> None \<and> a \<notin># own d' + env"
proof -
  have b: "balance h (add_mset a (own (d\<lparr>rtpaddr := None\<rparr>) + env))"
    using assms(1,3) own_rtp(2) [of d] by (simp add: source_inv_def)
  obtain x where x: "h a = Some x" using balance_live [OF b, of a] by auto
  have "n \<noteq> a" using alloc_freshD [OF assms(2,4)] x by auto
  then show ?thesis using assms(3,4) x balance_once [OF b] own_rtp(1) [where d = d and p = "Some n" and b = True]
    by (simp add: SetRTPDataAddress_def set_address_def deref_def)
qed

definition sample_source2 :: RTPSourceData where
  "sample_source2 = sample_source\<lparr>packetlist := [1], rtpaddr := Some 2\<rparr>"

theorem own_address_leaks_witness:
  "\<exists>h' d'. SetRTPDataAddress sample_alloc (Some 2) sample_objs sample_source2 = Inr (0, h', d') \<and>
    h' 2 \<noteq> None \<and> 2 \<notin># own d'"
proof -
  have "source_inv sample_objs sample_source2 {#}"
    using sample_inv
    by (simp add: sample_source2_def source_inv_def own_def typed_def addr_ok_def sample_objs_def sample_source_def
        add_mset_commute)
  moreover have "sample_alloc sample_objs = Some 0" by (simp add: sample_alloc_def sample_objs_def upt_rec)
  ultimately show ?thesis using own_address_leaks [OF _ sample_alloc_fresh, of sample_objs sample_source2 "{#}" 2 0]
    by (simp add: sample_source2_def)
qed

end
