(* ===== verification/JrtpPacket.thy ===== *)
theory JrtpPacket
  imports JrtpSourceRun
begin

text \<open>
  Smaller classes of jrtplib whose members the headers define: the addresses of IPv4
  (\<^verbatim>\<open>rtpipv4address.h\<close>, \<^verbatim>\<open>rtpipv4destination.h\<close>) with the hash functions of the tables that hold
  them, received data (\<^verbatim>\<open>rtprawpacket.h\<close>) and the settings of the packet builder
  (\<^verbatim>\<open>rtppacketbuilder.h\<close>).
\<close>

section \<open>Addresses\<close>

record RTPIPv4Address =
  ip4_ip :: u32
  ip4_port :: u16
  ip4_rtcpsendport :: u16

text \<open>The address of four bytes, the first of which is the most significant.\<close>

definition ip_of_bytes :: "byte list \<Rightarrow> u32 res" where
  "ip_of_bytes ip =
    bind_res (rd ip 3) (\<lambda>b3. bind_res (rd ip 2) (\<lambda>b2. bind_res (rd ip 1) (\<lambda>b1. bind_res (rd ip 0) (\<lambda>b0.
    let x = ucast b3;
        x = x OR push_bit 8 (ucast b2);
        x = x OR push_bit 16 (ucast b1);
        x = x OR push_bit 24 (ucast b0)
    in Inr x))))"

definition RTPIPv4Address_mux :: "u32 \<Rightarrow> u16 \<Rightarrow> bool \<Rightarrow> RTPIPv4Address" where
  "RTPIPv4Address_mux ip port rtcpmux =
    \<lparr>ip4_ip = ip, ip4_port = port, ip4_rtcpsendport = (if rtcpmux then port else port + 1)\<rparr>"

definition RTPIPv4Address_ports :: "u32 \<Rightarrow> u16 \<Rightarrow> u16 \<Rightarrow> RTPIPv4Address" where
  "RTPIPv4Address_ports ip port rtcpsendport =
    \<lparr>ip4_ip = ip, ip4_port = port, ip4_rtcpsendport = rtcpsendport\<rparr>"

definition RTPIPv4Address_bytes_mux :: "byte list \<Rightarrow> u16 \<Rightarrow> bool \<Rightarrow> RTPIPv4Address res" where
  "RTPIPv4Address_bytes_mux ip port rtcpmux =
    bind_res (ip_of_bytes ip) (\<lambda>ip.
    Inr \<lparr>ip4_ip = ip, ip4_port = port, ip4_rtcpsendport = (if rtcpmux then port else port + 1)\<rparr>)"

definition RTPIPv4Address_bytes_ports :: "byte list \<Rightarrow> u16 \<Rightarrow> u16 \<Rightarrow> RTPIPv4Address res" where
  "RTPIPv4Address_bytes_ports ip port rtcpsendport =
    bind_res (ip_of_bytes ip) (\<lambda>ip.
    Inr \<lparr>ip4_ip = ip, ip4_port = port, ip4_rtcpsendport = rtcpsendport\<rparr>)"

definition SetIP :: "u32 \<Rightarrow> RTPIPv4Address \<Rightarrow> RTPIPv4Address" where "SetIP ip a = a\<lparr>ip4_ip := ip\<rparr>"
definition SetIP_bytes :: "byte list \<Rightarrow> RTPIPv4Address \<Rightarrow> RTPIPv4Address res" where
  "SetIP_bytes ip a = bind_res (ip_of_bytes ip) (\<lambda>ip. Inr (a\<lparr>ip4_ip := ip\<rparr>))"
definition SetPort :: "u16 \<Rightarrow> RTPIPv4Address \<Rightarrow> RTPIPv4Address" where "SetPort port a = a\<lparr>ip4_port := port\<rparr>"

datatype RTPAddress =
    IPv4Address RTPIPv4Address
  | IPv6Address
  | ByteAddress
  | UserDefinedAddress
  | TCPAddress int

text \<open>The byte orders of the socket functions, on a little-endian machine.\<close>

definition htons :: "u16 \<Rightarrow> u16" where
  "htons x = of_be16 (lo16 x) (hi16 x)"

definition htonl :: "u32 \<Rightarrow> u32" where
  "htonl x = of_be32 (lo16 (lo32 x)) (hi16 (lo32 x)) (lo16 (hi32 x)) (hi16 (hi32 x))"

record sockaddr_in =
  sin_family :: u16
  sin_port :: u16
  s_addr :: u32

definition AF_INET :: u16 where "AF_INET = 2"

record RTPIPv4Destination =
  d4_ip :: u32
  d4_rtpaddr :: sockaddr_in
  d4_rtcpaddr :: sockaddr_in

definition zero_sockaddr :: sockaddr_in where
  "zero_sockaddr = \<lparr>sin_family = 0, sin_port = 0, s_addr = 0\<rparr>"

definition RTPIPv4Destination_zero :: RTPIPv4Destination where
  "RTPIPv4Destination_zero = \<lparr>d4_ip = 0, d4_rtpaddr = zero_sockaddr, d4_rtcpaddr = zero_sockaddr\<rparr>"

definition RTPIPv4Destination_new :: "u32 \<Rightarrow> u16 \<Rightarrow> u16 \<Rightarrow> RTPIPv4Destination" where
  "RTPIPv4Destination_new ip rtpport rtcpport =
    \<lparr>d4_ip = ip,
     d4_rtpaddr = \<lparr>sin_family = AF_INET, sin_port = htons rtpport, s_addr = htonl ip\<rparr>,
     d4_rtcpaddr = \<lparr>sin_family = AF_INET, sin_port = htons rtcpport, s_addr = htonl ip\<rparr>\<rparr>"

definition destination_eq :: "RTPIPv4Destination \<Rightarrow> RTPIPv4Destination \<Rightarrow> bool" where
  "destination_eq d src \<longleftrightarrow>
    (if s_addr (d4_rtpaddr d) = s_addr (d4_rtpaddr src) \<and> sin_port (d4_rtpaddr d) = sin_port (d4_rtpaddr src)
     then True else False)"

text \<open>\<open>None\<close> when the address is of another kind; then \<^verbatim>\<open>dest\<close> is left alone.\<close>

definition AddressToDestination :: "RTPAddress \<Rightarrow> RTPIPv4Destination option" where
  "AddressToDestination addr =
    (case addr of
       IPv4Address a \<Rightarrow> Some (RTPIPv4Destination_new (ip4_ip a) (ip4_port a) (ip4_rtcpsendport a))
     | _ \<Rightarrow> None)"

definition RTPUDPV4TRANS_HASHSIZE :: nat where "RTPUDPV4TRANS_HASHSIZE = 8317"

text \<open>\<^verbatim>\<open>GetIndex\<close> of the tables: an \<^verbatim>\<open>int\<close>.\<close>

definition destination_index :: "RTPIPv4Destination \<Rightarrow> int" where
  "destination_index d = uint (d4_ip d mod word_of_nat RTPUDPV4TRANS_HASHSIZE)"

definition ip_index :: "u32 \<Rightarrow> int" where
  "ip_index k = uint (k mod word_of_nat RTPUDPV4TRANS_HASHSIZE)"

lemma word_mod_index: "0 \<le> uint (k mod 8317) \<and> uint (k mod 8317) < 8317" for k :: u32
  using uint_mod_distrib [of k 8317] by simp

text \<open>The hash functions stay inside the tables, which is what the operations of the tables need.\<close>

lemma indices_in_table:
  "0 \<le> destination_index d" "destination_index d < int RTPUDPV4TRANS_HASHSIZE"
  "0 \<le> ip_index k" "ip_index k < int RTPUDPV4TRANS_HASHSIZE"
  using word_mod_index [of "d4_ip d"] word_mod_index [of k]
  by (simp_all add: destination_index_def ip_index_def RTPUDPV4TRANS_HASHSIZE_def)

lemma htons_htons [simp]: "htons (htons x) = x"
  by (simp add: htons_def)

lemma halves_of_be32: "hi32 (of_be32 a b c d) = of_be16 a b" "lo32 (of_be32 a b c d) = of_be16 c d"
  by (rule bit_word_eqI;
      auto simp: of_be32_def of_be16_def hi32_def lo32_def bit_or_iff bit_push_bit_iff bit_ucast_iff
        bit_drop_bit_eq dest: bit_imp_le_length)+

lemma htonl_htonl [simp]: "htonl (htonl x) = x"
  by (simp add: htonl_def halves_of_be32)

lemma htons_inj [simp]: "htons x = htons y \<longleftrightarrow> x = y"
  using htons_htons by metis

lemma htonl_inj [simp]: "htonl x = htonl y \<longleftrightarrow> x = y"
  using htonl_htonl by metis

text \<open>
  Two destinations are equal when address and RTP port are; the port for RTCP does not count, so a
  table cannot hold two destinations that differ in it only.
\<close>

lemma destination_eq_new [simp]:
  "destination_eq (RTPIPv4Destination_new ip p q) (RTPIPv4Destination_new ip' p' q') \<longleftrightarrow> ip = ip' \<and> p = p'"
  by (auto simp: destination_eq_def RTPIPv4Destination_new_def)

text \<open>Equal destinations have the same index, as a hash table needs.\<close>

lemma destination_eq_index:
  "destination_eq (RTPIPv4Destination_new ip p q) (RTPIPv4Destination_new ip' p' q') \<Longrightarrow>
    destination_index (RTPIPv4Destination_new ip p q) = destination_index (RTPIPv4Destination_new ip' p' q')"
  unfolding destination_eq_new by (simp add: destination_index_def RTPIPv4Destination_new_def)

lemma ip_of_bytes_be32: "ip_of_bytes (be32 ip) = Inr ip"
proof -
  have "of_be32 b0 b1 b2 b3 = ucast b3 OR push_bit 8 (ucast b2) OR push_bit 16 (ucast b1) OR push_bit 24 (ucast b0)"
    for b0 b1 b2 b3 by (simp add: of_be32_def or.commute or.left_commute or.assoc)
  from this [symmetric, of "lo16 (lo32 ip)" "hi16 (lo32 ip)" "lo16 (hi32 ip)" "hi16 (hi32 ip)"] show ?thesis
    by (simp add: ip_of_bytes_def rd_def be32_def be16_def Let_def or.assoc wire_simps)
qed

section \<open>Received data\<close>

text \<open>A packet as the transmitter hands it on: it owns its bytes and the sender's address.\<close>

record RTPRawPacket =
  packetdata :: ptr
  packetdatalength :: nat
  raw_receivetime :: RTPTime
  senderaddress :: ptr
  isrtp :: bool

definition RTPRawPacket_new :: "ptr \<Rightarrow> nat \<Rightarrow> ptr \<Rightarrow> RTPTime \<Rightarrow> bool \<Rightarrow> RTPRawPacket" where
  "RTPRawPacket_new data datalen address recvtime rtp =
    \<lparr>packetdata = data, packetdatalength = datalen, raw_receivetime = recvtime, senderaddress = address, isrtp = rtp\<rparr>"

definition raw_ZeroData :: "RTPRawPacket \<Rightarrow> RTPRawPacket" where
  "raw_ZeroData p = p\<lparr>packetdata := None, packetdatalength := 0\<rparr>"

definition raw_DeleteData :: "'a objs \<Rightarrow> RTPRawPacket \<Rightarrow> ('a objs \<times> RTPRawPacket) res" where
  "raw_DeleteData h p =
    bind_res (delete_opt h (packetdata p)) (\<lambda>h.
    bind_res (delete_opt h (senderaddress p)) (\<lambda>h.
    Inr (h, p\<lparr>packetdata := None, senderaddress := None\<rparr>)))"

definition raw_SetData :: "ptr \<Rightarrow> nat \<Rightarrow> 'a objs \<Rightarrow> RTPRawPacket \<Rightarrow> ('a objs \<times> RTPRawPacket) res" where
  "raw_SetData data datalen h p =
    bind_res (delete_opt h (packetdata p)) (\<lambda>h.
    Inr (h, p\<lparr>packetdata := data, packetdatalength := datalen\<rparr>))"

definition raw_SetSenderAddress :: "ptr \<Rightarrow> 'a objs \<Rightarrow> RTPRawPacket \<Rightarrow> ('a objs \<times> RTPRawPacket) res" where
  "raw_SetSenderAddress address h p =
    bind_res (delete_opt h (senderaddress p)) (\<lambda>h. Inr (h, p\<lparr>senderaddress := address\<rparr>))"

definition raw_AllocateBytes :: "('a objs \<Rightarrow> ptr) \<Rightarrow> byte list \<Rightarrow> nat \<Rightarrow> 'a objs \<Rightarrow> ptr \<times> 'a objs" where
  "raw_AllocateBytes alloc junk recvlen h =
    (case alloc h of None \<Rightarrow> (None, h) | Some a \<Rightarrow> (Some a, h(a \<mapsto> Bytes (take recvlen junk))))"

text \<open>What the packet owns, and that its operations keep the balance.\<close>

definition raw_own :: "RTPRawPacket \<Rightarrow> nat multiset" where
  "raw_own p = ptr_mset (packetdata p) + ptr_mset (senderaddress p)"

lemma raw_DeleteData_run:
  assumes "balance h (raw_own p + M)"
  shows "\<exists>h' p'. raw_DeleteData h p = Inr (h', p') \<and> balance h' M \<and> raw_own p' = {#} \<and> (\<forall>a\<in>#M. h' a = h a)"
proof -
  from assms have "balance h (ptr_mset (packetdata p) + (ptr_mset (senderaddress p) + M))"
    by (simp add: raw_own_def ac_simps)
  from release_run [OF this] obtain h1 where h1: "delete_opt h (packetdata p) = Inr h1"
    "balance h1 (ptr_mset (senderaddress p) + M)" "\<forall>a\<in>#ptr_mset (senderaddress p) + M. h1 a = h a" by auto
  from release_run [OF h1(2)] obtain h2 where "delete_opt h1 (senderaddress p) = Inr h2" "balance h2 M"
    "\<forall>a\<in>#M. h2 a = h1 a" by auto
  then show ?thesis using h1 by (auto simp: raw_DeleteData_def raw_own_def)
qed

lemma raw_SetData_run:
  assumes "balance h (raw_own p + ptr_mset data + M)"
  shows "\<exists>h' p'. raw_SetData data n h p = Inr (h', p') \<and> balance h' (raw_own p' + M) \<and>
    packetdata p' = data \<and> senderaddress p' = senderaddress p"
proof -
  have "balance h (ptr_mset (packetdata p) + (ptr_mset (senderaddress p) + ptr_mset data + M))"
    using assms by (simp add: raw_own_def ac_simps)
  from release_run [OF this] obtain h' where "delete_opt h (packetdata p) = Inr h'"
    "balance h' (ptr_mset (senderaddress p) + ptr_mset data + M)" by auto
  then show ?thesis
    by (simp add: raw_SetData_def raw_own_def add.commute [of "ptr_mset (senderaddress p)"])
qed

lemma raw_SetSenderAddress_run:
  assumes "balance h (raw_own p + ptr_mset a + M)"
  shows "\<exists>h' p'. raw_SetSenderAddress a h p = Inr (h', p') \<and> balance h' (raw_own p' + M) \<and> senderaddress p' = a"
proof -
  have "balance h (ptr_mset (senderaddress p) + (ptr_mset (packetdata p) + ptr_mset a + M))"
    using assms by (simp add: raw_own_def ac_simps)
  from release_run [OF this] obtain h' where "delete_opt h (senderaddress p) = Inr h'"
    "balance h' (ptr_mset (packetdata p) + ptr_mset a + M)" by auto
  then show ?thesis by (simp add: raw_SetSenderAddress_def raw_own_def)
qed

text \<open>Setting the data to what it is frees it, and the packet then frees it again.\<close>

lemma raw_SetData_same:
  assumes "packetdata p = Some a" "h a \<noteq> None"
  shows "bind_res (raw_SetData (packetdata p) n h p) (\<lambda>(h, p). raw_DeleteData h p) = Inl Dangling"
  using assms by (simp add: raw_SetData_def raw_DeleteData_def delete_opt_def RTPDelete_def)

section \<open>The settings of the packet builder\<close>

definition ERR_RTP_PACKBUILD_NOTINIT :: int where "ERR_RTP_PACKBUILD_NOTINIT = - 20"
definition ERR_RTP_PACKBUILD_DEFAULTTSINCNOTSET :: int where "ERR_RTP_PACKBUILD_DEFAULTTSINCNOTSET = - 18"

text \<open>All members but the reference to the random numbers, which none of these operations uses.\<close>

record RTPPacketBuilder =
  pb_maxpacksize :: nat
  pb_buffer :: "byte list"
  pb_packetlength :: nat
  pb_numpayloadbytes :: u32
  pb_numpackets :: u32
  pb_init :: bool
  pb_ssrc :: u32
  pb_timestamp :: u32
  pb_seqnr :: u16
  pb_defaulttimestampinc :: u32
  pb_defaultpayloadtype :: byte
  pb_defaultmark :: bool
  pb_deftsset :: bool
  pb_defptset :: bool
  pb_defmarkset :: bool
  pb_csrcs :: "u32 list"
  pb_numcsrcs :: int
  pb_lastwallclocktime :: RTPTime
  pb_lastrtptimestamp :: u32
  pb_prevrtptimestamp :: u32

definition GetPacketCount :: "RTPPacketBuilder \<Rightarrow> u32" where
  "GetPacketCount b = (if \<not> pb_init b then 0 else pb_numpackets b)"
definition GetPayloadOctetCount :: "RTPPacketBuilder \<Rightarrow> u32" where
  "GetPayloadOctetCount b = (if \<not> pb_init b then 0 else pb_numpayloadbytes b)"
definition GetPacket :: "RTPPacketBuilder \<Rightarrow> byte list option" where
  "GetPacket b = (if \<not> pb_init b then None else Some (pb_buffer b))"
definition GetPacketLength :: "RTPPacketBuilder \<Rightarrow> nat" where
  "GetPacketLength b = (if \<not> pb_init b then 0 else pb_packetlength b)"
definition builder_GetSSRC :: "RTPPacketBuilder \<Rightarrow> u32" where
  "builder_GetSSRC b = (if \<not> pb_init b then 0 else pb_ssrc b)"
definition GetTimestamp :: "RTPPacketBuilder \<Rightarrow> u32" where
  "GetTimestamp b = (if \<not> pb_init b then 0 else pb_timestamp b)"
definition GetSequenceNumber :: "RTPPacketBuilder \<Rightarrow> u16" where
  "GetSequenceNumber b = (if \<not> pb_init b then 0 else pb_seqnr b)"
definition GetPacketTime :: "RTPPacketBuilder \<Rightarrow> RTPTime" where
  "GetPacketTime b = (if \<not> pb_init b then 0 else pb_lastwallclocktime b)"
definition GetPacketTimestamp :: "RTPPacketBuilder \<Rightarrow> u32" where
  "GetPacketTimestamp b = (if \<not> pb_init b then 0 else pb_lastrtptimestamp b)"
definition AdjustSSRC :: "u32 \<Rightarrow> RTPPacketBuilder \<Rightarrow> RTPPacketBuilder" where
  "AdjustSSRC s b = b\<lparr>pb_ssrc := s\<rparr>"

definition SetDefaultPayloadType :: "byte \<Rightarrow> RTPPacketBuilder \<Rightarrow> int \<times> RTPPacketBuilder" where
  "SetDefaultPayloadType pt b =
    (if \<not> pb_init b then (ERR_RTP_PACKBUILD_NOTINIT, b)
     else (0, b\<lparr>pb_defptset := True, pb_defaultpayloadtype := pt\<rparr>))"

definition SetDefaultMark :: "bool \<Rightarrow> RTPPacketBuilder \<Rightarrow> int \<times> RTPPacketBuilder" where
  "SetDefaultMark m b =
    (if \<not> pb_init b then (ERR_RTP_PACKBUILD_NOTINIT, b)
     else (0, b\<lparr>pb_defmarkset := True, pb_defaultmark := m\<rparr>))"

definition SetDefaultTimestampIncrement :: "u32 \<Rightarrow> RTPPacketBuilder \<Rightarrow> int \<times> RTPPacketBuilder" where
  "SetDefaultTimestampIncrement timestampinc b =
    (if \<not> pb_init b then (ERR_RTP_PACKBUILD_NOTINIT, b)
     else (0, b\<lparr>pb_deftsset := True, pb_defaulttimestampinc := timestampinc\<rparr>))"

definition IncrementTimestamp :: "u32 \<Rightarrow> RTPPacketBuilder \<Rightarrow> int \<times> RTPPacketBuilder" where
  "IncrementTimestamp inc b =
    (if \<not> pb_init b then (ERR_RTP_PACKBUILD_NOTINIT, b)
     else (0, b\<lparr>pb_timestamp := pb_timestamp b + inc\<rparr>))"

definition IncrementTimestampDefault :: "RTPPacketBuilder \<Rightarrow> int \<times> RTPPacketBuilder" where
  "IncrementTimestampDefault b =
    (if \<not> pb_init b then (ERR_RTP_PACKBUILD_NOTINIT, b)
     else if \<not> pb_deftsset b then (ERR_RTP_PACKBUILD_DEFAULTTSINCNOTSET, b)
     else (0, b\<lparr>pb_timestamp := pb_timestamp b + pb_defaulttimestampinc b\<rparr>))"

text \<open>Skipping \<open>n\<close> silent intervals of the default length moves the timestamp by their sum, modulo \<open>2 ^ 32\<close>.\<close>

lemma IncrementTimestampDefault_pow:
  assumes "pb_init b"
  shows "((snd \<circ> IncrementTimestampDefault) ^^ n) (snd (SetDefaultTimestampIncrement inc b)) =
    (snd (SetDefaultTimestampIncrement inc b))\<lparr>pb_timestamp := pb_timestamp b + of_nat n * inc\<rparr>"
  using assms
  by (induction n) (simp_all add: IncrementTimestampDefault_def SetDefaultTimestampIncrement_def algebra_simps)

text \<open>A setting that is refused changes nothing.\<close>

lemma builder_refused:
  "fst (SetDefaultPayloadType pt b) \<noteq> 0 \<Longrightarrow> snd (SetDefaultPayloadType pt b) = b"
  "fst (SetDefaultMark m b) \<noteq> 0 \<Longrightarrow> snd (SetDefaultMark m b) = b"
  "fst (SetDefaultTimestampIncrement i b) \<noteq> 0 \<Longrightarrow> snd (SetDefaultTimestampIncrement i b) = b"
  "fst (IncrementTimestamp i b) \<noteq> 0 \<Longrightarrow> snd (IncrementTimestamp i b) = b"
  "fst (IncrementTimestampDefault b) \<noteq> 0 \<Longrightarrow> snd (IncrementTimestampDefault b) = b"
  by (auto simp: SetDefaultPayloadType_def SetDefaultMark_def SetDefaultTimestampIncrement_def
      IncrementTimestamp_def IncrementTimestampDefault_def)

end
