(* ===== verification/RtcpDelay.thy ===== *)
theory RtcpDelay
  imports Rtcp
begin

text \<open>
  The delay since the last sender report that the client of \<^verbatim>\<open>h264dec\<close> puts into its receiver
  reports: \<^verbatim>\<open>rtcp_dlsr\<close> computes it in \<^verbatim>\<open>double\<close> from two readings of the clock.  It is accurate to
  its unit, 1/65536 second, and it is undefined when the clock is set back in between.
\<close>

definition elapsed :: "timeval \<Rightarrow> timeval \<Rightarrow> int" where
  "elapsed now sr = (tv_sec now - tv_sec sr) * 1000000 + (tv_usec now - tv_usec sr)"

definition tv_ok :: "timeval \<Rightarrow> bool" where
  "tv_ok t \<longleftrightarrow> 0 \<le> tv_usec t \<and> tv_usec t < 1000000"

lemma sr_delay_near:
  assumes "tv_ok now" "tv_ok sr" "\<bar>elapsed now sr\<bar> < 2 ^ 16 * 1000000"
  shows "\<bar>sr_delay now sr - of_int (elapsed now sr) / 1000000 * 65536\<bar> \<le> 96 / 10 ^ 8"
proof -
  let ?s = "tv_sec now - tv_sec sr" and ?u = "tv_usec now - tv_usec sr"
  let ?a = "fl (lit_1e_6 * of_int ?u)" and ?e = "rat_of_int (elapsed now sr) / 1000000"
  have u: "\<bar>?u\<bar> < 1000000" using assms(1,2) by (simp add: tv_ok_def abs_less_iff)
  then have s: "\<bar>?s\<bar> \<le> 2 ^ 16" using assms(3) by (simp add: elapsed_def abs_less_iff abs_le_iff)
  have f: "fl (of_int ?s) = of_int ?s" "fl (of_int ?u) = of_int ?u" 
    by (rule fl_of_int, rule order_le_less_trans [OF s], simp)
      (rule fl_of_int, rule order_less_trans [OF u], simp)
  have a: "\<bar>?a - of_int ?u / 1000000\<bar> \<le> 1 / 10 ^ 15" by (rule scaled_1e_6 [OF u])
  have e: "?e = of_int ?s + of_int ?u / 1000000" by (simp add: elapsed_def add_divide_distrib)
  have x: "\<bar>(of_int ?s + ?a) - ?e\<bar> \<le> 1 / 10 ^ 15" unfolding e using a by (simp only: add_diff_cancel_left)
  have "rat_of_int \<bar>elapsed now sr\<bar> < of_int (2 ^ 16 * 1000000)"
    using assms(3) by (simp only: of_int_less_iff)
  then have b: "\<bar>?e - 0\<bar> \<le> 2 ^ 16" by simp
  have "\<bar>of_int ?s + ?a - 0\<bar> \<le> 2 ^ 16 + 1" by (rule near_trans [OF x b]) simp
  then have "\<bar>of_int ?s + ?a\<bar> < 2 powi 17" by (simp add: power_int_def)
  from fl_error_below [OF this] have "\<bar>fl (of_int ?s + ?a) - (of_int ?s + ?a)\<bar> \<le> 1 / 2 ^ 37"
    by (simp add: power_int_def field_simps)
  then have d: "\<bar>fl (of_int ?s + ?a) - ?e\<bar> \<le> 73 / 10 ^ 13"
    using x by (rule near_trans) simp
  have "\<bar>fl (of_int ?s + ?a) - 0\<bar> \<le> 2 ^ 16 + 1" by (rule near_trans [OF d b]) simp
  then have "\<bar>fl (of_int ?s + ?a) * 65536\<bar> < 2 powi 33" by (simp add: power_int_def abs_mult)
  from fl_error_below [OF this] have "\<bar>sr_delay now sr - fl (of_int ?s + ?a) * 65536\<bar> \<le> 1 / 2 ^ 21"
    unfolding sr_delay_def f by (simp add: power_int_def field_simps)
  moreover have "fl (of_int ?s + ?a) * 65536 - ?e * 65536 = (fl (of_int ?s + ?a) - ?e) * 65536"
    by (simp only: left_diff_distrib)
  then have "\<bar>fl (of_int ?s + ?a) * 65536 - ?e * 65536\<bar> \<le> 73 / 10 ^ 13 * 65536"
    using d by (simp only: abs_mult abs_numeral mult_right_mono zero_le_numeral)
  ultimately show ?thesis by (rule near_trans) simp
qed

lemma small_multiple: "- 1000000 < k * 1000000 \<Longrightarrow> k * 1000000 < 1000000 \<Longrightarrow> k = 0" for k :: int
  by linarith

lemma sr_delay_nonneg:
  assumes "tv_ok now" "tv_ok sr" "0 \<le> elapsed now sr" "elapsed now sr < 2 ^ 16 * 1000000"
  shows "0 \<le> sr_delay now sr"
proof (cases "elapsed now sr = 0")
  case True
  then have d: "(tv_sec now - tv_sec sr) * 1000000 = tv_usec sr - tv_usec now" by (simp add: elapsed_def)
  have "- 1000000 < tv_usec sr - tv_usec now" "tv_usec sr - tv_usec now < 1000000"
    using assms(1,2) by (simp_all add: tv_ok_def)
  then have "tv_sec now - tv_sec sr = 0" unfolding d [symmetric] by (rule small_multiple)
  then have "tv_sec now = tv_sec sr" "tv_usec now = tv_usec sr" using d by simp_all
  then show ?thesis by (simp add: sr_delay_def)
next
  case False
  then have e: "rat_of_int 1 \<le> of_int (elapsed now sr)" using assms(3) unfolding of_int_le_iff by simp
  have "\<bar>sr_delay now sr - of_int (elapsed now sr) / 1000000 * 65536\<bar> \<le> 96 / 10 ^ 8"
    using assms by (intro sr_delay_near) auto
  then show ?thesis by (rule near_ge) (use e in \<open>simp del: of_int_1_le_iff\<close>)
qed

text \<open>
  C40: The delay in a receiver report is right: when less than 18 hours have passed since the last
  sender report, and the clock has not been set back, the client computes the elapsed time in
  units of 1/65536 second, rounded down, or one less when the time is a whole number of units.
\<close>

theorem rtcp_dlsr_accurate:
  assumes "last_rcv_SR_ts st \<noteq> 0" "tv_ok now" "tv_ok (last_rcv_SR_time st)"
    "0 \<le> elapsed now (last_rcv_SR_time st)" "elapsed now (last_rcv_SR_time st) < 2 ^ 16 * 1000000"
  shows "\<exists>d. rtcp_dlsr now st = Inr (d, st\<lparr>delay_snc_last_SR := d\<rparr>) \<and>
    uint d * 1000000 \<le> elapsed now (last_rcv_SR_time st) * 65536 \<and>
    elapsed now (last_rcv_SR_time st) * 65536 \<le> (uint d + 1) * 1000000"
proof -
  let ?y = "sr_delay now (last_rcv_SR_time st)" and ?D = "elapsed now (last_rcv_SR_time st)"
  have n: "\<bar>?y - of_int ?D / 1000000 * 65536\<bar> \<le> 96 / 10 ^ 8" using assms by (intro sr_delay_near) auto
  have y: "0 \<le> ?y" using assms by (intro sr_delay_nonneg)
  have "rat_of_int ?D \<le> of_int (2 ^ 16 * 1000000 - 1)" using assms(5) by (simp only: of_int_le_iff)
  then have "?y < 2 ^ 32" by (intro near_less [OF n]) simp
  then have f: "0 \<le> \<lfloor>?y\<rfloor>" "\<lfloor>?y\<rfloor> < 2 ^ 32" using y by (simp_all add: floor_less_iff)
  have e: "\<bar>of_int \<lfloor>?y\<rfloor> + 1 / 2 - rat_of_int ?D / 1000000 * 65536\<bar> \<le> 1 / 2 + 96 / 10 ^ 8"
    by (rule near_trans [OF floor_near n]) simp
  have "rat_of_int (\<lfloor>?y\<rfloor> * 1000000) < of_int (?D * 65536 + 1)"
    "rat_of_int (?D * 65536) < of_int ((\<lfloor>?y\<rfloor> + 1) * 1000000 + 1)"
    using near_ge [OF e order_refl] near_le [OF e order_refl] by (simp_all add: field_simps)
  then have "\<lfloor>?y\<rfloor> * 1000000 \<le> ?D * 65536" "?D * 65536 \<le> (\<lfloor>?y\<rfloor> + 1) * 1000000"
    unfolding of_int_less_iff by linarith+
  then show ?thesis using assms(1) to_u32_floor [OF y f(2)] uint_of_int32 [OF f]
    by (intro exI [of _ "word_of_int \<lfloor>?y\<rfloor>"]) (simp add: rtcp_dlsr_def)
qed

theorem rtcp_dlsr_accurate_witness:
  "\<exists>d. rtcp_dlsr \<lparr>tv_sec = 107, tv_usec = 250000\<rparr>
      (rtp_stats_reset\<lparr>last_rcv_SR_ts := 9, last_rcv_SR_time := \<lparr>tv_sec = 100, tv_usec = 750000\<rparr>\<rparr>) = Inr d \<and>
    uint (fst d) * 1000000 \<le> 6500000 * 65536 \<and> 6500000 * 65536 \<le> (uint (fst d) + 1) * 1000000"
  using rtcp_dlsr_accurate [of "rtp_stats_reset\<lparr>last_rcv_SR_ts := 9,
      last_rcv_SR_time := \<lparr>tv_sec = 100, tv_usec = 750000\<rparr>\<rparr>" "\<lparr>tv_sec = 107, tv_usec = 250000\<rparr>"]
  by (auto simp: tv_ok_def elapsed_def)

text \<open>When the clock has been set back by 16 microseconds or more, the conversion is undefined.\<close>

lemma rtcp_dlsr_backwards:
  assumes "last_rcv_SR_ts st \<noteq> 0" "tv_ok now" "tv_ok (last_rcv_SR_time st)"
    "elapsed now (last_rcv_SR_time st) \<le> - 16" "- (2 ^ 16 * 1000000) < elapsed now (last_rcv_SR_time st)"
  shows "rtcp_dlsr now st = Inl Float_Range"
proof -
  let ?y = "sr_delay now (last_rcv_SR_time st)" and ?D = "elapsed now (last_rcv_SR_time st)"
  have n: "\<bar>?y - of_int ?D / 1000000 * 65536\<bar> \<le> 96 / 10 ^ 8" using assms by (intro sr_delay_near) auto
  have "rat_of_int ?D \<le> of_int (- 16)" using assms(4) by (simp only: of_int_le_iff)
  then have "?y \<le> - 1" by (intro near_le [OF n]) simp
  then have "\<not> 0 \<le> ?y" "\<lceil>?y\<rceil> < 0" by (linarith, simp add: ceiling_less_iff)
  then have "cut ?y < 0" unfolding cut_def by (simp only: if_False)
  then show ?thesis using assms(1) by (simp add: rtcp_dlsr_def to_u32_def)
qed

lemma compute_rtt_zero:
  "compute_rtt now st = Inr st' \<Longrightarrow> rtt_frac st = 0 \<Longrightarrow> st' = st"
  by (auto simp: compute_rtt_def bind_res_eq_Inr Let_def split: if_splits)

end
