(* ===== verification/Person.thy ===== *)
theory Person
  imports Prelude
begin

text \<open>
  \<^verbatim>\<open>cpp_interface\<close>: a class whose data lies behind a shared pointer.  The heap is the list of the
  implementation objects, a \<^verbatim>\<open>Person\<close> the address of one; the demonstration never changes an object
  and ends before any is released.
\<close>

record PersonImpl =
  theName :: string
  theBirthDate :: string
  theAddress :: string

definition new_PersonImpl :: "string \<Rightarrow> string \<Rightarrow> string \<Rightarrow> PersonImpl" where
  "new_PersonImpl nm birthday addr = \<lparr>theName = nm, theBirthDate = birthday, theAddress = addr\<rparr>"

record Person =
  pImpl :: nat

definition new_Person :: "string \<Rightarrow> string \<Rightarrow> string \<Rightarrow> PersonImpl list \<Rightarrow> Person \<times> PersonImpl list" where
  "new_Person nm birthday addr heap =
     (\<lparr>pImpl = length heap\<rparr>, heap @ [new_PersonImpl nm birthday addr])"

definition person_name :: "Person \<Rightarrow> PersonImpl list \<Rightarrow> string res" where
  "person_name p heap = bind_res (rd heap (pImpl p)) (\<lambda>i. Inr (theName i))"

definition person_birthDate :: "Person \<Rightarrow> PersonImpl list \<Rightarrow> string res" where
  "person_birthDate p heap = bind_res (rd heap (pImpl p)) (\<lambda>i. Inr (theBirthDate i))"

definition person_address :: "Person \<Rightarrow> PersonImpl list \<Rightarrow> string res" where
  "person_address p heap = bind_res (rd heap (pImpl p)) (\<lambda>i. Inr (theAddress i))"

text \<open>What is printed, line by line.\<close>

definition showInfo :: "Person \<Rightarrow> PersonImpl list \<Rightarrow> string list res" where
  "showInfo p heap =
     bind_res (person_name p heap) (\<lambda>nm.
     bind_res (person_birthDate p heap) (\<lambda>b.
     bind_res (person_address p heap) (\<lambda>a.
     Inr [''---Person Info---'', ''Name: '' @ nm, ''Birthday: '' @ b, ''Address: '' @ a,
          ''---The End-------''])))"

definition person_main :: "string list res" where
  "person_main =
     (let (p, heap) = new_Person ''test'' ''10/09/2010'' ''NewYork'' [] in showInfo p heap)"

text \<open>An object keeps its data when further ones are created.\<close>

lemma person_kept:
  assumes "new_Person nm birthday addr heap = (p, heap')"
  shows "person_name p (heap' @ others) = Inr nm \<and> person_birthDate p (heap' @ others) = Inr birthday \<and>
    person_address p (heap' @ others) = Inr addr"
proof -
  have "rd (heap' @ others) (pImpl p) = Inr (new_PersonImpl nm birthday addr)"
    using assms by (auto simp: new_Person_def rd_def nth_append)
  then show ?thesis
    by (simp add: person_name_def person_birthDate_def person_address_def new_PersonImpl_def)
qed

lemma person_main_output:
  "person_main = Inr [''---Person Info---'', ''Name: test'', ''Birthday: 10/09/2010'', ''Address: NewYork'',
     ''---The End-------'']"
  by code_simp

end
