(* ===== verification/Spec2Isabelle.thy ===== *)
theory Spec2Isabelle
  imports UdpLink H264decRun HttpStreamer PlayerRun SendLink SendStream SendSockets SdpMemory JrtpRun JrtpHashSpec JrtpSdesRun JrtpReport JrtpPacket RtcpDelay Person
begin

text \<open>
  A verification library for the streaming programs of this repository.

  \<^bold>\<open>The programs.\<close>  The repository holds seven small programs around H.264 video over RTP, which
  share formats rather than code.  Two servers cut a file in the Annex B byte stream format into NAL
  units and send them as RTP packets: \<^verbatim>\<open>h264RtpSend/RTP-Server\<close> and \<^verbatim>\<open>udp_h264/Server.c\<close>; a third
  sender, in C++, is \<^verbatim>\<open>h264Send\<close>.  Three receivers write the units of RTP packets to a file or a
  pipe: \<^verbatim>\<open>udp_h264/Client.c\<close>, the player of \<^verbatim>\<open>rtsp_client\<close>, which sets up its session over RTSP and
  gets the packets over UDP, and \<^verbatim>\<open>h264dec\<close>, an RTSP client whose packets are interleaved with the
  answers on one TCP connection, with RTCP, a Base64 decoder for the parameter sets, a streamer that
  passes the video on to local clients and a small web service.  \<^verbatim>\<open>jrtplib_send_recv_h264\<close> has a
  sender and a receiver on top of the library jrtplib, with the headers of that library.
  \<^verbatim>\<open>cpp_interface\<close> is an example of a class behind a pointer to its implementation.

  \<^bold>\<open>Shared theories.\<close>
    \<^item> \<open>Prelude\<close>: machine words, faults (a value for each undefined behaviour: reads and writes
      outside an array, null and dangling pointers, overflow and so on), arrays, network byte order,
      and the collections \<open>run_simps\<close> and \<open>wire_simps\<close>.
    \<^item> \<open>CString\<close>: C strings and the functions of the C library that the sources use on them.
    \<^item> \<open>AnnexB\<close>: the byte stream format, and the locale \<open>startcode_search\<close>: what a search for the next
      start code promises, and that a splitter on top of it finds the units of a well-formed stream.
    \<^item> \<open>RtpPayload\<close>: the payload format of RFC 6184 as relations on packets (\<open>nal_pkts\<close>, \<open>fu_pkts\<close>,
      \<open>stream_pkts\<close>), and the locales \<open>fu_depacketizer\<close> and its extension \<open>nal_depacketizer\<close>: what a
      receiver promises for one packet, and what follows for streams of them.
    \<^item> \<open>Double\<close>: the arithmetic of \<^verbatim>\<open>double\<close>, as rational numbers with one rounding per operation, and
      what rounding does: it is monotone, exact where the result is a double, and near otherwise.
    \<^item> \<open>Links\<close>: doubly linked lists in a heap; the locale \<open>dlinks\<close> is what a pair of link fields has to
      satisfy.
  The locales are interpreted on the models of the code: \<open>avc\<close> in \<open>AVC\<close>; \<open>client\<close> in \<open>UdpClient\<close>,
  \<open>player\<close> in \<open>PlayerRun\<close> and \<open>h264dec\<close> in \<open>RtpRecv\<close>; \<open>bucket_links\<close> and \<open>list_links\<close> in \<open>Links\<close>.

  \<^bold>\<open>RTP-Server\<close> (\<^verbatim>\<open>h264RtpSend/RTP-Server\<close>).  \<open>AVC\<close> models \<^verbatim>\<open>AVC.c\<close> (the search by words of four bytes
  with its test for a zero byte, for every alignment), \<open>Utils\<close> models \<^verbatim>\<open>Utils.c\<close>, \<open>UdpNet\<close> models
  \<^verbatim>\<open>Network.c\<close> (the network is the list of datagrams that were sent), \<open>RTPEnc\<close> models \<^verbatim>\<open>RTPEnc.c\<close>: the
  record \<open>RTPMuxContext\<close> has the fields of the C structure, \<^verbatim>\<open>buf_ptr\<close> being an offset.  \<open>RTPEnc_Stream\<close>
  states the abstract multiplexer, whose state is the list of pending units, and that the packetizer
  refines it; \<open>RTPEnc_Receive\<close> takes the packets apart again; \<open>RtpServer\<close> has \<^verbatim>\<open>main.c\<close> and the
  properties: the search equals a plain scan, the walk ends on any bytes, the whole program delivers
  the units of a well-formed file, packets are numbered and at most 1412 bytes long, the packetizer
  is memory safe without aggregation, and the sizes for which aggregation leaves its buffer.

  \<^bold>\<open>udp_h264.\<close>  \<open>UdpHeaders\<close> is \<^verbatim>\<open>h264.h\<close> (bit fields as records with their bytes), \<open>UdpFrames\<close> and
  \<open>UdpServer\<close> are \<^verbatim>\<open>Server.c\<close> (the file with its position and end-of-file flag, the frame buffer, the
  counters), \<open>UdpClient\<close> is \<^verbatim>\<open>Client.c\<close>.  \<open>UdpLink\<close> puts server and client together, and the other
  server with this client: from a file to the same units in a file.

  \<^bold>\<open>h264dec.\<close>  \<open>Base64\<close>, \<open>Streamer\<close> (\<^verbatim>\<open>network.c\<close>, \<^verbatim>\<open>streamer.c\<close>), \<open>RtpRecv\<close> (\<^verbatim>\<open>rtp.c\<close>), \<open>Rtcp\<close> and
  \<open>RtcpDelay\<close> (\<^verbatim>\<open>rtcp.c\<close>, and that the delay in its reports is right),
  \<open>Rtsp\<close> (the commands of \<^verbatim>\<open>rtsp.c\<close>), \<open>RtspLoop\<close> (\<^verbatim>\<open>rtsp_loop\<close> and \<^verbatim>\<open>h264dec.c\<close>), \<open>HttpStreamer\<close>
  (\<^verbatim>\<open>http\<close>).  A connection is the list of the pieces that the \<^verbatim>\<open>recv\<close> calls will find together with
  what was sent.  \<open>RtspDemux\<close> shows that interleaved packets reach the pipe however the connection
  cuts the bytes between frames, \<open>H264decRun\<close> the whole session from the command line to the pipe,
  and that each round, whatever the server sends, stores what arrives inside the receive buffer and
  loses nothing of it, with the one case in which the program takes a full buffer for the end.

  \<^bold>\<open>rtsp_client.\<close>  \<open>Sdp\<close> is the parser and the printer of \<^verbatim>\<open>sdp.c\<close>, \<open>SdpMemory\<close> its memory,
  \<open>SdpRoundtrip\<close> the proof that the parser reads back what the printer writes; \<open>RtspPlayer\<close> is
  \<^verbatim>\<open>RtspPlayer.cpp\<close>, a state machine around \<^verbatim>\<open>select\<close> given as a function from what a turn receives,
  and \<open>PlayerRun\<close> its session.

  \<^bold>\<open>h264Send.\<close>  \<open>H264Send\<close> is the parser and the packetizer, \<open>H264SendRun\<close> what they send, \<open>SendStream\<close>
  the class around them with its session description (which the parser of \<^verbatim>\<open>rtsp_client\<close> reads only
  behind a description's first lines), random numbers and files, \<open>SendSockets\<close> the socket classes over a table of
  open descriptors, with a step relation \<open>sock_step\<close>, its reachable states and their invariant.
  \<open>SendLink\<close> connects the sender with the player of \<^verbatim>\<open>rtsp_client\<close>.

  \<^bold>\<open>jrtplib.\<close>  \<open>Jrtp\<close> and \<open>JrtpRun\<close> are sender and receiver; the library is a parameter of them.  Of
  the headers, those are modelled that hold code: \<open>JrtpHash\<close> has the two hash tables, whose elements
  are cells of a heap with four links each, \<open>JrtpHashRun\<close> their invariant and \<open>JrtpHashSpec\<close> the
  proof that any sequence of operations gives what it gives on a list of keys; \<open>JrtpSdes\<close> and
  \<open>JrtpSdesRun\<close> have the cursor over source descriptions and the sizes of the builder, \<open>JrtpReport\<close>
  the fields of the other RTCP packets.  \<open>JrtpTime\<close> has the times, which are floating-point
  numbers, and the waiting for sockets: a time keeps its microseconds until the year 2242, and its NTP
  timestamp from then on loses about two of them.  \<open>JrtpSource\<close> and \<open>JrtpSourceRun\<close> have the entries of the
  source table: what they say of a participant, and that they own their objects, each exactly once.
  \<open>JrtpPacket\<close> has addresses, raw packets and the settings of the packet builder.  \<open>Person\<close> is \<^verbatim>\<open>cpp_interface\<close>.

  \<^bold>\<open>Reading the models.\<close>  A C function becomes a function of the same name; its result is a value of
  \<open>'a res\<close>, either a fault or what the function leaves: the changed state and the value it returns.
  So a statement that a result is \<open>Inr\<close> says that nothing undefined happened on the way.  Integers
  have the width of the code wherever it matters.  What the operating system answers (system calls,
  files, clocks, allocations) is a parameter, usually a record of functions or a list of the answers
  to come; hypotheses on it are those of its documentation, for example that an allocator gives out
  no address in use, and each property with hypotheses has a theorem that applies it to concrete
  data.

  \<^bold>\<open>Sizes and bounds.\<close>  The arrays have the sizes of the sources: 1500 bytes for datagrams of
  \<^verbatim>\<open>udp_h264\<close>, 2048 for the player, 4096 for RTSP messages, 102400 for the programs on jrtplib,
  150000 for \<^verbatim>\<open>h264Send\<close>, 1000000 for the receive buffer of \<^verbatim>\<open>h264dec\<close>.  Packets carry 1400 bytes
  (1300 with jrtplib).  Loops are recursive functions that end: over a file because every step reads,
  over fragments because the rest gets shorter, over a buffer because the offset grows.  Where the C
  loop waits for ever, as those of the two RTSP clients do, the model runs it as many times as there
  are pieces to receive (\<open>demux_rounds\<close>, \<open>play_thread\<close>), so that the number of rounds is part of a
  statement and not a bound on it.  The loops of the hash tables follow pointers and could go round
  in circles; they are partial functions, and that they return is part of what is proved.

  \<^bold>\<open>Not modelled.\<close>  Printing, logging and waiting, with the functions that only do that
  (\<^verbatim>\<open>rtp_stats_print\<close>, \<^verbatim>\<open>str_error\<close>, \<^verbatim>\<open>print_time\<close>, \<^verbatim>\<open>show_buf\<close>, the dumps); the
  thread \<^verbatim>\<open>rtcp_worker\<close>, which returns at once; infinities and NaN; the code for Windows; setting
  up the session of jrtplib in the two programs on it; the declarations of jrtplib whose code is in
  sources that the repository does not have; the programs that CMake generates to identify the compilers.
\<close>

end
